(* ===== verification/WT_Prelude.thy ===== *)
theory WT_Prelude
  imports Main "HOL-Library.Word" "HOL-Library.Multiset" "HOL-Library.AList"
begin

unbundle bit_operations_syntax

text \<open>
  Shared ground of the development: the machine types of the Go code, byte strings, the
  little-endian integer encoding of \<^verbatim>\<open>encoding/binary\<close>, Go strings as byte
  sequences, decimal printing and parsing (\<^verbatim>\<open>fmt.Sprintf("%06d")\<close>,
  \<^verbatim>\<open>strconv.ParseUint\<close>, \<^verbatim>\<open>strconv.Itoa\<close>), the prefix and suffix
  helpers of package \<^verbatim>\<open>strings\<close>, directories as association lists, and the
  schedule of input/output failures that the stateful operations consume.
\<close>

section \<open>Machine types\<close>

type_synonym byte = "8 word"
type_synonym bytes = "byte list"
type_synonym u16 = "16 word"
type_synonym u32 = "32 word"
type_synonym u64 = "64 word"

text \<open>Go's \<open>int32\<close> and \<open>int64\<close> are the same words, read with \<open>sint\<close>.\<close>

type_synonym i32 = "32 word"
type_synonym i64 = "64 word"

text \<open>A \<open>float64\<close> is kept as its IEEE 754 bit pattern (\<^verbatim>\<open>math.Float64bits\<close>).\<close>

type_synonym f64 = "64 word"

named_theorems wt_simps \<open>rewrite rules shared by the component proofs\<close>
named_theorems length_simps \<open>lengths of encodings\<close>
named_theorems codec_simps \<open>decode-after-encode facts\<close>

section \<open>Little-endian integers\<close>

text \<open>\<^verbatim>\<open>binary.LittleEndian.PutUintN\<close>: the \<open>n\<close> low-order bytes, lowest first.\<close>

fun le_put :: "nat \<Rightarrow> 'a::len word \<Rightarrow> bytes" where
  "le_put 0 w = []"
| "le_put (Suc n) w = ucast w # le_put n (drop_bit 8 w)"

text \<open>\<^verbatim>\<open>binary.LittleEndian.UintN\<close>: \<open>b[0] | b[1] << 8 | ...\<close>.\<close>

fun le_get :: "bytes \<Rightarrow> 'a::len word" where
  "le_get [] = 0"
| "le_get (b # bs) = ucast b OR push_bit 8 (le_get bs)"

definition put_u16 :: "u16 \<Rightarrow> bytes" where "put_u16 w = le_put 2 w"
definition put_u32 :: "u32 \<Rightarrow> bytes" where "put_u32 w = le_put 4 w"
definition put_u64 :: "u64 \<Rightarrow> bytes" where "put_u64 w = le_put 8 w"

definition get_u16 :: "bytes \<Rightarrow> u16" where "get_u16 bs = le_get bs"
definition get_u32 :: "bytes \<Rightarrow> u32" where "get_u32 bs = le_get bs"
definition get_u64 :: "bytes \<Rightarrow> u64" where "get_u64 bs = le_get bs"

lemma length_le_put [simp]: "length (le_put n w) = n"
  by (induction n arbitrary: w) auto

lemma le_get_le_put: "(le_get (le_put n w) :: 'a::len word) = take_bit (8 * n) (w :: 'a word)"
proof (induction n arbitrary: w)
  case 0
  then show ?case by simp
next
  case (Suc n)
  show ?case
  proof (rule bit_word_eqI)
    fix i assume i: "i < LENGTH('a)"
    show "bit (le_get (le_put (Suc n) w) :: 'a word) i = bit (take_bit (8 * Suc n) w) i"
      using i Suc by (auto simp: bit_or_iff bit_ucast_iff bit_push_bit_iff bit_take_bit_iff
          bit_drop_bit_eq le_add_diff_inverse)
  qed
qed

lemma le_get_less: "8 * length bs \<le> LENGTH('a) \<Longrightarrow> bit (le_get bs :: 'a::len word) i \<Longrightarrow> i < 8 * length bs"
proof (induction bs arbitrary: i)
  case Nil
  then show ?case by simp
next
  case (Cons b bs)
  from Cons.prems(2) consider "bit b i" | "8 \<le> i" "bit (le_get bs :: 'a word) (i - 8)"
    by (auto simp: bit_or_iff bit_ucast_iff bit_push_bit_iff)
  then show ?case
  proof cases
    case 1
    then show ?thesis using bit_imp_le_length [of b i] by simp
  next
    case 2
    with Cons show ?thesis by fastforce
  qed
qed

lemma le_get_drop:
  assumes "8 * length bs + 8 \<le> LENGTH('a)"
  shows "drop_bit 8 (le_get (b # bs)) = (le_get bs :: 'a::len word)"
proof (rule bit_word_eqI)
  fix i assume i: "i < LENGTH('a)"
  have b: "bit (le_get bs :: 'a word) i \<Longrightarrow> i < 8 * length bs"
    using assms by (intro le_get_less) auto
  show "bit (drop_bit 8 (le_get (b # bs) :: 'a word)) i = bit (le_get bs :: 'a word) i"
    using i b assms
    by (auto simp: bit_drop_bit_eq bit_or_iff bit_ucast_iff bit_push_bit_iff
        dest: bit_imp_le_length)
qed

lemma le_put_le_get: "8 * length bs \<le> LENGTH('a) \<Longrightarrow> le_put (length bs) (le_get bs :: 'a::len word) = bs"
proof (induction bs)
  case Nil
  then show ?case by simp
next
  case (Cons b bs)
  have lo: "ucast (ucast b OR push_bit 8 (le_get bs :: 'a word)) = b"
  proof (rule bit_word_eqI)
    fix i assume "i < LENGTH(8)"
    then show "bit (ucast (ucast b OR push_bit 8 (le_get bs :: 'a word)) :: byte) i = bit b i"
      using Cons.prems by (auto simp: bit_or_iff bit_ucast_iff bit_push_bit_iff)
  qed
  have "drop_bit 8 (le_get (b # bs)) = (le_get bs :: 'a word)"
    using Cons.prems by (intro le_get_drop) simp
  with Cons lo show ?case by simp
qed

lemma unat_ucast_u8: "unat (ucast (d :: byte) :: u32) = unat d"
proof -
  have "unat d < 2 ^ 32"
    using unsigned_less [of d, where 'a = nat] by (rule less_le_trans) simp
  then show ?thesis by (simp add: unsigned_ucast_eq take_bit_nat_eq_self)
qed

lemma unat_ucast_u32: "unat (ucast (d :: u32) :: u64) = unat d"
proof -
  have "unat d < 2 ^ 64"
    using unsigned_less [of d, where 'a = nat] by (rule less_le_trans) simp
  then show ?thesis by (simp add: unsigned_ucast_eq take_bit_nat_eq_self)
qed

text \<open>The most significant of four bytes bounds the value from below.\<close>

lemma get_u32_top: "2 ^ 24 * unat d \<le> unat (get_u32 [a, b, c, d])"
proof -
  have "drop_bit 8 (le_get [a, b, c, d] :: u32) = le_get [b, c, d]" by (rule le_get_drop) simp
  moreover have "drop_bit 8 (le_get [b, c, d] :: u32) = le_get [c, d]" by (rule le_get_drop) simp
  moreover have "drop_bit 8 (le_get [c, d] :: u32) = le_get [d]" by (rule le_get_drop) simp
  ultimately have "drop_bit 8 (drop_bit 8 (drop_bit 8 (le_get [a, b, c, d] :: u32))) = le_get [d]"
    by (simp only:)
  moreover have "drop_bit 8 (drop_bit 8 (drop_bit 8 (x :: u32))) = drop_bit 24 x" for x
    by (simp only: drop_bit_drop_bit) simp
  ultimately have "drop_bit 24 (get_u32 [a, b, c, d]) = ucast d" by (simp add: get_u32_def)
  then have "unat (get_u32 [a, b, c, d]) div 2 ^ 24 = unat (ucast d :: u32)"
    by (metis unat_drop_bit_eq drop_bit_eq_div)
  moreover have "unat (ucast d :: u32) = unat d" by (rule unat_ucast_u8)
  ultimately show ?thesis by (metis div_times_less_eq_dividend mult.commute)
qed

lemma length_put [simp, length_simps]:
  "length (put_u16 a) = 2" "length (put_u32 b) = 4" "length (put_u64 c) = 8"
  by (simp_all add: put_u16_def put_u32_def put_u64_def)

lemma get_put [simp, codec_simps]:
  "get_u16 (put_u16 a) = a" "get_u32 (put_u32 b) = b" "get_u64 (put_u64 c) = c"
  by (simp_all add: put_u16_def put_u32_def put_u64_def get_u16_def get_u32_def get_u64_def
      le_get_le_put take_bit_word_eq_self)

lemma put_get:
  "length bs = 2 \<Longrightarrow> put_u16 (get_u16 bs) = bs"
  "length bs = 4 \<Longrightarrow> put_u32 (get_u32 bs) = bs"
  "length bs = 8 \<Longrightarrow> put_u64 (get_u64 bs) = bs"
  using le_put_le_get [of bs, where 'a = 16] le_put_le_get [of bs, where 'a = 32]
    le_put_le_get [of bs, where 'a = 64]
  by (auto simp: put_u16_def put_u32_def put_u64_def get_u16_def get_u32_def get_u64_def)


section \<open>Go strings\<close>

text \<open>A Go string is a sequence of bytes; \<open>string\<close> (a list of 8-bit characters) is that sequence.\<close>

definition byte_of_char :: "char \<Rightarrow> byte" where
  "byte_of_char c = word_of_nat (of_char c)"

definition char_of_byte :: "byte \<Rightarrow> char" where
  "char_of_byte b = char_of (unat b)"

definition bytes_of :: "string \<Rightarrow> bytes" where
  "bytes_of s = map byte_of_char s"

definition string_of :: "bytes \<Rightarrow> string" where
  "string_of bs = map char_of_byte bs"

lemma char_of_byte_of_char [simp]: "char_of_byte (byte_of_char c) = c"
proof -
  have "unat (byte_of_char c) = of_char c mod 256"
    by (simp only: byte_of_char_def unat_of_nat) simp
  then have "unat (byte_of_char c) = of_char c" by (simp only: of_char_mod_256)
  then show ?thesis by (simp only: char_of_byte_def char_of_char)
qed

lemma byte_of_char_of_byte [simp]: "byte_of_char (char_of_byte b) = b"
proof -
  have "unat b < 256" using unsigned_less [of b, where 'a = nat] by simp
  then show ?thesis by (simp add: char_of_byte_def byte_of_char_def)
qed

lemma string_of_bytes_of [simp]: "string_of (bytes_of s) = s"
  by (simp add: string_of_def bytes_of_def comp_def)

lemma bytes_of_string_of [simp]: "bytes_of (string_of bs) = bs"
  by (simp add: string_of_def bytes_of_def comp_def)

lemma length_bytes_of [simp, length_simps]: "length (bytes_of s) = length s"
  by (simp add: bytes_of_def)

lemma length_string_of [simp, length_simps]: "length (string_of bs) = length bs"
  by (simp add: string_of_def)

lemma bytes_of_inject [simp]: "bytes_of s = bytes_of t \<longleftrightarrow> s = t"
  by (metis string_of_bytes_of)

lemma bytes_of_append [simp]: "bytes_of (s @ t) = bytes_of s @ bytes_of t"
  by (simp add: bytes_of_def)

text \<open>\<^verbatim>\<open>strings.HasPrefix\<close>, \<^verbatim>\<open>HasSuffix\<close>, \<^verbatim>\<open>TrimPrefix\<close> and \<^verbatim>\<open>TrimSuffix\<close>.\<close>

definition has_prefix :: "string \<Rightarrow> string \<Rightarrow> bool" where
  "has_prefix s p \<longleftrightarrow> length p \<le> length s \<and> take (length p) s = p"

definition has_suffix :: "string \<Rightarrow> string \<Rightarrow> bool" where
  "has_suffix s p \<longleftrightarrow> length p \<le> length s \<and> drop (length s - length p) s = p"

definition trim_prefix :: "string \<Rightarrow> string \<Rightarrow> string" where
  "trim_prefix s p = (if has_prefix s p then drop (length p) s else s)"

definition trim_suffix :: "string \<Rightarrow> string \<Rightarrow> string" where
  "trim_suffix s p = (if has_suffix s p then take (length s - length p) s else s)"

lemma has_prefix_append [simp]: "has_prefix (p @ s) p"
  by (simp add: has_prefix_def)

lemma has_suffix_append [simp]: "has_suffix (s @ p) p"
  by (simp add: has_suffix_def)

lemma has_suffix_append3 [simp]: "has_suffix (s @ t @ p) p"
  using has_suffix_append [of "s @ t" p] by simp

lemma trim_prefix_append [simp]: "trim_prefix (p @ s) p = s"
  by (simp add: trim_prefix_def)

lemma trim_suffix_append [simp]: "trim_suffix (s @ p) p = s"
  by (simp add: trim_suffix_def)

lemma has_prefix_iff: "has_prefix s p \<longleftrightarrow> (\<exists>t. s = p @ t)"
  by (metis append_take_drop_id has_prefix_append has_prefix_def)

section \<open>Decimal numbers\<close>

definition digit_char :: "nat \<Rightarrow> char" where
  "digit_char d = char_of (48 + d)"

definition digit_val :: "char \<Rightarrow> nat option" where
  "digit_val c = (let n = of_char c in if 48 \<le> n \<and> n \<le> 57 then Some (n - 48) else None)"

fun decimal :: "nat \<Rightarrow> string" where
  "decimal n = (if n < 10 then [digit_char n] else decimal (n div 10) @ [digit_char (n mod 10)])"

declare decimal.simps [simp del]

text \<open>\<^verbatim>\<open>fmt.Sprintf("%06d", n)\<close>: zero padded to six places, longer numbers in full.\<close>

definition pad6 :: "nat \<Rightarrow> string" where
  "pad6 n = replicate (6 - length (decimal n)) (digit_char 0) @ decimal n"

fun parse_digits :: "string \<Rightarrow> nat \<Rightarrow> nat option" where
  "parse_digits [] acc = Some acc"
| "parse_digits (c # cs) acc =
     (case digit_val c of None \<Rightarrow> None | Some d \<Rightarrow> parse_digits cs (10 * acc + d))"

text \<open>
  \<^verbatim>\<open>strconv.ParseUint(s, 10, 64)\<close>: an empty string, a character that is not a digit and
  a value of \<open>2 ^ 64\<close> or more are errors.
\<close>

definition parse_uint :: "string \<Rightarrow> u64 option" where
  "parse_uint s = (if s = [] then None else
     (case parse_digits s 0 of None \<Rightarrow> None
      | Some n \<Rightarrow> if n < 2 ^ 64 then Some (word_of_nat n) else None))"

lemma digit_val_digit_char [simp]: "d < 10 \<Longrightarrow> digit_val (digit_char d) = Some d"
  by (simp add: digit_val_def digit_char_def)

lemma parse_digits_append:
  "parse_digits (xs @ ys) a = (case parse_digits xs a of None \<Rightarrow> None | Some b \<Rightarrow> parse_digits ys b)"
  by (induction xs arbitrary: a) (auto split: option.splits)

lemma parse_digits_zeros [simp]: "parse_digits (replicate k (digit_char 0) @ s) 0 = parse_digits s 0"
  by (induction k) auto

lemma parse_digits_decimal: "parse_digits (decimal n) 0 = Some n"
proof (induction n rule: decimal.induct)
  case (1 n)
  show ?case
  proof (cases "n < 10")
    case True
    then show ?thesis by (subst decimal.simps) simp
  next
    case False
    with 1 have "parse_digits (decimal (n div 10)) 0 = Some (n div 10)" by simp
    with False show ?thesis by (subst decimal.simps) (simp add: parse_digits_append)
  qed
qed

lemma decimal_nonempty [simp]: "decimal n \<noteq> []"
  by (subst decimal.simps) simp

lemma pad6_nonempty [simp]: "pad6 n \<noteq> []"
  by (simp add: pad6_def)

lemma parse_uint_pad6 [simp]: "n < 2 ^ 64 \<Longrightarrow> parse_uint (pad6 n) = Some (word_of_nat n)"
  unfolding parse_uint_def pad6_def parse_digits_zeros parse_digits_decimal by simp

lemma parse_uint_pad6_unat [simp]: "parse_uint (pad6 (unat (w :: u64))) = Some w"
  using parse_uint_pad6 [of "unat w"] unsigned_less [of w, where 'a = nat] by simp

lemma pad6_inject [simp]: "pad6 (unat (v :: u64)) = pad6 (unat w) \<longleftrightarrow> v = w"
  by (metis parse_uint_pad6_unat option.inject)

section \<open>Directories\<close>

text \<open>
  A directory is the list of its regular files, name and contents, each name once. What the
  code reads from subdirectories it skips, so they are not kept.
\<close>

type_synonym dir = "(string \<times> bytes) list"

abbreviation dir_get :: "dir \<Rightarrow> string \<Rightarrow> bytes option" where
  "dir_get d name \<equiv> map_of d name"

abbreviation dir_put :: "string \<Rightarrow> bytes \<Rightarrow> dir \<Rightarrow> dir" where
  "dir_put name data d \<equiv> AList.update name data d"

abbreviation dir_del :: "string \<Rightarrow> dir \<Rightarrow> dir" where
  "dir_del name d \<equiv> AList.delete name d"

definition dir_ok :: "dir \<Rightarrow> bool" where
  "dir_ok d \<longleftrightarrow> distinct (map fst d)"

lemma dir_get_put [simp]: "dir_get (dir_put n b d) m = (if m = n then Some b else dir_get d m)"
  by (simp add: update_conv')

lemma dir_get_del [simp]: "dir_get (dir_del n d) m = (if m = n then None else dir_get d m)"
  by (simp add: delete_conv')

lemma dir_ok_put [simp]: "dir_ok d \<Longrightarrow> dir_ok (dir_put n b d)"
  by (simp add: dir_ok_def distinct_update)

lemma dir_ok_del [simp]: "dir_ok d \<Longrightarrow> dir_ok (dir_del n d)"
  by (simp add: dir_ok_def distinct_delete)

lemma dir_get_iff: "dir_ok d \<Longrightarrow> dir_get d n = Some b \<longleftrightarrow> (n, b) \<in> set d"
  by (simp add: dir_ok_def)

lemma ball_dir: "dir_ok d \<Longrightarrow> (\<forall>x \<in> set d. P x) \<longleftrightarrow> (\<forall>n b. dir_get d n = Some b \<longrightarrow> P (n, b))"
  by (auto simp: dir_get_iff)

section \<open>Results, state passing and input/output failures\<close>

text \<open>
  Every call into the operating system can fail. The failures of a run are a schedule, one
  entry per call: \<open>None\<close> lets the call succeed, \<open>Some n\<close> makes it fail (a write
  first stores \<open>n\<close> bytes of its argument). An exhausted schedule means success, and a theorem that
  quantifies over the state quantifies over every schedule.
\<close>

type_synonym tape = "nat option list"

fun next_fault :: "tape \<Rightarrow> nat option \<times> tape" where
  "next_fault [] = (None, [])"
| "next_fault (f # fs) = (f, fs)"

text \<open>The early return of \<^verbatim>\<open>if err != nil { return err }\<close>, with the state as it was left.\<close>

definition rbind :: "('e + 'a) \<times> 's \<Rightarrow> ('a \<Rightarrow> 's \<Rightarrow> ('e + 'b) \<times> 's) \<Rightarrow> ('e + 'b) \<times> 's" where
  "rbind r f = (case r of (Inl e, s) \<Rightarrow> (Inl e, s) | (Inr a, s) \<Rightarrow> f a s)"

lemma rbind_simps [simp]:
  "rbind (Inl e, s) f = (Inl e, s)"
  "rbind (Inr a, s) f = f a s"
  by (simp_all add: rbind_def)

lemma rbind_Inr_iff:
  "rbind r f = (Inr b, s') \<longleftrightarrow> (\<exists>a s. r = (Inr a, s) \<and> f a s = (Inr b, s'))"
  by (cases r) (auto simp: rbind_def split: sum.splits)

section \<open>Lists\<close>

lemma take_append_exact [simp]: "length xs = n \<Longrightarrow> take n (xs @ ys) = xs"
  by simp

lemma drop_append_exact [simp]: "length xs = n \<Longrightarrow> drop n (xs @ ys) = ys"
  by simp

lemma word_less_inc: "(i :: 'a::len word) \<noteq> - 1 \<Longrightarrow> i < i + 1"
proof -
  assume "i \<noteq> - 1"
  then have "1 + i \<noteq> 0" by (metis add.commute add_eq_0_iff)
  then have "unat (1 + i) = Suc (unat i)" by (rule unatSuc)
  then show "i < i + 1" by (simp add: word_less_nat_alt add.commute)
qed

lemma u32_of_nat: "n < 2 ^ 32 \<Longrightarrow> unat (word_of_nat n :: u32) = n"
  by (simp add: unat_of_nat)

lemma u64_of_nat: "n < 2 ^ 64 \<Longrightarrow> unat (word_of_nat n :: u64) = n"
  by (simp add: unat_of_nat)

lemma sint_small:
  assumes "unat (x :: u64) < 2 ^ 63"
  shows "sint x = int (unat x)"
proof -
  have "int (unat x) < int (2 ^ 63)" using assms by (simp only: of_nat_less_iff)
  then have "uint x < 2 ^ 63" by simp
  moreover have "- (2 ^ 63) \<le> uint x" using uint_ge_0 [of x] by (rule order.trans [rotated]) simp
  ultimately have "signed_take_bit 63 (uint x) = uint x" by (intro signed_take_bit_int_eq_self)
  then have "sint x = uint x" by (simp only: sint_uint) simp
  then show ?thesis by simp
qed

lemma u64_not_max: "unat (x :: u64) + 1 < 2 ^ 64 \<Longrightarrow> x \<noteq> - 1"
proof
  assume "x = - 1" "unat x + 1 < 2 ^ 64"
  moreover have "unat (- 1 :: u64) = 2 ^ 64 - 1" by (simp add: unsigned_minus_1_eq_mask mask_eq_exp_minus_1)
  ultimately show False by simp
qed

lemma sorted_last_ge: "sorted xs \<Longrightarrow> x \<in> set xs \<Longrightarrow> x \<le> last xs"
  by (cases xs rule: rev_cases) (auto simp: sorted_append)

lemma sorted_map_unat: "sorted (xs :: 'a::len word list) \<longleftrightarrow> sorted (map unat xs)"
  by (simp add: sorted_map word_le_nat_alt [abs_def])

end
