(* ===== verification/Crc32.thy ===== *)
theory Crc32
  imports WT_Prelude
begin

text \<open>
  The checksum of every on-disk record: \<^verbatim>\<open>crc32.ChecksumIEEE\<close> of Go's standard
  library, bit by bit (reflected polynomial \<open>0xEDB88320\<close>), and the fact the formats rely
  on: two byte strings of the same length that differ in one byte have different checksums.
\<close>

definition crc_poly :: u32 where
  "crc_poly = 0xEDB88320"

definition crc_shift :: "u32 \<Rightarrow> u32" where
  "crc_shift c = (if bit c 0 then drop_bit 1 c XOR crc_poly else drop_bit 1 c)"

definition crc_byte :: "byte \<Rightarrow> u32 \<Rightarrow> u32" where
  "crc_byte b c = (crc_shift ^^ 8) (c XOR ucast b)"

definition crc32 :: "bytes \<Rightarrow> u32" where
  "crc32 bs = NOT (fold crc_byte bs (NOT 0))"

lemma crc_byte_code [code]:
  "crc_byte b c =
     crc_shift (crc_shift (crc_shift (crc_shift (crc_shift (crc_shift (crc_shift (crc_shift (c XOR ucast b))))))))"
  by (simp add: crc_byte_def numeral_eq_Suc)

lemma word_xor_cancel: "(a :: 'a::len word) XOR c = b XOR c \<longleftrightarrow> a = b"
proof
  assume "a XOR c = b XOR c"
  then have "(a XOR c) XOR c = (b XOR c) XOR c" by (rule arg_cong)
  then show "a = b" by (simp add: xor.assoc)
qed simp

text \<open>The top bit of the polynomial is set, so a shift can be undone.\<close>

lemma crc_poly_top: "bit crc_poly 31"
  by (simp add: crc_poly_def bit_numeral_rec)

lemma crc_shift_top: "bit (crc_shift c) 31 = bit c 0"
  by (auto simp: crc_shift_def bit_xor_iff bit_drop_bit_eq crc_poly_top dest: bit_imp_le_length)

lemma crc_shift_inj: "crc_shift c = crc_shift d \<Longrightarrow> c = d"
proof -
  assume eq: "crc_shift c = crc_shift d"
  then have b0: "bit c 0 = bit d 0" using crc_shift_top by metis
  with eq have "drop_bit 1 c = drop_bit 1 d"
    by (auto simp: crc_shift_def word_xor_cancel split: if_splits)
  then have hi: "bit c (Suc i) = bit d (Suc i)" for i
    by (metis bit_drop_bit_eq comp_apply plus_1_eq_Suc)
  show "c = d"
  proof (rule bit_word_eqI)
    fix i show "bit c i = bit d i" using b0 hi by (cases i) auto
  qed
qed

lemma crc_shift_funpow_inj: "(crc_shift ^^ n) c = (crc_shift ^^ n) d \<Longrightarrow> c = d"
  by (induction n) (auto dest: crc_shift_inj)

lemma crc_byte_inj_state: "crc_byte b c = crc_byte b d \<Longrightarrow> c = d"
  unfolding crc_byte_def by (drule crc_shift_funpow_inj) (simp only: word_xor_cancel)

lemma crc_byte_inj_byte: "crc_byte a c = crc_byte b c \<Longrightarrow> a = b"
proof -
  assume "crc_byte a c = crc_byte b c"
  then have "c XOR ucast a = c XOR ucast b" unfolding crc_byte_def by (rule crc_shift_funpow_inj)
  then have "ucast a XOR c = ucast b XOR c" by (simp only: xor.commute)
  then have "(ucast a :: u32) = ucast b" by (simp only: word_xor_cancel)
  then have eq: "bit (ucast a :: u32) i = bit (ucast b :: u32) i" for i by simp
  show "a = b"
  proof (rule bit_word_eqI)
    fix i assume "i < LENGTH(8)"
    then show "bit a i = bit b i" using eq [of i] by (simp add: bit_ucast_iff)
  qed
qed

lemma fold_crc_inj: "fold crc_byte bs c = fold crc_byte bs d \<Longrightarrow> c = d"
  by (induction bs arbitrary: c d) (auto dest: crc_byte_inj_state)

lemma crc32_single_byte:
  assumes "a \<noteq> b"
  shows "crc32 (xs @ a # ys) \<noteq> crc32 (xs @ b # ys)"
proof
  assume "crc32 (xs @ a # ys) = crc32 (xs @ b # ys)"
  then have "fold crc_byte ys (crc_byte a (fold crc_byte xs (NOT 0))) =
             fold crc_byte ys (crc_byte b (fold crc_byte xs (NOT 0)))"
    by (simp add: crc32_def)
  then have "crc_byte a (fold crc_byte xs (NOT 0)) = crc_byte b (fold crc_byte xs (NOT 0))"
    by (rule fold_crc_inj)
  then have "a = b" by (rule crc_byte_inj_byte)
  with assms show False by simp
qed

lemma crc32_check: "crc32 (bytes_of ''123456789'') = 0xCBF43926"
  by (simp add: crc32_def bytes_of_def byte_of_char_def crc_byte_code crc_shift_def crc_poly_def)

end
