(* ===== verification/Wal_Codec.thy ===== *)
theory Wal_Codec
  imports Crc32
begin

text \<open>
  The span record and its byte format, \<^verbatim>\<open>internal/wal/wal.go\<close> up to the log itself.
  Both the write-ahead log and the segment files store spans in this format.
\<close>

section \<open>Data\<close>

record span_payload =
  TraceID :: string
  SpanID :: string
  ParentSpanID :: string
  Timestamp :: i64
  AgentID :: string
  Model :: string
  ToolName :: string
  Team :: string
  Status :: string
  TokensIn :: i32
  TokensOut :: i32
  Cost :: f64
  LatencyMs :: i64
  Payload :: bytes
  Deleted :: bool

text \<open>The zero value of Go's \<open>SpanPayload\<close>, the start of every composite literal.\<close>

definition zero_span :: span_payload where
  "zero_span = \<lparr>TraceID = [], SpanID = [], ParentSpanID = [], Timestamp = 0, AgentID = [],
     Model = [], ToolName = [], Team = [], Status = [], TokensIn = 0, TokensOut = 0, Cost = 0,
     LatencyMs = 0, Payload = [], Deleted = False\<rparr>"

record wal_record =
  Version :: byte
  Span :: span_payload

datatype wal_error =
  PayloadTooShort nat
| StringLenTruncated nat
| StringTruncated nat nat
| BlobLenTruncated nat
| BlobTruncated nat nat
| RecordTooLarge nat
| BadVersion byte
| ChecksumMismatch
| ReadEOF
| ReadUnexpectedEOF
| WalClosed
| WalIO

definition CurrentWALVersion :: byte where "CurrentWALVersion = 1"
definition DefaultMaxSegmentSize :: u64 where "DefaultMaxSegmentSize = 4 * 1024 * 1024"
definition recordHeaderSize :: nat where "recordHeaderSize = 9"
definition maxRecordSize :: nat where "maxRecordSize = 64 * 2 ^ 20"
definition fixedPayloadHeaderSize :: nat where "fixedPayloadHeaderSize = 8 + 4 + 4 + 8 + 8 + 1"
definition strLenSize :: nat where "strLenSize = 2"
definition blobLenSize :: nat where "blobLenSize = 4"

lemmas wal_consts =
  recordHeaderSize_def fixedPayloadHeaderSize_def strLenSize_def blobLenSize_def

text \<open>\<^verbatim>\<open>stringFields\<close> gives pointers: the list is read, and stored back field by field.\<close>

definition string_fields :: "span_payload \<Rightarrow> string list" where
  "string_fields s = [TraceID s, SpanID s, ParentSpanID s, AgentID s, Model s, ToolName s, Team s, Status s]"

lemma length_string_fields [simp]: "length (string_fields s) = 8"
  by (simp add: string_fields_def)

fun set_string_fields :: "string list \<Rightarrow> span_payload \<Rightarrow> span_payload" where
  "set_string_fields [tr, sp, par, ag, mo, tool, te, st] s =
     s\<lparr>TraceID := tr, SpanID := sp, ParentSpanID := par, AgentID := ag, Model := mo, ToolName := tool,
       Team := te, Status := st\<rparr>"
| "set_string_fields _ s = s"

section \<open>Encoding\<close>

definition payload_encoded_size :: "span_payload \<Rightarrow> nat" where
  "payload_encoded_size s =
     fixedPayloadHeaderSize + sum_list (map (\<lambda>f. strLenSize + length f) (string_fields s))
       + (blobLenSize + length (Payload s))"

text \<open>The length prefix is \<^verbatim>\<open>uint16(len(s))\<close>: it wraps, the bytes are copied in full.\<close>

definition put_string :: "string \<Rightarrow> bytes" where
  "put_string s = put_u16 (word_of_nat (length s)) @ bytes_of s"

definition get_string :: "bytes \<Rightarrow> wal_error + string \<times> nat" where
  "get_string data =
     (if length data < strLenSize then Inl (StringLenTruncated (length data))
      else let strLen = unat (get_u16 (take strLenSize data)); end = strLenSize + strLen in
        if length data < end then Inl (StringTruncated strLen (length data - strLenSize))
        else Inr (string_of (take strLen (drop strLenSize data)), end))"

definition encode_fixed :: "span_payload \<Rightarrow> bytes" where
  "encode_fixed s =
     put_u64 (Timestamp s) @ put_u32 (TokensIn s) @ put_u32 (TokensOut s) @ put_u64 (Cost s)
       @ put_u64 (LatencyMs s) @ [if Deleted s then 1 else 0]"

definition encode_payload :: "span_payload \<Rightarrow> bytes" where
  "encode_payload s =
     encode_fixed s @ concat (map put_string (string_fields s))
       @ put_u32 (word_of_nat (length (Payload s))) @ Payload s"

section \<open>Decoding\<close>

text \<open>The loop over the string fields: each field read at the current offset, stored, and skipped.\<close>

fun get_strings :: "nat \<Rightarrow> bytes \<Rightarrow> nat \<Rightarrow> wal_error + string list \<times> nat" where
  "get_strings 0 data off = Inr ([], off)"
| "get_strings (Suc n) data off =
     (case get_string (drop off data) of
        Inl e \<Rightarrow> Inl e
      | Inr (s, k) \<Rightarrow> (case get_strings n data (off + k) of
          Inl e \<Rightarrow> Inl e
        | Inr (ss, off') \<Rightarrow> Inr (s # ss, off')))"

definition bslice :: "nat \<Rightarrow> nat \<Rightarrow> bytes \<Rightarrow> bytes" where
  "bslice i j data = take (j - i) (drop i data)"

definition deserialize_payload :: "bytes \<Rightarrow> wal_error + wal_record" where
  "deserialize_payload data =
     (if length data < fixedPayloadHeaderSize then Inl (PayloadTooShort (length data))
      else
        let span = zero_span\<lparr>Timestamp := get_u64 (bslice 0 8 data), TokensIn := get_u32 (bslice 8 12 data),
              TokensOut := get_u32 (bslice 12 16 data), Cost := get_u64 (bslice 16 24 data),
              LatencyMs := get_u64 (bslice 24 32 data), Deleted := data ! 32 \<noteq> 0\<rparr>
        in case get_strings 8 data fixedPayloadHeaderSize of
             Inl e \<Rightarrow> Inl e
           | Inr (fs, off) \<Rightarrow>
               let span = set_string_fields fs span in
               if length data - off < blobLenSize then Inl (BlobLenTruncated (length data - off))
               else
                 let blobLen = unat (get_u32 (bslice off (off + blobLenSize) data));
                     off = off + blobLenSize; blobEnd = off + blobLen
                 in if length data < blobEnd then Inl (BlobTruncated blobLen (length data - off))
                    else Inr \<lparr>Version = 0, Span = span\<lparr>Payload := bslice off blobEnd data\<rparr>\<rparr>)"

definition encode_span_payload :: "span_payload \<Rightarrow> bytes" where
  "encode_span_payload s = encode_payload s"

definition decode_span_payload :: "bytes \<Rightarrow> wal_error + span_payload" where
  "decode_span_payload data =
     (case deserialize_payload data of Inl e \<Rightarrow> Inl e | Inr r \<Rightarrow> Inr (Span r))"

text \<open>\<^verbatim>\<open>putRecordHeader\<close>: version, checksum and length of the payload.\<close>

definition record_header :: "byte \<Rightarrow> bytes \<Rightarrow> bytes" where
  "record_header version payload =
     [version] @ put_u32 (crc32 payload) @ put_u32 (word_of_nat (length payload))"

text \<open>The bytes \<^verbatim>\<open>AppendRecordWithSeg\<close> writes: a version of 0 becomes the current one.\<close>

definition encode_record :: "wal_record \<Rightarrow> bytes" where
  "encode_record r =
     (let version = (if Version r = 0 then CurrentWALVersion else Version r);
          payload = encode_payload (Span r)
      in record_header version payload @ payload)"

section \<open>Sizes\<close>

lemma length_put_string [simp, length_simps]: "length (put_string s) = strLenSize + length s"
  by (simp add: put_string_def strLenSize_def)

lemma length_encode_fixed [simp, length_simps]: "length (encode_fixed s) = fixedPayloadHeaderSize"
  by (simp add: encode_fixed_def fixedPayloadHeaderSize_def)

lemma length_encode_payload: "length (encode_payload s) = payload_encoded_size s"
  by (simp add: encode_payload_def payload_encoded_size_def length_concat comp_def blobLenSize_def)

lemma length_record_header [simp, length_simps]: "length (record_header v p) = recordHeaderSize"
  by (simp add: record_header_def recordHeaderSize_def)

lemma length_encode_record:
  "length (encode_record r) = recordHeaderSize + payload_encoded_size (Span r)"
  by (simp add: encode_record_def Let_def length_encode_payload)

section \<open>Round trip\<close>

text \<open>What fits the format: the string lengths in 16 bits, the blob length in 32.\<close>

definition span_fits :: "span_payload \<Rightarrow> bool" where
  "span_fits s \<longleftrightarrow> (\<forall>f \<in> set (string_fields s). length f < 2 ^ 16) \<and> length (Payload s) < 2 ^ 32"

lemma get_string_put_string:
  "length s < 2 ^ 16 \<Longrightarrow> get_string (put_string s @ rest) = Inr (s, strLenSize + length s)"
  by (simp add: get_string_def put_string_def strLenSize_def unat_of_nat Let_def)

lemma get_strings_concat:
  assumes "\<forall>f \<in> set fs. length f < 2 ^ 16" and "length pre = off"
  shows "get_strings (length fs) (pre @ concat (map put_string fs) @ rest) off
       = Inr (fs, off + length (concat (map put_string fs)))"
  using assms
proof (induction fs arbitrary: pre off)
  case Nil
  then show ?case by simp
next
  case (Cons f fs)
  have "get_strings (length fs) ((pre @ put_string f) @ concat (map put_string fs) @ rest)
          (off + (strLenSize + length f))
        = Inr (fs, off + (strLenSize + length f) + length (concat (map put_string fs)))"
    by (rule Cons.IH) (use Cons.prems in auto)
  with Cons.prems show ?case by (simp add: get_string_put_string)
qed

lemma bslice_0: "bslice 0 n (xs @ ys) = xs" if "length xs = n"
  using that by (simp add: bslice_def)

lemma bslice_append: "bslice i j (xs @ ys) = bslice (i - length xs) (j - length xs) ys"
  if "length xs \<le> i" for i j
  using that by (auto simp: bslice_def)

lemma set_string_fields_fields:
  "set_string_fields (string_fields s) r =
     r\<lparr>TraceID := TraceID s, SpanID := SpanID s, ParentSpanID := ParentSpanID s, AgentID := AgentID s,
       Model := Model s, ToolName := ToolName s, Team := Team s, Status := Status s\<rparr>"
  by (simp add: string_fields_def)

lemma decode_fixed:
  assumes "data = encode_fixed s @ rest"
  shows "get_u64 (bslice 0 8 data) = Timestamp s" "get_u32 (bslice 8 12 data) = TokensIn s"
    "get_u32 (bslice 12 16 data) = TokensOut s" "get_u64 (bslice 16 24 data) = Cost s"
    "get_u64 (bslice 24 32 data) = LatencyMs s" "data ! 32 \<noteq> 0 \<longleftrightarrow> Deleted s"
  by (simp_all add: assms encode_fixed_def bslice_def nth_append)

lemma deserialize_encode_payload:
  assumes fits: "span_fits s"
  shows "deserialize_payload (encode_payload s @ rest) = Inr \<lparr>Version = 0, Span = s\<rparr>"
proof -
  let ?strs = "concat (map put_string (string_fields s))"
  let ?tail = "put_u32 (word_of_nat (length (Payload s))) @ Payload s @ rest"
  let ?data = "encode_fixed s @ ?strs @ ?tail"
  let ?off = "fixedPayloadHeaderSize + length ?strs"
  have data: "encode_payload s @ rest = ?data" by (simp add: encode_payload_def)
  have strs_fit: "\<forall>f \<in> set (string_fields s). length f < 2 ^ 16"
    using fits by (simp add: span_fits_def)
  have strs: "get_strings 8 ?data fixedPayloadHeaderSize = Inr (string_fields s, ?off)"
    using get_strings_concat [OF strs_fit length_encode_fixed, of s ?tail]
    by (simp only: length_string_fields)
  have blob: "unat (get_u32 (bslice ?off (?off + blobLenSize) ?data)) = length (Payload s)"
    using fits by (simp add: bslice_append bslice_0 blobLenSize_def span_fits_def unat_of_nat)
  have pay: "bslice (?off + blobLenSize) (?off + blobLenSize + length (Payload s)) ?data = Payload s"
    by (simp add: bslice_append bslice_0 blobLenSize_def)
  have len: "length ?data = ?off + blobLenSize + length (Payload s) + length rest"
    by (simp add: blobLenSize_def)
  have short: "\<not> length ?data < fixedPayloadHeaderSize"
    and blobok: "\<not> length ?data - ?off < blobLenSize"
    and endok: "\<not> length ?data < ?off + blobLenSize + length (Payload s)"
    unfolding len by simp_all
  show ?thesis
    unfolding data deserialize_payload_def Let_def strs blob pay decode_fixed [OF refl]
      if_not_P [OF short] if_not_P [OF blobok] if_not_P [OF endok]
      set_string_fields_fields sum.case prod.case
    using endok by (simp add: blob pay zero_span_def)
qed

lemma decode_encode_span:
  "span_fits s \<Longrightarrow> decode_span_payload (encode_span_payload s) = Inr s"
  using deserialize_encode_payload [of s "[]"]
  by (simp add: decode_span_payload_def encode_span_payload_def)

text \<open>Whatever decodes fits the format, so nothing that does not fit can come back.\<close>

lemma get_string_fits:
  "get_string data = Inr (s, k) \<Longrightarrow> length s < 2 ^ 16"
  using unsigned_less [of "get_u16 (take strLenSize data)", where 'a = nat]
  by (auto simp: get_string_def Let_def split: if_splits)

lemma get_strings_fit:
  "get_strings n data off = Inr (fs, off') \<Longrightarrow> length fs = n \<and> (\<forall>f \<in> set fs. length f < 2 ^ 16)"
proof (induction n arbitrary: off fs off')
  case 0
  then show ?case by simp
next
  case (Suc n)
  from Suc.prems obtain f k gs where
      f: "get_string (drop off data) = Inr (f, k)"
    and gs: "get_strings n data (off + k) = Inr (gs, off')" and fs: "fs = f # gs"
    by (auto split: sum.splits)
  from Suc.IH [OF gs] get_string_fits [OF f] show ?case unfolding fs by simp
qed

lemma length_8_cases:
  assumes "length fs = 8"
  obtains a b c d e f g h where "fs = [a, b, c, d, e, f, g, h]"
  using assms by (auto simp: numeral_eq_Suc length_Suc_conv)

lemma string_fields_set: "length fs = 8 \<Longrightarrow> string_fields (set_string_fields fs s) = fs"
  by (erule length_8_cases) (simp add: string_fields_def)

lemma deserialize_fits:
  assumes "deserialize_payload data = Inr r"
  shows "span_fits (Span r)"
proof -
  from assms obtain fs off span0 bl where
      fs: "get_strings 8 data fixedPayloadHeaderSize = Inr (fs, off)"
    and r: "Span r = (set_string_fields fs span0)\<lparr>Payload := bslice (off + blobLenSize) (off + blobLenSize + bl) data\<rparr>"
    and bl: "bl = unat (get_u32 (bslice off (off + blobLenSize) data))"
    by (auto simp: deserialize_payload_def Let_def split: if_splits sum.splits)
  have "bl < 2 ^ 32"
    unfolding bl by (rule unsigned_less [where 'a = nat and 'b = 32, simplified, THEN less_le_trans]) simp
  moreover have "length (bslice (off + blobLenSize) (off + blobLenSize + bl) data) \<le> bl"
    by (simp add: bslice_def)
  moreover have "string_fields (Span r) = fs"
  proof -
    have "string_fields (Span r) = string_fields (set_string_fields fs span0)"
      unfolding r by (simp add: string_fields_def)
    with get_strings_fit [OF fs] show ?thesis by (simp add: string_fields_set)
  qed
  ultimately show ?thesis
    using get_strings_fit [OF fs] r by (auto simp: span_fits_def)
qed

lemma decode_span_fits: "decode_span_payload data = Inr s \<Longrightarrow> span_fits s"
  by (auto simp: decode_span_payload_def split: sum.splits dest: deserialize_fits)

lemma decode_encode_iff:
  "decode_span_payload (encode_span_payload s) = Inr s \<longleftrightarrow> span_fits s"
  using decode_encode_span decode_span_fits by blast

end
