(* ===== verification/Wal_Log.thy ===== *)
theory Wal_Log
  imports Wal_Codec
begin

text \<open>
  The segmented write-ahead log, \<^verbatim>\<open>internal/wal/wal.go\<close>: opening, appending with
  rotation, reclamation and replay over a directory of byte files. A log operation takes the
  log state and returns a result and the new state; the state carries the schedule of
  input/output failures. The theory ends with the interface the engine relies on, a log of
  numbered segments of records, and its interpretation on this model.
\<close>

section \<open>State\<close>

record wal =
  wal_dir :: dir
  wal_prefix :: string
  wal_extn :: string
  wal_maxSegmentSize :: u64
  wal_segmentID :: u64
  wal_size :: u64
  wal_file :: "string option"
  wal_tape :: tape

definition wal_fault :: "wal \<Rightarrow> nat option \<times> wal" where
  "wal_fault w = (case next_fault (wal_tape w) of (f, t) \<Rightarrow> (f, w\<lparr>wal_tape := t\<rparr>))"

definition wal_segment_name :: "string \<Rightarrow> string \<Rightarrow> u64 \<Rightarrow> string" where
  "wal_segment_name prefix ext i = prefix @ ''_'' @ pad6 (unat i) @ ext"

definition segmentPath :: "wal \<Rightarrow> u64 \<Rightarrow> string" where
  "segmentPath w i = wal_segment_name (wal_prefix w) (wal_extn w) i"

text \<open>The body of the loop of \<^verbatim>\<open>listSegmentIDs\<close>: the id a file name stands for.\<close>

definition wal_segment_id :: "string \<Rightarrow> string \<Rightarrow> string \<Rightarrow> u64 option" where
  "wal_segment_id prefix ext name =
     (if \<not> has_prefix name (prefix @ ''_'') \<or> \<not> has_suffix name ext then None
      else parse_uint (trim_suffix (trim_prefix name (prefix @ ''_'')) ext))"

definition wal_ids :: "wal \<Rightarrow> u64 list" where
  "wal_ids w = sort (List.map_filter (wal_segment_id (wal_prefix w) (wal_extn w)) (map fst (wal_dir w)))"

definition listSegmentIDs :: "wal \<Rightarrow> (wal_error + u64 list) \<times> wal" where
  "listSegmentIDs w =
     (case wal_fault w of (Some _, w) \<Rightarrow> (Inl WalIO, w) | (None, w) \<Rightarrow> (Inr (wal_ids w), w))"

section \<open>Opening, rotating, appending\<close>

definition file_contents :: "wal \<Rightarrow> string \<Rightarrow> bytes" where
  "file_contents w name = (case dir_get (wal_dir w) name of None \<Rightarrow> [] | Some b \<Rightarrow> b)"

text \<open>\<^verbatim>\<open>O_CREATE | O_RDWR | O_APPEND\<close>, then \<^verbatim>\<open>Stat\<close> for the size.\<close>

definition openSegment :: "u64 \<Rightarrow> wal \<Rightarrow> (wal_error + unit) \<times> wal" where
  "openSegment i w =
     (case wal_fault w of
        (Some _, w) \<Rightarrow> (Inl WalIO, w)
      | (None, w) \<Rightarrow>
          let name = segmentPath w i; content = file_contents w name;
              w = w\<lparr>wal_dir := dir_put name content (wal_dir w)\<rparr>
          in case wal_fault w of
               (Some _, w) \<Rightarrow> (Inl WalIO, w)
             | (None, w) \<Rightarrow>
                 (Inr (), w\<lparr>wal_file := Some name, wal_segmentID := i,
                             wal_size := word_of_nat (length content)\<rparr>))"

definition sealFile :: "wal \<Rightarrow> (wal_error + unit) \<times> wal" where
  "sealFile w =
     (case wal_file w of
        None \<Rightarrow> (Inr (), w)
      | Some _ \<Rightarrow>
          (case wal_fault w of
             (Some _, w) \<Rightarrow> (Inl WalIO, w)
           | (None, w) \<Rightarrow>
               (case wal_fault w of
                  (Some _, w) \<Rightarrow> (Inl WalIO, w)
                | (None, w) \<Rightarrow> (Inr (), w\<lparr>wal_file := None\<rparr>))))"

definition rotateLocked :: "wal \<Rightarrow> (wal_error + u64) \<times> wal" where
  "rotateLocked w =
     (let sealed = wal_segmentID w in
      rbind (sealFile w) (\<lambda>_ w. rbind (openSegment (sealed + 1) w) (\<lambda>_ w. (Inr sealed, w))))"

definition Rotate :: "wal \<Rightarrow> (wal_error + u64) \<times> wal" where
  "Rotate w = rotateLocked w"

definition append_bytes :: "bytes \<Rightarrow> wal \<Rightarrow> wal" where
  "append_bytes bs w =
     (case wal_file w of
        None \<Rightarrow> w
      | Some name \<Rightarrow>
          w\<lparr>wal_dir := dir_put name (file_contents w name @ bs) (wal_dir w),
            wal_size := wal_size w + word_of_nat (length bs)\<rparr>)"

text \<open>
  \<^verbatim>\<open>file.Write\<close> followed by \<^verbatim>\<open>file.Sync\<close>. A failed write has stored the
  first \<open>n\<close> bytes, and the size counts them.
\<close>

definition write_and_sync :: "bytes \<Rightarrow> wal \<Rightarrow> (wal_error + u64) \<times> wal" where
  "write_and_sync buf w =
     (case wal_fault w of
        (Some n, w) \<Rightarrow> (Inl WalIO, append_bytes (take n buf) w)
      | (None, w) \<Rightarrow>
          let w = append_bytes buf w in
          (case wal_fault w of
             (Some _, w) \<Rightarrow> (Inl WalIO, w)
           | (None, w) \<Rightarrow> (Inr (wal_segmentID w), w)))"

definition AppendRecordWithSeg :: "wal_record \<Rightarrow> wal \<Rightarrow> (wal_error + u64) \<times> wal" where
  "AppendRecordWithSeg r w =
     (let recordSize = word_of_nat (recordHeaderSize + payload_encoded_size (Span r));
          buf = encode_record r
      in if wal_file w = None then (Inl WalClosed, w)
         else if 0 < wal_size w \<and> wal_maxSegmentSize w < wal_size w + recordSize
         then rbind (rotateLocked w) (\<lambda>_ w. write_and_sync buf w)
         else write_and_sync buf w)"

definition AppendRecord :: "wal_record \<Rightarrow> wal \<Rightarrow> (wal_error + unit) \<times> wal" where
  "AppendRecord r w = rbind (AppendRecordWithSeg r w) (\<lambda>_ w. (Inr (), w))"

definition CurrentSegment :: "wal \<Rightarrow> u64" where
  "CurrentSegment w = wal_segmentID w"

section \<open>Reclaiming\<close>

text \<open>
  The loop of \<^verbatim>\<open>RemoveSegmentsUpTo\<close>: the flag says whether a removal failed; a missing
  file is not a failure.
\<close>

fun remove_loop :: "u64 list \<Rightarrow> u64 \<Rightarrow> bool \<Rightarrow> wal \<Rightarrow> bool \<times> wal" where
  "remove_loop [] bound failed w = (failed, w)"
| "remove_loop (i # ids) bound failed w =
     (if bound < i \<or> i = wal_segmentID w then remove_loop ids bound failed w
      else case wal_fault w of
             (Some _, w) \<Rightarrow> remove_loop ids bound True w
           | (None, w) \<Rightarrow>
               remove_loop ids bound failed (w\<lparr>wal_dir := dir_del (segmentPath w i) (wal_dir w)\<rparr>))"

definition RemoveSegmentsUpTo :: "u64 \<Rightarrow> wal \<Rightarrow> (wal_error + unit) \<times> wal" where
  "RemoveSegmentsUpTo bound w =
     rbind (listSegmentIDs w) (\<lambda>ids w.
       case remove_loop ids bound False w of
         (failed, w) \<Rightarrow> (if failed then Inl WalIO else Inr (), w))"

section \<open>Replay\<close>

text \<open>
  \<^verbatim>\<open>io.ReadFull\<close> of \<open>n\<close> bytes: end of file before the first byte, an unexpected end
  of file after it, otherwise the bytes and what follows them.
\<close>

definition read_full :: "nat \<Rightarrow> bytes \<Rightarrow> wal_error + bytes \<times> bytes" where
  "read_full n bs =
     (if n = 0 then Inr ([], bs)
      else if bs = [] then Inl ReadEOF
      else if length bs < n then Inl ReadUnexpectedEOF
      else Inr (take n bs, drop n bs))"

lemma read_full_header: "read_full recordHeaderSize bs = Inr (x, rest) \<Longrightarrow> length rest < length bs"
  by (auto simp: read_full_def recordHeaderSize_def split: if_splits)

lemma read_full_le: "read_full n bs = Inr (x, rest) \<Longrightarrow> length rest \<le> length bs"
  by (auto simp: read_full_def split: if_splits)

text \<open>One pass of the loop: stop, fail, or one record and the rest of the file.\<close>

datatype replay_step = Stop | Fail wal_error | Next wal_record bytes

definition replay_one :: "bool \<Rightarrow> bytes \<Rightarrow> replay_step" where
  "replay_one tolerateTornTail bs =
     (case read_full recordHeaderSize bs of
        Inl ReadEOF \<Rightarrow> Stop
      | Inl e \<Rightarrow> if tolerateTornTail then Stop else Fail e
      | Inr (header, rest) \<Rightarrow>
          let version = header ! 0; checksum = get_u32 (bslice 1 5 header);
              size = unat (get_u32 (bslice 5 9 header))
          in if maxRecordSize < size then Fail (RecordTooLarge size)
             else if version \<noteq> CurrentWALVersion then Fail (BadVersion version)
             else case read_full size rest of
                    Inl e \<Rightarrow> if tolerateTornTail then Stop else Fail e
                  | Inr (payload, rest) \<Rightarrow>
                      if crc32 payload \<noteq> checksum then Fail ChecksumMismatch
                      else case deserialize_payload payload of
                             Inl e \<Rightarrow> Fail e
                           | Inr r \<Rightarrow> Next (r\<lparr>Version := version\<rparr>) rest)"

lemma replay_one_shorter: "replay_one t bs = Next r rest \<Longrightarrow> length rest < length bs"
  unfolding replay_one_def Let_def
  by (auto split: sum.splits wal_error.splits if_splits prod.splits
      dest!: read_full_header dest: read_full_le [THEN le_less_trans])

function replaySegment :: "bool \<Rightarrow> bytes \<Rightarrow> wal_error + wal_record list" where
  "replaySegment t bs =
     (case replay_one t bs of
        Stop \<Rightarrow> Inr []
      | Fail e \<Rightarrow> Inl e
      | Next r rest \<Rightarrow>
          (case replaySegment t rest of Inl e \<Rightarrow> Inl e | Inr rs \<Rightarrow> Inr (r # rs)))"
  by pat_completeness auto
termination
  by (relation "measure (\<lambda>(t, bs). length bs)") (auto dest: replay_one_shorter)

declare replaySegment.simps [simp del]

text \<open>
  The loop over the segments, the last of which may be torn. A segment whose file is gone is
  empty; a failure entry stands for any failing open or read of the segment.
\<close>

fun replay_loop :: "u64 list \<Rightarrow> wal \<Rightarrow> (wal_error + wal_record list) \<times> wal" where
  "replay_loop [] w = (Inr [], w)"
| "replay_loop (i # ids) w =
     (case wal_fault w of
        (Some _, w) \<Rightarrow> (Inl WalIO, w)
      | (None, w) \<Rightarrow>
          (case (case dir_get (wal_dir w) (segmentPath w i) of
                   None \<Rightarrow> Inr [] | Some bs \<Rightarrow> replaySegment (ids = []) bs) of
             Inl e \<Rightarrow> (Inl e, w)
           | Inr rs \<Rightarrow> rbind (replay_loop ids w) (\<lambda>rest w. (Inr (rs @ rest), w))))"

definition Replay :: "wal \<Rightarrow> (wal_error + wal_record list) \<times> wal" where
  "Replay w =
     rbind (if wal_file w = None then (Inr (), w)
            else case wal_fault w of (Some _, w) \<Rightarrow> (Inl WalIO, w) | (None, w) \<Rightarrow> (Inr (), w))
       (\<lambda>_ w. rbind (listSegmentIDs w) replay_loop)"

section \<open>Reset, close, creation\<close>

definition closeFile :: "wal \<Rightarrow> (wal_error + unit) \<times> wal" where
  "closeFile w =
     (if wal_file w = None then (Inr (), w)
      else case wal_fault w of (Some _, w) \<Rightarrow> (Inl WalIO, w) | (None, w) \<Rightarrow> (Inr (), w\<lparr>wal_file := None\<rparr>))"

fun reset_loop :: "u64 list \<Rightarrow> wal \<Rightarrow> (wal_error + unit) \<times> wal" where
  "reset_loop [] w = (Inr (), w)"
| "reset_loop (i # ids) w =
     (case wal_fault w of
        (Some _, w) \<Rightarrow> (Inl WalIO, w)
      | (None, w) \<Rightarrow> reset_loop ids (w\<lparr>wal_dir := dir_del (segmentPath w i) (wal_dir w)\<rparr>))"

definition Reset :: "wal \<Rightarrow> (wal_error + unit) \<times> wal" where
  "Reset w =
     rbind (closeFile w) (\<lambda>_ w.
     rbind (listSegmentIDs w) (\<lambda>ids w.
     rbind (reset_loop ids w) (\<lambda>_ w. openSegment 1 w)))"

text \<open>\<^verbatim>\<open>Close\<close> forgets the file even when closing it fails.\<close>

definition wal_Close :: "wal \<Rightarrow> (wal_error + unit) \<times> wal" where
  "wal_Close w =
     (if wal_file w = None then (Inr (), w)
      else case wal_fault w of
             (Some _, w) \<Rightarrow> (Inl WalIO, w\<lparr>wal_file := None\<rparr>)
           | (None, w) \<Rightarrow> (Inr (), w\<lparr>wal_file := None\<rparr>))"

text \<open>\<^verbatim>\<open>filepath.Ext\<close> of a file name: from its last dot, or nothing.\<close>

definition path_ext :: "string \<Rightarrow> string" where
  "path_ext name =
     (if CHR ''.'' \<in> set name then CHR ''.'' # rev (takeWhile (\<lambda>c. c \<noteq> CHR ''.'') (rev name)) else [])"

text \<open>
  \<^verbatim>\<open>CreateWALWithSegmentSize\<close> on the directory of its path and the base name. Without
  segments, a file of the base name itself is a log of the time before segments and becomes
  segment 1 (a failing rename is an error).
\<close>

definition new_wal :: "dir \<Rightarrow> string \<Rightarrow> u64 \<Rightarrow> tape \<Rightarrow> wal" where
  "new_wal d base maxSegmentSize tape =
     \<lparr>wal_dir = d, wal_prefix = trim_suffix base (path_ext base), wal_extn = path_ext base,
      wal_maxSegmentSize = (if maxSegmentSize = 0 then DefaultMaxSegmentSize else maxSegmentSize),
      wal_segmentID = 0, wal_size = 0, wal_file = None, wal_tape = tape\<rparr>"

definition adoptLegacy :: "string \<Rightarrow> u64 list \<Rightarrow> wal \<Rightarrow> (wal_error + u64 list) \<times> wal" where
  "adoptLegacy base ids w =
     (if ids \<noteq> [] then (Inr ids, w)
      else case dir_get (wal_dir w) base of
             None \<Rightarrow> (Inr [], w)
           | Some content \<Rightarrow>
               (case wal_fault w of
                  (Some _, w) \<Rightarrow> (Inl WalIO, w)
                | (None, w) \<Rightarrow>
                    (Inr [1], w\<lparr>wal_dir := dir_put (segmentPath w 1) content (dir_del base (wal_dir w))\<rparr>)))"

definition CreateWALWithSegmentSize :: "dir \<Rightarrow> string \<Rightarrow> u64 \<Rightarrow> tape \<Rightarrow> (wal_error + unit) \<times> wal" where
  "CreateWALWithSegmentSize d base maxSegmentSize tape =
     rbind (listSegmentIDs (new_wal d base maxSegmentSize tape)) (\<lambda>ids w.
     rbind (adoptLegacy base ids w) (\<lambda>ids w.
       openSegment (if ids = [] then 1 else last ids) w))"

definition CreateWAL :: "dir \<Rightarrow> string \<Rightarrow> tape \<Rightarrow> (wal_error + unit) \<times> wal" where
  "CreateWAL d base tape = CreateWALWithSegmentSize d base DefaultMaxSegmentSize tape"

definition wal_Segments :: "wal \<Rightarrow> (wal_error + u64 list) \<times> wal" where
  "wal_Segments w = listSegmentIDs w"

section \<open>What replay reads\<close>

text \<open>A record replay accepts: the current version, fields that fit, a size under the cap.\<close>

definition good_record :: "wal_record \<Rightarrow> bool" where
  "good_record r \<longleftrightarrow> Version r = CurrentWALVersion \<and> span_fits (Span r)
     \<and> payload_encoded_size (Span r) \<le> maxRecordSize"

definition segment_bytes :: "wal_record list \<Rightarrow> bytes" where
  "segment_bytes rs = concat (map encode_record rs)"

lemma segment_bytes_simps [simp]:
  "segment_bytes [] = []"
  "segment_bytes (r # rs) = encode_record r @ segment_bytes rs"
  "segment_bytes (rs @ qs) = segment_bytes rs @ segment_bytes qs"
  by (simp_all add: segment_bytes_def)

lemma read_full_append: "length xs = n \<Longrightarrow> 0 < n \<Longrightarrow> read_full n (xs @ ys) = Inr (xs, ys)"
  by (auto simp: read_full_def)

lemma record_header_fields:
  "record_header v p ! 0 = v"
  "get_u32 (bslice 1 5 (record_header v p)) = crc32 p"
  "get_u32 (bslice 5 9 (record_header v p)) = word_of_nat (length p)"
  by (simp_all add: record_header_def bslice_def)

lemma payload_size_pos: "0 < payload_encoded_size s"
  by (simp add: payload_encoded_size_def fixedPayloadHeaderSize_def)

lemma max_lt: "n \<le> maxRecordSize \<Longrightarrow> unat (word_of_nat n :: u32) = n"
  by (simp add: maxRecordSize_def unat_of_nat)

lemma encode_good_record:
  "good_record r \<Longrightarrow> encode_record r = record_header CurrentWALVersion (encode_payload (Span r)) @ encode_payload (Span r)"
  by (auto simp: encode_record_def good_record_def Let_def CurrentWALVersion_def)

lemma header_size: "0 < recordHeaderSize" by (simp add: recordHeaderSize_def)

text \<open>Reading past a header that announces payload \<open>p\<close>.\<close>

lemma replay_one_header:
  assumes "length p \<le> maxRecordSize"
  shows "replay_one t (record_header CurrentWALVersion p @ bs) =
     (case read_full (length p) bs of
        Inl e \<Rightarrow> if t then Stop else Fail e
      | Inr (payload, rest) \<Rightarrow>
          if crc32 payload \<noteq> crc32 p then Fail ChecksumMismatch
          else case deserialize_payload payload of
                 Inl e \<Rightarrow> Fail e
               | Inr r \<Rightarrow> Next (r\<lparr>Version := CurrentWALVersion\<rparr>) rest)"
  unfolding replay_one_def read_full_append [OF length_record_header header_size]
  using assms by (simp del: One_nat_def add: max_lt record_header_fields cong: sum.case_cong)

lemma replay_one_record:
  assumes "good_record r"
  shows "replay_one t (encode_record r @ rest) = Next r rest"
proof -
  let ?p = "encode_payload (Span r)"
  have p: "length ?p \<le> maxRecordSize" "0 < length ?p"
    using assms payload_size_pos by (auto simp: good_record_def length_encode_payload)
  have "deserialize_payload ?p = Inr \<lparr>Version = 0, Span = Span r\<rparr>"
    using deserialize_encode_payload [of "Span r" "[]"] assms by (simp add: good_record_def)
  then show ?thesis
    using assms p
    by (simp add: encode_good_record replay_one_header read_full_append) (simp add: good_record_def)
qed

lemma replay_records:
  assumes "\<forall>r \<in> set rs. good_record r"
  shows "replaySegment t (segment_bytes rs @ tail) =
    (case replaySegment t tail of Inl e \<Rightarrow> Inl e | Inr qs \<Rightarrow> Inr (rs @ qs))"
  using assms
proof (induction rs)
  case Nil
  then show ?case by (simp split: sum.splits)
next
  case (Cons r rs)
  then show ?case
    by (subst replaySegment.simps) (simp add: replay_one_record split: sum.splits)
qed

lemma replay_Stop: "replay_one t bs = Stop \<Longrightarrow> replaySegment t bs = Inr []"
  by (subst replaySegment.simps) simp

lemma replay_Fail: "replay_one t bs = Fail e \<Longrightarrow> replaySegment t bs = Inl e"
  by (subst replaySegment.simps) simp

lemma replay_Nil [simp]: "replaySegment t [] = Inr []"
  by (rule replay_Stop) (simp add: replay_one_def read_full_def recordHeaderSize_def)

lemma replay_segment_bytes:
  "\<forall>r \<in> set rs. good_record r \<Longrightarrow> replaySegment t (segment_bytes rs) = Inr rs"
  using replay_records [of rs t "[]"] by simp

text \<open>A proper prefix of a record, what a crash leaves of the append it interrupts.\<close>

lemma replay_one_torn:
  assumes "good_record r" and "encode_record r = p @ q" and "q \<noteq> []"
  shows "replay_one True p = Stop"
    and "p \<noteq> [] \<Longrightarrow> \<exists>e. replay_one False p = Fail e"
proof -
  let ?h = "record_header CurrentWALVersion (encode_payload (Span r))"
  let ?p = "encode_payload (Span r)"
  have len: "length p < recordHeaderSize + length ?p"
    using assms(2,3) by (metis add_less_cancel_left encode_good_record [OF assms(1)] length_append
        length_greater_0_conv length_record_header less_add_same_cancel1)
  have max: "length ?p \<le> maxRecordSize"
    using assms(1) by (simp add: good_record_def length_encode_payload)
  have cases: "length p < recordHeaderSize \<or> (\<exists>p'. p = ?h @ p' \<and> length p' < length ?p)"
  proof (cases "length p < recordHeaderSize")
    case False
    then have "take recordHeaderSize p = ?h"
      using assms(2) unfolding encode_good_record [OF assms(1)]
      by (metis append_eq_conv_conj length_record_header linorder_not_less take_append_exact take_append take_eq_Nil2 append_Nil2 diff_is_0_eq)
    then have "p = ?h @ drop recordHeaderSize p" by (metis append_take_drop_id)
    moreover have "length (drop recordHeaderSize p) < length ?p" using len False by simp
    ultimately show ?thesis by blast
  qed simp
  from cases show "replay_one True p = Stop"
  proof
    assume "length p < recordHeaderSize"
    then show ?thesis by (simp add: replay_one_def read_full_def recordHeaderSize_def)
  next
    assume "\<exists>p'. p = ?h @ p' \<and> length p' < length ?p"
    then show ?thesis using max by (auto simp: replay_one_header read_full_def)
  qed
  assume "p \<noteq> []"
  from cases show "\<exists>e. replay_one False p = Fail e"
  proof
    assume "length p < recordHeaderSize"
    with \<open>p \<noteq> []\<close> show ?thesis by (simp add: replay_one_def read_full_def recordHeaderSize_def)
  next
    assume "\<exists>p'. p = ?h @ p' \<and> length p' < length ?p"
    then show ?thesis using max by (auto simp: replay_one_header read_full_def)
  qed
qed

lemma replay_corrupt_byte:
  assumes "good_record r" and "encode_payload (Span r) = xs @ a # ys" and "a \<noteq> b"
  shows "replay_one t (record_header CurrentWALVersion (encode_payload (Span r)) @ xs @ b # ys @ rest)
       = Fail ChecksumMismatch"
proof -
  let ?p = "encode_payload (Span r)"
  have p: "length ?p \<le> maxRecordSize" "0 < length ?p"
    using assms(1) payload_size_pos by (auto simp: good_record_def length_encode_payload)
  have len: "length (xs @ b # ys) = length ?p" using assms(2) by simp
  have "read_full (length ?p) ((xs @ b # ys) @ rest) = Inr (xs @ b # ys, rest)"
    using len p(2) by (rule read_full_append)
  moreover have "crc32 (xs @ b # ys) \<noteq> crc32 ?p"
    unfolding assms(2) using crc32_single_byte [OF assms(3)] by metis
  ultimately show ?thesis using replay_one_header [OF p(1)] by simp
qed

end
