(* ===== verification/Wal_Spec.thy ===== *)
theory Wal_Spec
  imports Wal_Log
begin

text \<open>
  What the write-ahead log promises its client. The abstract log is a list of numbered
  segments of records; the invariant \<open>wal_ok\<close> says that the directory holds exactly the
  encoding of such a list. Every operation is shown to act on the abstract log, and the
  interface \<open>segmented_log\<close>, interpreted here on the model of the code, is what the rest
  of the development uses.
\<close>

section \<open>Fields an operation leaves alone\<close>

definition wal_same :: "wal \<Rightarrow> wal \<Rightarrow> bool" where
  "wal_same w w' \<longleftrightarrow> wal_prefix w' = wal_prefix w \<and> wal_extn w' = wal_extn w
     \<and> wal_maxSegmentSize w' = wal_maxSegmentSize w"

lemma wal_same_refl [simp]: "wal_same w w" by (simp add: wal_same_def)

lemma wal_same_trans: "wal_same u v \<Longrightarrow> wal_same v w \<Longrightarrow> wal_same u w" by (simp add: wal_same_def)

text \<open>Drawing an entry of the schedule changes nothing else.\<close>

lemma wal_fault_cases:
  obtains f t where "wal_fault w = (f, w\<lparr>wal_tape := t\<rparr>)"
  by (cases "next_fault (wal_tape w)") (auto simp: wal_fault_def)

lemma wal_tape_self [simp]: "w\<lparr>wal_tape := wal_tape w\<rparr> = w"
  by (cases w) simp

lemma wal_fault_nil: "wal_tape w = [] \<Longrightarrow> wal_fault w = (None, w)"
  by (cases w) (simp add: wal_fault_def)

lemma segmentPath_tape [simp]:
  "segmentPath (w\<lparr>wal_tape := t\<rparr>) = segmentPath w" "wal_ids (w\<lparr>wal_tape := t\<rparr>) = wal_ids w"
  "file_contents (w\<lparr>wal_tape := t\<rparr>) = file_contents w"
  by (simp_all add: segmentPath_def wal_ids_def file_contents_def fun_eq_iff)

section \<open>File names and segment numbers\<close>

lemma wal_segment_id_name [simp]: "wal_segment_id p x (wal_segment_name p x i) = Some i"
proof -
  have name: "wal_segment_name p x i = (p @ ''_'') @ pad6 (unat i) @ x"
    by (simp add: wal_segment_name_def)
  have "has_suffix (wal_segment_name p x i) x"
    unfolding name by (metis append_assoc has_suffix_append)
  then show ?thesis
    unfolding wal_segment_id_def name by (simp only: has_prefix_append trim_prefix_append
        trim_suffix_append parse_uint_pad6_unat) simp
qed

lemma wal_segment_name_inject [simp]: "wal_segment_name p x i = wal_segment_name p x j \<longleftrightarrow> i = j"
  by (metis option.inject wal_segment_id_name)

lemma segmentPath_inject [simp]: "segmentPath w i = segmentPath w j \<longleftrightarrow> i = j"
  by (simp add: segmentPath_def)

section \<open>Abstraction and invariant\<close>

definition seg_records :: "bytes \<Rightarrow> wal_record list" where
  "seg_records bs = (case replaySegment False bs of Inl _ \<Rightarrow> [] | Inr rs \<Rightarrow> rs)"

definition seg_ok :: "bytes \<Rightarrow> bool" where
  "seg_ok bs \<longleftrightarrow> (\<forall>r \<in> set (seg_records bs). good_record r) \<and> segment_bytes (seg_records bs) = bs"

definition wal_log :: "wal \<Rightarrow> (u64 \<times> wal_record list) list" where
  "wal_log w = map (\<lambda>i. (i, seg_records (file_contents w (segmentPath w i)))) (wal_ids w)"

definition wal_files_ok :: "wal \<Rightarrow> bool" where
  "wal_files_ok w \<longleftrightarrow> dir_ok (wal_dir w) \<and>
     (\<forall>(n, b) \<in> set (wal_dir w). case wal_segment_id (wal_prefix w) (wal_extn w) n of
        None \<Rightarrow> True | Some i \<Rightarrow> n = segmentPath w i \<and> seg_ok b)"

definition wal_ok :: "wal \<Rightarrow> bool" where
  "wal_ok w \<longleftrightarrow> wal_files_ok w \<and> wal_file w = Some (segmentPath w (wal_segmentID w))
     \<and> wal_segmentID w \<in> set (wal_ids w) \<and> (\<forall>i \<in> set (wal_ids w). i \<le> wal_segmentID w)
     \<and> wal_size w = word_of_nat (length (file_contents w (segmentPath w (wal_segmentID w))))"

lemma seg_records_bytes [simp]:
  "\<forall>r \<in> set rs. good_record r \<Longrightarrow> seg_records (segment_bytes rs) = rs"
  by (simp add: seg_records_def replay_segment_bytes)

lemma seg_ok_bytes [simp]: "\<forall>r \<in> set rs. good_record r \<Longrightarrow> seg_ok (segment_bytes rs)"
  by (simp add: seg_ok_def)

lemma seg_okE:
  assumes "seg_ok bs"
  obtains rs where "\<forall>r \<in> set rs. good_record r" "bs = segment_bytes rs"
  using assms by (metis seg_ok_def)

lemma seg_ok_snoc:
  assumes "seg_ok bs" "good_record r"
  shows "seg_ok (bs @ encode_record r)" "seg_records (bs @ encode_record r) = seg_records bs @ [r]"
proof -
  from assms(1) obtain rs where rs: "\<forall>r \<in> set rs. good_record r" "bs = segment_bytes rs"
    by (rule seg_okE)
  have eq: "bs @ encode_record r = segment_bytes (rs @ [r])" by (simp add: rs(2))
  have all: "\<forall>r' \<in> set (rs @ [r]). good_record r'" using rs(1) assms(2) by auto
  show "seg_ok (bs @ encode_record r)" unfolding eq using all by (rule seg_ok_bytes)
  show "seg_records (bs @ encode_record r) = seg_records bs @ [r]"
    unfolding eq seg_records_bytes [OF all] by (simp add: rs)
qed

lemma seg_ok_Nil [simp]: "seg_ok []" "seg_records [] = []"
  using seg_ok_bytes [of "[]"] by (simp_all add: seg_records_def)

abbreviation wal_id :: "wal \<Rightarrow> string \<Rightarrow> u64 option" where
  "wal_id w n \<equiv> wal_segment_id (wal_prefix w) (wal_extn w) n"

lemma wal_id_path [simp]: "wal_id w (segmentPath w i) = Some i"
  by (simp add: segmentPath_def)

lemma set_wal_ids: "i \<in> set (wal_ids w) \<longleftrightarrow> (\<exists>n. dir_get (wal_dir w) n \<noteq> None \<and> wal_id w n = Some i)"
proof -
  have "i \<in> set (wal_ids w) \<longleftrightarrow> (\<exists>n \<in> fst ` set (wal_dir w). wal_id w n = Some i)"
    by (force simp: wal_ids_def List.map_filter_def)
  then show ?thesis by (auto simp: dom_map_of_conv_image_fst [symmetric] domIff)
qed

lemma sorted_wal_ids [simp]: "sorted (wal_ids w)"
  by (simp add: wal_ids_def)

lemma wal_files_ok_iff:
  "wal_files_ok w \<longleftrightarrow> dir_ok (wal_dir w) \<and>
     (\<forall>n b i. dir_get (wal_dir w) n = Some b \<longrightarrow> wal_id w n = Some i \<longrightarrow> n = segmentPath w i \<and> seg_ok b)"
proof (cases "dir_ok (wal_dir w)")
  case True
  show ?thesis unfolding wal_files_ok_def ball_dir [OF True] by (auto split: option.splits)
qed (simp add: wal_files_ok_def)

lemma files_okD:
  assumes "wal_files_ok w" "dir_get (wal_dir w) n = Some b" "wal_id w n = Some i"
  shows "n = segmentPath w i" "seg_ok b"
  using assms(1) [unfolded wal_files_ok_iff, THEN conjunct2, rule_format, OF assms(2,3)] by simp_all

lemma wal_ids_iff:
  "wal_files_ok w \<Longrightarrow> i \<in> set (wal_ids w) \<longleftrightarrow> dir_get (wal_dir w) (segmentPath w i) \<noteq> None"
  unfolding set_wal_ids
proof
  assume "wal_files_ok w" "\<exists>n. dir_get (wal_dir w) n \<noteq> None \<and> wal_id w n = Some i"
  then obtain n b where nb: "dir_get (wal_dir w) n = Some b" and i: "wal_id w n = Some i" by blast
  from \<open>wal_files_ok w\<close> nb i have "n = segmentPath w i" by (rule files_okD)
  with nb show "dir_get (wal_dir w) (segmentPath w i) \<noteq> None" by simp
next
  assume "dir_get (wal_dir w) (segmentPath w i) \<noteq> None"
  then show "\<exists>n. dir_get (wal_dir w) n \<noteq> None \<and> wal_id w n = Some i" using wal_id_path by blast
qed

lemma files_ok_contents:
  "wal_files_ok w \<Longrightarrow> seg_ok (file_contents w (segmentPath w i))"
  by (auto simp: file_contents_def intro: files_okD(2) [OF _ _ wal_id_path] split: option.splits)

lemma distinct_wal_ids:
  assumes "wal_files_ok w"
  shows "distinct (wal_ids w)"
proof -
  let ?f = "wal_segment_id (wal_prefix w) (wal_extn w)"
  have "distinct (List.map_filter ?f ns)" if "distinct ns" "\<forall>n \<in> set ns. \<forall>i. ?f n = Some i \<longrightarrow> n = segmentPath w i" for ns
    using that
  proof (induction ns)
    case Nil
    then show ?case by (simp add: List.map_filter_def)
  next
    case (Cons n ns)
    show ?case
    proof (cases "?f n")
      case None
      with Cons show ?thesis by (simp add: List.map_filter_def)
    next
      case (Some i)
      have "i \<notin> set (List.map_filter ?f ns)"
      proof
        assume "i \<in> set (List.map_filter ?f ns)"
        then obtain m where "m \<in> set ns" "?f m = Some i" by (force simp: List.map_filter_def)
        with Cons.prems Some show False by auto
      qed
      with Some Cons show ?thesis by (simp add: List.map_filter_def)
    qed
  qed
  moreover have "\<forall>n \<in> set (map fst (wal_dir w)). \<forall>i. ?f n = Some i \<longrightarrow> n = segmentPath w i"
    using assms by (force simp: wal_files_ok_def)
  ultimately show ?thesis using assms by (simp add: wal_ids_def wal_files_ok_def dir_ok_def)
qed

section \<open>Directory changes seen through the abstraction\<close>

lemma segmentPath_dir [simp]:
  "segmentPath (w\<lparr>wal_dir := d\<rparr>) = segmentPath w" "segmentPath (w\<lparr>wal_file := f\<rparr>) = segmentPath w"
  "segmentPath (w\<lparr>wal_segmentID := i\<rparr>) = segmentPath w" "segmentPath (w\<lparr>wal_size := z\<rparr>) = segmentPath w"
  by (simp_all add: segmentPath_def fun_eq_iff)

lemma wal_ids_fields [simp]:
  "wal_ids (w\<lparr>wal_file := f\<rparr>) = wal_ids w" "wal_ids (w\<lparr>wal_segmentID := i\<rparr>) = wal_ids w"
  "wal_ids (w\<lparr>wal_size := z\<rparr>) = wal_ids w"
  by (simp_all add: wal_ids_def)

lemma file_contents_fields [simp]:
  "file_contents (w\<lparr>wal_file := f\<rparr>) = file_contents w"
  "file_contents (w\<lparr>wal_segmentID := i\<rparr>) = file_contents w"
  "file_contents (w\<lparr>wal_size := z\<rparr>) = file_contents w"
  by (simp_all add: file_contents_def fun_eq_iff)

lemma file_contents_put [simp]:
  "file_contents (w\<lparr>wal_dir := dir_put n c (wal_dir w)\<rparr>) m = (if m = n then c else file_contents w m)"
  by (simp add: file_contents_def)

lemma file_contents_del [simp]:
  "file_contents (w\<lparr>wal_dir := dir_del n (wal_dir w)\<rparr>) m = (if m = n then [] else file_contents w m)"
  by (simp add: file_contents_def)

lemma wal_log_fields [simp]:
  "wal_log (w\<lparr>wal_tape := t\<rparr>) = wal_log w" "wal_log (w\<lparr>wal_file := f\<rparr>) = wal_log w"
  "wal_log (w\<lparr>wal_segmentID := i\<rparr>) = wal_log w" "wal_log (w\<lparr>wal_size := z\<rparr>) = wal_log w"
  by (simp_all add: wal_log_def)

lemma wal_files_ok_fields [simp]:
  "wal_files_ok (w\<lparr>wal_tape := t\<rparr>) = wal_files_ok w" "wal_files_ok (w\<lparr>wal_file := f\<rparr>) = wal_files_ok w"
  "wal_files_ok (w\<lparr>wal_segmentID := i\<rparr>) = wal_files_ok w" "wal_files_ok (w\<lparr>wal_size := z\<rparr>) = wal_files_ok w"
  by (simp_all add: wal_files_ok_def cong: option.case_cong)

lemma files_ok_put:
  assumes "wal_files_ok w" "seg_ok c"
  shows "wal_files_ok (w\<lparr>wal_dir := dir_put (segmentPath w i) c (wal_dir w)\<rparr>)"
  unfolding wal_files_ok_iff
proof (rule conjI, goal_cases ok files)
  case ok
  show "dir_ok (wal_dir (w\<lparr>wal_dir := dir_put (segmentPath w i) c (wal_dir w)\<rparr>))"
    using assms(1) by (simp add: wal_files_ok_def)
next
  case files
  show ?case
  proof (intro allI impI)
  fix n b j
  assume "dir_get (wal_dir (w\<lparr>wal_dir := dir_put (segmentPath w i) c (wal_dir w)\<rparr>)) n = Some b"
    and "wal_id (w\<lparr>wal_dir := dir_put (segmentPath w i) c (wal_dir w)\<rparr>) n = Some j"
  then have nb: "if n = segmentPath w i then b = c else dir_get (wal_dir w) n = Some b"
    and j: "wal_id w n = Some j" by (auto split: if_splits)
  show "n = segmentPath (w\<lparr>wal_dir := dir_put (segmentPath w i) c (wal_dir w)\<rparr>) j \<and> seg_ok b"
  proof (cases "n = segmentPath w i")
    case True
    with nb j assms(2) show ?thesis by simp
  next
    case False
    with nb j files_okD [OF assms(1), of n b j] show ?thesis by simp
  qed
  qed
qed

lemma files_ok_del:
  assumes "wal_files_ok w"
  shows "wal_files_ok (w\<lparr>wal_dir := dir_del n (wal_dir w)\<rparr>)"
  unfolding wal_files_ok_iff
proof (rule conjI, goal_cases ok files)
  case ok
  show "dir_ok (wal_dir (w\<lparr>wal_dir := dir_del n (wal_dir w)\<rparr>))"
    using assms(1) by (simp add: wal_files_ok_def)
next
  case files
  show ?case
  proof (intro allI impI)
  fix m b j
  assume "dir_get (wal_dir (w\<lparr>wal_dir := dir_del n (wal_dir w)\<rparr>)) m = Some b"
    and j: "wal_id (w\<lparr>wal_dir := dir_del n (wal_dir w)\<rparr>) m = Some j"
  then have nb: "dir_get (wal_dir w) m = Some b" by (simp split: if_splits)
  from files_okD [OF assms nb, of j] j
  show "m = segmentPath (w\<lparr>wal_dir := dir_del n (wal_dir w)\<rparr>) j \<and> seg_ok b" by simp
  qed
qed

lemma wal_ids_unique:
  assumes "wal_files_ok w" "sorted xs" "distinct xs" "set (wal_ids w) = set xs"
  shows "wal_ids w = xs"
  using sorted_distinct_set_unique [OF sorted_wal_ids distinct_wal_ids [OF assms(1)]] assms by simp

lemma wal_ids_put_old:
  assumes "wal_files_ok w" "seg_ok c" "i \<in> set (wal_ids w)"
  shows "wal_ids (w\<lparr>wal_dir := dir_put (segmentPath w i) c (wal_dir w)\<rparr>) = wal_ids w"
proof (rule wal_ids_unique [OF files_ok_put [OF assms(1,2)]])
  show "set (wal_ids (w\<lparr>wal_dir := dir_put (segmentPath w i) c (wal_dir w)\<rparr>)) = set (wal_ids w)"
    using assms(3)
    by (auto simp: wal_ids_iff [OF files_ok_put [OF assms(1,2)]] wal_ids_iff [OF assms(1)] split: if_splits)
qed (simp_all add: distinct_wal_ids assms(1))

lemma wal_ids_put_new:
  assumes "wal_files_ok w" "seg_ok c" "\<forall>j \<in> set (wal_ids w). j < i"
  shows "wal_ids (w\<lparr>wal_dir := dir_put (segmentPath w i) c (wal_dir w)\<rparr>) = wal_ids w @ [i]"
proof (rule wal_ids_unique [OF files_ok_put [OF assms(1,2)]])
  show "sorted (wal_ids w @ [i])" using assms(3) by (auto simp: sorted_append)
  show "distinct (wal_ids w @ [i])" using assms by (auto simp: distinct_wal_ids)
  show "set (wal_ids (w\<lparr>wal_dir := dir_put (segmentPath w i) c (wal_dir w)\<rparr>)) = set (wal_ids w @ [i])"
    by (auto simp: wal_ids_iff [OF files_ok_put [OF assms(1,2)]] wal_ids_iff [OF assms(1)] split: if_splits)
qed

lemma wal_ids_del:
  assumes "wal_files_ok w"
  shows "wal_ids (w\<lparr>wal_dir := dir_del (segmentPath w i) (wal_dir w)\<rparr>) = filter (\<lambda>j. j \<noteq> i) (wal_ids w)"
proof (rule wal_ids_unique [OF files_ok_del [OF assms]])
  show "set (wal_ids (w\<lparr>wal_dir := dir_del (segmentPath w i) (wal_dir w)\<rparr>)) = set (filter (\<lambda>j. j \<noteq> i) (wal_ids w))"
    by (auto simp: wal_ids_iff [OF files_ok_del [OF assms]] wal_ids_iff [OF assms] split: if_splits)
qed (simp_all add: distinct_wal_ids assms sorted_wrt_filter)

lemma wal_log_del:
  assumes "wal_files_ok w"
  shows "wal_log (w\<lparr>wal_dir := dir_del (segmentPath w i) (wal_dir w)\<rparr>) = filter (\<lambda>(j, rs). j \<noteq> i) (wal_log w)"
  unfolding wal_log_def wal_ids_del [OF assms] filter_map comp_def prod.case
  by (auto intro!: map_cong)

lemma wal_log_put_new:
  assumes "wal_files_ok w" "seg_ok c" "\<forall>j \<in> set (wal_ids w). j < i"
  shows "wal_log (w\<lparr>wal_dir := dir_put (segmentPath w i) c (wal_dir w)\<rparr>) = wal_log w @ [(i, seg_records c)]"
  unfolding wal_log_def wal_ids_put_new [OF assms] using assms(3) by auto

lemma wal_okD:
  assumes "wal_ok w"
  shows "wal_files_ok w" "wal_file w = Some (segmentPath w (wal_segmentID w))"
    "wal_segmentID w \<in> set (wal_ids w)" "\<forall>i \<in> set (wal_ids w). i \<le> wal_segmentID w"
    "wal_size w = word_of_nat (length (file_contents w (segmentPath w (wal_segmentID w))))"
  using assms by (simp_all add: wal_ok_def)

lemma wal_ok_tape [simp]: "wal_ok (w\<lparr>wal_tape := t\<rparr>) = wal_ok w"
  by (simp add: wal_ok_def)

text \<open>The active segment is the last one.\<close>

lemma wal_ids_active:
  assumes "wal_ok w"
  obtains ids where "wal_ids w = ids @ [wal_segmentID w]" "\<forall>i \<in> set ids. i < wal_segmentID w"
proof -
  let ?i = "wal_segmentID w"
  have "wal_ids w = filter (\<lambda>j. j \<noteq> ?i) (wal_ids w) @ [?i]"
    by (rule wal_ids_unique)
      (use wal_okD [OF assms] in \<open>auto simp: sorted_append sorted_wrt_filter distinct_wal_ids\<close>)
  moreover have "\<forall>i \<in> set (filter (\<lambda>j. j \<noteq> ?i) (wal_ids w)). i < ?i"
    using wal_okD(4) [OF assms] by auto
  ultimately show ?thesis by (rule that)
qed

lemma wal_log_active:
  assumes "wal_ok w"
  obtains l rs where "wal_log w = l @ [(wal_segmentID w, rs)]"
    "rs = seg_records (file_contents w (segmentPath w (wal_segmentID w)))"
    "\<forall>(i, qs) \<in> set l. i < wal_segmentID w"
proof -
  obtain ids where ids: "wal_ids w = ids @ [wal_segmentID w]" "\<forall>i \<in> set ids. i < wal_segmentID w"
    using assms by (rule wal_ids_active)
  let ?e = "\<lambda>i. (i, seg_records (file_contents w (segmentPath w i)))"
  have "wal_log w = map ?e ids @ [?e (wal_segmentID w)]" by (simp add: wal_log_def ids(1))
  moreover have "\<forall>(i, qs) \<in> set (map ?e ids). i < wal_segmentID w" using ids(2) by auto
  ultimately show ?thesis using that by blast
qed

section \<open>Appending\<close>

text \<open>The record as replay returns it: a version of 0 was stamped with the current one.\<close>

definition stamped :: "wal_record \<Rightarrow> wal_record" where
  "stamped r = r\<lparr>Version := if Version r = 0 then CurrentWALVersion else Version r\<rparr>"

definition accepts :: "wal_record \<Rightarrow> bool" where
  "accepts r \<longleftrightarrow> good_record (stamped r)"

lemma encode_stamped [simp]: "encode_record (stamped r) = encode_record r"
  by (auto simp: encode_record_def stamped_def CurrentWALVersion_def Let_def)

text \<open>What appending record \<open>r\<close> to segment \<open>i\<close> does to the abstract log.\<close>

definition log_add :: "u64 \<Rightarrow> 'r \<Rightarrow> (u64 \<times> 'r list) list \<Rightarrow> (u64 \<times> 'r list) list" where
  "log_add i r l =
     (if l \<noteq> [] \<and> fst (last l) = i then butlast l @ [(i, snd (last l) @ [r])] else l @ [(i, [r])])"

lemma log_add_last [simp]: "log_add i r (l @ [(i, rs)]) = l @ [(i, rs @ [r])]"
  by (simp add: log_add_def)

lemma log_add_new: "i \<noteq> j \<Longrightarrow> log_add j r (l @ [(i, rs)]) = l @ [(i, rs), (j, [r])]"
  by (simp add: log_add_def)

lemma wal_log_put_active:
  assumes "wal_ok w" "seg_ok c" "wal_log w = l @ [(wal_segmentID w, rs)]"
  shows "wal_log (w\<lparr>wal_dir := dir_put (segmentPath w (wal_segmentID w)) c (wal_dir w)\<rparr>)
       = l @ [(wal_segmentID w, seg_records c)]"
proof -
  let ?i = "wal_segmentID w"
  obtain ids where ids: "wal_ids w = ids @ [?i]" "\<forall>i \<in> set ids. i < ?i"
    using assms(1) by (rule wal_ids_active)
  from assms(3) ids(1) have l: "l = map (\<lambda>i. (i, seg_records (file_contents w (segmentPath w i)))) ids"
    by (simp add: wal_log_def)
  have "wal_ids (w\<lparr>wal_dir := dir_put (segmentPath w ?i) c (wal_dir w)\<rparr>) = ids @ [?i]"
    using wal_ids_put_old [OF wal_okD(1) [OF assms(1)] assms(2) wal_okD(3) [OF assms(1)]] ids(1) by simp
  then show ?thesis using ids(2) by (auto simp: wal_log_def l)
qed

lemma append_bytes_record:
  assumes "wal_ok w" "accepts r"
  shows "wal_ok (append_bytes (encode_record r) w)"
    "wal_segmentID (append_bytes (encode_record r) w) = wal_segmentID w"
    "wal_log (append_bytes (encode_record r) w) = log_add (wal_segmentID w) (stamped r) (wal_log w)"
proof -
  let ?i = "wal_segmentID w" and ?old = "file_contents w (segmentPath w (wal_segmentID w))"
  let ?c = "?old @ encode_record r"
  have old: "seg_ok ?old" using wal_okD(1) [OF assms(1)] by (rule files_ok_contents)
  from assms(2) have good: "good_record (stamped r)" by (simp add: accepts_def)
  note snoc = seg_ok_snoc [OF old good, unfolded encode_stamped]
  have app: "append_bytes (encode_record r) w =
      w\<lparr>wal_dir := dir_put (segmentPath w ?i) ?c (wal_dir w), wal_size := wal_size w + word_of_nat (length (encode_record r))\<rparr>"
    using wal_okD(2) [OF assms(1)] by (simp add: append_bytes_def)
  obtain l rs where l: "wal_log w = l @ [(?i, rs)]" "rs = seg_records ?old"
    using assms(1) by (rule wal_log_active)
  show "wal_segmentID (append_bytes (encode_record r) w) = ?i" by (simp add: app)
  show "wal_log (append_bytes (encode_record r) w) = log_add ?i (stamped r) (wal_log w)"
    unfolding app wal_log_fields wal_log_put_active [OF assms(1) snoc(1) l(1)] l snoc(2) by simp
  have ids: "wal_ids (w\<lparr>wal_dir := dir_put (segmentPath w ?i) ?c (wal_dir w)\<rparr>) = wal_ids w"
    using wal_okD(1,3) [OF assms(1)] snoc(1) by (intro wal_ids_put_old)
  have files: "wal_files_ok (w\<lparr>wal_dir := dir_put (segmentPath w ?i) ?c (wal_dir w)\<rparr>)"
    using wal_okD(1) [OF assms(1)] snoc(1) by (rule files_ok_put)
  show "wal_ok (append_bytes (encode_record r) w)"
    using wal_okD [OF assms(1)] files by (simp add: wal_ok_def app ids)
qed

lemma write_and_sync_record:
  assumes "wal_ok w" "accepts r" "write_and_sync (encode_record r) w = (Inr i, w')"
  shows "wal_ok w'" "i = wal_segmentID w" "wal_segmentID w' = wal_segmentID w"
    "wal_log w' = log_add i (stamped r) (wal_log w)"
proof -
  from assms(3) obtain t t' where
      w': "w' = (append_bytes (encode_record r) (w\<lparr>wal_tape := t\<rparr>))\<lparr>wal_tape := t'\<rparr>"
    and i: "i = wal_segmentID w'"
    by (cases rule: wal_fault_cases [of w])
      (auto simp: write_and_sync_def wal_fault_def Let_def split: option.splits prod.splits)
  have ok: "wal_ok (w\<lparr>wal_tape := t\<rparr>)" using assms(1) by simp
  note app = append_bytes_record [OF ok assms(2)]
  show "wal_ok w'" "wal_segmentID w' = wal_segmentID w" "i = wal_segmentID w"
    using app by (simp_all add: w' i)
  then show "wal_log w' = log_add i (stamped r) (wal_log w)" using app by (simp add: w')
qed

section \<open>Rotating\<close>

lemma openSegment_new:
  assumes "wal_files_ok w" "\<forall>j \<in> set (wal_ids w). j < i" "openSegment i w = (Inr u, w')"
  shows "wal_ok w'" "wal_segmentID w' = i" "wal_log w' = wal_log w @ [(i, [])]"
proof -
  have new: "dir_get (wal_dir w) (segmentPath w i) = None"
  proof (rule ccontr)
    assume "dir_get (wal_dir w) (segmentPath w i) \<noteq> None"
    then have "i \<in> set (wal_ids w)" using wal_ids_iff [OF assms(1)] by simp
    with assms(2) show False by blast
  qed
  let ?w = "w\<lparr>wal_dir := dir_put (segmentPath w i) [] (wal_dir w)\<rparr>"
  from assms(3) new obtain t where
      w': "w' = ?w\<lparr>wal_tape := t, wal_file := Some (segmentPath w i), wal_segmentID := i, wal_size := 0\<rparr>"
    by (auto simp: openSegment_def wal_fault_def Let_def file_contents_def
        split: option.splits prod.splits)
  note put = wal_ids_put_new [OF assms(1) seg_ok_Nil(1) assms(2)]
    wal_log_put_new [OF assms(1) seg_ok_Nil(1) assms(2)] files_ok_put [OF assms(1) seg_ok_Nil(1), of i]
  show "wal_segmentID w' = i" by (simp add: w')
  show "wal_log w' = wal_log w @ [(i, [])]" using put(2) by (simp add: w' wal_log_def)
  show "wal_ok w'"
    using put assms(2) by (auto simp: wal_ok_def w' less_imp_le)
qed

lemma sealFile_same:
  "sealFile w = (res, w') \<Longrightarrow> w' = w\<lparr>wal_tape := wal_tape w', wal_file := wal_file w'\<rparr>"
  by (cases w) (auto simp: sealFile_def wal_fault_def split: option.splits prod.splits)

lemma rotateLocked_ok:
  assumes "wal_ok w" "wal_segmentID w \<noteq> - 1" "rotateLocked w = (Inr s, w')"
  shows "s = wal_segmentID w" "wal_ok w'" "wal_segmentID w' = wal_segmentID w + 1"
    "wal_log w' = wal_log w @ [(wal_segmentID w + 1, [])]"
proof -
  let ?i = "wal_segmentID w"
  from assms(3) obtain v u where seal: "sealFile w = (Inr (), v)"
    and op: "openSegment (?i + 1) v = (Inr u, w')" and s: "s = ?i"
    by (auto simp: rotateLocked_def Let_def rbind_Inr_iff)
  obtain t f where v: "v = w\<lparr>wal_tape := t, wal_file := f\<rparr>" using sealFile_same [OF seal] by metis
  have "?i < ?i + 1" using assms(2) by (rule word_less_inc)
  then have lt: "\<forall>j \<in> set (wal_ids v). j < ?i + 1"
    using wal_okD(4) [OF assms(1)] by (auto simp: v)
  have files: "wal_files_ok v" using wal_okD(1) [OF assms(1)] by (simp add: v)
  note new = openSegment_new [OF files lt op]
  show "s = ?i" by (rule s)
  show "wal_ok w'" "wal_segmentID w' = ?i + 1" by (fact new(1), fact new(2))
  show "wal_log w' = wal_log w @ [(?i + 1, [])]" using new(3) by (simp add: v wal_log_def)
qed

lemma append_ok:
  assumes "wal_ok w" "wal_segmentID w \<noteq> - 1" "accepts r" "AppendRecordWithSeg r w = (Inr i, w')"
  shows "wal_ok w' \<and> wal_segmentID w' = i \<and> (i = wal_segmentID w \<or> i = wal_segmentID w + 1)
     \<and> wal_log w' = log_add i (stamped r) (wal_log w)"
proof (cases "\<exists>v s. rotateLocked w = (Inr s, v) \<and> write_and_sync (encode_record r) v = (Inr i, w')")
  case True
  then obtain v s where rot: "rotateLocked w = (Inr s, v)"
    and wr: "write_and_sync (encode_record r) v = (Inr i, w')" by blast
  note R = rotateLocked_ok [OF assms(1,2) rot]
  note W = write_and_sync_record [OF R(2) assms(3) wr]
  obtain l rs where l: "wal_log w = l @ [(wal_segmentID w, rs)]"
    using assms(1) by (rule wal_log_active)
  have "wal_log w' = log_add i (stamped r) (wal_log w)"
    unfolding W(4) R(4) W(2) R(3) l by (simp add: log_add_new) (simp add: log_add_def butlast_append)
  with W R show ?thesis by simp
next
  case False
  with assms(4) have wr: "write_and_sync (encode_record r) w = (Inr i, w')"
    by (auto simp: AppendRecordWithSeg_def Let_def rbind_Inr_iff split: if_splits)
  note W = write_and_sync_record [OF assms(1,3) wr]
  then show ?thesis by simp
qed

section \<open>Reclaiming\<close>

text \<open>Deleting segments from the abstract log.\<close>

definition log_drop :: "u64 set \<Rightarrow> (u64 \<times> 'r list) list \<Rightarrow> (u64 \<times> 'r list) list" where
  "log_drop D l = filter (\<lambda>(i, rs). i \<notin> D) l"

lemma log_drop_drop [simp]: "log_drop D (log_drop E l) = log_drop (D \<union> E) l"
  by (auto simp: log_drop_def intro!: filter_cong)

lemma log_drop_none: "\<forall>(i, rs) \<in> set l. i \<notin> D \<Longrightarrow> log_drop D l = l"
  by (auto simp: log_drop_def intro!: filter_True)

lemma wal_ok_del:
  assumes "wal_ok w" "i \<noteq> wal_segmentID w"
  shows "wal_ok (w\<lparr>wal_dir := dir_del (segmentPath w i) (wal_dir w)\<rparr>)"
    "wal_log (w\<lparr>wal_dir := dir_del (segmentPath w i) (wal_dir w)\<rparr>) = log_drop {i} (wal_log w)"
proof -
  note W = wal_okD [OF assms(1)]
  have ids: "wal_ids (w\<lparr>wal_dir := dir_del (segmentPath w i) (wal_dir w)\<rparr>) = filter (\<lambda>j. j \<noteq> i) (wal_ids w)"
    using W(1) by (rule wal_ids_del)
  show "wal_ok (w\<lparr>wal_dir := dir_del (segmentPath w i) (wal_dir w)\<rparr>)"
    using W assms(2) by (simp add: wal_ok_def ids files_ok_del)
  show "wal_log (w\<lparr>wal_dir := dir_del (segmentPath w i) (wal_dir w)\<rparr>) = log_drop {i} (wal_log w)"
    using wal_log_del [OF W(1)] by (simp add: log_drop_def)
qed

text \<open>Between none and all of the candidates go; all of them when nothing fails.\<close>

lemma remove_loop_ok:
  assumes "wal_ok w" "remove_loop ids bound failed w = (failed', w')"
  shows "wal_ok w' \<and> wal_segmentID w' = wal_segmentID w \<and> (failed \<longrightarrow> failed') \<and>
    (\<exists>D. wal_log w' = log_drop D (wal_log w) \<and> D \<subseteq> {i \<in> set ids. i \<le> bound \<and> i \<noteq> wal_segmentID w}
       \<and> (\<not> failed' \<longrightarrow> D = {i \<in> set ids. i \<le> bound \<and> i \<noteq> wal_segmentID w}))"
  using assms
proof (induction ids bound failed w rule: remove_loop.induct)
  case (1 bound failed w)
  then show ?case by (auto simp: log_drop_none intro!: exI [of _ "{}"])
next
  case (2 i ids bound failed w)
  show ?case
  proof (cases "bound < i \<or> i = wal_segmentID w")
    case True
    with 2(4,5) have "remove_loop ids bound failed w = (failed', w')" by simp
    from 2(1) [OF True 2(4) this] True show ?thesis by (auto simp: not_le)
  next
    case False
    obtain f t where ft: "wal_fault w = (f, w\<lparr>wal_tape := t\<rparr>)" by (rule wal_fault_cases)
    show ?thesis
    proof (cases f)
      case (Some n)
      with 2(5) False ft have "remove_loop ids bound True (w\<lparr>wal_tape := t\<rparr>) = (failed', w')" by simp
      from 2(3) [OF False ft [symmetric, unfolded Some] refl _ this] 2(4) show ?thesis by auto
    next
      case None
      let ?w = "w\<lparr>wal_tape := t\<rparr>"
      let ?v = "?w\<lparr>wal_dir := dir_del (segmentPath ?w i) (wal_dir ?w)\<rparr>"
      have rec: "remove_loop ids bound failed ?v = (failed', w')"
        using 2(5) False ft None by simp
      have v: "wal_ok ?v" "wal_log ?v = log_drop {i} (wal_log ?w)"
        using wal_ok_del [of ?w i] 2(4) False by auto
      from 2(2) [OF False ft [symmetric, unfolded None] refl v(1) rec]
      obtain D where D: "wal_ok w'" "wal_segmentID w' = wal_segmentID w" "failed \<longrightarrow> failed'"
        "wal_log w' = log_drop D (wal_log ?v)" "D \<subseteq> {i \<in> set ids. i \<le> bound \<and> i \<noteq> wal_segmentID w}"
        "\<not> failed' \<longrightarrow> D = {i \<in> set ids. i \<le> bound \<and> i \<noteq> wal_segmentID w}" by auto
      have "wal_log w' = log_drop (insert i D) (wal_log w)" using D(4) v(2) by simp
      with D False show ?thesis by (intro conjI exI [of _ "insert i D"]) auto
    qed
  qed
qed

lemma remove_ok:
  assumes "wal_ok w" "RemoveSegmentsUpTo bound w = (res, w')"
  shows "wal_ok w' \<and> wal_segmentID w' = wal_segmentID w \<and>
    (\<exists>D. wal_log w' = log_drop D (wal_log w) \<and> D \<subseteq> {i. i \<le> bound \<and> i \<noteq> wal_segmentID w}
       \<and> (res = Inr () \<longrightarrow> D = {i. i \<le> bound \<and> i \<noteq> wal_segmentID w}))"
proof -
  obtain f t where ft: "wal_fault w = (f, w\<lparr>wal_tape := t\<rparr>)" by (rule wal_fault_cases)
  show ?thesis
  proof (cases f)
    case (Some n)
    with assms ft show ?thesis
      by (auto simp: RemoveSegmentsUpTo_def listSegmentIDs_def log_drop_none intro!: exI [of _ "{}"])
  next
    case None
    let ?D = "{i. i \<le> bound \<and> i \<noteq> wal_segmentID w}"
    obtain failed v where loop: "remove_loop (wal_ids w) bound False (w\<lparr>wal_tape := t\<rparr>) = (failed, v)"
      by fastforce
    with assms(2) ft None have w': "w' = v" "res = (if failed then Inl WalIO else Inr ())"
      by (auto simp: RemoveSegmentsUpTo_def listSegmentIDs_def)
    from remove_loop_ok [OF _ loop] assms(1) obtain D where
        D: "wal_ok w'" "wal_segmentID w' = wal_segmentID w" "wal_log w' = log_drop D (wal_log w)"
          "D \<subseteq> {i \<in> set (wal_ids w). i \<le> bound \<and> i \<noteq> wal_segmentID w}"
          "\<not> failed \<longrightarrow> D = {i \<in> set (wal_ids w). i \<le> bound \<and> i \<noteq> wal_segmentID w}"
      by (auto simp: w')
    have "wal_log w' = log_drop ?D (wal_log w) \<and> res = Inr ()" if "\<not> failed"
    proof -
      have "log_drop D (wal_log w) = log_drop ?D (wal_log w)"
        using D(5) that unfolding log_drop_def by (intro filter_cong) (auto simp: wal_log_def)
      with D(3) w' that show ?thesis by simp
    qed
    moreover have "res = Inl WalIO" if failed using w' that by simp
    ultimately show ?thesis using D by (cases failed) auto
  qed
qed

section \<open>Replaying\<close>

abbreviation log_records :: "(u64 \<times> 'r list) list \<Rightarrow> 'r list" where
  "log_records l \<equiv> concat (map snd l)"

lemma replay_loop_ok:
  assumes "wal_files_ok w" "\<forall>i \<in> set ids. i \<in> set (wal_ids w)" "replay_loop ids w = (res, w')"
  shows "(\<exists>t. w' = w\<lparr>wal_tape := t\<rparr>) \<and>
    (res = Inr (concat (map (\<lambda>i. seg_records (file_contents w (segmentPath w i))) ids)) \<or> res = Inl WalIO)"
  using assms
proof (induction ids arbitrary: w res w')
  case Nil
  then show ?case by (cases w) auto
next
  case (Cons i ids)
  obtain f t where ft: "wal_fault w = (f, w\<lparr>wal_tape := t\<rparr>)" by (rule wal_fault_cases)
  show ?case
  proof (cases f)
    case (Some n)
    with Cons.prems ft show ?thesis by auto
  next
    case None
    let ?c = "file_contents w (segmentPath w i)"
    obtain rs where rs: "\<forall>r \<in> set rs. good_record r" "?c = segment_bytes rs"
      using files_ok_contents [OF Cons.prems(1)] by (rule seg_okE)
    obtain b where "dir_get (wal_dir w) (segmentPath w i) = Some b"
      using Cons.prems(1,2) wal_ids_iff by auto
    then have read: "(case dir_get (wal_dir w) (segmentPath w i) of None \<Rightarrow> Inr [] | Some bs \<Rightarrow> replaySegment (ids = []) bs)
        = Inr rs" using rs by (simp add: file_contents_def replay_segment_bytes)
    have srs: "seg_records ?c = rs" using rs by simp
    obtain res1 w1 where step: "replay_loop ids (w\<lparr>wal_tape := t\<rparr>) = (res1, w1)" by fastforce
    have IH: "(\<exists>t'. w1 = w\<lparr>wal_tape := t\<rparr>\<lparr>wal_tape := t'\<rparr>) \<and>
      (res1 = Inr (concat (map (\<lambda>i. seg_records (file_contents w (segmentPath w i))) ids)) \<or> res1 = Inl WalIO)"
      using Cons.IH [OF _ _ step] Cons.prems(1,2) by simp
    have "replay_loop (i # ids) w = rbind (res1, w1) (\<lambda>rest w. (Inr (rs @ rest), w))"
      using ft None read step by simp
    with IH Cons.prems(3) srs show ?thesis by auto
  qed
qed

lemma replay_ok:
  assumes "wal_files_ok w" "Replay w = (res, w')"
  shows "(\<exists>t. w' = w\<lparr>wal_tape := t\<rparr>) \<and> (res = Inr (log_records (wal_log w)) \<or> res = Inl WalIO)"
proof -
  define start :: "(wal_error + unit) \<times> wal" where
    "start = (if wal_file w = None then (Inr (), w)
      else case wal_fault w of (Some _, w) \<Rightarrow> (Inl WalIO, w) | (None, w) \<Rightarrow> (Inr (), w))"
  obtain r0 t0 where st: "start = (r0, w\<lparr>wal_tape := t0\<rparr>)" "r0 = Inr () \<or> r0 = Inl WalIO"
  proof (cases "wal_file w = None")
    case True
    then have "start = (Inr (), w\<lparr>wal_tape := wal_tape w\<rparr>)" by (simp add: start_def)
    then show ?thesis using that by blast
  next
    case False
    obtain f t where "wal_fault w = (f, w\<lparr>wal_tape := t\<rparr>)" by (rule wal_fault_cases)
    with False have "start = (if f = None then Inr () else Inl WalIO, w\<lparr>wal_tape := t\<rparr>)"
      by (auto simp: start_def split: option.splits)
    then show ?thesis using that by auto
  qed
  have eq: "Replay w = rbind start (\<lambda>_ w. rbind (listSegmentIDs w) replay_loop)"
    by (simp add: Replay_def start_def)
  show ?thesis
  proof (cases "r0 = Inr ()")
    case False
    with st assms(2) show ?thesis by (auto simp: eq)
  next
    case True
    let ?w = "w\<lparr>wal_tape := t0\<rparr>"
    obtain f t where ft: "wal_fault ?w = (f, ?w\<lparr>wal_tape := t\<rparr>)" by (rule wal_fault_cases)
    show ?thesis
    proof (cases f)
      case (Some n)
      with ft st True assms(2) show ?thesis by (auto simp: eq listSegmentIDs_def)
    next
      case None
      with ft st True assms(2) have loop: "replay_loop (wal_ids w) (w\<lparr>wal_tape := t\<rparr>) = (res, w')"
        by (simp add: eq listSegmentIDs_def)
      from replay_loop_ok [OF _ _ loop] assms(1) show ?thesis
        by (auto simp: wal_log_def comp_def)
    qed
  qed
qed

text \<open>With no failure scheduled every operation on an open log succeeds.\<close>

lemma replay_no_fault:
  assumes "wal_files_ok w" "wal_tape w = []"
  shows "Replay w = (Inr (log_records (wal_log w)), w)"
proof -
  have loop: "replay_loop ids w = (Inr (concat (map (\<lambda>i. seg_records (file_contents w (segmentPath w i))) ids)), w)"
    if "\<forall>i \<in> set ids. i \<in> set (wal_ids w)" for ids
  proof -
    have "\<exists>rs. replay_loop ids w = (Inr rs, w)" using that
    proof (induction ids)
      case (Cons i ids)
      obtain rs where "\<forall>r \<in> set rs. good_record r" "file_contents w (segmentPath w i) = segment_bytes rs"
        using files_ok_contents [OF assms(1)] by (rule seg_okE)
      with Cons assms(2) show ?case
        by (auto simp: wal_fault_nil file_contents_def replay_segment_bytes split: option.splits)
    qed simp
    then obtain rs where "replay_loop ids w = (Inr rs, w)" ..
    with replay_loop_ok [OF assms(1) that this] show ?thesis by simp
  qed
  have "Replay w = replay_loop (wal_ids w) w"
    using assms(2) by (simp add: Replay_def listSegmentIDs_def wal_fault_nil)
  then show ?thesis using loop [of "wal_ids w"] by (simp add: wal_log_def comp_def)
qed

section \<open>A crash in the middle of an append\<close>

text \<open>
  Every append is synced before it is acknowledged, so a crash leaves the acknowledged records
  and a prefix \<open>p\<close> of the bytes of the append in flight.
\<close>

definition crash_dir :: "wal \<Rightarrow> bytes \<Rightarrow> dir" where
  "crash_dir w p =
     (let name = segmentPath w (wal_segmentID w) in dir_put name (file_contents w name @ p) (wal_dir w))"

lemma replay_loop_values:
  assumes "wal_tape w = []"
    and "\<forall>i \<in> set ids. dir_get (wal_dir w) (segmentPath w i) = Some (c i)"
    and "\<forall>i \<in> set (butlast ids). replaySegment False (c i) = Inr (f i)"
    and "ids \<noteq> [] \<Longrightarrow> replaySegment True (c (last ids)) = Inr (f (last ids))"
  shows "replay_loop ids w = (Inr (concat (map f ids)), w)"
  using assms(2-)
proof (induction ids)
  case Nil
  then show ?case by simp
next
  case (Cons i ids)
  have IH: "replay_loop ids w = (Inr (concat (map f ids)), w)"
    by (rule Cons.IH) (use Cons.prems in \<open>auto split: if_splits\<close>)
  have "replaySegment (ids = []) (c i) = Inr (f i)"
    using Cons.prems(2,3) by (cases "ids = []") auto
  with Cons.prems(1) IH show ?case by (simp add: wal_fault_nil [OF assms(1)])
qed

text \<open>A log created under the file name \<open>base\<close>.\<close>

definition named :: "string \<Rightarrow> wal \<Rightarrow> bool" where
  "named base w \<longleftrightarrow> wal_extn w = path_ext base \<and> wal_prefix w = trim_suffix base (path_ext base)"

lemma crash_recovery:
  assumes ok: "wal_ok w" and nm: "named base w" and acc: "accepts r"
    and torn: "encode_record r = p @ q" "q \<noteq> []" and m: "m \<noteq> 0"
  obtains w1 where "CreateWALWithSegmentSize (crash_dir w p) base m [] = (Inr (), w1)"
    "Replay w1 = (Inr (log_records (wal_log w)), w1)"
    "wal_segmentID w1 = wal_segmentID w" "wal_dir w1 = crash_dir w p" "segmentPath w1 = segmentPath w"
    "wal_ids w1 = wal_ids w" "wal_tape w1 = []" "wal_file w1 = Some (segmentPath w (wal_segmentID w))"
    "wal_size w1 = word_of_nat (length (file_contents w (segmentPath w (wal_segmentID w)) @ p))"
    "wal_maxSegmentSize w1 = m"
proof -
  let ?i = "wal_segmentID w"
  let ?n = "segmentPath w ?i"
  let ?c = "file_contents w ?n"
  note W = wal_okD [OF ok]
  define w0 where "w0 = \<lparr>wal_dir = crash_dir w p, wal_prefix = wal_prefix w, wal_extn = wal_extn w,
       wal_maxSegmentSize = m, wal_segmentID = 0, wal_size = 0, wal_file = None, wal_tape = []\<rparr>"
  have path: "segmentPath w0 = segmentPath w" by (simp add: segmentPath_def w0_def fun_eq_iff)
  have mem: "?n \<in> set (map fst (wal_dir w))"
    using W(1,3) wal_ids_iff by (metis map_of_eq_None_iff set_map)
  have ids0: "wal_ids w0 = wal_ids w"
    using mem by (simp add: wal_ids_def w0_def crash_dir_def Let_def update_keys)
  obtain ids where ids: "wal_ids w = ids @ [?i]" "\<forall>i \<in> set ids. i < ?i"
    using ok by (rule wal_ids_active)
  have get: "dir_get (crash_dir w p) ?n = Some (?c @ p)" by (simp add: crash_dir_def Let_def)
  have put: "dir_put ?n (?c @ p) (crash_dir w p) = crash_dir w p"
    using get by (rule update_triv)
  let ?w1 = "w0\<lparr>wal_file := Some ?n, wal_segmentID := ?i, wal_size := word_of_nat (length (?c @ p))\<rparr>"
  have create: "CreateWALWithSegmentSize (crash_dir w p) base m [] = (Inr (), ?w1)"
  proof -
    have w0: "new_wal (crash_dir w p) base m [] = w0"
      using nm m by (simp add: w0_def named_def new_wal_def)
    have ne: "wal_ids w0 = ids @ [?i]" by (simp add: ids0 ids)
    have tape: "wal_tape w0 = []" and dir: "wal_dir w0 = crash_dir w p" by (simp_all add: w0_def)
    have "openSegment ?i w0 = (Inr (), ?w1)"
      using get put tape by (simp add: openSegment_def wal_fault_nil path Let_def file_contents_def dir)
    then show ?thesis
      using tape by (simp add: CreateWALWithSegmentSize_def w0 listSegmentIDs_def wal_fault_nil ne adoptLegacy_def)
  qed
  have p1: "segmentPath ?w1 = segmentPath w" and i1: "wal_ids ?w1 = wal_ids w"
    by (simp_all add: path ids0)
  have t1: "wal_tape ?w1 = []" by (simp add: w0_def)
  have d1: "wal_dir ?w1 = crash_dir w p" by (simp add: w0_def)
  let ?f = "\<lambda>i. seg_records (file_contents w (segmentPath w i))"
  let ?b = "\<lambda>i. if i = ?i then ?c @ p else file_contents w (segmentPath w i)"
  have good: "\<forall>r \<in> set (?f i). good_record r" "segment_bytes (?f i) = file_contents w (segmentPath w i)" for i
    using files_ok_contents [OF W(1), of i] by (auto simp: seg_ok_def)
  have "replay_loop (wal_ids w) ?w1 = (Inr (concat (map ?f (wal_ids w))), ?w1)"
  proof (rule replay_loop_values)
    show "wal_tape ?w1 = []" by (simp add: w0_def)
    show "\<forall>i \<in> set (wal_ids w). dir_get (wal_dir ?w1) (segmentPath ?w1 i) = Some (?b i)"
      unfolding p1 d1 using W(1) by (auto simp: crash_dir_def Let_def file_contents_def wal_ids_iff)
    have torn_ok: "replaySegment True (?c @ p) = Inr (?f ?i)"
    proof -
      have "good_record (stamped r)" using acc by (simp add: accepts_def)
      from replay_one_torn(1) [OF this _ torn(2)] torn(1) have "replay_one True p = Stop" by simp
      then have "replaySegment True p = Inr []" by (rule replay_Stop)
      with replay_records [OF good(1) [of ?i], of True p] show ?thesis by (simp add: good(2))
    qed
    have old: "replaySegment t (file_contents w (segmentPath w i)) = Inr (?f i)" for i t
      using replay_segment_bytes [OF good(1) [of i], of t] by (simp add: good(2))
    show "\<forall>i \<in> set (butlast (wal_ids w)). replaySegment False (?b i) = Inr (?f i)"
      using old ids by auto
    show "replaySegment True (?b (last (wal_ids w))) = Inr (?f (last (wal_ids w)))"
      using torn_ok by (simp add: ids(1))
  qed
  then have "Replay ?w1 = (Inr (log_records (wal_log w)), ?w1)"
    using t1 by (simp add: Replay_def listSegmentIDs_def wal_fault_nil i1 ids0 wal_log_def comp_def)
  then show ?thesis using that [OF create] d1 p1 i1 t1 ids0 by (simp add: w0_def)
qed

text \<open>
  What the next append finds after such a crash. \<^verbatim>\<open>CreateWALWithSegmentSize\<close> reopens the torn
  segment for appending; unless a recovery flush rotates first, the next record lands behind
  the torn bytes. Three torn bytes and a record whose payload length has a low byte above 4
  are enough to make replay fail: the length field it reads is then over the size cap.
\<close>

lemma replay_after_torn_header:
  assumes "length p = 3" and "4 < length (encode_payload (Span r)) mod 256" and "Version r = CurrentWALVersion"
  shows "\<exists>n. replay_one True (p @ encode_record r @ rest) = Fail (RecordTooLarge n)"
proof -
  let ?pay = "encode_payload (Span r)"
  let ?crc = "put_u32 (crc32 ?pay)" and ?len = "put_u32 (word_of_nat (length ?pay))"
  have rec: "encode_record r = CurrentWALVersion # ?crc @ ?len @ ?pay"
    using assms(3) by (auto simp: encode_record_def record_header_def CurrentWALVersion_def Let_def)
  let ?h = "p @ CurrentWALVersion # ?crc @ take 1 ?len"
  have lenh: "length ?h = recordHeaderSize" using assms(1) by (simp add: recordHeaderSize_def)
  have split: "p @ encode_record r @ rest = ?h @ drop 1 ?len @ ?pay @ rest"
    unfolding rec by simp
  have field: "bslice 5 9 ?h = drop 1 ?crc @ take 1 ?len"
    using assms(1) by (simp add: bslice_def)
  define low where "low = (word_of_nat (length ?pay) :: byte)"
  have low: "take 1 ?len = [low]"
    by (simp add: put_u32_def numeral_eq_Suc low_def unsigned_of_nat word_of_nat_eq_iff)
  obtain b0 b1 b2 b3 where crc: "?crc = [b0, b1, b2, b3]"
    by (simp add: put_u32_def numeral_eq_Suc)
  have "bslice 5 9 ?h = [b1, b2, b3, low]" using field low crc by simp
  then have size: "2 ^ 24 * unat low \<le> unat (get_u32 (bslice 5 9 ?h))"
    using get_u32_top [of low b1 b2 b3] by (simp only:)
  have "maxRecordSize < unat (get_u32 (bslice 5 9 ?h))"
    using size assms(2) by (simp add: low_def unat_of_nat maxRecordSize_def)
  then show ?thesis
    unfolding split replay_one_def read_full_append [OF lenh header_size] by (simp add: Let_def)
qed

section \<open>The log as its client sees it\<close>

text \<open>Appending one record after the other, stopping at the first failure.\<close>

fun append_all :: "('r \<Rightarrow> 's \<Rightarrow> ('e + u64) \<times> 's) \<Rightarrow> 'r list \<Rightarrow> 's \<Rightarrow> ('e + u64 list) \<times> 's" where
  "append_all ap [] s = (Inr [], s)"
| "append_all ap (r # rs) s =
     rbind (ap r s) (\<lambda>i s. rbind (append_all ap rs s) (\<lambda>is s. (Inr (i # is), s)))"

locale segmented_log =
  fixes ok :: "'s \<Rightarrow> bool"
    and active :: "'s \<Rightarrow> u64"
    and log :: "'s \<Rightarrow> (u64 \<times> 'r list) list"
    and good :: "'r \<Rightarrow> bool"
    and stamp :: "'r \<Rightarrow> 'r"
    and append_rec :: "'r \<Rightarrow> 's \<Rightarrow> ('e + u64) \<times> 's"
    and rotate :: "'s \<Rightarrow> ('e + u64) \<times> 's"
    and remove_upto :: "u64 \<Rightarrow> 's \<Rightarrow> ('e + unit) \<times> 's"
    and replay :: "'s \<Rightarrow> ('e + 'r list) \<times> 's"
  assumes log_last: "ok s \<Longrightarrow> \<exists>l rs. log s = l @ [(active s, rs)] \<and> (\<forall>(i, qs) \<in> set l. i < active s)"
    and append_log: "ok s \<Longrightarrow> active s \<noteq> - 1 \<Longrightarrow> good r \<Longrightarrow> append_rec r s = (Inr i, s') \<Longrightarrow>
      ok s' \<and> active s' = i \<and> (i = active s \<or> i = active s + 1) \<and> log s' = log_add i (stamp r) (log s)"
    and rotate_log: "ok s \<Longrightarrow> active s \<noteq> - 1 \<Longrightarrow> rotate s = (Inr k, s') \<Longrightarrow>
      k = active s \<and> ok s' \<and> active s' = active s + 1 \<and> log s' = log s @ [(active s + 1, [])]"
    and remove_log: "ok s \<Longrightarrow> remove_upto b s = (res, s') \<Longrightarrow> ok s' \<and> active s' = active s \<and>
      (\<exists>D. log s' = log_drop D (log s) \<and> D \<subseteq> {i. i \<le> b \<and> i \<noteq> active s}
         \<and> (res = Inr () \<longrightarrow> D = {i. i \<le> b \<and> i \<noteq> active s}))"
    and replay_log: "ok s \<Longrightarrow> replay s = (Inr rs, s') \<Longrightarrow> rs = log_records (log s) \<and> ok s' \<and> log s' = log s"
begin

lemma append_records:
  assumes "ok s" "active s \<noteq> - 1" "good r" "append_rec r s = (Inr i, s')"
  shows "log_records (log s') = log_records (log s) @ [stamp r]"
proof -
  from append_log [OF assms] have "log s' = log_add i (stamp r) (log s)" by simp
  then show ?thesis by (cases "log s" rule: rev_cases) (auto simp: log_add_def)
qed

text \<open>Appending adds at or above the active segment and never touches an older one.\<close>

lemma append_drop:
  assumes "ok s" "active s \<noteq> - 1" "good r" "append_rec r s = (Inr i, s')" "\<forall>j \<in> D. j < active s"
  shows "log_records (log_drop D (log s')) = log_records (log_drop D (log s)) @ [stamp r]"
proof -
  note A = append_log [OF assms(1-4)]
  obtain l rs where l: "log s = l @ [(active s, rs)]" using log_last [OF assms(1)] by auto
  have "active s < active s + 1" using assms(2) by (rule word_less_inc)
  then have "i \<notin> D" "active s \<notin> D" using A assms(5) by (auto dest: order.strict_trans)
  with A l show ?thesis by (auto simp: log_add_def log_drop_def)
qed

lemma append_mono:
  assumes "ok s" "active s \<noteq> - 1" "good r" "append_rec r s = (Inr i, s')"
  shows "active s \<le> active s' \<and> unat (active s') \<le> Suc (unat (active s))"
proof -
  have "active s < active s + 1" using assms(2) by (rule word_less_inc)
  moreover have "unat (active s + 1) \<le> Suc (unat (active s))"
    by (metis add.commute unatSuc unat_0 le_SucI le_refl zero_le Suc_leI)
  ultimately show ?thesis using append_log [OF assms] by auto
qed

lemma append_all_drop:
  assumes "ok s" "unat (active s) + length rs < 2 ^ 64" "\<forall>r \<in> set rs. good r"
    "append_all append_rec rs s = (Inr is, s')" "\<forall>j \<in> D. j < active s"
  shows "ok s' \<and> active s \<le> active s' \<and>
    log_records (log_drop D (log s')) = log_records (log_drop D (log s)) @ map stamp rs"
  using assms
proof (induction rs arbitrary: s "is")
  case Nil
  then show ?case by simp
next
  case (Cons r rs)
  from Cons.prems(4) obtain i v js where a: "append_rec r s = (Inr i, v)"
    and rest: "append_all append_rec rs v = (Inr js, s')" by (auto simp: rbind_Inr_iff)
  have top: "active s \<noteq> - 1" by (rule u64_not_max) (use Cons.prems(2) in simp)
  have good: "good r" using Cons.prems(3) by simp
  note A = append_log [OF Cons.prems(1) top good a] append_mono [OF Cons.prems(1) top good a]
    append_drop [OF Cons.prems(1) top good a Cons.prems(5)]
  have "ok s' \<and> active v \<le> active s' \<and>
      log_records (log_drop D (log s')) = log_records (log_drop D (log v)) @ map stamp rs"
    by (rule Cons.IH [OF _ _ _ rest]) (use A Cons.prems in \<open>auto dest: less_le_trans\<close>)
  with A show ?case by auto
qed

text \<open>
  The flush protocol of the engine: rotate, keep appending, reclaim up to the sealed segment.
  Replay then returns exactly what was appended since the rotation.
\<close>

lemma reclaim_keeps_newer:
  assumes ok: "ok s" and room: "unat (active s) + length rs + 1 < 2 ^ 64" and good: "\<forall>r \<in> set rs. good r"
    and rot: "rotate s = (Inr sealed, s1)" and app: "append_all append_rec rs s1 = (Inr is, s2)"
    and rem: "remove_upto sealed s2 = (Inr (), s3)" and rep: "replay s3 = (Inr out, s4)"
  shows "out = map stamp rs"
proof -
  have top: "active s \<noteq> - 1" by (rule u64_not_max) (use room in simp)
  note R = rotate_log [OF ok top rot]
  have up: "active s < active s + 1" using top by (rule word_less_inc)
  have u1: "unat (active s + 1) = unat (active s) + 1"
    using top by (metis add.commute add_eq_0_iff unatSuc Suc_eq_plus1)
  let ?D = "{i. i \<le> sealed}"
  have D: "\<forall>j \<in> ?D. j < active s1" using R up by (auto intro: le_less_trans)
  have "unat (active s1) + length rs < 2 ^ 64" using R u1 room by simp
  from append_all_drop [OF _ this good app D] R
  have A: "ok s2" "active s1 \<le> active s2"
    "log_records (log_drop ?D (log s2)) = log_records (log_drop ?D (log s1)) @ map stamp rs" by auto
  have "\<not> active s2 \<le> sealed" using A(2) R up by auto
  then have "{i. i \<le> sealed \<and> i \<noteq> active s2} = ?D" by auto
  with remove_log [OF A(1) rem] have S3: "ok s3" "log s3 = log_drop ?D (log s2)" by auto
  obtain l qs where l: "log s = l @ [(active s, qs)]" "\<forall>(i, qs) \<in> set l. i < active s"
    using log_last [OF ok] by auto
  have "log_drop ?D (log s1) = [(active s + 1, [])]"
  proof -
    have "filter (\<lambda>(i, rs). i \<notin> ?D) l = []" using l(2) R by (auto simp: filter_empty_conv less_imp_le)
    then show ?thesis using R up l(1) by (auto simp: log_drop_def)
  qed
  with replay_log [OF S3(1) rep] S3(2) A(3) show ?thesis by simp
qed

end

interpretation wl: segmented_log wal_ok wal_segmentID wal_log accepts stamped AppendRecordWithSeg Rotate
  RemoveSegmentsUpTo Replay
proof (unfold_locales, goal_cases last app rot rem rep)
  case (last s)
  then show ?case by (metis wal_log_active)
next
  case (app s r i s')
  then show ?case by (rule append_ok)
next
  case (rot s k s')
  then show ?case using rotateLocked_ok [of s k s'] by (simp add: Rotate_def)
next
  case (rem s b res s')
  then show ?case by (rule remove_ok)
next
  case (rep s rs s')
  from rep(1) have files: "wal_files_ok s" by (rule wal_okD)
  obtain t where "s' = s\<lparr>wal_tape := t\<rparr>" "rs = log_records (wal_log s)"
    using replay_ok [OF files rep(2)] by auto
  with rep(1) show ?case by simp
qed

section \<open>Opening a directory\<close>

lemma openSegment_existing:
  assumes files: "wal_files_ok w" and i: "i \<in> set (wal_ids w)" "\<forall>j \<in> set (wal_ids w). j \<le> i"
    and op: "openSegment i w = (Inr u, w')"
  shows "wal_ok w' \<and> wal_segmentID w' = i \<and> wal_log w' = wal_log w"
proof -
  let ?n = "segmentPath w i" and ?c = "file_contents w (segmentPath w i)"
  from files i(1) obtain b where b: "dir_get (wal_dir w) ?n = Some b" using wal_ids_iff by blast
  then have c: "?c = b" by (simp add: file_contents_def)
  have put: "dir_put ?n ?c (wal_dir w) = wal_dir w" unfolding c using b by (rule update_triv)
  obtain f t where ft: "wal_fault w = (f, w\<lparr>wal_tape := t\<rparr>)" by (rule wal_fault_cases)
  obtain f' t' where ft': "wal_fault (w\<lparr>wal_tape := t\<rparr>) = (f', w\<lparr>wal_tape := t'\<rparr>)"
    by (rule wal_fault_cases [of "w\<lparr>wal_tape := t\<rparr>"]) simp
  have same: "w\<lparr>wal_tape := t, wal_dir := wal_dir w\<rparr> = w\<lparr>wal_tape := t\<rparr>" by (cases w) simp
  have w': "w' = w\<lparr>wal_tape := t', wal_file := Some ?n, wal_segmentID := i, wal_size := word_of_nat (length ?c)\<rparr>"
    using op ft ft' by (simp add: openSegment_def Let_def put same split: option.splits)
  show ?thesis using files i by (auto simp: w' wal_ok_def)
qed

text \<open>
  A log opened on a directory of whole segments (and without a file of the time before
  segments) holds what the directory holds; the first segment of an empty directory is 1.
\<close>

lemma create_ok:
  assumes files: "wal_files_ok (new_wal d base m t)" and legacy: "dir_get d base = None"
    and create: "CreateWALWithSegmentSize d base m t = (Inr u, w)"
  shows "wal_ok w \<and> wal_log w =
    (if wal_log (new_wal d base m t) = [] then [(1, [])] else wal_log (new_wal d base m t))"
proof -
  let ?w = "new_wal d base m t"
  have dir: "wal_dir ?w = d" by (simp add: new_wal_def)
  obtain f t' where ft: "wal_fault ?w = (f, ?w\<lparr>wal_tape := t'\<rparr>)" by (rule wal_fault_cases)
  have none: "f = None"
    using create ft by (auto simp: CreateWALWithSegmentSize_def listSegmentIDs_def split: option.splits)
  have op: "openSegment (if wal_ids ?w = [] then 1 else last (wal_ids ?w)) (?w\<lparr>wal_tape := t'\<rparr>) = (Inr u, w)"
    using create legacy unfolding CreateWALWithSegmentSize_def listSegmentIDs_def ft none
    by (cases "wal_ids ?w = []") (simp_all add: adoptLegacy_def dir)
  have files': "wal_files_ok (?w\<lparr>wal_tape := t'\<rparr>)" using files by simp
  show ?thesis
  proof (cases "wal_ids ?w = []")
    case True
    with op have "openSegment 1 (?w\<lparr>wal_tape := t'\<rparr>) = (Inr u, w)" by simp
    from openSegment_new [OF files' _ this] True show ?thesis by (simp add: wal_log_def)
  next
    case False
    let ?i = "last (wal_ids ?w)"
    have max: "?i \<in> set (wal_ids ?w)" "\<forall>j \<in> set (wal_ids ?w). j \<le> ?i"
      using False sorted_last_ge [OF sorted_wal_ids] by auto
    from False op have "openSegment ?i (?w\<lparr>wal_tape := t'\<rparr>) = (Inr u, w)" by simp
    from openSegment_existing [OF files' _ _ this] max False show ?thesis by (simp add: wal_log_def)
  qed
qed

section \<open>Without a failure every operation succeeds\<close>

definition quiet :: "wal \<Rightarrow> bool" where
  "quiet w \<longleftrightarrow> wal_ok w \<and> wal_tape w = []"

lemma openSegment_quiet:
  "wal_tape w = [] \<Longrightarrow> \<exists>w'. openSegment i w = (Inr (), w') \<and> wal_tape w' = []"
  by (simp add: openSegment_def wal_fault_nil Let_def)

lemma rotate_quiet:
  assumes "quiet w" "wal_segmentID w \<noteq> - 1"
  shows "\<exists>w'. Rotate w = (Inr (wal_segmentID w), w') \<and> quiet w' \<and> wal_segmentID w' = wal_segmentID w + 1"
proof -
  obtain w' where "openSegment (wal_segmentID w + 1) (w\<lparr>wal_file := None\<rparr>) = (Inr (), w')" "wal_tape w' = []"
    using openSegment_quiet [of "w\<lparr>wal_file := None\<rparr>" "wal_segmentID w + 1"] assms(1) by (auto simp: quiet_def)
  then have w': "rotateLocked w = (Inr (wal_segmentID w), w')" "wal_tape w' = []"
    using assms(1) by (simp_all add: rotateLocked_def sealFile_def wal_fault_nil quiet_def wal_ok_def Let_def)
  with rotateLocked_ok [OF _ assms(2) w'(1)] assms(1) show ?thesis by (auto simp: Rotate_def quiet_def)
qed

lemma write_quiet:
  assumes "wal_tape w = []"
  shows "\<exists>w'. write_and_sync bs w = (Inr (wal_segmentID w), w') \<and> wal_tape w' = []"
  using assms by (auto simp: write_and_sync_def wal_fault_nil append_bytes_def Let_def split: option.splits)

lemma append_quiet:
  assumes "quiet w" "wal_segmentID w \<noteq> - 1" "accepts r"
  shows "\<exists>i w'. AppendRecordWithSeg r w = (Inr i, w') \<and> quiet w'
    \<and> log_records (wal_log w') = log_records (wal_log w) @ [stamped r]"
proof -
  obtain v where v: "Rotate w = (Inr (wal_segmentID w), v)" "quiet v"
    using rotate_quiet [OF assms(1,2)] by auto
  obtain v1 where v1: "write_and_sync (encode_record r) v = (Inr (wal_segmentID v), v1)" "wal_tape v1 = []"
    using write_quiet [of v] v(2) by (auto simp: quiet_def)
  obtain w1 where w1: "write_and_sync (encode_record r) w = (Inr (wal_segmentID w), w1)" "wal_tape w1 = []"
    using write_quiet [of w] assms(1) by (auto simp: quiet_def)
  have "wal_file w \<noteq> None" using assms(1) by (simp add: quiet_def wal_ok_def)
  then have "AppendRecordWithSeg r w = (Inr (wal_segmentID v), v1) \<or>
      AppendRecordWithSeg r w = (Inr (wal_segmentID w), w1)"
    using v(1) v1(1) w1(1) by (auto simp: AppendRecordWithSeg_def Let_def Rotate_def)
  then obtain i w' where w': "AppendRecordWithSeg r w = (Inr i, w')" "wal_tape w' = []"
    using v1(2) w1(2) that by blast
  from assms(1) have ok: "wal_ok w" by (simp add: quiet_def)
  from append_ok [OF ok assms(2,3) w'(1)] wl.append_records [OF ok assms(2,3) w'(1)] w'
  show ?thesis by (auto simp: quiet_def)
qed

lemma append_no_rotate:
  assumes "wal_tape w = []" "wal_file w \<noteq> None"
    and "\<not> wal_maxSegmentSize w < wal_size w + word_of_nat (recordHeaderSize + payload_encoded_size (Span r))"
  shows "\<exists>w'. AppendRecordWithSeg r w = (Inr (wal_segmentID w), w')"
  using assms write_quiet [OF assms(1), of "encode_record r"] by (auto simp: AppendRecordWithSeg_def Let_def)

lemma remove_loop_quiet:
  "wal_tape w = [] \<Longrightarrow> \<exists>w'. remove_loop ids b f w = (f, w') \<and> wal_tape w' = []"
  by (induction ids b f w rule: remove_loop.induct) (auto simp: wal_fault_nil)

lemma remove_quiet:
  assumes "quiet w"
  shows "\<exists>w'. RemoveSegmentsUpTo b w = (Inr (), w') \<and> quiet w'"
proof -
  obtain w' where w': "RemoveSegmentsUpTo b w = (Inr (), w')" "wal_tape w' = []"
    using remove_loop_quiet [of w "wal_ids w" b False] assms
    by (auto simp: RemoveSegmentsUpTo_def listSegmentIDs_def wal_fault_nil quiet_def)
  with remove_ok [OF _ w'(1)] assms show ?thesis by (auto simp: quiet_def)
qed

lemma replay_quiet: "quiet w \<Longrightarrow> Replay w = (Inr (log_records (wal_log w)), w)"
  by (rule replay_no_fault) (auto simp: quiet_def wal_ok_def)

lemma new_wal_nil [simp]: "wal_files_ok (new_wal [] base m t)" "wal_log (new_wal [] base m t) = []"
  by (simp_all add: wal_files_ok_def new_wal_def dir_ok_def wal_log_def wal_ids_def List.map_filter_def)

lemma create_quiet:
  "\<exists>w. CreateWALWithSegmentSize [] base m [] = (Inr (), w) \<and> quiet w \<and> wal_log w = [(1, [])]
     \<and> named base w \<and> wal_segmentID w = 1"
proof -
  obtain w where w: "CreateWALWithSegmentSize [] base m [] = (Inr (), w)" "wal_tape w = []"
      "named base w" "wal_segmentID w = 1"
    by (auto simp: CreateWALWithSegmentSize_def listSegmentIDs_def wal_fault_nil new_wal_def adoptLegacy_def
        wal_ids_def List.map_filter_def openSegment_def Let_def named_def)
  have "wal_ok w \<and> wal_log w = [(1, [])]" using create_ok [OF _ _ w(1)] by simp
  with w show ?thesis by (auto simp: quiet_def)
qed

lemma corrupt_segment:
  assumes "\<forall>r \<in> set rs. good_record r" "good_record r"
    and "encode_payload (Span r) = xs @ a # ys" "a \<noteq> b"
  shows "replaySegment t (segment_bytes rs @ record_header CurrentWALVersion (encode_payload (Span r))
     @ xs @ b # ys @ rest) = Inl ChecksumMismatch"
  using replay_records [OF assms(1)] replay_Fail [OF replay_corrupt_byte [OF assms(2-4), of t rest]] by simp

section \<open>Appending behind a torn tail\<close>

lemma replay_loop_last_fails:
  assumes "wal_tape w = []"
    and "\<forall>i \<in> set ids. \<exists>b rs. dir_get (wal_dir w) (segmentPath w i) = Some b \<and> replaySegment False b = Inr rs"
    and "dir_get (wal_dir w) (segmentPath w k) = Some c" "replaySegment True c = Inl e"
  shows "replay_loop (ids @ [k]) w = (Inl e, w)"
  using assms(2)
proof (induction ids)
  case Nil
  then show ?case using assms by (simp add: wal_fault_nil)
next
  case (Cons i ids)
  then show ?case using assms(1) by (auto simp: wal_fault_nil)
qed

text \<open>
  The log after the torn bytes, whether a crash left them and the log was reopened or the process
  that failed to write the record lives on.
\<close>

definition behind_torn :: "wal \<Rightarrow> bytes \<Rightarrow> wal \<Rightarrow> bool" where
  "behind_torn w p v \<longleftrightarrow> wal_segmentID v = wal_segmentID w \<and> wal_dir v = crash_dir w p \<and> segmentPath v = segmentPath w
     \<and> wal_ids v = wal_ids w \<and> wal_tape v = [] \<and> wal_file v = Some (segmentPath w (wal_segmentID w))"

lemma append_behind_torn_breaks_replay:
  assumes ok: "wal_ok w" and torn: "length p = 3" and behind: "behind_torn w p v"
    and next_rec: "Version r' = CurrentWALVersion" "4 < payload_encoded_size (Span r') mod 256"
    and app: "AppendRecordWithSeg r' v = (Inr i, w2)" "i = wal_segmentID v"
  shows "\<exists>n. Replay w2 = (Inl (RecordTooLarge n), w2)"
proof -
  have v: "wal_segmentID v = wal_segmentID w" "wal_segmentID v = wal_segmentID w" "wal_dir v = crash_dir w p" "segmentPath v = segmentPath w"
    "wal_ids v = wal_ids w" "wal_tape v = []" "wal_file v = Some (segmentPath w (wal_segmentID w))"
    using behind by (simp_all add: behind_torn_def)
  let ?i = "wal_segmentID w"
  let ?n = "segmentPath w ?i"
  note W = wal_okD [OF ok]
  let ?c = "file_contents w ?n"
  have cv: "file_contents v ?n = ?c @ p" using v(3) by (simp add: file_contents_def crash_dir_def Let_def)
  have norot: "AppendRecordWithSeg r' v = write_and_sync (encode_record r') v"
  proof (rule ccontr)
    assume "AppendRecordWithSeg r' v \<noteq> write_and_sync (encode_record r') v"
    then obtain u s where "rotateLocked v = (Inr s, u)" "write_and_sync (encode_record r') u = (Inr i, w2)"
      using app(1) v(7) by (auto simp: AppendRecordWithSeg_def Let_def rbind_Inr_iff split: if_splits)
    moreover from this v(6,7) have "wal_segmentID u = wal_segmentID v + 1"
      by (auto simp: rotateLocked_def sealFile_def openSegment_def wal_fault_nil Let_def)
    ultimately have "i = wal_segmentID v + 1"
      by (auto simp: write_and_sync_def wal_fault_def append_bytes_def Let_def split: option.splits prod.splits)
    with app(2) show False by simp
  qed
  have w2: "wal_dir w2 = dir_put ?n ((?c @ p) @ encode_record r') (crash_dir w p)" "wal_tape w2 = []"
    "segmentPath w2 = segmentPath w" "wal_file w2 \<noteq> None" "wal_prefix w2 = wal_prefix v" "wal_extn w2 = wal_extn v"
    using app(1) v cv unfolding norot
    by (auto simp: write_and_sync_def wal_fault_nil append_bytes_def Let_def)
  obtain ids where ids: "wal_ids w = ids @ [?i]" "\<forall>i \<in> set ids. i < ?i"
    using ok by (rule wal_ids_active)
  have "?n \<in> set (map fst (wal_dir v))"
    unfolding v(3) crash_dir_def Let_def using W(1,3) by (simp add: update_keys)
  then have ids2: "wal_ids w2 = ids @ [?i]"
    using ids(1) v(3,5) by (simp add: wal_ids_def w2 update_keys)
  let ?f = "\<lambda>i. seg_records (file_contents w (segmentPath w i))"
  have good: "\<forall>r \<in> set (?f i). good_record r" "segment_bytes (?f i) = file_contents w (segmentPath w i)" for i
    using files_ok_contents [OF W(1), of i] by (auto simp: seg_ok_def)
  obtain n where n: "replay_one True (p @ encode_record r') = Fail (RecordTooLarge n)"
    using replay_after_torn_header [OF torn _ next_rec(1), of "[]"] next_rec(2)
    by (auto simp: length_encode_payload)
  have bad: "replaySegment True ((?c @ p) @ encode_record r') = Inl (RecordTooLarge n)"
    using replay_records [OF good(1) [of ?i], of True "p @ encode_record r'"] replay_Fail [OF n]
    by (simp add: good(2))
  have "replay_loop (ids @ [?i]) w2 = (Inl (RecordTooLarge n), w2)"
  proof (rule replay_loop_last_fails [OF w2(2) _ _ bad])
    show "\<forall>i \<in> set ids. \<exists>b rs. dir_get (wal_dir w2) (segmentPath w2 i) = Some b \<and> replaySegment False b = Inr rs"
    proof
      fix j assume j: "j \<in> set ids"
      then have "j \<in> set (wal_ids w)" using ids(1) by simp
      with W(1) obtain b where b: "dir_get (wal_dir w) (segmentPath w j) = Some b" using wal_ids_iff by blast
      have "replaySegment False b = Inr (?f j)"
        using replay_segment_bytes [OF good(1) [of j], of False] good(2) [of j] b by (simp add: file_contents_def)
      moreover have "dir_get (wal_dir w2) (segmentPath w2 j) = Some b"
        using b j ids(2) by (auto simp: w2 crash_dir_def Let_def)
      ultimately show "\<exists>b rs. dir_get (wal_dir w2) (segmentPath w2 j) = Some b \<and> replaySegment False b = Inr rs"
        by blast
    qed
  qed (simp add: w2)
  then have "Replay w2 = (Inl (RecordTooLarge n), w2)"
    using w2 ids2 by (simp add: Replay_def listSegmentIDs_def wal_fault_nil)
  then show ?thesis ..
qed

lemma reopened_behind_torn:
  assumes "wal_ok w" "named base w" "accepts r" "encode_record r = p @ q" "q \<noteq> []" "m \<noteq> 0"
    and "CreateWALWithSegmentSize (crash_dir w p) base m [] = (Inr (), v)"
  shows "behind_torn w p v"
  using crash_recovery [OF assms(1-6)] assms(7) by (auto simp: behind_torn_def)

lemma failed_append_behind_torn:
  assumes ok: "wal_ok w" and tape: "wal_tape w = [Some n]"
    and fit: "\<not> (0 < wal_size w \<and> wal_maxSegmentSize w < wal_size w + word_of_nat (recordHeaderSize + payload_encoded_size (Span r)))"
    and app: "AppendRecordWithSeg r w = (res, v)"
  shows "res = Inl WalIO \<and> behind_torn w (take n (encode_record r)) v"
proof -
  note W = wal_okD [OF ok]
  obtain b where "dir_get (wal_dir w) (segmentPath w (wal_segmentID w)) = Some b" using W(1,3) wal_ids_iff by blast
  then have "segmentPath w (wal_segmentID w) \<in> set (map fst (wal_dir w))" by (force dest: map_of_SomeD)
  then have keys: "map fst (dir_put (segmentPath w (wal_segmentID w)) x (wal_dir w)) = map fst (wal_dir w)" for x
    by (simp add: update_keys)
  let ?n = "segmentPath w (wal_segmentID w)" and ?p = "take n (encode_record r)"
  have "AppendRecordWithSeg r w = (Inl WalIO, w\<lparr>wal_tape := [], wal_dir := dir_put ?n (file_contents w ?n @ ?p) (wal_dir w),
      wal_size := wal_size w + word_of_nat (length ?p)\<rparr>)"
    using fit tape W(2) by (auto simp: AppendRecordWithSeg_def write_and_sync_def wal_fault_def append_bytes_def file_contents_def segmentPath_def Let_def)
  with app show ?thesis
    using W(2) keys by (auto simp: behind_torn_def crash_dir_def wal_ids_def segmentPath_def Let_def)
qed

end
