(* ===== verification/File_Store.thy ===== *)
theory File_Store
  imports WT_Prelude
begin

text \<open>
  A directory of files with its schedule of input/output failures, and the way the checkpoint,
  the manifest and the rollup snapshots replace a file: write a temporary file, sync it, rename
  it into place.
\<close>

record file_store =
  fs_dir :: dir
  fs_tape :: tape

definition fs_fault :: "file_store \<Rightarrow> nat option \<times> file_store" where
  "fs_fault st = (case next_fault (fs_tape st) of (f, t) \<Rightarrow> (f, st\<lparr>fs_tape := t\<rparr>))"

lemma fs_fault_cases:
  obtains f t where "fs_fault st = (f, st\<lparr>fs_tape := t\<rparr>)"
  by (cases "next_fault (fs_tape st)") (auto simp: fs_fault_def)

lemma fs_fault_nil: "fs_tape st = [] \<Longrightarrow> fs_fault st = (None, st)"
  by (cases st) (simp add: fs_fault_def)

text \<open>
  Replacing the file \<open>path\<close>: the calls are create, write (with flush), sync, close, rename; each
  may fail, a failed write leaves a part of the data in the temporary file. The answer says
  whether every call succeeded.
\<close>

definition fs_step :: "file_store \<Rightarrow> (file_store \<Rightarrow> bool \<times> file_store) \<Rightarrow> bool \<times> file_store" where
  "fs_step st k = (case fs_fault st of (Some _, st) \<Rightarrow> (False, st) | (None, st) \<Rightarrow> k st)"

definition replace_file :: "string \<Rightarrow> string \<Rightarrow> bytes \<Rightarrow> file_store \<Rightarrow> bool \<times> file_store" where
  "replace_file tmp path data st =
     fs_step st (\<lambda>st.
       let st = st\<lparr>fs_dir := dir_put tmp [] (fs_dir st)\<rparr> in
       (case fs_fault st of
          (Some n, st) \<Rightarrow> (False, st\<lparr>fs_dir := dir_put tmp (take n data) (fs_dir st)\<rparr>)
        | (None, st) \<Rightarrow>
            let st = st\<lparr>fs_dir := dir_put tmp data (fs_dir st)\<rparr> in
            fs_step st (\<lambda>st. fs_step st (\<lambda>st. fs_step st (\<lambda>st.
              (True, st\<lparr>fs_dir := dir_put path data (dir_del tmp (fs_dir st))\<rparr>))))))"

text \<open>Reading a whole file: an error, no such file, or its bytes.\<close>

definition read_file :: "string \<Rightarrow> file_store \<Rightarrow> (unit + bytes option) \<times> file_store" where
  "read_file path st =
     (case fs_fault st of
        (Some _, st) \<Rightarrow> (Inl (), st)
      | (None, st) \<Rightarrow> (Inr (dir_get (fs_dir st) path), st))"

section \<open>Atomicity\<close>

lemma replace_file_ok:
  assumes "replace_file tmp path data st = (True, st')" "n \<noteq> tmp"
  shows "dir_get (fs_dir st') n = (if n = path then Some data else dir_get (fs_dir st) n)"
  using assms
  by (auto simp: replace_file_def fs_step_def fs_fault_def Let_def split: prod.splits option.splits if_splits)

lemma replace_file_fails:
  assumes "replace_file tmp path data st = (False, st')" "n \<noteq> tmp"
  shows "dir_get (fs_dir st') n = dir_get (fs_dir st) n"
  using assms
  by (auto simp: replace_file_def fs_step_def fs_fault_def Let_def split: prod.splits option.splits if_splits)

text \<open>Whatever fails, the file holds the old contents or the new, and no other file but the temporary changes.\<close>

lemma replace_file_atomic:
  assumes "replace_file tmp path data st = (res, st')" "n \<noteq> tmp"
  shows "dir_get (fs_dir st') n = (if res \<and> n = path then Some data else dir_get (fs_dir st) n)"
  using replace_file_ok replace_file_fails assms by (cases res) auto

lemma replace_file_quiet:
  assumes "fs_tape st = []"
  shows "\<exists>st'. replace_file tmp path data st = (True, st') \<and> fs_tape st' = []"
  using assms by (simp add: replace_file_def fs_step_def fs_fault_nil Let_def)

lemma read_file_dir: "read_file path st = (Inr r, st') \<Longrightarrow> r = dir_get (fs_dir st) path \<and> fs_dir st' = fs_dir st"
  by (auto simp: read_file_def fs_fault_def split: prod.splits option.splits)

lemma read_file_same: "read_file path st = (r, st') \<Longrightarrow> fs_dir st' = fs_dir st"
  by (auto simp: read_file_def fs_fault_def split: prod.splits option.splits)

end
