(* ===== verification/Float64.thy ===== *)
theory Float64
  imports WT_Prelude
begin

text \<open>
  The operations on \<^verbatim>\<open>float64\<close> the code uses, on IEEE 754 bit patterns and executable.
  A finite value is a sign, a mantissa below 2^53 and a power of two. Every rounded operation
  takes the exact result as a quotient of naturals times a power of two and rounds it once, to
  the nearest value and to even on a tie. Comparison is comparison of the bit patterns, sign
  and magnitude.
\<close>

section \<open>Reading a bit pattern\<close>

definition f64_bits :: "f64 \<Rightarrow> nat" where "f64_bits x = unat x mod 2 ^ 63"
definition f64_neg :: "f64 \<Rightarrow> bool" where "f64_neg x \<longleftrightarrow> 2 ^ 63 \<le> unat x"
definition f64_expo :: "f64 \<Rightarrow> nat" where "f64_expo x = f64_bits x div 2 ^ 52"
definition f64_frac :: "f64 \<Rightarrow> nat" where "f64_frac x = f64_bits x mod 2 ^ 52"

definition f64_is_nan :: "f64 \<Rightarrow> bool" where "f64_is_nan x \<longleftrightarrow> 2047 * 2 ^ 52 < f64_bits x"
definition f64_is_inf :: "f64 \<Rightarrow> bool" where "f64_is_inf x \<longleftrightarrow> f64_bits x = 2047 * 2 ^ 52"
definition f64_is_zero :: "f64 \<Rightarrow> bool" where "f64_is_zero x \<longleftrightarrow> f64_bits x = 0"

text \<open>A finite value has the magnitude \<open>mant * 2 ^ scale\<close>.\<close>

definition f64_mant :: "f64 \<Rightarrow> nat" where
  "f64_mant x = (if f64_expo x = 0 then f64_frac x else f64_frac x + 2 ^ 52)"

definition f64_scale :: "f64 \<Rightarrow> int" where
  "f64_scale x = (if f64_expo x = 0 then - 1074 else int (f64_expo x) - 1075)"

definition f64_nan :: f64 where "f64_nan = 0x7FF8000000000001"

definition f64_signed :: "bool \<Rightarrow> nat \<Rightarrow> f64" where
  "f64_signed neg b = word_of_nat ((if neg then 2 ^ 63 else 0) + b)"

definition f64_inf :: "bool \<Rightarrow> f64" where "f64_inf neg = f64_signed neg (2047 * 2 ^ 52)"

section \<open>Rounding\<close>

fun bit_length :: "nat \<Rightarrow> nat" where
  "bit_length n = (if n = 0 then 0 else Suc (bit_length (n div 2)))"

declare bit_length.simps [simp del]

text \<open>Round half to even of the quotient \<open>p / q\<close>.\<close>

definition round_even :: "nat \<Rightarrow> nat \<Rightarrow> nat" where
  "round_even p q =
     (let m = p div q; r = p mod q in if q < 2 * r \<or> 2 * r = q \<and> odd m then m + 1 else m)"

text \<open>
  The value nearest to \<open>p / q * 2 ^ e\<close>. The numerator is scaled so that the quotient has more
  than 53 bits; the exponent then leaves 53 of them, or fewer below the smallest normal value.
  A mantissa that rounds up to 2^53 carries into the exponent field by itself.
\<close>

definition f64_round :: "bool \<Rightarrow> nat \<Rightarrow> nat \<Rightarrow> int \<Rightarrow> f64" where
  "f64_round neg p q e =
     (if p = 0 then f64_signed neg 0
      else
        let s = bit_length q + 54; p = p * 2 ^ s; e = e - int s;
            k = max (e + int (bit_length (p div q)) - 53) (- 1074);
            b = nat (k + 1074) * 2 ^ 52 + round_even p (q * 2 ^ nat (k - e))
        in if 2047 * 2 ^ 52 \<le> b then f64_inf neg else f64_signed neg b)"

section \<open>Arithmetic\<close>

definition f64_of_int :: "int \<Rightarrow> f64" where
  "f64_of_int n = f64_round (n < 0) (nat \<bar>n\<bar>) 1 0"

definition f64_mul :: "f64 \<Rightarrow> f64 \<Rightarrow> f64" where
  "f64_mul x y =
     (let neg = (f64_neg x \<noteq> f64_neg y) in
      if f64_is_nan x \<or> f64_is_nan y then f64_nan
      else if f64_is_inf x \<or> f64_is_inf y
      then if f64_is_zero x \<or> f64_is_zero y then f64_nan else f64_inf neg
      else f64_round neg (f64_mant x * f64_mant y) 1 (f64_scale x + f64_scale y))"

definition f64_div :: "f64 \<Rightarrow> f64 \<Rightarrow> f64" where
  "f64_div x y =
     (let neg = (f64_neg x \<noteq> f64_neg y) in
      if f64_is_nan x \<or> f64_is_nan y then f64_nan
      else if f64_is_inf x then if f64_is_inf y then f64_nan else f64_inf neg
      else if f64_is_inf y then f64_signed neg 0
      else if f64_is_zero y then if f64_is_zero x then f64_nan else f64_inf neg
      else f64_round neg (f64_mant x) (f64_mant y) (f64_scale x - f64_scale y))"

text \<open>The exact sum at the smaller scale, rounded once; an exact 0 is negative only for two negative zeros.\<close>

definition f64_signed_mant :: "f64 \<Rightarrow> int" where
  "f64_signed_mant x = (if f64_neg x then - int (f64_mant x) else int (f64_mant x))"

definition f64_add :: "f64 \<Rightarrow> f64 \<Rightarrow> f64" where
  "f64_add x y =
     (if f64_is_nan x \<or> f64_is_nan y then f64_nan
      else if f64_is_inf x then if f64_is_inf y \<and> f64_neg x \<noteq> f64_neg y then f64_nan else x
      else if f64_is_inf y then y
      else
        let k = min (f64_scale x) (f64_scale y);
            s = f64_signed_mant x * 2 ^ nat (f64_scale x - k) + f64_signed_mant y * 2 ^ nat (f64_scale y - k)
        in if s = 0 then f64_signed (f64_neg x \<and> f64_neg y) 0 else f64_round (s < 0) (nat \<bar>s\<bar>) 1 k)"

text \<open>The order of Go's \<open><\<close>: false when an operand is not a number; the two zeros are equal.\<close>

definition f64_key :: "f64 \<Rightarrow> int" where
  "f64_key x = (if f64_neg x then - int (f64_bits x) else int (f64_bits x))"

definition f64_lt :: "f64 \<Rightarrow> f64 \<Rightarrow> bool" where
  "f64_lt x y \<longleftrightarrow> \<not> f64_is_nan x \<and> \<not> f64_is_nan y \<and> f64_key x < f64_key y"

definition f64_le :: "f64 \<Rightarrow> f64 \<Rightarrow> bool" where
  "f64_le x y \<longleftrightarrow> \<not> f64_is_nan x \<and> \<not> f64_is_nan y \<and> f64_key x \<le> f64_key y"

definition f64_eq :: "f64 \<Rightarrow> f64 \<Rightarrow> bool" where
  "f64_eq x y \<longleftrightarrow> \<not> f64_is_nan x \<and> \<not> f64_is_nan y \<and> f64_key x = f64_key y"

section \<open>Whole numbers\<close>

text \<open>
  \<^verbatim>\<open>math.Ceil\<close> and \<^verbatim>\<open>math.Round\<close> (half away from zero); the sign is kept. A value
  whose scale is not negative is whole.
\<close>

definition f64_ceil :: "f64 \<Rightarrow> f64" where
  "f64_ceil x =
     (let d = 2 ^ nat (- f64_scale x) in
      if f64_is_nan x \<or> f64_is_inf x \<or> 0 \<le> f64_scale x then x
      else if f64_neg x then f64_round True (f64_mant x div d) 1 0
      else f64_round False ((f64_mant x + d - 1) div d) 1 0)"

definition f64_round_half_away :: "f64 \<Rightarrow> f64" where
  "f64_round_half_away x =
     (let d = 2 ^ nat (- f64_scale x) in
      if f64_is_nan x \<or> f64_is_inf x \<or> 0 \<le> f64_scale x then x
      else f64_round (f64_neg x) ((2 * f64_mant x + d) div (2 * d)) 1 0)"

text \<open>
  Conversion to \<^verbatim>\<open>int64\<close> truncates. Out of range the language leaves the result to the
  implementation; it is here what amd64 gives, the smallest \<^verbatim>\<open>int64\<close>. \<^verbatim>\<open>uint32\<close> takes the
  low half of that conversion.
\<close>

definition f64_trunc :: "f64 \<Rightarrow> int" where
  "f64_trunc x =
     (let n = int (f64_mant x * 2 ^ nat (f64_scale x) div 2 ^ nat (- f64_scale x))
      in if f64_neg x then - n else n)"

definition f64_to_i64 :: "f64 \<Rightarrow> i64" where
  "f64_to_i64 x =
     (if 1086 \<le> f64_expo x \<or> f64_trunc x < - (2 ^ 63) \<or> 2 ^ 63 \<le> f64_trunc x
      then 0x8000000000000000 else word_of_int (f64_trunc x))"

definition f64_to_u32 :: "f64 \<Rightarrow> u32" where
  "f64_to_u32 x = ucast (f64_to_i64 x)"

section \<open>Facts\<close>

lemma f64_of_int_0 [simp]: "f64_of_int 0 = 0"
  by (simp add: f64_of_int_def f64_round_def f64_signed_def)

lemma f64_bits_0 [simp]: "f64_bits 0 = 0" "f64_neg 0 = False" "f64_key 0 = 0"
  by (simp_all add: f64_bits_def f64_neg_def f64_key_def)

lemma f64_lt_irrefl [simp]: "\<not> f64_lt x x"
  by (simp add: f64_lt_def)

lemma f64_lt_trans: "f64_lt x y \<Longrightarrow> f64_lt y z \<Longrightarrow> f64_lt x z"
  by (simp add: f64_lt_def)

lemma f64_not_lt: "\<not> f64_is_nan x \<Longrightarrow> \<not> f64_is_nan y \<Longrightarrow> \<not> f64_lt x y \<longleftrightarrow> f64_le y x"
  by (auto simp: f64_lt_def f64_le_def)

text \<open>
  The rewrite rules that evaluate an operation on given operands; a \<open>let\<close> is unfolded only
  once its value is a literal.
\<close>

lemma let_eval:
  "Let True f = f True" "Let False f = f False" "Let (numeral n) g = g (numeral n)"
  "Let (- numeral n) h = h (- numeral n)" "Let (Suc 0) k = k (Suc 0)"
  by (simp_all add: Let_def)

lemmas f64_eval = f64_add_def f64_signed_mant_def f64_mul_def f64_div_def f64_lt_def f64_le_def f64_eq_def f64_key_def f64_ceil_def
  f64_round_half_away_def f64_trunc_def f64_to_i64_def f64_to_u32_def f64_of_int_def f64_round_def
  f64_inf_def f64_signed_def f64_nan_def f64_scale_def f64_mant_def f64_is_zero_def f64_is_inf_def
  f64_is_nan_def f64_frac_def f64_expo_def f64_neg_def f64_bits_def round_even_def let_eval

lemma bit_length_0 [simp]: "bit_length 0 = 0"
  by (simp add: bit_length.simps)

lemma bit_length_1 [simp]: "bit_length (Suc 0) = 1"
  by (simp add: bit_length.simps)

lemma bit_length_small [simp]: "bit_length 2 = 2" "bit_length 3 = 2"
  by (simp_all add: bit_length.simps)

lemma bit_length_numeral [simp]:
  "bit_length (numeral (Num.Bit0 (Num.Bit0 n))) = Suc (bit_length (numeral (Num.Bit0 n)))"
  "bit_length (numeral (Num.Bit0 (Num.Bit1 n))) = Suc (bit_length (numeral (Num.Bit1 n)))"
  "bit_length (numeral (Num.Bit1 (Num.Bit0 n))) = Suc (bit_length (numeral (Num.Bit0 n)))"
  "bit_length (numeral (Num.Bit1 (Num.Bit1 n))) = Suc (bit_length (numeral (Num.Bit1 n)))"
  by (subst bit_length.simps, simp)+

end
