(* ===== verification/Rollup.thy ===== *)
theory Rollup
  imports File_Store Crc32 Float64 "HOL-Library.Signed_Division"
begin

text \<open>
  Rollups, \<^verbatim>\<open>internal/rollup\<close>: pre-aggregated metrics per time window and model, their
  manager over four window sizes, and the snapshot file of one window.
\<close>

section \<open>Buckets\<close>

record bucket_key =
  WindowStart :: i64
  BucketModel :: string

record bucket_value =
  Count :: i64
  SumCost :: i64
  SumTokensIn :: i64
  SumTokensOut :: i64
  SumLatencyMs :: i64
  MinLatencyMs :: i64
  MaxLatencyMs :: i64

text \<open>The bucket map is kept as an association list; its order is the map's iteration order.\<close>

type_synonym buckets = "(bucket_key \<times> bucket_value) list"

record rollup_store =
  WindowSize :: i64
  rs_buckets :: buckets

definition NewStore :: "i64 \<Rightarrow> rollup_store" where
  "NewStore windowSize = \<lparr>WindowSize = windowSize, rs_buckets = []\<rparr>"

text \<open>One call of \<^verbatim>\<open>Add\<close>.\<close>

record sample =
  sm_timestamp :: i64
  sm_model :: string
  sm_cost :: i64
  sm_tokensIn :: i64
  sm_tokensOut :: i64
  sm_latencyMs :: i64

text \<open>\<^verbatim>\<open>(timestamp / s.WindowSize) * s.WindowSize\<close>: the division truncates toward zero.\<close>

definition bucket_start :: "i64 \<Rightarrow> i64 \<Rightarrow> i64" where
  "bucket_start timestamp windowSize =
     word_of_int (sint timestamp sdiv sint windowSize) * windowSize"

definition sample_key :: "i64 \<Rightarrow> sample \<Rightarrow> bucket_key" where
  "sample_key windowSize s =
     \<lparr>WindowStart = bucket_start (sm_timestamp s) windowSize, BucketModel = sm_model s\<rparr>"

definition new_value :: "sample \<Rightarrow> bucket_value" where
  "new_value s = \<lparr>Count = 1, SumCost = sm_cost s, SumTokensIn = sm_tokensIn s,
     SumTokensOut = sm_tokensOut s, SumLatencyMs = sm_latencyMs s,
     MinLatencyMs = sm_latencyMs s, MaxLatencyMs = sm_latencyMs s\<rparr>"

definition bump_value :: "sample \<Rightarrow> bucket_value \<Rightarrow> bucket_value" where
  "bump_value s v = v\<lparr>Count := Count v + 1, SumCost := SumCost v + sm_cost s,
     SumTokensIn := SumTokensIn v + sm_tokensIn s, SumTokensOut := SumTokensOut v + sm_tokensOut s,
     SumLatencyMs := SumLatencyMs v + sm_latencyMs s,
     MinLatencyMs := if sm_latencyMs s <s MinLatencyMs v then sm_latencyMs s else MinLatencyMs v,
     MaxLatencyMs := if MaxLatencyMs v <s sm_latencyMs s then sm_latencyMs s else MaxLatencyMs v\<rparr>"

definition store_Add :: "sample \<Rightarrow> rollup_store \<Rightarrow> rollup_store" where
  "store_Add s r =
     (let key = sample_key (WindowSize r) s in
      r\<lparr>rs_buckets := AList.update key
          (case map_of (rs_buckets r) key of Some v \<Rightarrow> bump_value s v | None \<Rightarrow> new_value s) (rs_buckets r)\<rparr>)"

definition GetAllBuckets :: "rollup_store \<Rightarrow> buckets" where
  "GetAllBuckets r = rs_buckets r"

definition store_GetBucket :: "bucket_key \<Rightarrow> rollup_store \<Rightarrow> bucket_value option" where
  "store_GetBucket key r = map_of (rs_buckets r) key"

definition store_GetBucketInRange :: "i64 \<Rightarrow> i64 \<Rightarrow> rollup_store \<Rightarrow> buckets" where
  "store_GetBucketInRange start stop r =
     filter (\<lambda>(key, v). \<not> WindowStart key <s start \<and> WindowStart key <s stop) (rs_buckets r)"

definition store_Evict :: "i64 \<Rightarrow> rollup_store \<Rightarrow> buckets \<times> rollup_store" where
  "store_Evict start r =
     (filter (\<lambda>(key, v). WindowStart key <s start) (rs_buckets r),
      r\<lparr>rs_buckets := filter (\<lambda>(key, v). \<not> WindowStart key <s start) (rs_buckets r)\<rparr>)"

section \<open>Manager\<close>

definition WindowMinute :: string where "WindowMinute = ''1m''"
definition WindowFiveMin :: string where "WindowFiveMin = ''5m''"
definition WindowHour :: string where "WindowHour = ''1h''"
definition WindowDay :: string where "WindowDay = ''1d''"

definition WindowSizeMinute :: i64 where "WindowSizeMinute = 60 * 1000000000"
definition WindowSizeFiveMin :: i64 where "WindowSizeFiveMin = 5 * 60 * 1000000000"
definition WindowSizeHour :: i64 where "WindowSizeHour = 60 * 60 * 1000000000"
definition WindowSizeDay :: i64 where "WindowSizeDay = 24 * 60 * 60 * 1000000000"

definition CostScale :: f64 where "CostScale = f64_of_int 1000000"

definition ScaleCost :: "f64 \<Rightarrow> i64" where
  "ScaleCost dollars = f64_to_i64 (f64_round_half_away (f64_mul dollars CostScale))"

definition UnscaleCost :: "i64 \<Rightarrow> f64" where
  "UnscaleCost scaled = f64_div (f64_of_int (sint scaled)) CostScale"

record rollup_manager =
  Minute :: rollup_store
  FiveMin :: rollup_store
  Hour :: rollup_store
  Day :: rollup_store

definition NewRollupManager :: rollup_manager where
  "NewRollupManager = \<lparr>Minute = NewStore WindowSizeMinute, FiveMin = NewStore WindowSizeFiveMin,
     Hour = NewStore WindowSizeHour, Day = NewStore WindowSizeDay\<rparr>"

definition manager_Add :: "sample \<Rightarrow> rollup_manager \<Rightarrow> rollup_manager" where
  "manager_Add s m = \<lparr>Minute = store_Add s (Minute m), FiveMin = store_Add s (FiveMin m),
     Hour = store_Add s (Hour m), Day = store_Add s (Day m)\<rparr>"

datatype rollup_error =
  UnknownWindow string
| RollupEmpty
| RollupIO
| RollupNotExist
| RollupShort
| RollupBadMagic u32
| RollupBadVersion u16
| RollupBadWindow i64 i64
| RollupRecordShort nat
| RollupChecksum nat
| RollupTruncated

definition storeFor :: "string \<Rightarrow> rollup_manager \<Rightarrow> rollup_error + rollup_store" where
  "storeFor window m =
     (if window = WindowMinute then Inr (Minute m)
      else if window = WindowFiveMin then Inr (FiveMin m)
      else if window = WindowHour then Inr (Hour m)
      else if window = WindowDay then Inr (Day m)
      else Inl (UnknownWindow window))"

definition manager_GetBucket ::
    "string \<Rightarrow> bucket_key \<Rightarrow> rollup_manager \<Rightarrow> rollup_error + bucket_value option" where
  "manager_GetBucket window key m =
     (case storeFor window m of Inl e \<Rightarrow> Inl e | Inr s \<Rightarrow> Inr (store_GetBucket key s))"

definition manager_GetBucketInRange ::
    "string \<Rightarrow> i64 \<Rightarrow> i64 \<Rightarrow> rollup_manager \<Rightarrow> rollup_error + buckets" where
  "manager_GetBucketInRange window start stop m =
     (case storeFor window m of Inl e \<Rightarrow> Inl e | Inr s \<Rightarrow> Inr (store_GetBucketInRange start stop s))"

section \<open>Snapshot files\<close>

definition RollupMagic :: u32 where "RollupMagic = 0x574C4F52"
definition CurrentRollupVersion :: u16 where "CurrentRollupVersion = 1"
definition rollupHeaderSize :: nat where "rollupHeaderSize = 4 + 2 + 8 + 8 + 8 + 8"
definition rollupFramingSize :: nat where "rollupFramingSize = 4 + 4"

definition RollupPath :: "string \<Rightarrow> string" where
  "RollupPath window = ''rollup_'' @ window @ ''.rdb''"

definition encode_value :: "bucket_value \<Rightarrow> bytes" where
  "encode_value v = put_u64 (Count v) @ put_u64 (SumCost v) @ put_u64 (SumTokensIn v)
     @ put_u64 (SumTokensOut v) @ put_u64 (SumLatencyMs v) @ put_u64 (MinLatencyMs v) @ put_u64 (MaxLatencyMs v)"

definition rollup_encodeRecord :: "bucket_key \<times> bucket_value \<Rightarrow> bytes" where
  "rollup_encodeRecord agg =
     (case agg of (key, v) \<Rightarrow>
        put_u64 (WindowStart key) @ put_u16 (word_of_nat (length (BucketModel key)))
          @ bytes_of (BucketModel key) @ encode_value v)"

definition writeRollupRecord :: "bucket_key \<times> bucket_value \<Rightarrow> bytes" where
  "writeRollupRecord agg =
     (let payload = rollup_encodeRecord agg
      in put_u32 (word_of_nat (length payload)) @ put_u32 (crc32 payload) @ payload)"

definition writeRollupHeader :: "i64 \<Rightarrow> i64 \<Rightarrow> i64 \<Rightarrow> i64 \<Rightarrow> bytes" where
  "writeRollupHeader windowSize recordCount minWindowStart maxWindowStart =
     put_u32 RollupMagic @ put_u16 CurrentRollupVersion @ put_u64 windowSize @ put_u64 recordCount
       @ put_u64 minWindowStart @ put_u64 maxWindowStart"

definition min_ws :: "buckets \<Rightarrow> i64" where
  "min_ws ms = foldl (\<lambda>m (k, v). if WindowStart k <s m then WindowStart k else m) (WindowStart (fst (hd ms))) (tl ms)"

definition max_ws :: "buckets \<Rightarrow> i64" where
  "max_ws ms = foldl (\<lambda>m (k, v). if m <s WindowStart k then WindowStart k else m) (WindowStart (fst (hd ms))) (tl ms)"

definition snapshot_bytes :: "i64 \<Rightarrow> buckets \<Rightarrow> bytes" where
  "snapshot_bytes windowSize ms =
     writeRollupHeader windowSize (word_of_nat (length ms)) (min_ws ms) (max_ws ms)
       @ concat (map writeRollupRecord ms)"

text \<open>
  \<^verbatim>\<open>Writer.Flush\<close>; the deferred function removes the temporary file of a failed flush.
\<close>

definition rollup_Flush :: "string \<Rightarrow> i64 \<Rightarrow> buckets \<Rightarrow> file_store \<Rightarrow> (rollup_error + unit) \<times> file_store" where
  "rollup_Flush window windowSize ms st =
     (if ms = [] then (Inl RollupEmpty, st)
      else
        let path = RollupPath window; tmp = path @ ''.tmp'' in
        (case fs_fault st of
           (Some _, st) \<Rightarrow> (Inl RollupIO, st)
         | (None, st') \<Rightarrow>
             (case replace_file tmp path (snapshot_bytes windowSize ms) st of
                (True, st) \<Rightarrow> (Inr (), st)
              | (False, st) \<Rightarrow>
                  (Inl RollupIO,
                   case fs_fault st of (Some _, st) \<Rightarrow> st
                   | (None, st) \<Rightarrow> st\<lparr>fs_dir := dir_del tmp (fs_dir st)\<rparr>))))"

text \<open>\<^verbatim>\<open>decodeRecord\<close>\<close>

definition i64_at :: "nat \<Rightarrow> bytes \<Rightarrow> i64" where
  "i64_at off data = get_u64 (take 8 (drop off data))"

definition rollup_decodeRecord :: "bytes \<Rightarrow> rollup_error + bucket_key \<times> bucket_value" where
  "rollup_decodeRecord payload =
     (if length payload < 10 then Inl (RollupRecordShort (length payload))
      else
        let modelLen = unat (get_u16 (take 2 (drop 8 payload))) in
        if length payload - 10 < modelLen + 7 * 8 then Inl RollupTruncated
        else
          let off = 10 + modelLen in
          Inr (\<lparr>WindowStart = i64_at 0 payload, BucketModel = string_of (take modelLen (drop 10 payload))\<rparr>,
               \<lparr>Count = i64_at off payload, SumCost = i64_at (off + 8) payload,
                SumTokensIn = i64_at (off + 16) payload, SumTokensOut = i64_at (off + 24) payload,
                SumLatencyMs = i64_at (off + 32) payload, MinLatencyMs = i64_at (off + 40) payload,
                MaxLatencyMs = i64_at (off + 48) payload\<rparr>))"

text \<open>The loop over \<open>recordCount\<close> records; the index of a record is only for messages.\<close>

fun read_records :: "nat \<Rightarrow> nat \<Rightarrow> bytes \<Rightarrow> buckets \<Rightarrow> rollup_error + buckets" where
  "read_records 0 i data acc = Inr acc"
| "read_records (Suc n) i data acc =
     (if length data < rollupFramingSize then Inl RollupShort
      else
        let len = unat (get_u32 (take 4 data)); checksum = get_u32 (take 4 (drop 4 data));
            rest = drop rollupFramingSize data; payload = take len rest
        in if length rest < len then Inl RollupShort
           else if crc32 payload \<noteq> checksum then Inl (RollupChecksum i)
           else case rollup_decodeRecord payload of
                  Inl e \<Rightarrow> Inl e
                | Inr (key, v) \<Rightarrow> read_records n (Suc i) (drop len rest) (AList.update key v acc))"

definition parse_snapshot :: "bytes \<Rightarrow> i64 \<Rightarrow> rollup_error + rollup_store" where
  "parse_snapshot data windowSize =
     (if length data < rollupHeaderSize then Inl RollupShort
      else
        let magic = get_u32 (take 4 data); version = get_u16 (take 2 (drop 4 data));
            stored = i64_at 6 data; recordCount = i64_at 14 data
        in if magic \<noteq> RollupMagic then Inl (RollupBadMagic magic)
           else if version \<noteq> CurrentRollupVersion then Inl (RollupBadVersion version)
           else if stored \<noteq> windowSize then Inl (RollupBadWindow stored windowSize)
           else case read_records (nat (sint recordCount)) 0 (drop rollupHeaderSize data) [] of
                  Inl e \<Rightarrow> Inl e
                | Inr bs \<Rightarrow> Inr ((NewStore windowSize)\<lparr>rs_buckets := bs\<rparr>))"

definition ReadSnapshot :: "string \<Rightarrow> i64 \<Rightarrow> file_store \<Rightarrow> (rollup_error + rollup_store) \<times> file_store" where
  "ReadSnapshot path windowSize st =
     (case read_file path st of
        (Inl _, st) \<Rightarrow> (Inl RollupIO, st)
      | (Inr None, st) \<Rightarrow> (Inl RollupNotExist, st)
      | (Inr (Some data), st) \<Rightarrow> (parse_snapshot data windowSize, st))"

end
