(* ===== verification/Rollup_Spec.thy ===== *)
theory Rollup_Spec
  imports Rollup
begin

text \<open>
  What the rollups promise: a bucket is the summary of exactly the samples that fall into it, a
  bucket covers its samples, eviction splits the buckets at the cutoff, and a snapshot file reads
  back as the store that wrote it.
\<close>

section \<open>A bucket is the summary of its samples\<close>

definition summary :: "sample list \<Rightarrow> bucket_value option" where
  "summary xs = (case xs of [] \<Rightarrow> None | x # xs \<Rightarrow> Some (fold bump_value xs (new_value x)))"

lemma summary_snoc:
  "summary (xs @ [x]) = Some (case summary xs of None \<Rightarrow> new_value x | Some v \<Rightarrow> bump_value x v)"
  by (cases xs) (auto simp: summary_def)

definition samples_in :: "i64 \<Rightarrow> bucket_key \<Rightarrow> sample list \<Rightarrow> sample list" where
  "samples_in w key xs = filter (\<lambda>s. sample_key w s = key) xs"

lemma WindowSize_fold [simp]: "WindowSize (fold store_Add xs r) = WindowSize r"
  by (induction xs arbitrary: r) (auto simp: store_Add_def Let_def)

lemma store_GetBucket_Add:
  "store_GetBucket key (store_Add s r) =
     (if key = sample_key (WindowSize r) s
      then Some (case store_GetBucket key r of None \<Rightarrow> new_value s | Some v \<Rightarrow> bump_value s v)
      else store_GetBucket key r)"
  by (auto simp: store_GetBucket_def store_Add_def Let_def update_conv' split: option.splits)

lemma bucket_is_summary:
  "store_GetBucket key (fold store_Add xs (NewStore w)) = summary (samples_in w key xs)"
proof (induction xs rule: rev_induct)
  case Nil
  then show ?case by (simp add: store_GetBucket_def NewStore_def samples_in_def summary_def)
next
  case (snoc x xs)
  have w: "WindowSize (NewStore w) = w" by (simp add: NewStore_def)
  show ?case
    using snoc by (auto simp: store_GetBucket_Add w samples_in_def summary_snoc)
qed

text \<open>The fields of a summary: counts and sums wrap at 64 bits, the extremes are exact.\<close>

lemma fold_bump:
  "Count (fold bump_value xs v) = Count v + word_of_nat (length xs)"
  "SumCost (fold bump_value xs v) = SumCost v + sum_list (map sm_cost xs)"
  "SumTokensIn (fold bump_value xs v) = SumTokensIn v + sum_list (map sm_tokensIn xs)"
  "SumTokensOut (fold bump_value xs v) = SumTokensOut v + sum_list (map sm_tokensOut xs)"
  "SumLatencyMs (fold bump_value xs v) = SumLatencyMs v + sum_list (map sm_latencyMs xs)"
  by (induction xs arbitrary: v) (simp_all add: bump_value_def algebra_simps)

lemma fold_bump_min:
  "sint (MinLatencyMs (fold bump_value xs v)) = Min (insert (sint (MinLatencyMs v)) (set (map (\<lambda>s. sint (sm_latencyMs s)) xs)))"
proof (induction xs arbitrary: v)
  case (Cons x xs)
  have "sint (MinLatencyMs (bump_value x v)) = min (sint (MinLatencyMs v)) (sint (sm_latencyMs x))"
    by (auto simp: bump_value_def word_sless_alt)
  with Cons [of "bump_value x v"] show ?case
    by (cases "xs = []") (auto simp: min.left_commute min.commute min.assoc Min_insert2)
qed simp

lemma fold_bump_max:
  "sint (MaxLatencyMs (fold bump_value xs v)) = Max (insert (sint (MaxLatencyMs v)) (set (map (\<lambda>s. sint (sm_latencyMs s)) xs)))"
proof (induction xs arbitrary: v)
  case (Cons x xs)
  have "sint (MaxLatencyMs (bump_value x v)) = max (sint (MaxLatencyMs v)) (sint (sm_latencyMs x))"
    by (auto simp: bump_value_def word_sless_alt)
  with Cons [of "bump_value x v"] show ?case
    by (cases "xs = []") (auto simp: max.left_commute max.commute max.assoc)
qed simp

lemma summary_fields:
  assumes "summary xs = Some v"
  shows "Count v = word_of_nat (length xs)" "SumCost v = sum_list (map sm_cost xs)"
    "SumTokensIn v = sum_list (map sm_tokensIn xs)" "SumTokensOut v = sum_list (map sm_tokensOut xs)"
    "SumLatencyMs v = sum_list (map sm_latencyMs xs)"
    "sint (MinLatencyMs v) = Min (set (map (\<lambda>s. sint (sm_latencyMs s)) xs))"
    "sint (MaxLatencyMs v) = Max (set (map (\<lambda>s. sint (sm_latencyMs s)) xs))"
  using assms
  by (cases xs; force simp: summary_def fold_bump fold_bump_min fold_bump_max new_value_def)+

section \<open>A bucket covers its samples\<close>

lemma i64_of_int: "- (2 ^ 63) \<le> k \<Longrightarrow> k < 2 ^ 63 \<Longrightarrow> sint (word_of_int k :: i64) = k"
  by (simp add: signed_of_int signed_take_bit_int_eq_self)

lemma bucket_start_int:
  assumes "0 \<le> sint t" "0 < sint w"
  shows "sint (bucket_start t w) = sint t div sint w * sint w"
proof -
  have q: "sint t sdiv sint w = sint t div sint w"
    using assms by (cases "sint t = 0") (simp_all add: signed_divide_int_def)
  have eq: "bucket_start t w = word_of_int (sint t div sint w * sint w)"
    by (simp add: bucket_start_def q)
  have "0 \<le> sint t div sint w * sint w" using assms by (simp add: pos_imp_zdiv_nonneg_iff)
  moreover have "sint t div sint w * sint w \<le> sint t"
    using assms by (metis div_mult_mod_eq pos_mod_sign le_add_same_cancel1)
  moreover have "sint t < 2 ^ 63" using sint_lt [of t] by simp
  ultimately show ?thesis unfolding eq by (intro i64_of_int) simp_all
qed

lemma bucket_start_covers:
  assumes "0 \<le> sint t" "0 < sint w"
  shows "sint (bucket_start t w) \<le> sint t" "sint t < sint (bucket_start t w) + sint w"
proof -
  have "sint t div sint w * sint w + sint t mod sint w = sint t" by simp
  moreover have "0 \<le> sint t mod sint w" "sint t mod sint w < sint w" using assms by simp_all
  ultimately show "sint (bucket_start t w) \<le> sint t" "sint t < sint (bucket_start t w) + sint w"
    unfolding bucket_start_int [OF assms] by linarith+
qed

text \<open>From the epoch on, the bucket of a key holds the samples of its model in its window.\<close>

lemma sample_key_window:
  assumes "0 \<le> sint (sm_timestamp s)" "0 < sint w"
  shows "sample_key w s = key \<longleftrightarrow> sint w dvd sint (WindowStart key) \<and> sm_model s = BucketModel key
    \<and> sint (WindowStart key) \<le> sint (sm_timestamp s) \<and> sint (sm_timestamp s) < sint (WindowStart key) + sint w"
proof -
  let ?t = "sint (sm_timestamp s)" and ?w = "sint w" and ?k = "sint (WindowStart key)"
  have "?t div ?w * ?w = ?k \<longleftrightarrow> ?w dvd ?k \<and> ?k \<le> ?t \<and> ?t < ?k + ?w"
  proof
    assume k: "?t div ?w * ?w = ?k"
    then show "?w dvd ?k \<and> ?k \<le> ?t \<and> ?t < ?k + ?w"
      using bucket_start_covers [OF assms] bucket_start_int [OF assms] by (metis dvd_triv_right)
  next
    assume "?w dvd ?k \<and> ?k \<le> ?t \<and> ?t < ?k + ?w"
    then obtain q where q: "?k = ?w * q" "?w * q \<le> ?t" "?t < ?w * q + ?w" by (auto elim: dvdE)
    have "?t div ?w = q" by (rule int_div_pos_eq [where r = "?t - ?w * q"]) (use q in simp_all)
    with q(1) show "?t div ?w * ?w = ?k" by (simp add: mult.commute)
  qed
  then have "bucket_start (sm_timestamp s) w = WindowStart key \<longleftrightarrow> ?w dvd ?k \<and> ?k \<le> ?t \<and> ?t < ?k + ?w"
    using bucket_start_int [OF assms] by (metis signed_word_eqI)
  then show ?thesis by (cases key) (auto simp: sample_key_def)
qed

definition window_samples :: "i64 \<Rightarrow> bucket_key \<Rightarrow> sample list \<Rightarrow> sample list" where
  "window_samples w key xs = filter (\<lambda>s. sm_model s = BucketModel key \<and> sint (WindowStart key) \<le> sint (sm_timestamp s)
     \<and> sint (sm_timestamp s) < sint (WindowStart key) + sint w) xs"

lemma bucket_of_window:
  assumes "0 < sint w" "\<forall>s \<in> set xs. 0 \<le> sint (sm_timestamp s)"
  shows "store_GetBucket key (fold store_Add xs (NewStore w)) =
    (if sint w dvd sint (WindowStart key) then summary (window_samples w key xs) else None)"
proof -
  have "samples_in w key xs = (if sint w dvd sint (WindowStart key) then window_samples w key xs else [])"
    using assms(2) sample_key_window [OF _ assms(1)] unfolding samples_in_def window_samples_def
    by (auto intro!: filter_cong)
  then show ?thesis by (simp add: bucket_is_summary summary_def)
qed

text \<open>Before the epoch the truncating division puts a sample into a bucket that starts after it.\<close>

lemma bucket_start_negative:
  assumes "- sint w < sint t" "sint t < 0"
  shows "bucket_start t w = 0"
proof -
  have "0 < sint w" "\<bar>sint t\<bar> < \<bar>sint w\<bar>" using assms by simp_all
  then have "sint t sdiv sint w = 0" by (simp add: signed_divide_int_def)
  then show ?thesis by (simp add: bucket_start_def)
qed

section \<open>Ranges and eviction\<close>

lemma map_of_filter_key: "map_of (filter (\<lambda>(k, v). P k) bs) k = (if P k then map_of bs k else None)"
  by (induction bs) auto

lemma range_GetBucket:
  "map_of (store_GetBucketInRange start stop r) k =
     (if \<not> WindowStart k <s start \<and> WindowStart k <s stop then store_GetBucket k r else None)"
  by (simp add: store_GetBucketInRange_def store_GetBucket_def map_of_filter_key)

lemma evict_GetBucket:
  assumes "store_Evict start r = (evicted, r')"
  shows "map_of evicted k = (if WindowStart k <s start then store_GetBucket k r else None)"
    and "store_GetBucket k r' = (if WindowStart k <s start then None else store_GetBucket k r)"
  using assms by (auto simp: store_Evict_def store_GetBucket_def map_of_filter_key)

section \<open>Snapshots\<close>

definition key_fits :: "bucket_key \<times> bucket_value \<Rightarrow> bool" where
  "key_fits agg \<longleftrightarrow> length (BucketModel (fst agg)) < 2 ^ 16"

lemma length_encode_value [simp, length_simps]: "length (encode_value v) = 56"
  by (simp add: encode_value_def)

lemma length_rollup_encodeRecord [length_simps]:
  "length (rollup_encodeRecord agg) = 66 + length (BucketModel (fst agg))"
  by (cases agg) (simp add: rollup_encodeRecord_def)

lemma i64_at_append: "length xs \<le> off \<Longrightarrow> i64_at off (xs @ ys) = i64_at (off - length xs) ys"
  by (simp add: i64_at_def)

lemma i64_at_put [simp]: "i64_at 0 (put_u64 w @ ys) = w"
  by (simp add: i64_at_def)

lemma rollup_decode_encode:
  assumes "key_fits agg"
  shows "rollup_decodeRecord (rollup_encodeRecord agg) = Inr agg"
proof -
  obtain key v where agg: "agg = (key, v)" by (cases agg)
  let ?m = "BucketModel key"
  let ?h = "put_u64 (WindowStart key) @ put_u16 (word_of_nat (length ?m)) @ bytes_of ?m"
  have enc: "rollup_encodeRecord agg = ?h @ encode_value v" by (simp add: rollup_encodeRecord_def agg)
  have lenh: "length ?h = 10 + length ?m" by simp
  have m: "unat (get_u16 (take 2 (drop 8 (?h @ encode_value v)))) = length ?m"
    using assms by (simp add: key_fits_def agg unat_of_nat)
  have at: "i64_at (10 + length ?m + k) (?h @ encode_value v) = i64_at k (encode_value v)" for k
    using i64_at_append [of ?h "10 + length ?m + k" "encode_value v"] lenh by simp
  have vals: "i64_at 0 (encode_value v) = Count v" "i64_at 8 (encode_value v) = SumCost v"
    "i64_at 16 (encode_value v) = SumTokensIn v" "i64_at 24 (encode_value v) = SumTokensOut v"
    "i64_at 32 (encode_value v) = SumLatencyMs v" "i64_at 40 (encode_value v) = MinLatencyMs v"
    "i64_at 48 (encode_value v) = MaxLatencyMs v"
    by (simp_all add: i64_at_def encode_value_def)
  have start: "i64_at 0 (?h @ encode_value v) = WindowStart key" by simp
  have model: "string_of (take (length ?m) (drop 10 (?h @ encode_value v))) = ?m" by simp
  have len: "\<not> length (?h @ encode_value v) < 10" "\<not> length (?h @ encode_value v) - 10 < length ?m + 7 * 8"
    by simp_all
  show ?thesis
    unfolding enc rollup_decodeRecord_def Let_def m if_not_P [OF len(1)] if_not_P [OF len(2)] start model
    using at [of 0] at [of 8] at [of 16] at [of 24] at [of 32] at [of 40] at [of 48]
    by (simp only: vals add_0_right) (simp add: agg)
qed

lemma read_records_encoded:
  assumes "\<forall>agg \<in> set ms. key_fits agg"
  shows "read_records (length ms) i (concat (map writeRollupRecord ms) @ rest) acc =
    Inr (fold (\<lambda>(k, v). AList.update k v) ms acc)"
  using assms
proof (induction ms arbitrary: i acc)
  case Nil
  then show ?case by simp
next
  case (Cons agg ms)
  let ?p = "rollup_encodeRecord agg"
  let ?f = "put_u32 (word_of_nat (length ?p)) @ put_u32 (crc32 ?p)"
  let ?rest = "concat (map writeRollupRecord ms) @ rest"
  have bytes: "concat (map writeRollupRecord (agg # ms)) @ rest = ?f @ ?p @ ?rest"
    by (simp add: writeRollupRecord_def Let_def)
  have fits: "key_fits agg" using Cons.prems by simp
  then have "unat (word_of_nat (length ?p) :: u32) = length ?p"
    by (intro u32_of_nat) (simp add: key_fits_def length_rollup_encodeRecord)
  then have len: "unat (get_u32 (take 4 (?f @ ?p @ ?rest))) = length ?p" by simp
  have crc: "get_u32 (take 4 (drop 4 (?f @ ?p @ ?rest))) = crc32 ?p" by simp
  have drop: "drop rollupFramingSize (?f @ ?p @ ?rest) = ?p @ ?rest" by (simp add: rollupFramingSize_def)
  have long: "\<not> length (?f @ ?p @ ?rest) < rollupFramingSize" by (simp add: rollupFramingSize_def)
  have long2: "\<not> length (?p @ ?rest) < length ?p" by simp
  show ?case
    unfolding bytes list.size read_records.simps add_Suc_right add_0_right if_not_P [OF long] Let_def len crc drop
      if_not_P [OF long2]
    using rollup_decode_encode [OF fits] Cons.IH [of "Suc i"] Cons.prems
    by (cases agg) simp
qed

lemma fold_update_distinct:
  assumes "distinct (map fst ms)"
  shows "map_of (fold (\<lambda>(k, v). AList.update k v) ms acc) = map_of acc ++ map_of ms"
  using assms
proof (induction ms arbitrary: acc)
  case Nil
  then show ?case by simp
next
  case (Cons a ms)
  obtain k v where a: "a = (k, v)" by (cases a)
  have "map_of ms k = None" using Cons.prems a by (simp add: map_of_eq_None_iff)
  with Cons a show ?case
    by (auto simp: update_conv' map_add_def fun_eq_iff split: option.splits)
qed

text \<open>Reading the bytes of a snapshot gives a store with the same buckets.\<close>

lemma parse_snapshot_bytes:
  assumes fits: "\<forall>agg \<in> set ms. key_fits agg" and dist: "distinct (map fst ms)" and few: "length ms < 2 ^ 63"
  shows "\<exists>r. parse_snapshot (snapshot_bytes w ms) w = Inr r \<and> WindowSize r = w
     \<and> map_of (rs_buckets r) = map_of ms"
proof -
  let ?h = "writeRollupHeader w (word_of_nat (length ms)) (min_ws ms) (max_ws ms)"
  let ?d = "?h @ concat (map writeRollupRecord ms)"
  have lenh: "length ?h = rollupHeaderSize" by (simp add: writeRollupHeader_def rollupHeaderSize_def)
  have cnt: "nat (sint (word_of_nat (length ms) :: i64)) = length ms"
  proof -
    have "unat (word_of_nat (length ms) :: u64) = length ms" using few by (simp add: unat_of_nat)
    with few sint_small [of "word_of_nat (length ms)"] show ?thesis by simp
  qed
  have magic: "get_u32 (take 4 ?d) = RollupMagic" "get_u16 (take 2 (drop 4 ?d)) = CurrentRollupVersion"
    "i64_at 6 ?d = w" "i64_at 14 ?d = word_of_nat (length ms)" "drop rollupHeaderSize ?d = concat (map writeRollupRecord ms)"
    by (simp_all add: writeRollupHeader_def i64_at_def rollupHeaderSize_def)
  have long: "\<not> length ?d < rollupHeaderSize" using lenh by simp
  have rd: "read_records (length ms) 0 (concat (map writeRollupRecord ms)) [] = Inr (fold (\<lambda>(k, v). AList.update k v) ms [])"
    using read_records_encoded [OF fits, of 0 "[]" "[]"] by simp
  show ?thesis
    unfolding snapshot_bytes_def parse_snapshot_def if_not_P [OF long] Let_def magic cnt rd
    using fold_update_distinct [OF dist, of "[]"] by (simp add: NewStore_def)
qed

lemma rollup_Flush_ok:
  assumes "rollup_Flush window w ms st = (Inr u, st')"
  shows "ms \<noteq> [] \<and> dir_get (fs_dir st') (RollupPath window) = Some (snapshot_bytes w ms)"
  using assms
  by (auto simp: rollup_Flush_def Let_def split: if_splits prod.splits option.splits bool.splits
      dest!: replace_file_ok [where n = "RollupPath window"])

text \<open>A failed flush leaves the previous snapshot.\<close>

lemma rollup_Flush_fails:
  assumes "rollup_Flush window w ms st = (Inl e, st')"
  shows "dir_get (fs_dir st') (RollupPath window) = dir_get (fs_dir st) (RollupPath window)"
  using assms
  by (auto simp: rollup_Flush_def Let_def fs_fault_def split: if_splits prod.splits option.splits bool.splits
      dest!: replace_file_fails [where n = "RollupPath window"])

lemma rollup_Flush_other:
  assumes "rollup_Flush window w ms st = (res, st')" "n \<noteq> RollupPath window" "n \<noteq> RollupPath window @ ''.tmp''"
  shows "dir_get (fs_dir st') n = dir_get (fs_dir st) n"
  using assms
  by (auto simp: rollup_Flush_def Let_def fs_fault_def split: if_splits prod.splits option.splits bool.splits
      dest!: replace_file_atomic [where n = n])

lemma snapshot_round_trip:
  assumes "rollup_Flush window w ms st = (Inr u, st')" "ReadSnapshot (RollupPath window) w st' = (Inr r, st'')"
    and "\<forall>agg \<in> set ms. key_fits agg" "distinct (map fst ms)" "length ms < 2 ^ 63"
  shows "WindowSize r = w \<and> map_of (rs_buckets r) = map_of ms"
proof -
  have d: "dir_get (fs_dir st') (RollupPath window) = Some (snapshot_bytes w ms)"
    using rollup_Flush_ok [OF assms(1)] by simp
  obtain r' where r': "parse_snapshot (snapshot_bytes w ms) w = Inr r'" "WindowSize r' = w"
      "map_of (rs_buckets r') = map_of ms" using parse_snapshot_bytes [OF assms(3-5)] by blast
  from assms(2) d have "Inr r = parse_snapshot (snapshot_bytes w ms) w"
    by (auto simp: ReadSnapshot_def split: prod.splits sum.splits option.splits dest!: read_file_dir)
  with r' show ?thesis by simp
qed

text \<open>Without a fault both succeed.\<close>

lemma rollup_Flush_quiet:
  assumes "fs_tape st = []" "ms \<noteq> []"
  shows "\<exists>st'. rollup_Flush window w ms st = (Inr (), st') \<and> fs_tape st' = []"
  using assms replace_file_quiet [of st "RollupPath window @ ''.tmp''" "RollupPath window" "snapshot_bytes w ms"]
  by (auto simp: rollup_Flush_def fs_fault_nil Let_def)

lemma ReadSnapshot_quiet:
  assumes "rollup_Flush window w ms st = (Inr u, st')" "fs_tape st' = []"
    and "\<forall>agg \<in> set ms. key_fits agg" "distinct (map fst ms)" "length ms < 2 ^ 63"
  shows "\<exists>r. ReadSnapshot (RollupPath window) w st' = (Inr r, st')"
  using rollup_Flush_ok [OF assms(1)] parse_snapshot_bytes [OF assms(3-5), of w] assms(2)
  by (auto simp: ReadSnapshot_def read_file_def fs_fault_nil)

end
