(* ===== verification/Bloom.thy ===== *)
theory Bloom
  imports Float64
begin

text \<open>
  The bloom filter of \<^verbatim>\<open>internal/bloom/bloom.go\<close>. An operation that can panic (a modulus of
  0, an index past the bit array) returns \<open>None\<close> then; a well-formed filter never panics and
  never denies a value it was given. \<^verbatim>\<open>math.Log\<close> is an argument of the sizing functions,
  since the library does not fix its rounding.
\<close>

section \<open>Filter\<close>

record bloom =
  bl_m :: u32
  bl_k :: u32
  bl_bits :: bytes

text \<open>FNV-1a and FNV-1 with 64 bits.\<close>

definition fnv_offset :: u64 where "fnv_offset = 14695981039346656037"
definition fnv_prime :: u64 where "fnv_prime = 1099511628211"

definition fnv64a :: "bytes \<Rightarrow> u64" where
  "fnv64a bs = foldl (\<lambda>h b. (h XOR ucast b) * fnv_prime) fnv_offset bs"

definition fnv64 :: "bytes \<Rightarrow> u64" where
  "fnv64 bs = foldl (\<lambda>h b. (h * fnv_prime) XOR ucast b) fnv_offset bs"

definition doubleHash :: "string \<Rightarrow> u64 \<times> u64" where
  "doubleHash val = (fnv64a (bytes_of val), fnv64 (bytes_of val))"

text \<open>\<^verbatim>\<open>idx := (h1 + uint64(i)*h2) % uint64(f.m)\<close>\<close>

definition bloom_index :: "bloom \<Rightarrow> string \<Rightarrow> nat \<Rightarrow> nat" where
  "bloom_index f val i =
     (case doubleHash val of (h1, h2) \<Rightarrow> unat ((h1 + word_of_nat i * h2) mod ucast (bl_m f)))"

definition bloom_mask :: "nat \<Rightarrow> byte" where
  "bloom_mask idx = push_bit (idx mod 8) 1"

fun bloom_set :: "bloom \<Rightarrow> string \<Rightarrow> nat list \<Rightarrow> bytes \<Rightarrow> bytes option" where
  "bloom_set f val [] bits = Some bits"
| "bloom_set f val (i # ks) bits =
     (let idx = bloom_index f val i in
      if bl_m f = 0 \<or> length bits \<le> idx div 8 then None
      else bloom_set f val ks (bits[idx div 8 := bits ! (idx div 8) OR bloom_mask idx]))"

definition bloom_Add :: "string \<Rightarrow> bloom \<Rightarrow> bloom option" where
  "bloom_Add val f =
     (case bloom_set f val [0..<unat (bl_k f)] (bl_bits f) of
        None \<Rightarrow> None | Some bits \<Rightarrow> Some (f\<lparr>bl_bits := bits\<rparr>))"

fun bloom_test :: "bloom \<Rightarrow> string \<Rightarrow> nat list \<Rightarrow> bool option" where
  "bloom_test f val [] = Some True"
| "bloom_test f val (i # ks) =
     (let idx = bloom_index f val i in
      if bl_m f = 0 \<or> length (bl_bits f) \<le> idx div 8 then None
      else if bl_bits f ! (idx div 8) AND bloom_mask idx = 0 then Some False
      else bloom_test f val ks)"

definition bloom_MayContain :: "string \<Rightarrow> bloom \<Rightarrow> bool option" where
  "bloom_MayContain val f = bloom_test f val [0..<unat (bl_k f)]"

section \<open>Sizing\<close>

definition f64_ln2 :: f64 where "f64_ln2 = 0x3FE62E42FEFA39EF"
definition f64_8 :: f64 where "f64_8 = 0x4020000000000000"
definition f64_1 :: f64 where "f64_1 = 0x3FF0000000000000"
definition f64_001 :: f64 where "f64_001 = 0x3F847AE147AE147B"

text \<open>The constant expression \<^verbatim>\<open>math.Ln2 * math.Ln2\<close> is computed exactly and rounded once.\<close>

definition f64_ln2_sq :: f64 where "f64_ln2_sq = 0x3FDEBFBDFF82C58F"

definition optimalM :: "(f64 \<Rightarrow> f64) \<Rightarrow> int \<Rightarrow> f64 \<Rightarrow> u32" where
  "optimalM Log n p =
     (let n = (if n \<le> 0 then 1 else n);
          p = (if f64_le p 0 \<or> f64_le f64_1 p then f64_001 else p);
          m = f64_ceil (f64_div (f64_mul (f64_mul (f64_of_int (- 1)) (f64_of_int n)) (Log p)) f64_ln2_sq)
      in f64_to_u32 (if f64_lt m f64_8 then f64_8 else m))"

definition optimalK :: "u32 \<Rightarrow> int \<Rightarrow> u32" where
  "optimalK m n =
     (let n = (if n \<le> 0 then 1 else n);
          k = f64_round_half_away (f64_mul (f64_div (f64_of_int (uint m)) (f64_of_int n)) f64_ln2)
      in f64_to_u32 (if f64_lt k f64_1 then f64_1 else k))"

definition bloom_bytes :: "u32 \<Rightarrow> nat" where
  "bloom_bytes m = unat ((m + 7) div 8)"

definition bloom_New :: "(f64 \<Rightarrow> f64) \<Rightarrow> nat \<Rightarrow> f64 \<Rightarrow> bloom" where
  "bloom_New Log expectedItems rate =
     (let m = optimalM Log (int expectedItems) rate; k = optimalK m (int expectedItems)
      in \<lparr>bl_m = m, bl_k = k, bl_bits = replicate (bloom_bytes m) 0\<rparr>)"

section \<open>Bytes\<close>

definition bloom_Encode :: "bloom \<Rightarrow> bytes" where
  "bloom_Encode f = put_u32 (bl_m f) @ put_u32 (bl_k f) @ bl_bits f"

definition bloom_EncodedSize :: "bloom \<Rightarrow> nat" where
  "bloom_EncodedSize f = 8 + length (bl_bits f)"

datatype bloom_error = BloomHeaderTruncated nat | BloomBitsTruncated nat nat

definition bloom_Decode :: "bytes \<Rightarrow> bloom_error + bloom \<times> nat" where
  "bloom_Decode data =
     (if length data < 8 then Inl (BloomHeaderTruncated (length data))
      else let m = get_u32 (take 4 data); k = get_u32 (take 4 (drop 4 data)); nBytes = bloom_bytes m in
        if length data < 8 + nBytes then Inl (BloomBitsTruncated nBytes (length data - 8))
        else Inr (\<lparr>bl_m = m, bl_k = k, bl_bits = take nBytes (drop 8 data)\<rparr>, 8 + nBytes))"

section \<open>Well-formed filters\<close>

text \<open>The bit array covers the modulus, which is not 0; \<open>2 ^ 32 - 7\<close> and above wrap the size.\<close>

definition bloom_ok :: "bloom \<Rightarrow> bool" where
  "bloom_ok f \<longleftrightarrow> bl_m f \<noteq> 0 \<and> unat (bl_m f) \<le> 2 ^ 32 - 8 \<and> length (bl_bits f) = bloom_bytes (bl_m f)"

lemma bloom_bytes_nat: "unat m \<le> 2 ^ 32 - 8 \<Longrightarrow> bloom_bytes m = (unat m + 7) div 8"
proof -
  assume "unat m \<le> 2 ^ 32 - 8"
  then have "unat (m + 7) = unat m + 7" by (subst unat_add_lem [THEN iffD1]) auto
  then show ?thesis by (simp add: bloom_bytes_def unat_div_distrib)
qed

lemma bloom_index_less:
  assumes "bl_m f \<noteq> 0"
  shows "bloom_index f val i < unat (bl_m f)"
proof -
  have pos: "0 < unat (bl_m f)" using assms by (simp add: unat_gt_0)
  have "unat (ucast (bl_m f) :: u64) = unat (bl_m f)" by (rule unat_ucast_u32)
  then have "unat (x mod ucast (bl_m f) :: u64) < unat (bl_m f)" for x :: u64
    using pos by (simp add: unat_mod_distrib)
  then show ?thesis by (simp add: bloom_index_def split: prod.splits)
qed

lemma bloom_index_in_range:
  assumes "bloom_ok f"
  shows "bloom_index f val i div 8 < length (bl_bits f)"
proof -
  have "bloom_index f val i < unat (bl_m f)"
    using assms by (intro bloom_index_less) (simp add: bloom_ok_def)
  moreover have "length (bl_bits f) = (unat (bl_m f) + 7) div 8"
    using assms by (simp add: bloom_ok_def bloom_bytes_nat)
  ultimately show ?thesis by linarith
qed

lemma bloom_index_bits [simp]: "bloom_index (f\<lparr>bl_bits := b\<rparr>) = bloom_index f"
  by (simp add: bloom_index_def fun_eq_iff)

text \<open>A set bit, read the way \<^verbatim>\<open>MayContain\<close> reads it.\<close>

definition bit_set :: "bytes \<Rightarrow> nat \<Rightarrow> bool" where
  "bit_set bits idx \<longleftrightarrow> bits ! (idx div 8) AND bloom_mask idx \<noteq> 0"

lemma mask_and: "(b :: byte) AND bloom_mask idx \<noteq> 0 \<longleftrightarrow> bit b (idx mod 8)"
proof -
  have "bit (b AND bloom_mask idx) i \<longleftrightarrow> i = idx mod 8 \<and> bit b i" if "i < 8" for i
    using that by (auto simp: bloom_mask_def bit_simps)
  then have "(b AND bloom_mask idx \<noteq> 0) \<longleftrightarrow> (\<exists>i < 8. i = idx mod 8 \<and> bit b i)"
    by (auto simp: bit_eq_iff dest: bit_imp_le_length)
  then show ?thesis by auto
qed

lemma bit_set_iff: "bit_set bits idx \<longleftrightarrow> bit (bits ! (idx div 8)) (idx mod 8)"
  by (simp add: bit_set_def mask_and)

lemma mask_self: "bit (bloom_mask idx) (idx mod 8)"
  by (simp add: bloom_mask_def bit_simps)

lemma bit_set_update:
  assumes "idx div 8 < length bits"
  shows "bit_set (bits[idx div 8 := bits ! (idx div 8) OR bloom_mask idx]) idx"
    and "bit_set bits j \<Longrightarrow> bit_set (bits[idx div 8 := bits ! (idx div 8) OR bloom_mask idx]) j"
  using assms by (auto simp: bit_set_iff nth_list_update bit_or_iff mask_self)

lemma bloom_set_ok:
  assumes "bl_m f \<noteq> 0" "\<forall>i. bloom_index f val i div 8 < length bits"
  shows "\<exists>bits'. bloom_set f val ks bits = Some bits' \<and> length bits' = length bits
    \<and> (\<forall>i \<in> set ks. bit_set bits' (bloom_index f val i)) \<and> (\<forall>j. bit_set bits j \<longrightarrow> bit_set bits' j)"
  using assms(2)
proof (induction ks arbitrary: bits)
  case Nil
  then show ?case by simp
next
  case (Cons i ks)
  let ?idx = "bloom_index f val i"
  let ?bits = "bits[?idx div 8 := bits ! (?idx div 8) OR bloom_mask ?idx]"
  have len: "?idx div 8 < length bits" using Cons.prems by blast
  from Cons.IH [of ?bits] Cons.prems obtain bits' where
      b: "bloom_set f val ks ?bits = Some bits'" "length bits' = length bits"
        "\<forall>i \<in> set ks. bit_set bits' (bloom_index f val i)" "\<forall>j. bit_set ?bits j \<longrightarrow> bit_set bits' j"
    by auto
  have "bloom_set f val (i # ks) bits = Some bits'"
    using assms(1) len b(1) by (simp add: Let_def)
  then show ?case using b bit_set_update [OF len] by auto
qed

lemma bloom_test_iff:
  assumes "bl_m f \<noteq> 0" "\<forall>i. bloom_index f val i div 8 < length (bl_bits f)"
  shows "bloom_test f val ks = Some (\<forall>i \<in> set ks. bit_set (bl_bits f) (bloom_index f val i))"
proof (induction ks)
  case (Cons i ks)
  have "\<not> length (bl_bits f) \<le> bloom_index f val i div 8" using assms(2) by (simp add: not_le)
  with Cons assms(1) show ?case by (auto simp: Let_def bit_set_def)
qed simp

lemma bloom_MayContain_iff:
  "bloom_ok f \<Longrightarrow> bloom_MayContain val f =
     Some (\<forall>i < unat (bl_k f). bit_set (bl_bits f) (bloom_index f val i))"
  using bloom_test_iff [of f val "[0..<unat (bl_k f)]"] bloom_index_in_range [of f val]
  by (auto simp: bloom_MayContain_def bloom_ok_def)

lemma bloom_Add_ok:
  assumes "bloom_ok f"
  obtains f' where "bloom_Add val f = Some f'" "bloom_ok f'" "bl_m f' = bl_m f" "bl_k f' = bl_k f"
    "bloom_MayContain val f' = Some True"
    "\<And>v. bloom_MayContain v f = Some True \<Longrightarrow> bloom_MayContain v f' = Some True"
proof -
  have m: "bl_m f \<noteq> 0" using assms by (simp add: bloom_ok_def)
  obtain bits' where b: "bloom_set f val [0..<unat (bl_k f)] (bl_bits f) = Some bits'"
      "length bits' = length (bl_bits f)"
      "\<forall>i < unat (bl_k f). bit_set bits' (bloom_index f val i)"
      "\<forall>j. bit_set (bl_bits f) j \<longrightarrow> bit_set bits' j"
    using bloom_set_ok [OF m, of val "bl_bits f" "[0..<unat (bl_k f)]"] bloom_index_in_range [OF assms]
    by auto
  let ?f = "f\<lparr>bl_bits := bits'\<rparr>"
  have ok: "bloom_ok ?f" using assms b(2) by (simp add: bloom_ok_def)
  show ?thesis
  proof (rule that [of ?f])
    show "bloom_Add val f = Some ?f" by (simp add: bloom_Add_def b(1))
    show "bloom_MayContain val ?f = Some True"
      using b(3) by (simp add: bloom_MayContain_iff [OF ok])
    show "bloom_MayContain v f = Some True \<Longrightarrow> bloom_MayContain v ?f = Some True" for v
      using b(4) by (auto simp: bloom_MayContain_iff [OF ok] bloom_MayContain_iff [OF assms])
  qed (simp_all add: ok)
qed

text \<open>Adding a list of values, as the segment writer does.\<close>

fun bloom_add_all :: "string list \<Rightarrow> bloom \<Rightarrow> bloom option" where
  "bloom_add_all [] f = Some f"
| "bloom_add_all (v # vs) f = (case bloom_Add v f of None \<Rightarrow> None | Some f \<Rightarrow> bloom_add_all vs f)"

lemma bloom_add_all_ok:
  assumes "bloom_ok f"
  shows "\<exists>f'. bloom_add_all vs f = Some f' \<and> bloom_ok f' \<and> bl_m f' = bl_m f \<and> bl_k f' = bl_k f
    \<and> (\<forall>v \<in> set vs. bloom_MayContain v f' = Some True)
    \<and> (\<forall>v. bloom_MayContain v f = Some True \<longrightarrow> bloom_MayContain v f' = Some True)"
  using assms
proof (induction vs arbitrary: f)
  case Nil
  then show ?case by simp
next
  case (Cons v vs)
  from Cons.prems obtain f1 where f1: "bloom_Add v f = Some f1" "bloom_ok f1" "bl_m f1 = bl_m f" "bl_k f1 = bl_k f"
      "bloom_MayContain v f1 = Some True"
      "\<And>u. bloom_MayContain u f = Some True \<Longrightarrow> bloom_MayContain u f1 = Some True"
    using bloom_Add_ok [of f v] by metis
  with Cons.IH [OF f1(2)] show ?case by auto
qed

lemma bloom_Decode_Encode:
  assumes "length (bl_bits f) = bloom_bytes (bl_m f)"
  shows "bloom_Decode (bloom_Encode f @ rest) = Inr (f, bloom_EncodedSize f)"
  using assms by (simp add: bloom_Decode_def bloom_Encode_def bloom_EncodedSize_def Let_def)

lemma length_bloom_Encode [length_simps]: "length (bloom_Encode f) = bloom_EncodedSize f"
  by (simp add: bloom_Encode_def bloom_EncodedSize_def)

lemma bloom_New_ok:
  assumes "8 \<le> optimalM Log (int n) p" "unat (optimalM Log (int n) p) \<le> 2 ^ 32 - 8"
  shows "bloom_ok (bloom_New Log n p)"
proof -
  have "optimalM Log (int n) p \<noteq> 0" using assms(1) by auto
  with assms(2) show ?thesis by (simp add: bloom_ok_def bloom_New_def Let_def)
qed

end
