(* ===== verification/Segment.thy ===== *)
theory Segment
  imports Wal_Codec Bloom File_Store
begin

text \<open>
  Segment files, \<^verbatim>\<open>internal/segment/writer.go\<close> and \<^verbatim>\<open>internal/segment/reader.go\<close>: a header
  with the time range of the spans, a section of bloom filters (one per dimension) and the
  framed span records. The store is the directory of segment files with its schedule of
  input/output failures; a file once written never changes, so an open reader holds its bytes.
\<close>

section \<open>Layout\<close>

definition Magic :: u32 where "Magic = 0x57545331"
definition CurrentSegmentVersion :: u16 where "CurrentSegmentVersion = 2"
definition headerSize :: nat where "headerSize = 4 + 2 + 8 + 4 + 8 + 8 + 4"
definition recordFramingSize :: nat where "recordFramingSize = 4 + 4"
definition bloomFalsePositiveRate :: f64 where "bloomFalsePositiveRate = f64_001"

definition BloomDimensions :: "string list" where
  "BloomDimensions = [''agent_id'', ''model'', ''tool_name'', ''team'', ''status'']"

definition dimensionValue :: "span_payload \<Rightarrow> string \<Rightarrow> string" where
  "dimensionValue span dim =
     (if dim = ''agent_id'' then AgentID span
      else if dim = ''model'' then Model span
      else if dim = ''tool_name'' then ToolName span
      else if dim = ''team'' then Team span
      else if dim = ''status'' then Status span
      else [])"

record segment_header =
  hd_SegmentID :: u64
  hd_SpanCount :: u32
  hd_MinTimestamp :: i64
  hd_MaxTimestamp :: i64
  hd_BloomSectionLength :: u32

record write_result =
  wr_SegmentID :: u64
  wr_SpanCount :: nat
  wr_MinTimestamp :: i64
  wr_MaxTimestamp :: i64
  wr_Offsets :: "(string \<times> u64) list"

datatype seg_error =
  SegEmpty
| SegExists u64
| SegNotExist
| SegIO
| SegReadShort
| SegBadMagic u32
| SegBadVersion u16
| SegBloomShort
| SegBloom bloom_error
| SegChecksum u64
| SegDecode wal_error
| SegPanic

definition SegmentPath :: "u64 \<Rightarrow> string" where
  "SegmentPath i = ''segment_'' @ pad6 (unat i) @ ''.seg''"

definition CompositeKey :: "string \<Rightarrow> string \<Rightarrow> string" where
  "CompositeKey traceID spanID = traceID @ ''||'' @ spanID"

section \<open>Writer\<close>

text \<open>The buffered spans of a \<^verbatim>\<open>Writer\<close> are the list handed to \<open>seg_Flush\<close>.\<close>

definition writeHeader :: "u64 \<Rightarrow> u32 \<Rightarrow> i64 \<Rightarrow> i64 \<Rightarrow> u32 \<Rightarrow> bytes" where
  "writeHeader segmentID spanCount minTS maxTS bloomSectionLength =
     put_u32 Magic @ put_u16 CurrentSegmentVersion @ put_u64 segmentID @ put_u32 spanCount
       @ put_u64 minTS @ put_u64 maxTS @ put_u32 bloomSectionLength"

definition writeRecord :: "span_payload \<Rightarrow> bytes" where
  "writeRecord span =
     (let payload = encode_span_payload span
      in put_u32 (word_of_nat (length payload)) @ put_u32 (crc32 payload) @ payload)"

fun write_filters :: "(f64 \<Rightarrow> f64) \<Rightarrow> span_payload list \<Rightarrow> string list \<Rightarrow> bytes option" where
  "write_filters Log spans [] = Some []"
| "write_filters Log spans (dim # dims) =
     (case bloom_add_all (map (\<lambda>s. dimensionValue s dim) spans)
             (bloom_New Log (length spans) bloomFalsePositiveRate) of
        None \<Rightarrow> None
      | Some f \<Rightarrow>
          (case write_filters Log spans dims of None \<Rightarrow> None | Some bs \<Rightarrow> Some (bloom_Encode f @ bs)))"

definition buildBloomSection :: "(f64 \<Rightarrow> f64) \<Rightarrow> span_payload list \<Rightarrow> bytes option" where
  "buildBloomSection Log spans = write_filters Log spans BloomDimensions"

definition min_ts :: "span_payload list \<Rightarrow> i64" where
  "min_ts spans = foldl (\<lambda>m s. if Timestamp s <s m then Timestamp s else m) (Timestamp (hd spans)) spans"

definition max_ts :: "span_payload list \<Rightarrow> i64" where
  "max_ts spans = foldl (\<lambda>m s. if m <s Timestamp s then Timestamp s else m) (Timestamp (hd spans)) spans"

text \<open>The loop that writes the records and notes the offset of each.\<close>

fun write_records ::
    "span_payload list \<Rightarrow> u64 \<Rightarrow> (string \<times> u64) list \<Rightarrow> bytes \<times> (string \<times> u64) list" where
  "write_records [] written offsets = ([], offsets)"
| "write_records (span # spans) written offsets =
     (let rec = writeRecord span;
          (bs, offsets) = write_records spans (written + word_of_nat (length rec))
             (AList.update (CompositeKey (TraceID span) (SpanID span)) written offsets)
      in (rec @ bs, offsets))"

text \<open>
  The deferred cleanup of a failed flush: the file is removed; should that fail as well, what
  was written stays.
\<close>

definition seg_cleanup :: "string \<Rightarrow> file_store \<Rightarrow> file_store" where
  "seg_cleanup path st =
     (case fs_fault st of
        (Some _, st) \<Rightarrow> st
      | (None, st) \<Rightarrow> st\<lparr>fs_dir := dir_del path (fs_dir st)\<rparr>)"

definition seg_write_file :: "string \<Rightarrow> bytes \<Rightarrow> file_store \<Rightarrow> (seg_error + unit) \<times> file_store" where
  "seg_write_file path data st =
     (case fs_fault st of
        (Some n, st) \<Rightarrow>
          (Inl SegIO, seg_cleanup path (st\<lparr>fs_dir := dir_put path (take n data) (fs_dir st)\<rparr>))
      | (None, st) \<Rightarrow>
          let st = st\<lparr>fs_dir := dir_put path data (fs_dir st)\<rparr> in
          (case fs_fault st of
             (Some _, st) \<Rightarrow> (Inl SegIO, seg_cleanup path st)
           | (None, st) \<Rightarrow> (Inr (), st)))"

definition seg_Flush ::
    "(f64 \<Rightarrow> f64) \<Rightarrow> u64 \<Rightarrow> span_payload list \<Rightarrow> file_store \<Rightarrow> (seg_error + write_result) \<times> file_store" where
  "seg_Flush Log segmentID spans st =
     (if spans = [] then (Inl SegEmpty, st)
      else
        let path = SegmentPath segmentID; (statErr, st) = fs_fault st in
        if statErr = None \<and> dir_get (fs_dir st) path \<noteq> None then (Inl (SegExists segmentID), st)
        else case fs_fault st of
          (Some _, st) \<Rightarrow> (Inl SegIO, st)
        | (None, st) \<Rightarrow>
            let st = st\<lparr>fs_dir := dir_put path [] (fs_dir st)\<rparr>;
                minTS = min_ts spans; maxTS = max_ts spans
            in case buildBloomSection Log spans of
                 None \<Rightarrow> (Inl SegPanic, seg_cleanup path st)
               | Some sect \<Rightarrow>
                   let header = writeHeader segmentID (word_of_nat (length spans)) minTS maxTS
                                  (word_of_nat (length sect));
                       (records, offsets) =
                         write_records spans (word_of_nat headerSize + word_of_nat (length sect)) []
                   in rbind (seg_write_file path (header @ sect @ records) st) (\<lambda>_ st.
                        (Inr \<lparr>wr_SegmentID = segmentID, wr_SpanCount = length spans,
                              wr_MinTimestamp = minTS, wr_MaxTimestamp = maxTS, wr_Offsets = offsets\<rparr>, st)))"

section \<open>Reader\<close>

record seg_reader =
  rd_data :: bytes
  rd_Header :: segment_header
  rd_Blooms :: "(string \<times> bloom) list option"

definition readHeader :: "bytes \<Rightarrow> seg_error + segment_header" where
  "readHeader data =
     (if length data < headerSize then Inl SegReadShort
      else let magic = get_u32 (bslice 0 4 data); version = get_u16 (bslice 4 6 data) in
        if magic \<noteq> Magic then Inl (SegBadMagic magic)
        else if version \<noteq> CurrentSegmentVersion then Inl (SegBadVersion version)
        else Inr \<lparr>hd_SegmentID = get_u64 (bslice 6 14 data), hd_SpanCount = get_u32 (bslice 14 18 data),
                  hd_MinTimestamp = get_u64 (bslice 18 26 data),
                  hd_MaxTimestamp = get_u64 (bslice 26 34 data),
                  hd_BloomSectionLength = get_u32 (bslice 34 38 data)\<rparr>)"

fun decode_filters :: "string list \<Rightarrow> bytes \<Rightarrow> seg_error + (string \<times> bloom) list" where
  "decode_filters [] data = Inr []"
| "decode_filters (dim # dims) data =
     (case bloom_Decode data of
        Inl e \<Rightarrow> Inl (SegBloom e)
      | Inr (f, n) \<Rightarrow>
          (case decode_filters dims (drop n data) of Inl e \<Rightarrow> Inl e | Inr fs \<Rightarrow> Inr ((dim, f) # fs)))"

definition readBlooms :: "bytes \<Rightarrow> u32 \<Rightarrow> seg_error + (string \<times> bloom) list" where
  "readBlooms data sectionLength =
     (if length data < unat sectionLength then Inl SegBloomShort
      else decode_filters BloomDimensions (take (unat sectionLength) data))"

text \<open>The two ways to open a segment, on the bytes of its file.\<close>

definition open_full :: "bytes \<Rightarrow> seg_error + seg_reader" where
  "open_full data =
     (case readHeader data of
        Inl e \<Rightarrow> Inl e
      | Inr h \<Rightarrow>
          (case readBlooms (drop headerSize data) (hd_BloomSectionLength h) of
             Inl e \<Rightarrow> Inl e
           | Inr fs \<Rightarrow> Inr \<lparr>rd_data = data, rd_Header = h, rd_Blooms = Some fs\<rparr>))"

definition open_light :: "bytes \<Rightarrow> seg_error + seg_reader" where
  "open_light data =
     (case readHeader data of
        Inl e \<Rightarrow> Inl e
      | Inr h \<Rightarrow> Inr \<lparr>rd_data = data, rd_Header = h, rd_Blooms = None\<rparr>)"

definition open_with :: "(bytes \<Rightarrow> seg_error + seg_reader) \<Rightarrow> u64 \<Rightarrow> file_store \<Rightarrow> (seg_error + seg_reader) \<times> file_store" where
  "open_with parse i st =
     (case fs_fault st of
        (Some _, st) \<Rightarrow> (Inl SegIO, st)
      | (None, st) \<Rightarrow>
          (case dir_get (fs_dir st) (SegmentPath i) of
             None \<Rightarrow> (Inl SegNotExist, st)
           | Some data \<Rightarrow> (parse data, st)))"

definition OpenReader :: "u64 \<Rightarrow> file_store \<Rightarrow> (seg_error + seg_reader) \<times> file_store" where
  "OpenReader i st = open_with open_full i st"

definition OpenReaderLight :: "u64 \<Rightarrow> file_store \<Rightarrow> (seg_error + seg_reader) \<times> file_store" where
  "OpenReaderLight i st = open_with open_light i st"

text \<open>
  \<^verbatim>\<open>os.File.ReadAt\<close>: a negative offset is an error, an empty buffer is filled at once, and
  fewer bytes than asked for are an error.
\<close>

definition file_ReadAt :: "bytes \<Rightarrow> nat \<Rightarrow> i64 \<Rightarrow> bytes option" where
  "file_ReadAt data n off =
     (if off <s 0 then None
      else if n = 0 then Some []
      else if length data < unat off + n then None
      else Some (take n (drop (unat off) data)))"

definition rd_ReadAt :: "seg_reader \<Rightarrow> u64 \<Rightarrow> seg_error + span_payload" where
  "rd_ReadAt r offset =
     (case file_ReadAt (rd_data r) recordFramingSize offset of
        None \<Rightarrow> Inl SegReadShort
      | Some framing \<Rightarrow>
          let len = get_u32 (take 4 framing); checksum = get_u32 (drop 4 framing) in
          (case file_ReadAt (rd_data r) (unat len) (offset + word_of_nat recordFramingSize) of
             None \<Rightarrow> Inl SegReadShort
           | Some payload \<Rightarrow>
               if crc32 payload \<noteq> checksum then Inl (SegChecksum offset)
               else (case decode_span_payload payload of Inl e \<Rightarrow> Inl (SegDecode e) | Inr s \<Rightarrow> Inr s)))"

text \<open>
  The loop of \<^verbatim>\<open>ScanAllFunc\<close>, with the callback as a function on the caller's state that
  says whether to go on.
\<close>

function scan_from ::
    "(u64 \<Rightarrow> span_payload \<Rightarrow> 's \<Rightarrow> bool \<times> 's) \<Rightarrow> u64 \<Rightarrow> bytes \<Rightarrow> 's \<Rightarrow> (seg_error + unit) \<times> 's" where
  "scan_from f offset bs s =
     (if bs = [] then (Inr (), s)
      else if length bs < recordFramingSize then (Inl SegReadShort, s)
      else
        let len = unat (get_u32 (bslice 0 4 bs)); checksum = get_u32 (bslice 4 8 bs);
            rest = drop recordFramingSize bs
        in if length rest < len then (Inl SegReadShort, s)
           else if crc32 (take len rest) \<noteq> checksum then (Inl (SegChecksum offset), s)
           else case decode_span_payload (take len rest) of
                  Inl e \<Rightarrow> (Inl (SegDecode e), s)
                | Inr span \<Rightarrow>
                    (case f offset span s of
                       (False, s) \<Rightarrow> (Inr (), s)
                     | (True, s) \<Rightarrow>
                         scan_from f (offset + word_of_nat recordFramingSize + word_of_nat len) (drop len rest) s))"
  by pat_completeness auto
termination
  by (relation "measure (\<lambda>(f, offset, bs, s). length bs)") (auto simp: recordFramingSize_def)

declare scan_from.simps [simp del]

definition rd_ScanAllFunc ::
    "(u64 \<Rightarrow> span_payload \<Rightarrow> 's \<Rightarrow> bool \<times> 's) \<Rightarrow> seg_reader \<Rightarrow> 's \<Rightarrow> (seg_error + unit) \<times> 's" where
  "rd_ScanAllFunc f r s =
     (let start = headerSize + unat (hd_BloomSectionLength (rd_Header r))
      in scan_from f (word_of_nat start) (drop start (rd_data r)) s)"

definition rd_ScanAll :: "seg_reader \<Rightarrow> seg_error + (u64 \<times> span_payload) list" where
  "rd_ScanAll r =
     (case rd_ScanAllFunc (\<lambda>offset span spans. (True, spans @ [(offset, span)])) r [] of
        (Inl e, _) \<Rightarrow> Inl e | (Inr _, spans) \<Rightarrow> Inr spans)"

end
