(* ===== verification/Segment_Spec.thy ===== *)
theory Segment_Spec
  imports Segment
begin

text \<open>
  What a segment file promises: every span written is read back at the offset the writer
  reports and by a scan, its dimensions pass the file's bloom filters, and its timestamp lies in
  the file's range. The interface \<open>span_segments\<close> states the contract for the engine.
\<close>

section \<open>Records and offsets\<close>

definition seg_fits :: "span_payload list \<Rightarrow> bool" where
  "seg_fits spans \<longleftrightarrow> (\<forall>s \<in> set spans. span_fits s \<and> payload_encoded_size s < 2 ^ 32)"

lemma seg_fits_simps [simp]:
  "seg_fits []"
  "seg_fits (s # spans) \<longleftrightarrow> span_fits s \<and> payload_encoded_size s < 2 ^ 32 \<and> seg_fits spans"
  by (auto simp: seg_fits_def)

fun placed :: "u64 \<Rightarrow> span_payload list \<Rightarrow> (u64 \<times> span_payload) list" where
  "placed off [] = []"
| "placed off (s # spans) = (off, s) # placed (off + word_of_nat (length (writeRecord s))) spans"

lemma map_snd_placed [simp]: "map snd (placed off spans) = spans"
  by (induction spans arbitrary: off) auto

abbreviation span_key :: "span_payload \<Rightarrow> string" where
  "span_key s \<equiv> CompositeKey (TraceID s) (SpanID s)"

lemma length_writeRecord [length_simps]: "length (writeRecord s) = recordFramingSize + payload_encoded_size s"
  by (simp add: writeRecord_def Let_def recordFramingSize_def encode_span_payload_def length_encode_payload)

definition record_bytes :: "span_payload list \<Rightarrow> bytes" where
  "record_bytes spans = concat (map writeRecord spans)"

lemma write_records_eq:
  "write_records spans off offs =
     (record_bytes spans, fold (\<lambda>(o', s). AList.update (span_key s) o') (placed off spans) offs)"
  by (induction spans off offs rule: write_records.induct) (auto simp: Let_def record_bytes_def)

text \<open>Of several spans with one key the offset is that of the last one.\<close>

definition last_span :: "string \<Rightarrow> span_payload list \<Rightarrow> span_payload option" where
  "last_span k spans = map_of (rev (map (\<lambda>s. (span_key s, s)) spans)) k"

lemma map_of_placed:
  "map_of (fold (\<lambda>(o', s). AList.update (span_key s) o') ps offs) =
     map_of offs ++ map_of (rev (map (\<lambda>(o', s). (span_key s, o')) ps))"
  by (induction ps arbitrary: offs) (auto simp: update_conv' map_add_def fun_eq_iff split: option.splits)

lemma offset_of_last:
  fixes spans :: "span_payload list" and off :: u64 and k :: string
  defines "L \<equiv> map_of (rev (map (\<lambda>p. (span_key (snd p), p)) (placed off spans))) k"
  shows "map_of (snd (write_records spans off [])) k = map_option fst L" "last_span k spans = map_option snd L"
    and "L = Some p \<Longrightarrow> p \<in> set (placed off spans) \<and> span_key (snd p) = k"
proof -
  have gen: "map_of (rev (map (\<lambda>p. (span_key (snd p), g p)) ps)) k
      = map_option g (map_of (rev (map (\<lambda>p. (span_key (snd p), p)) ps)) k)"
    for ps :: "(u64 \<times> span_payload) list" and g :: "u64 \<times> span_payload \<Rightarrow> 'a"
  proof -
    have "map_of (map (\<lambda>p. (span_key (snd p), g p)) qs) k
        = map_option g (map_of (map (\<lambda>p. (span_key (snd p), p)) qs) k)"
      for qs :: "(u64 \<times> span_payload) list" by (induction qs) auto
    then show ?thesis by (simp only: rev_map)
  qed
  show "map_of (snd (write_records spans off [])) k = map_option fst L"
    unfolding write_records_eq snd_conv map_of_placed L_def
    using gen [of fst "placed off spans"] by (simp add: case_prod_beta')
  have "map (\<lambda>p. (span_key (snd p), snd p)) (placed off spans) = map (\<lambda>s. (span_key s, s)) spans"
    by (induction spans arbitrary: off) auto
  then show "last_span k spans = map_option snd L" using gen [of snd "placed off spans"] by (simp add: last_span_def L_def)
  show "L = Some p \<Longrightarrow> p \<in> set (placed off spans) \<and> span_key (snd p) = k"
    by (auto simp: L_def dest!: map_of_SomeD)
qed

text \<open>One record, read back where it starts.\<close>

lemma decode_record:
  assumes "span_fits s" "payload_encoded_size s < 2 ^ 32"
  shows "unat (get_u32 (bslice 0 4 (writeRecord s @ rest))) = payload_encoded_size s"
    "get_u32 (bslice 4 8 (writeRecord s @ rest)) = crc32 (encode_span_payload s)"
    "drop recordFramingSize (writeRecord s @ rest) = encode_span_payload s @ rest"
    "decode_span_payload (encode_span_payload s) = Inr s"
    "length (encode_span_payload s) = payload_encoded_size s"
  using assms
  by (simp_all add: writeRecord_def Let_def bslice_def recordFramingSize_def encode_span_payload_def
      length_encode_payload unat_of_nat decode_encode_span [unfolded encode_span_payload_def])

lemma framing_less: "\<not> length (writeRecord s @ rest) < recordFramingSize" "writeRecord s @ rest \<noteq> []"
  using length_writeRecord [of s] by (auto simp: recordFramingSize_def)

fun scan_fold :: "(u64 \<Rightarrow> span_payload \<Rightarrow> 's \<Rightarrow> bool \<times> 's) \<Rightarrow> (u64 \<times> span_payload) list \<Rightarrow> 's \<Rightarrow> 's" where
  "scan_fold f [] s = s"
| "scan_fold f ((off, x) # ps) s = (case f off x s of (False, s) \<Rightarrow> s | (True, s) \<Rightarrow> scan_fold f ps s)"

lemma scan_records:
  "seg_fits spans \<Longrightarrow> scan_from f off (record_bytes spans) s = (Inr (), scan_fold f (placed off spans) s)"
proof (induction spans arbitrary: off s)
  case Nil
  then show ?case by (subst scan_from.simps) (simp add: record_bytes_def)
next
  case (Cons x spans)
  then have x: "span_fits x" "payload_encoded_size x < 2 ^ 32" and rest: "seg_fits spans" by simp_all
  have next_off: "off + word_of_nat recordFramingSize + word_of_nat (payload_encoded_size x)
      = off + word_of_nat (length (writeRecord x))" by (simp add: length_writeRecord)
  have bytes: "record_bytes (x # spans) = writeRecord x @ record_bytes spans" by (simp add: record_bytes_def)
  show ?case
    unfolding bytes
    by (subst scan_from.simps)
      (simp only: framing_less decode_record [OF x] Let_def if_False next_off Cons.IH [OF rest]
        length_append take_append_exact drop_append_exact sum.case placed.simps scan_fold.simps
        not_add_less1 simp_thms, simp add: length_writeRecord split: prod.split bool.split)
qed

lemma file_ReadAt_append:
  assumes "length pre + length xs < 2 ^ 63" "length xs = n"
  shows "file_ReadAt (pre @ xs @ post) n (word_of_nat (length pre)) = Some xs"
proof -
  have len: "length pre < 2 ^ 63" using assms by simp
  have u: "unat (word_of_nat (length pre) :: u64) = length pre"
    using len by (simp add: unat_of_nat)
  have "\<not> (word_of_nat (length pre) :: u64) <s 0"
    using len u sint_small [of "word_of_nat (length pre)"] by (simp add: word_sless_alt)
  then show ?thesis using assms(2) u by (auto simp: file_ReadAt_def)
qed

lemma rd_ReadAt_record:
  assumes data: "rd_data r = pre @ writeRecord s @ post" and small: "length pre + length (writeRecord s) < 2 ^ 63"
    and s: "span_fits s" "payload_encoded_size s < 2 ^ 32"
  shows "rd_ReadAt r (word_of_nat (length pre)) = Inr s"
proof -
  let ?p = "encode_span_payload s"
  let ?f = "put_u32 (word_of_nat (length ?p)) @ put_u32 (crc32 ?p)"
  have rec: "writeRecord s = ?f @ ?p" by (simp add: writeRecord_def Let_def)
  have lenf: "length ?f = recordFramingSize" by (simp add: recordFramingSize_def)
  have f1: "file_ReadAt (rd_data r) recordFramingSize (word_of_nat (length pre)) = Some ?f"
    using file_ReadAt_append [of pre ?f recordFramingSize "?p @ post"] small lenf by (simp add: data rec)
  have u: "unat (get_u32 (take 4 ?f)) = length ?p"
    using s(2) decode_record(5) [OF s] by (simp add: unat_of_nat)
  have off: "(word_of_nat (length pre) :: u64) + word_of_nat recordFramingSize = word_of_nat (length (pre @ ?f))"
    using lenf by simp
  have f2: "file_ReadAt (rd_data r) (length ?p) (word_of_nat (length pre) + word_of_nat recordFramingSize) = Some ?p"
    using file_ReadAt_append [of "pre @ ?f" ?p "length ?p" post] small unfolding off by (simp add: data rec)
  show ?thesis
    unfolding rd_ReadAt_def f1 option.case Let_def u f2 by (simp add: decode_record(4) [OF s])
qed

lemma placed_split:
  assumes "(off, s) \<in> set (placed (word_of_nat start) spans)"
  shows "\<exists>xs ys. spans = xs @ s # ys \<and> off = word_of_nat (start + length (record_bytes xs))"
  using assms
proof (induction spans arbitrary: start)
  case Nil
  then show ?case by simp
next
  case (Cons x spans)
  show ?case
  proof (cases "off = word_of_nat start \<and> s = x")
    case True
    then have "x # spans = [] @ s # spans \<and> off = word_of_nat (start + length (record_bytes []))"
      by (simp add: record_bytes_def)
    then show ?thesis by blast
  next
    case False
    with Cons.prems have "(off, s) \<in> set (placed (word_of_nat (start + length (writeRecord x))) spans)" by auto
    then obtain xs ys where "spans = xs @ s # ys"
        "off = word_of_nat (start + length (writeRecord x) + length (record_bytes xs))" using Cons.IH by blast
    then have "x # spans = (x # xs) @ s # ys \<and> off = word_of_nat (start + length (record_bytes (x # xs)))"
      by (simp add: record_bytes_def add.assoc)
    then show ?thesis by blast
  qed
qed

section \<open>Header\<close>

definition segment_data :: "u64 \<Rightarrow> span_payload list \<Rightarrow> bytes \<Rightarrow> bytes" where
  "segment_data i spans sect =
     writeHeader i (word_of_nat (length spans)) (min_ts spans) (max_ts spans) (word_of_nat (length sect))
       @ sect @ record_bytes spans"

lemma length_writeHeader [simp, length_simps]: "length (writeHeader i n a b l) = headerSize"
  by (simp add: writeHeader_def headerSize_def)

lemma readHeader_data:
  "readHeader (writeHeader i n a b l @ rest) = Inr \<lparr>hd_SegmentID = i, hd_SpanCount = n, hd_MinTimestamp = a,
     hd_MaxTimestamp = b, hd_BloomSectionLength = l\<rparr>"
  by (simp add: readHeader_def writeHeader_def headerSize_def Let_def bslice_def)

text \<open>The range of the header covers every span.\<close>

lemma sless_iff: "(a :: i64) <s b \<longleftrightarrow> sint a < sint b"
  by (simp add: word_sless_alt)

lemma min_ts_le: "s \<in> set spans \<Longrightarrow> sint (min_ts spans) \<le> sint (Timestamp s)"
proof -
  have gen: "sint (foldl (\<lambda>m s. if Timestamp s <s m then Timestamp s else m) m0 xs) \<le> sint m0 \<and>
      (\<forall>s \<in> set xs. sint (foldl (\<lambda>m s. if Timestamp s <s m then Timestamp s else m) m0 xs) \<le> sint (Timestamp s))"
    for m0 and xs :: "span_payload list"
  proof (induction xs arbitrary: m0)
    case (Cons x xs)
    let ?m = "if Timestamp x <s m0 then Timestamp x else m0"
    have "sint ?m \<le> sint m0" "sint ?m \<le> sint (Timestamp x)" by (auto simp: sless_iff)
    with Cons [of ?m] show ?case by fastforce
  qed simp
  assume "s \<in> set spans"
  then show ?thesis using gen [of "Timestamp (hd spans)" spans] by (simp add: min_ts_def)
qed

lemma max_ts_ge: "s \<in> set spans \<Longrightarrow> sint (Timestamp s) \<le> sint (max_ts spans)"
proof -
  have gen: "sint m0 \<le> sint (foldl (\<lambda>m s. if m <s Timestamp s then Timestamp s else m) m0 xs) \<and>
      (\<forall>s \<in> set xs. sint (Timestamp s) \<le> sint (foldl (\<lambda>m s. if m <s Timestamp s then Timestamp s else m) m0 xs))"
    for m0 and xs :: "span_payload list"
  proof (induction xs arbitrary: m0)
    case (Cons x xs)
    let ?m = "if m0 <s Timestamp x then Timestamp x else m0"
    have "sint m0 \<le> sint ?m" "sint (Timestamp x) \<le> sint ?m" by (auto simp: sless_iff)
    with Cons [of ?m] show ?case by fastforce
  qed simp
  assume "s \<in> set spans"
  then show ?thesis using gen [of "Timestamp (hd spans)" spans] by (simp add: max_ts_def)
qed

section \<open>Bloom sect\<close>

definition sizing_ok :: "(f64 \<Rightarrow> f64) \<Rightarrow> nat \<Rightarrow> bool" where
  "sizing_ok Log n \<longleftrightarrow> bloom_ok (bloom_New Log n bloomFalsePositiveRate)"

definition admits :: "(string \<times> bloom) list \<Rightarrow> span_payload \<Rightarrow> bool" where
  "admits fs s \<longleftrightarrow> (\<forall>(dim, f) \<in> set fs. bloom_MayContain (dimensionValue s dim) f = Some True)"

lemma write_filters_ok:
  assumes "sizing_ok Log (length spans)"
  shows "\<exists>sect fs. write_filters Log spans dims = Some sect \<and> map fst fs = dims
    \<and> (\<forall>rest. decode_filters dims (sect @ rest) = Inr fs) \<and> (\<forall>s \<in> set spans. admits fs s)
    \<and> (\<forall>(dim, f) \<in> set fs. bloom_ok f)"
proof (induction dims)
  case Nil
  then show ?case by (simp add: admits_def)
next
  case (Cons dim dims)
  then obtain sect fs where IH: "write_filters Log spans dims = Some sect" "map fst fs = dims"
      "\<forall>rest. decode_filters dims (sect @ rest) = Inr fs" "\<forall>s \<in> set spans. admits fs s"
      "\<forall>(dim, f) \<in> set fs. bloom_ok f" by blast
  let ?f0 = "bloom_New Log (length spans) bloomFalsePositiveRate"
  obtain f where f: "bloom_add_all (map (\<lambda>s. dimensionValue s dim) spans) ?f0 = Some f" "bloom_ok f"
      "\<forall>s \<in> set spans. bloom_MayContain (dimensionValue s dim) f = Some True"
    using bloom_add_all_ok [of ?f0 "map (\<lambda>s. dimensionValue s dim) spans"] assms
    by (auto simp: sizing_ok_def)
  have dec: "bloom_Decode (bloom_Encode f @ rest) = Inr (f, length (bloom_Encode f))" for rest
    using bloom_Decode_Encode f(2) by (simp add: bloom_ok_def length_bloom_Encode)
  show ?case
  proof (intro exI conjI allI)
    show "write_filters Log spans (dim # dims) = Some (bloom_Encode f @ sect)" using f(1) IH(1) by simp
    show "map fst ((dim, f) # fs) = dim # dims" using IH(2) by simp
    show "decode_filters (dim # dims) ((bloom_Encode f @ sect) @ rest) = Inr ((dim, f) # fs)" for rest
      using dec [of "sect @ rest"] IH(3) by simp
    show "\<forall>s \<in> set spans. admits ((dim, f) # fs) s" using IH(4) f(3) by (simp add: admits_def)
    show "\<forall>(dim', f') \<in> set ((dim, f) # fs). bloom_ok f'" using IH(5) f(2) by simp
  qed
qed

lemma buildBloomSection_ok:
  assumes "sizing_ok Log (length spans)"
  obtains sect fs where "buildBloomSection Log spans = Some sect" "map fst fs = BloomDimensions"
    "\<And>rest. decode_filters BloomDimensions (sect @ rest) = Inr fs" "\<forall>s \<in> set spans. admits fs s"
    "\<forall>(dim, f) \<in> set fs. bloom_ok f"
  using write_filters_ok [OF assms, of BloomDimensions] unfolding buildBloomSection_def by blast

section \<open>Reading a written file\<close>

lemma open_full_data:
  assumes "length sect < 2 ^ 32" "decode_filters BloomDimensions sect = Inr fs"
  shows "\<exists>r. open_full (segment_data i spans sect) = Inr r \<and> rd_data r = segment_data i spans sect
    \<and> rd_Blooms r = Some fs \<and> hd_SegmentID (rd_Header r) = i \<and> hd_MinTimestamp (rd_Header r) = min_ts spans
    \<and> hd_MaxTimestamp (rd_Header r) = max_ts spans \<and> unat (hd_BloomSectionLength (rd_Header r)) = length sect"
  using assms
  by (simp add: open_full_def segment_data_def readHeader_data readBlooms_def unat_of_nat)

lemma open_light_data:
  assumes "length sect < 2 ^ 32"
  shows "\<exists>r. open_light (segment_data i spans sect) = Inr r \<and> rd_data r = segment_data i spans sect
    \<and> unat (hd_BloomSectionLength (rd_Header r)) = length sect"
  using assms by (simp add: open_light_def segment_data_def readHeader_data unat_of_nat)

lemma scan_data:
  assumes "rd_data r = segment_data i spans sect" "unat (hd_BloomSectionLength (rd_Header r)) = length sect"
    and "seg_fits spans"
  shows "rd_ScanAllFunc f r s =
    (Inr (), scan_fold f (placed (word_of_nat (headerSize + length sect)) spans) s)"
  using assms by (simp add: rd_ScanAllFunc_def segment_data_def Let_def scan_records)

lemma scan_collect: "scan_fold (\<lambda>offset span spans. (True, spans @ [(offset, span)])) ps acc = acc @ ps"
  by (induction ps arbitrary: acc) auto

lemma scan_all_data:
  assumes "rd_data r = segment_data i spans sect" "unat (hd_BloomSectionLength (rd_Header r)) = length sect"
    and "seg_fits spans"
  shows "rd_ScanAll r = Inr (placed (word_of_nat (headerSize + length sect)) spans)"
  unfolding rd_ScanAll_def scan_data [OF assms] by (simp add: scan_collect)

lemma read_at_data:
  assumes data: "rd_data r = segment_data i spans sect" and fits: "seg_fits spans"
    and small: "length (segment_data i spans sect) < 2 ^ 63"
    and pl: "(off, s) \<in> set (placed (word_of_nat (headerSize + length sect)) spans)"
  shows "rd_ReadAt r off = Inr s"
proof -
  obtain xs ys where xs: "spans = xs @ s # ys"
      "off = word_of_nat (headerSize + length sect + length (record_bytes xs))"
    using placed_split [OF pl] by blast
  let ?h = "writeHeader i (word_of_nat (length spans)) (min_ts spans) (max_ts spans) (word_of_nat (length sect))"
  let ?pre = "?h @ sect @ record_bytes xs"
  have split: "segment_data i spans sect = ?pre @ writeRecord s @ record_bytes ys"
    by (simp add: segment_data_def record_bytes_def xs(1))
  have "off = word_of_nat (length ?pre)" by (simp add: xs(2))
  then show ?thesis
    using rd_ReadAt_record [of r ?pre s "record_bytes ys"] small fits data
    by (simp add: split) (simp add: xs(1) seg_fits_def)
qed

section \<open>Flushing\<close>

lemma seg_cleanup_dir:
  "fs_dir (seg_cleanup path st) = fs_dir st \<or> fs_dir (seg_cleanup path st) = dir_del path (fs_dir st)"
  by (rule fs_fault_cases [of st]) (auto simp: seg_cleanup_def split: option.splits)

lemma seg_cleanup_other: "n \<noteq> path \<Longrightarrow> dir_get (fs_dir (seg_cleanup path st)) n = dir_get (fs_dir st) n"
  using seg_cleanup_dir [of path st] by auto

lemma seg_write_file_ok:
  "seg_write_file path data st = (Inr u, st') \<Longrightarrow> fs_dir st' = dir_put path data (fs_dir st)"
  by (auto simp: seg_write_file_def fs_fault_def Let_def split: prod.splits option.splits)

lemma seg_write_file_other:
  "seg_write_file path data st = (res, st') \<Longrightarrow> n \<noteq> path \<Longrightarrow> dir_get (fs_dir st') n = dir_get (fs_dir st) n"
  by (auto simp: seg_write_file_def fs_fault_def Let_def seg_cleanup_other split: prod.splits option.splits)

text \<open>A flush touches no other file, whatever it reports.\<close>

lemma seg_Flush_other:
  assumes "seg_Flush Log i spans st = (res, st')" "n \<noteq> SegmentPath i"
  shows "dir_get (fs_dir st') n = dir_get (fs_dir st) n"
  using assms
  by (auto simp: seg_Flush_def fs_fault_def Let_def rbind_def seg_cleanup_other
      split: prod.splits option.splits if_splits sum.splits dest!: seg_write_file_other)

lemma seg_Flush_ok:
  assumes "seg_Flush Log i spans st = (Inr r, st')"
  obtains sect where "spans \<noteq> []" "buildBloomSection Log spans = Some sect"
    "dir_get (fs_dir st') (SegmentPath i) = Some (segment_data i spans sect)"
    "wr_SegmentID r = i" "wr_SpanCount r = length spans" "wr_MinTimestamp r = min_ts spans"
    "wr_MaxTimestamp r = max_ts spans"
    "wr_Offsets r = snd (write_records spans (word_of_nat (headerSize + length sect)) [])"
  using assms that
  by (auto simp: seg_Flush_def fs_fault_def Let_def rbind_Inr_iff write_records_eq segment_data_def
      split: prod.splits option.splits if_splits dest!: seg_write_file_ok)

text \<open>Without a fault a flush of a storable list to an unused id succeeds.\<close>

lemma seg_Flush_quiet:
  assumes "fs_tape st = []" "spans \<noteq> []" "dir_get (fs_dir st) (SegmentPath i) = None"
    and "sizing_ok Log (length spans)"
  shows "\<exists>w st'. seg_Flush Log i spans st = (Inr w, st') \<and> fs_tape st' = []"
proof -
  obtain sect where "buildBloomSection Log spans = Some sect" using assms(4) by (rule buildBloomSection_ok)
  with assms(1-3) show ?thesis
    by (simp add: seg_Flush_def seg_write_file_def fs_fault_nil Let_def case_prod_beta)
qed

text \<open>An existing segment is refused, and left as it is, unless the existence test itself fails.\<close>

lemma seg_Flush_exists:
  assumes "fs_tape st = [] \<or> hd (fs_tape st) = None" "dir_get (fs_dir st) (SegmentPath i) \<noteq> None" "spans \<noteq> []"
  shows "\<exists>t. seg_Flush Log i spans st = (Inl (SegExists i), st\<lparr>fs_tape := t\<rparr>)"
  using assms by (cases "fs_tape st") (auto simp: seg_Flush_def fs_fault_def Let_def)

section \<open>The store as its client sees it\<close>

text \<open>
  A list of spans the format can hold: every span fits, the filters are sized without wrapping,
  and the file stays under the offsets \<^verbatim>\<open>ReadAt\<close> takes.
\<close>

definition storable :: "(f64 \<Rightarrow> f64) \<Rightarrow> u64 \<Rightarrow> span_payload list \<Rightarrow> bool" where
  "storable Log i spans \<longleftrightarrow> seg_fits spans \<and> sizing_ok Log (length spans) \<and>
     (case buildBloomSection Log spans of None \<Rightarrow> False
      | Some sect \<Rightarrow> length sect < 2 ^ 32 \<and> length (segment_data i spans sect) < 2 ^ 63)"

definition seg_holds :: "(f64 \<Rightarrow> f64) \<Rightarrow> file_store \<Rightarrow> u64 \<Rightarrow> span_payload list \<Rightarrow> bool" where
  "seg_holds Log st i spans \<longleftrightarrow> storable Log i spans \<and>
     dir_get (fs_dir st) (SegmentPath i) = map_option (segment_data i spans) (buildBloomSection Log spans)"

text \<open>Reading one record, and all of them, from a segment of the store.\<close>

definition seg_read :: "u64 \<Rightarrow> u64 \<Rightarrow> file_store \<Rightarrow> seg_error + span_payload" where
  "seg_read i off st =
     (case dir_get (fs_dir st) (SegmentPath i) of None \<Rightarrow> Inl SegNotExist
      | Some data \<Rightarrow> (case open_light data of Inl e \<Rightarrow> Inl e | Inr r \<Rightarrow> rd_ReadAt r off))"

definition seg_scan :: "u64 \<Rightarrow> file_store \<Rightarrow> seg_error + span_payload list" where
  "seg_scan i st =
     (case dir_get (fs_dir st) (SegmentPath i) of None \<Rightarrow> Inl SegNotExist
      | Some data \<Rightarrow> (case open_full data of Inl e \<Rightarrow> Inl e
          | Inr r \<Rightarrow> (case rd_ScanAll r of Inl e \<Rightarrow> Inl e | Inr ps \<Rightarrow> Inr (map snd ps))))"

lemma SegmentPath_inject [simp]: "SegmentPath i = SegmentPath j \<longleftrightarrow> i = j"
  by (simp add: SegmentPath_def)

lemma seg_holdsE:
  assumes "seg_holds Log st i spans"
  obtains sect fs where "buildBloomSection Log spans = Some sect" "seg_fits spans"
    "dir_get (fs_dir st) (SegmentPath i) = Some (segment_data i spans sect)"
    "length sect < 2 ^ 32" "length (segment_data i spans sect) < 2 ^ 63"
    "decode_filters BloomDimensions sect = Inr fs" "map fst fs = BloomDimensions" "\<forall>s \<in> set spans. admits fs s"
    "\<forall>(dim, f) \<in> set fs. bloom_ok f"
proof -
  from assms have ok: "sizing_ok Log (length spans)" by (simp add: seg_holds_def storable_def)
  obtain sect fs where sect: "buildBloomSection Log spans = Some sect" "map fst fs = BloomDimensions"
      "\<And>rest. decode_filters BloomDimensions (sect @ rest) = Inr fs" "\<forall>s \<in> set spans. admits fs s"
      "\<forall>(dim, f) \<in> set fs. bloom_ok f"
    using ok by (rule buildBloomSection_ok) blast
  from sect(3) [of "[]"] have "decode_filters BloomDimensions sect = Inr fs" by simp
  with sect assms show ?thesis by (intro that [of sect fs]) (auto simp: seg_holds_def storable_def)
qed

lemma seg_scan_holds:
  assumes "seg_holds Log st i spans"
  shows "seg_scan i st = Inr spans"
proof -
  from assms obtain sect fs where s: "seg_fits spans"
    "dir_get (fs_dir st) (SegmentPath i) = Some (segment_data i spans sect)" "length sect < 2 ^ 32"
    "decode_filters BloomDimensions sect = Inr fs" by (rule seg_holdsE)
  obtain r where r: "open_full (segment_data i spans sect) = Inr r" "rd_data r = segment_data i spans sect"
      "unat (hd_BloomSectionLength (rd_Header r)) = length sect"
    using open_full_data [OF s(3,4)] by blast
  show ?thesis using s(2) r scan_all_data [OF r(2,3) s(1)] by (simp add: seg_scan_def)
qed

lemma seg_Flush_offsets:
  assumes "seg_Flush Log i spans st = (Inr w, st')"
  shows "\<exists>sect :: bytes. wr_Offsets w = snd (write_records spans (word_of_nat (headerSize + length sect)) [])"
  by (rule seg_Flush_ok [OF assms]) blast

lemma seg_read_offset:
  assumes "seg_Flush Log i spans st0 = (Inr w, st1)" "seg_holds Log st i spans"
    and "map_of (wr_Offsets w) k = Some off"
  shows "\<exists>s. seg_read i off st = Inr s \<and> last_span k spans = Some s"
proof -
  from assms(2) obtain sect fs where s: "buildBloomSection Log spans = Some sect" "seg_fits spans"
    "dir_get (fs_dir st) (SegmentPath i) = Some (segment_data i spans sect)" "length sect < 2 ^ 32"
    "length (segment_data i spans sect) < 2 ^ 63" by (rule seg_holdsE)
  obtain sect' where "buildBloomSection Log spans = Some sect'"
      "wr_Offsets w = snd (write_records spans (word_of_nat (headerSize + length sect')) [])"
    using assms(1) by (rule seg_Flush_ok)
  then have w: "wr_Offsets w = snd (write_records spans (word_of_nat (headerSize + length sect)) [])"
    using s(1) by simp
  note last = offset_of_last [where spans = spans and off = "word_of_nat (headerSize + length sect)" and k = k]
  have "map_option fst (map_of (rev (map (\<lambda>p. (span_key (snd p), p))
      (placed (word_of_nat (headerSize + length sect)) spans))) k) = Some off"
    using assms(3) unfolding w last(1) .
  then obtain p where p: "off = fst p" and L: "map_of (rev (map (\<lambda>p. (span_key (snd p), p))
      (placed (word_of_nat (headerSize + length sect)) spans))) k = Some p" by blast
  have p: "off = fst p" "last_span k spans = Some (snd p)"
      "p \<in> set (placed (word_of_nat (headerSize + length sect)) spans)"
    using p last(2) last(3) [OF L] unfolding L by simp_all
  obtain r where r: "open_light (segment_data i spans sect) = Inr r" "rd_data r = segment_data i spans sect"
    using open_light_data [OF s(4)] by blast
  have "rd_ReadAt r off = Inr (snd p)"
    using read_at_data [OF r(2) s(2,5), of "fst p" "snd p"] p by simp
  with s(3) r(1) p(2) show ?thesis by (simp add: seg_read_def)
qed

lemma seg_key_offset:
  assumes "seg_Flush Log i spans st0 = (Inr w, st1)" "s \<in> set spans"
  shows "\<exists>off. map_of (wr_Offsets w) (span_key s) = Some off"
proof -
  obtain sect :: bytes where
      w: "wr_Offsets w = snd (write_records spans (word_of_nat (headerSize + length sect)) [])"
    using seg_Flush_offsets [OF assms(1)] by blast
  have "last_span (span_key s) spans \<noteq> None"
    using assms(2) by (simp add: last_span_def map_of_eq_None_iff image_image)
  then have "map_of (rev (map (\<lambda>p. (span_key (snd p), p))
      (placed (word_of_nat (headerSize + length sect)) spans))) (span_key s) \<noteq> None"
    unfolding offset_of_last(2) [of _ _ "word_of_nat (headerSize + length sect)"] by simp
  then show ?thesis unfolding w offset_of_last(1) by blast
qed

text \<open>Without a fault opening a segment that holds spans succeeds.\<close>

lemma open_reader_quiet:
  assumes "seg_holds Log st i spans" "fs_tape st = []"
  shows "\<exists>r. OpenReader i st = (Inr r, st)"
proof -
  from assms(1) obtain sect fs where s: "dir_get (fs_dir st) (SegmentPath i) = Some (segment_data i spans sect)"
    "length sect < 2 ^ 32" "decode_filters BloomDimensions sect = Inr fs" by (rule seg_holdsE)
  obtain r where "open_full (segment_data i spans sect) = Inr r" using open_full_data [OF s(2,3)] by blast
  with s(1) assms(2) show ?thesis by (simp add: OpenReader_def open_with_def fs_fault_nil)
qed

lemma open_reader_header:
  assumes "seg_holds Log st i spans" "OpenReader i st = (Inr r, st')"
  shows "hd_MinTimestamp (rd_Header r) = min_ts spans \<and> hd_MaxTimestamp (rd_Header r) = max_ts spans
    \<and> (\<exists>fs. rd_Blooms r = Some fs \<and> map fst fs = BloomDimensions \<and> (\<forall>s \<in> set spans. admits fs s)
        \<and> (\<forall>(dim, f) \<in> set fs. bloom_ok f))"
proof -
  from assms(1) obtain sect fs where s: "dir_get (fs_dir st) (SegmentPath i) = Some (segment_data i spans sect)"
    "length sect < 2 ^ 32" "decode_filters BloomDimensions sect = Inr fs" "map fst fs = BloomDimensions"
    "\<forall>s \<in> set spans. admits fs s" "\<forall>(dim, f) \<in> set fs. bloom_ok f" by (rule seg_holdsE)
  obtain r' where r': "open_full (segment_data i spans sect) = Inr r'" "hd_MinTimestamp (rd_Header r') = min_ts spans"
      "hd_MaxTimestamp (rd_Header r') = max_ts spans" "rd_Blooms r' = Some fs"
    using open_full_data [OF s(2,3)] by blast
  from assms(2) s(1) r'(1) have "r = r'"
    by (auto simp: OpenReader_def open_with_def fs_fault_def split: prod.splits option.splits)
  with r' s show ?thesis by simp
qed

text \<open>A sequence of flushes, the failed ones included.\<close>

fun flush_all :: "(u64 \<Rightarrow> span_payload list \<Rightarrow> 's \<Rightarrow> ('e + write_result) \<times> 's) \<Rightarrow>
    (u64 \<times> span_payload list) list \<Rightarrow> 's \<Rightarrow> 's" where
  "flush_all flush [] s = s"
| "flush_all flush ((i, xs) # jobs) s = flush_all flush jobs (snd (flush i xs s))"

locale span_segments =
  fixes flush :: "u64 \<Rightarrow> span_payload list \<Rightarrow> 's \<Rightarrow> ('e + write_result) \<times> 's"
    and fits :: "u64 \<Rightarrow> span_payload list \<Rightarrow> bool"
    and holds :: "'s \<Rightarrow> u64 \<Rightarrow> span_payload list \<Rightarrow> bool"
    and read_at :: "u64 \<Rightarrow> u64 \<Rightarrow> 's \<Rightarrow> 'e + span_payload"
    and scan :: "u64 \<Rightarrow> 's \<Rightarrow> 'e + span_payload list"
  assumes flush_holds: "flush i xs s = (Inr w, s') \<Longrightarrow> fits i xs \<Longrightarrow> holds s' i xs"
    and flush_other: "j \<noteq> i \<Longrightarrow> holds s j ys \<Longrightarrow> holds (snd (flush i xs s)) j ys"
    and flush_keys: "flush i xs s = (Inr w, s') \<Longrightarrow> x \<in> set xs \<Longrightarrow> \<exists>off. map_of (wr_Offsets w) (span_key x) = Some off"
    and read_holds: "flush i xs s = (Inr w, s') \<Longrightarrow> holds t i xs \<Longrightarrow> map_of (wr_Offsets w) k = Some off \<Longrightarrow>
      \<exists>x. read_at i off t = Inr x \<and> last_span k xs = Some x"
    and scan_holds: "holds s i xs \<Longrightarrow> scan i s = Inr xs"
begin

lemma flush_all_holds:
  "holds s i xs \<Longrightarrow> \<forall>(j, ys) \<in> set jobs. j \<noteq> i \<Longrightarrow> holds (flush_all flush jobs s) i xs"
proof (induction jobs arbitrary: s)
  case (Cons job jobs)
  obtain j ys where job: "job = (j, ys)" by (cases job)
  from Cons.prems job have "holds (snd (flush j ys s)) i xs" by (intro flush_other) auto
  with Cons.IH Cons.prems(2) show ?case by (simp add: job)
qed simp

text \<open>What was flushed is still found where the flush said, after any later flushes.\<close>

lemma flushed_found:
  assumes "flush i xs s = (Inr w, s')" "fits i xs" "\<forall>(j, ys) \<in> set jobs. j \<noteq> i" "x \<in> set xs"
  shows "\<exists>off y. map_of (wr_Offsets w) (span_key x) = Some off
    \<and> read_at i off (flush_all flush jobs s') = Inr y \<and> last_span (span_key x) xs = Some y"
proof -
  have "holds (flush_all flush jobs s') i xs"
    using flush_holds [OF assms(1,2)] assms(3) by (rule flush_all_holds)
  then show ?thesis using flush_keys [OF assms(1,4)] read_holds [OF assms(1)] by blast
qed

lemma flushed_scanned:
  assumes "flush i xs s = (Inr w, s')" "fits i xs" "\<forall>(j, ys) \<in> set jobs. j \<noteq> i"
  shows "scan i (flush_all flush jobs s') = Inr xs"
  using flush_holds [OF assms(1,2)] assms(3) by (intro scan_holds flush_all_holds)

end

interpretation sg: span_segments "seg_Flush Log" "storable Log" "seg_holds Log" seg_read seg_scan for Log
proof (unfold_locales, goal_cases holds other keys at scan)
  case (holds i xs s w s')
  obtain sect where "buildBloomSection Log xs = Some sect"
      "dir_get (fs_dir s') (SegmentPath i) = Some (segment_data i xs sect)"
    using holds(1) by (rule seg_Flush_ok)
  with holds(2) show ?case by (simp add: seg_holds_def)
next
  case (other j i s ys xs)
  then show ?case
    using seg_Flush_other [of Log i xs s "fst (seg_Flush Log i xs s)" "snd (seg_Flush Log i xs s)" "SegmentPath j"]
    by (simp add: seg_holds_def)
next
  case (keys i xs s w s' x)
  then show ?case by (rule seg_key_offset)
next
  case (at i xs s w s' t k off)
  then show ?case by (rule seg_read_offset)
next
  case (scan s i xs)
  then show ?case by (rule seg_scan_holds)
qed

end
