(* ===== verification/Index.thy ===== *)
theory Index
  imports WT_Prelude
begin

text \<open>
  The span index, \<^verbatim>\<open>internal/pebble/pebble.go\<close>: a wrapper that stores the location of every
  live span under its composite key. The key-value store it wraps
  (\<^verbatim>\<open>github.com/cockroachdb/pebble\<close>) is not part of the repository: it is the argument \<open>K\<close> of
  the definitions, and the locale \<open>kv_store\<close> states the documented behaviour they rely on.
\<close>

section \<open>The key-value store\<close>

datatype kv_op = KvSet bytes bytes | KvDelete bytes

text \<open>
  Point reads, an atomic batch, and iteration in key order over a half-open range of keys.
\<close>

record 'k kv =
  kv_get :: "bytes \<Rightarrow> 'k \<Rightarrow> bytes option"
  kv_commit :: "kv_op list \<Rightarrow> 'k \<Rightarrow> 'k"
  kv_iter :: "bytes option \<Rightarrow> bytes option \<Rightarrow> 'k \<Rightarrow> (bytes \<times> bytes) list"

text \<open>The bytewise order of keys.\<close>

fun bytes_less :: "bytes \<Rightarrow> bytes \<Rightarrow> bool" where
  "bytes_less [] ys \<longleftrightarrow> ys \<noteq> []"
| "bytes_less (x # xs) [] \<longleftrightarrow> False"
| "bytes_less (x # xs) (y # ys) \<longleftrightarrow> x < y \<or> x = y \<and> bytes_less xs ys"

definition bytes_le :: "bytes \<Rightarrow> bytes \<Rightarrow> bool" where
  "bytes_le xs ys \<longleftrightarrow> xs = ys \<or> bytes_less xs ys"

definition in_bounds :: "bytes option \<Rightarrow> bytes option \<Rightarrow> bytes \<Rightarrow> bool" where
  "in_bounds lo hi k \<longleftrightarrow> (case lo of None \<Rightarrow> True | Some l \<Rightarrow> bytes_le l k)
     \<and> (case hi of None \<Rightarrow> True | Some h \<Rightarrow> bytes_less k h)"

fun op_effect :: "kv_op \<Rightarrow> bytes \<Rightarrow> bytes option \<Rightarrow> bytes option" where
  "op_effect (KvSet k' v) k old = (if k' = k then Some v else old)"
| "op_effect (KvDelete k') k old = (if k' = k then None else old)"

locale kv_store =
  fixes K :: "'k kv"
  assumes get_commit: "kv_get K k (kv_commit K ops s) = fold (\<lambda>op. op_effect op k) ops (kv_get K k s)"
    and iter_get: "(k, v) \<in> set (kv_iter K lo hi s) \<longleftrightarrow> kv_get K k s = Some v \<and> in_bounds lo hi k"
    and iter_sorted: "sorted_wrt bytes_less (map fst (kv_iter K lo hi s))"

section \<open>Locations\<close>

record span_location =
  loc_SegmentID :: u64
  loc_Offset :: u64

datatype index_error = IndexClosed | IndexNotFound | IndexIO | IndexDecode nat

definition encodeSpanLocation :: "span_location \<Rightarrow> bytes" where
  "encodeSpanLocation loc = put_u64 (loc_SegmentID loc) @ put_u64 (loc_Offset loc)"

definition decodeSpanLocation :: "bytes \<Rightarrow> index_error + span_location" where
  "decodeSpanLocation data =
     (if length data \<noteq> 16 then Inl (IndexDecode (length data))
      else Inr \<lparr>loc_SegmentID = get_u64 (take 8 data), loc_Offset = get_u64 (drop 8 data)\<rparr>)"

lemma decode_encode_location [simp, codec_simps]: "decodeSpanLocation (encodeSpanLocation l) = Inr l"
  by (simp add: decodeSpanLocation_def encodeSpanLocation_def)

section \<open>Operations\<close>

text \<open>\<open>ix_db = None\<close> is the nil handle.\<close>

record 'k index =
  ix_db :: "'k option"
  ix_tape :: tape

definition ix_fault :: "'k index \<Rightarrow> nat option \<times> 'k index" where
  "ix_fault ix = (case next_fault (ix_tape ix) of (f, t) \<Rightarrow> (f, ix\<lparr>ix_tape := t\<rparr>))"

text \<open>
  Closing keeps the handle in the struct and changes no entry. What the store answers after it was
  closed is not described by \<open>kv\<close>; the clients do not ask.
\<close>

definition idx_Close :: "'k index \<Rightarrow> (index_error + unit) \<times> 'k index" where
  "idx_Close ix =
     (case ix_db ix of
        None \<Rightarrow> (Inr (), ix)
      | Some _ \<Rightarrow>
          (case ix_fault ix of
             (Some _, ix) \<Rightarrow> (Inl IndexIO, ix)
           | (None, ix) \<Rightarrow> (Inr (), ix)))"

definition idx_GetSpan :: "'k kv \<Rightarrow> string \<Rightarrow> 'k index \<Rightarrow> (index_error + span_location) \<times> 'k index" where
  "idx_GetSpan K key ix =
     (case ix_db ix of
        None \<Rightarrow> (Inl IndexClosed, ix)
      | Some db \<Rightarrow>
          (case ix_fault ix of
             (Some _, ix) \<Rightarrow> (Inl IndexIO, ix)
           | (None, ix) \<Rightarrow>
               (case kv_get K (bytes_of key) db of
                  None \<Rightarrow> Inl IndexNotFound
                | Some v \<Rightarrow> decodeSpanLocation v, ix)))"

text \<open>
  A failing commit has applied none of the batch or, the failure coming after it was made
  durable, all of it.
\<close>

definition idx_commit :: "'k kv \<Rightarrow> kv_op list \<Rightarrow> 'k index \<Rightarrow> (index_error + unit) \<times> 'k index" where
  "idx_commit K ops ix =
     (case ix_db ix of
        None \<Rightarrow> (Inl IndexClosed, ix)
      | Some db \<Rightarrow>
          (case ix_fault ix of
             (Some n, ix) \<Rightarrow> (Inl IndexIO, if n = 0 then ix else ix\<lparr>ix_db := Some (kv_commit K ops db)\<rparr>)
           | (None, ix) \<Rightarrow> (Inr (), ix\<lparr>ix_db := Some (kv_commit K ops db)\<rparr>)))"

definition put_ops :: "(string \<times> span_location) list \<Rightarrow> kv_op list" where
  "put_ops entries = map (\<lambda>(k, l). KvSet (bytes_of k) (encodeSpanLocation l)) entries"

definition delete_ops :: "string list \<Rightarrow> kv_op list" where
  "delete_ops keys = map (\<lambda>k. KvDelete (bytes_of k)) keys"

definition idx_PutSpan :: "'k kv \<Rightarrow> string \<Rightarrow> span_location \<Rightarrow> 'k index \<Rightarrow> (index_error + unit) \<times> 'k index" where
  "idx_PutSpan K key loc ix = idx_commit K (put_ops [(key, loc)]) ix"

definition idx_DeleteSpan :: "'k kv \<Rightarrow> string \<Rightarrow> 'k index \<Rightarrow> (index_error + unit) \<times> 'k index" where
  "idx_DeleteSpan K key ix = idx_commit K (delete_ops [key]) ix"

definition idx_batch :: "'k kv \<Rightarrow> kv_op list \<Rightarrow> 'k index \<Rightarrow> (index_error + unit) \<times> 'k index" where
  "idx_batch K ops ix =
     (if ix_db ix = None then (Inl IndexClosed, ix)
      else if ops = [] then (Inr (), ix) else idx_commit K ops ix)"

definition idx_BatchPutSpans ::
    "'k kv \<Rightarrow> (string \<times> span_location) list \<Rightarrow> 'k index \<Rightarrow> (index_error + unit) \<times> 'k index" where
  "idx_BatchPutSpans K entries ix = idx_batch K (put_ops entries) ix"

definition idx_BatchApplySpans ::
    "'k kv \<Rightarrow> (string \<times> span_location) list \<Rightarrow> string list \<Rightarrow> 'k index \<Rightarrow> (index_error + unit) \<times> 'k index" where
  "idx_BatchApplySpans K puts deleteKeys ix = idx_batch K (delete_ops deleteKeys @ put_ops puts) ix"

definition idx_BatchDeleteSpans :: "'k kv \<Rightarrow> string list \<Rightarrow> 'k index \<Rightarrow> (index_error + unit) \<times> 'k index" where
  "idx_BatchDeleteSpans K keys ix = idx_batch K (delete_ops keys) ix"

text \<open>\<^verbatim>\<open>prefixUpperBound\<close>: the loop from the last byte, here over the reversed prefix.\<close>

fun upper_rev :: "bytes \<Rightarrow> bytes option" where
  "upper_rev [] = None"
| "upper_rev (b # bs) = (if b \<noteq> 0xff then Some (rev ((b + 1) # bs)) else upper_rev bs)"

definition prefixUpperBound :: "bytes \<Rightarrow> bytes option" where
  "prefixUpperBound prefix = upper_rev (rev prefix)"

fun decode_entries :: "(bytes \<times> bytes) list \<Rightarrow> index_error + (string \<times> span_location) list" where
  "decode_entries [] = Inr []"
| "decode_entries ((k, v) # es) =
     (case decodeSpanLocation v of
        Inl e \<Rightarrow> Inl e
      | Inr l \<Rightarrow> (case decode_entries es of Inl e \<Rightarrow> Inl e | Inr ls \<Rightarrow> Inr ((string_of k, l) # ls)))"

text \<open>
  An iterator that hits a read error stops early. \<^verbatim>\<open>PrefixScan\<close> does not ask it for the
  error, so it returns the \<open>n\<close> entries read until then; \<^verbatim>\<open>ScanAll\<close> asks.
\<close>

definition idx_PrefixScan :: "'k kv \<Rightarrow> string \<Rightarrow> 'k index \<Rightarrow> (index_error + span_location list) \<times> 'k index" where
  "idx_PrefixScan K prefix ix =
     (case ix_db ix of
        None \<Rightarrow> (Inl IndexClosed, ix)
      | Some db \<Rightarrow>
          let (openErr, ix) = ix_fault ix; (readErr, ix) = ix_fault ix;
              entries = kv_iter K (Some (bytes_of prefix)) (prefixUpperBound (bytes_of prefix)) db;
              seen = (case readErr of None \<Rightarrow> entries | Some n \<Rightarrow> take n entries)
          in if openErr \<noteq> None then (Inl IndexIO, ix)
             else (case decode_entries seen of Inl e \<Rightarrow> Inl e | Inr ls \<Rightarrow> Inr (map snd ls), ix))"

definition idx_ScanAll :: "'k kv \<Rightarrow> 'k index \<Rightarrow> (index_error + (string \<times> span_location) list) \<times> 'k index" where
  "idx_ScanAll K ix =
     (case ix_db ix of
        None \<Rightarrow> (Inl IndexClosed, ix)
      | Some db \<Rightarrow>
          let (openErr, ix) = ix_fault ix; (readErr, ix) = ix_fault ix;
              entries = kv_iter K None None db;
              seen = (case readErr of None \<Rightarrow> entries | Some n \<Rightarrow> take n entries)
          in if openErr \<noteq> None then (Inl IndexIO, ix)
             else case decode_entries seen of
                    Inl e \<Rightarrow> (Inl e, ix)
                  | Inr ls \<Rightarrow> (if readErr \<noteq> None then Inl IndexIO else Inr ls, ix))"

section \<open>The bounds of a prefix scan\<close>

lemma upper_rev_snoc:
  "upper_rev (bs @ [b]) =
     (case upper_rev bs of Some u \<Rightarrow> Some (b # u) | None \<Rightarrow> if b \<noteq> 0xff then Some [b + 1] else None)"
  by (induction bs) auto

lemma prefixUpperBound_Cons:
  "prefixUpperBound (b # p) =
     (case prefixUpperBound p of Some u \<Rightarrow> Some (b # u) | None \<Rightarrow> if b \<noteq> 0xff then Some [b + 1] else None)"
  by (simp add: prefixUpperBound_def upper_rev_snoc)

lemma byte_ff: "(0xff :: byte) = - 1"
  by transfer (simp add: take_bit_minus_one_eq_mask mask_eq_exp_minus_1)

lemma byte_le_ff: "(c :: byte) \<le> 0xff"
  using word_order.extremum [of c] unfolding byte_ff .

lemma byte_less_inc: "(b :: byte) \<noteq> 0xff \<Longrightarrow> c < b + 1 \<longleftrightarrow> c \<le> b"
proof -
  assume "b \<noteq> 0xff"
  then have "b \<noteq> - 1" by (simp only: byte_ff) simp
  then have "b < b + 1" by (rule word_less_inc)
  then have u: "unat (b + 1) = Suc (unat b)"
    by (metis Suc_eq_plus1 \<open>b \<noteq> - 1\<close> add.commute add_eq_0_iff unatSuc)
  show ?thesis by (simp only: word_less_nat_alt word_le_nat_alt u less_Suc_eq_le)
qed

lemma in_prefix_bounds:
  "in_bounds (Some p) (prefixUpperBound p) k \<longleftrightarrow> take (length p) k = p"
proof (induction p arbitrary: k)
  case Nil
  then show ?case by (cases k) (auto simp: in_bounds_def prefixUpperBound_def bytes_le_def)
next
  case (Cons b p)
  show ?case
  proof (cases k)
    case Nil
    then show ?thesis by (simp add: in_bounds_def bytes_le_def)
  next
    case (Cons c k')
    have IH: "in_bounds (Some p) (prefixUpperBound p) k' \<longleftrightarrow> take (length p) k' = p" by (rule Cons.IH)
    show ?thesis
    proof (cases "prefixUpperBound p")
      case None
      then have le: "bytes_le p k' \<longleftrightarrow> take (length p) k' = p" using IH by (simp add: in_bounds_def)
      show ?thesis
      proof (cases "b = 0xff")
        case True
        then have "\<not> b < c" using byte_le_ff [of c] by (simp add: not_less)
        with True None le Cons show ?thesis
          by (auto simp: in_bounds_def prefixUpperBound_Cons bytes_le_def)
      next
        case False
        have "bytes_less (c # k') [b + 1] \<longleftrightarrow> c \<le> b" by (cases k') (auto simp: byte_less_inc [OF False])
        with False None le Cons show ?thesis
          by (auto simp: in_bounds_def prefixUpperBound_Cons bytes_le_def)
      qed
    next
      case (Some u)
      with IH Cons show ?thesis
        by (auto simp: in_bounds_def prefixUpperBound_Cons bytes_le_def)
    qed
  qed
qed

end
