(* ===== verification/Index_Spec.thy ===== *)
theory Index_Spec
  imports Index
begin

text \<open>
  What the index promises the engine: a map from composite keys to locations that a batch
  updates atomically. The interface \<open>span_index\<close> states it; the contract of the key-value store
  gives it (a sublocale), and an instance of that store, a sorted list of entries, shows that
  the contract can be met.
\<close>

section \<open>Abstraction\<close>

definition idx_map :: "'k kv \<Rightarrow> 'k index \<Rightarrow> string \<Rightarrow> span_location option" where
  "idx_map K ix key =
     (case ix_db ix of None \<Rightarrow> None
      | Some db \<Rightarrow> (case kv_get K (bytes_of key) db of None \<Rightarrow> None
          | Some v \<Rightarrow> (case decodeSpanLocation v of Inl _ \<Rightarrow> None | Inr l \<Rightarrow> Some l)))"

definition idx_ok :: "'k kv \<Rightarrow> 'k index \<Rightarrow> bool" where
  "idx_ok K ix \<longleftrightarrow> (\<exists>db. ix_db ix = Some db \<and> (\<forall>k v. kv_get K k db = Some v \<longrightarrow> length v = 16))"

text \<open>What a batch does: deletes first, then puts.\<close>

definition batch_map ::
    "(string \<times> span_location) list \<Rightarrow> string list \<Rightarrow> (string \<Rightarrow> span_location option) \<Rightarrow> string \<Rightarrow> span_location option" where
  "batch_map puts dels m = (\<lambda>k. if k \<in> set dels then None else m k) ++ map_of (rev puts)"

lemma batch_map_Nil [simp]: "batch_map [] [] m = m"
  by (simp add: batch_map_def)

section \<open>The interface\<close>

locale span_index =
  fixes ok :: "'s \<Rightarrow> bool"
    and imap :: "'s \<Rightarrow> string \<Rightarrow> span_location option"
    and get_span :: "string \<Rightarrow> 's \<Rightarrow> (index_error + span_location) \<times> 's"
    and apply_batch :: "(string \<times> span_location) list \<Rightarrow> string list \<Rightarrow> 's \<Rightarrow> (index_error + unit) \<times> 's"
    and scan_all :: "'s \<Rightarrow> (index_error + (string \<times> span_location) list) \<times> 's"
  assumes get_law: "ok s \<Longrightarrow> get_span k s = (got, s') \<Longrightarrow> ok s' \<and> imap s' = imap s \<and>
      (got = Inl IndexIO \<or> got = (case imap s k of None \<Rightarrow> Inl IndexNotFound | Some l \<Rightarrow> Inr l))"
    and apply_law: "ok s \<Longrightarrow> apply_batch puts dels s = (res, s') \<Longrightarrow> ok s' \<and>
      (imap s' = batch_map puts dels (imap s) \<or> res = Inl IndexIO \<and> imap s' = imap s) \<and> (res = Inr () \<or> res = Inl IndexIO)"
    and scan_law: "ok s \<Longrightarrow> scan_all s = (entries, s') \<Longrightarrow> ok s' \<and> imap s' = imap s \<and>
      (entries = Inl IndexIO \<or> (\<exists>ls. entries = Inr ls \<and> map_of ls = imap s \<and> distinct (map fst ls)))"
begin

text \<open>Reading back a batch that reported success.\<close>

lemma get_after_apply:
  assumes "ok s" "apply_batch puts dels s = (Inr (), s1)" "get_span k s1 = (Inr l, s2)"
  shows "batch_map puts dels (imap s) k = Some l"
proof -
  from apply_law [OF assms(1,2)] have s1: "ok s1" "imap s1 = batch_map puts dels (imap s)" by auto
  from get_law [OF s1(1) assms(3)] s1(2) show ?thesis by (auto split: option.splits)
qed

text \<open>A deleted key stays absent until it is put again.\<close>

lemma deleted_absent:
  assumes "ok s" "apply_batch puts dels s = (Inr (), s1)" "k \<in> set dels" "k \<notin> fst ` set puts"
  shows "imap s1 k = None" "get_span k s1 = (res, s2) \<Longrightarrow> res = Inl IndexNotFound \<or> res = Inl IndexIO"
proof -
  from apply_law [OF assms(1,2)] have s1: "ok s1" "imap s1 = batch_map puts dels (imap s)" by auto
  have "map_of (rev puts) k = None" using assms(4) by (simp add: map_of_eq_None_iff)
  with s1(2) assms(3) show none: "imap s1 k = None" by (simp add: batch_map_def map_add_def)
  assume "get_span k s1 = (res, s2)"
  from get_law [OF s1(1) this] none show "res = Inl IndexNotFound \<or> res = Inl IndexIO" by auto
qed

end

section \<open>The wrapper provides it\<close>

lemma ix_fault_cases:
  obtains f t where "ix_fault ix = (f, ix\<lparr>ix_tape := t\<rparr>)"
  by (cases "next_fault (ix_tape ix)") (auto simp: ix_fault_def)

lemma ix_fault_nil: "ix_tape ix = [] \<Longrightarrow> ix_fault ix = (None, ix)"
  by (cases ix) (simp add: ix_fault_def)

lemma idx_map_tape [simp]: "idx_map K (ix\<lparr>ix_tape := t\<rparr>) = idx_map K ix" "idx_ok K (ix\<lparr>ix_tape := t\<rparr>) = idx_ok K ix"
  by (simp_all add: idx_map_def idx_ok_def fun_eq_iff)

lemma decode_length16: "length v = 16 \<Longrightarrow> \<exists>l. decodeSpanLocation v = Inr l"
  by (simp add: decodeSpanLocation_def)

lemma put_ops_get:
  "fold (\<lambda>op. op_effect op (bytes_of k)) (put_ops puts) old =
     (case map_of (rev puts) k of Some l \<Rightarrow> Some (encodeSpanLocation l) | None \<Rightarrow> old)"
  by (induction puts arbitrary: old) (auto simp: put_ops_def map_add_def split: option.splits)

lemma delete_ops_get:
  "fold (\<lambda>op. op_effect op (bytes_of k)) (delete_ops dels) old = (if k \<in> set dels then None else old)"
  by (induction dels arbitrary: old) (auto simp: delete_ops_def)

lemma ops_length16:
  "(\<And>v. old = Some v \<Longrightarrow> length v = 16) \<Longrightarrow>
   fold (\<lambda>op. op_effect op kb) (delete_ops dels @ put_ops puts) old = Some v \<Longrightarrow> length v = 16"
proof -
  assume old: "\<And>v. old = Some v \<Longrightarrow> length v = 16"
    and v: "fold (\<lambda>op. op_effect op kb) (delete_ops dels @ put_ops puts) old = Some v"
  let ?k = "string_of kb"
  have kb: "kb = bytes_of ?k" by simp
  have "fold (\<lambda>op. op_effect op kb) (delete_ops dels @ put_ops puts) old =
      (case map_of (rev puts) ?k of Some l \<Rightarrow> Some (encodeSpanLocation l)
       | None \<Rightarrow> if ?k \<in> set dels then None else old)"
    using put_ops_get [of ?k] delete_ops_get [of ?k] by simp
  with v old show "length v = 16" by (auto simp: encodeSpanLocation_def split: option.splits if_splits)
qed

lemma decode_entries_ok:
  assumes "\<forall>(k, v) \<in> set es. length v = 16"
  shows "\<exists>ls. decode_entries es = Inr ls \<and> map (\<lambda>e. bytes_of (fst e)) ls = map fst es
    \<and> (\<forall>k l. (k, l) \<in> set ls \<longleftrightarrow> (\<exists>v. (bytes_of k, v) \<in> set es \<and> decodeSpanLocation v = Inr l))"
  using assms
proof (induction es)
  case Nil
  then show ?case by simp
next
  case (Cons e es)
  obtain kb v where e: "e = (kb, v)" by (cases e)
  from Cons.prems e obtain l where l: "decodeSpanLocation v = Inr l" using decode_length16 by fastforce
  from Cons obtain ls where ls: "decode_entries es = Inr ls" "map (\<lambda>e. bytes_of (fst e)) ls = map fst es"
      "\<forall>k l. (k, l) \<in> set ls \<longleftrightarrow> (\<exists>v. (bytes_of k, v) \<in> set es \<and> decodeSpanLocation v = Inr l)" by auto
  have "(k = string_of kb) \<longleftrightarrow> (bytes_of k = kb)" for k by auto
  with ls l e show ?case by (auto simp: l)
qed

lemma bytes_less_irrefl [simp]: "\<not> bytes_less x x"
  by (induction x) auto

lemma sorted_entries_distinct: "sorted_wrt bytes_less ks \<Longrightarrow> distinct ks"
  by (induction ks) auto

context kv_store
begin

lemma commit_map:
  assumes "idx_ok K ix" "ix_db ix = Some db"
  shows "idx_map K (ix\<lparr>ix_db := Some (kv_commit K (delete_ops dels @ put_ops puts) db)\<rparr>)
      = batch_map puts dels (idx_map K ix)"
    and "idx_ok K (ix\<lparr>ix_db := Some (kv_commit K (delete_ops dels @ put_ops puts) db)\<rparr>)"
proof -
  show "idx_ok K (ix\<lparr>ix_db := Some (kv_commit K (delete_ops dels @ put_ops puts) db)\<rparr>)"
    unfolding idx_ok_def
  proof (intro exI conjI allI impI)
    fix k v
    assume "kv_get K k (kv_commit K (delete_ops dels @ put_ops puts) db) = Some v"
    then have "fold (\<lambda>op. op_effect op k) (delete_ops dels @ put_ops puts) (kv_get K k db) = Some v"
      by (simp only: get_commit)
    moreover have "kv_get K k db = Some u \<Longrightarrow> length u = 16" for u
      using assms unfolding idx_ok_def by (metis option.inject)
    ultimately show "length v = 16" by (rule ops_length16 [rotated])
  qed simp
  show "idx_map K (ix\<lparr>ix_db := Some (kv_commit K (delete_ops dels @ put_ops puts) db)\<rparr>)
      = batch_map puts dels (idx_map K ix)"
  proof
    fix k
    show "idx_map K (ix\<lparr>ix_db := Some (kv_commit K (delete_ops dels @ put_ops puts) db)\<rparr>) k
        = batch_map puts dels (idx_map K ix) k"
      using assms(2)
      by (auto simp: idx_map_def get_commit put_ops_get delete_ops_get batch_map_def map_add_def split: option.splits)
  qed
qed

lemma idx_apply_law:
  assumes "idx_ok K ix" "idx_BatchApplySpans K puts dels ix = (res, ix')"
  shows "idx_ok K ix' \<and>
      (idx_map K ix' = batch_map puts dels (idx_map K ix) \<or> res = Inl IndexIO \<and> idx_map K ix' = idx_map K ix)
      \<and> (res = Inr () \<or> res = Inl IndexIO)"
proof -
  from assms(1) obtain db where db: "ix_db ix = Some db" by (auto simp: idx_ok_def)
  obtain f t where ft: "ix_fault ix = (f, ix\<lparr>ix_tape := t\<rparr>)" by (rule ix_fault_cases)
  let ?ops = "delete_ops dels @ put_ops puts"
  note C = commit_map [OF assms(1) db, of dels puts]
  have C': "idx_map K (ix\<lparr>ix_tape := t, ix_db := Some (kv_commit K ?ops db)\<rparr>) = batch_map puts dels (idx_map K ix)"
    "idx_ok K (ix\<lparr>ix_tape := t, ix_db := Some (kv_commit K ?ops db)\<rparr>)"
    using C by (simp_all add: idx_map_def idx_ok_def fun_eq_iff)
  show ?thesis
  proof (cases "?ops = []")
    case True
    then have "puts = []" "dels = []" by (auto simp: put_ops_def delete_ops_def)
    with assms db show ?thesis by (auto simp: idx_BatchApplySpans_def idx_batch_def put_ops_def delete_ops_def)
  next
    case False
    then have run: "idx_BatchApplySpans K puts dels ix = idx_commit K ?ops ix"
      by (simp only: idx_BatchApplySpans_def idx_batch_def db option.distinct if_False False simp_thms)
    show ?thesis
      using assms C' db ft unfolding run idx_commit_def
      by (cases f) (auto split: if_splits)
  qed
qed

lemma idx_get_law:
  assumes "idx_ok K ix" "idx_GetSpan K k ix = (res, ix')"
  shows "idx_ok K ix' \<and> idx_map K ix' = idx_map K ix \<and>
     (res = Inl IndexIO \<or> res = (case idx_map K ix k of None \<Rightarrow> Inl IndexNotFound | Some l \<Rightarrow> Inr l))"
proof -
  from assms(1) obtain db where db: "ix_db ix = Some db" "\<forall>k v. kv_get K k db = Some v \<longrightarrow> length v = 16"
    by (auto simp: idx_ok_def)
  obtain f t where ft: "ix_fault ix = (f, ix\<lparr>ix_tape := t\<rparr>)" by (rule ix_fault_cases)
  have len: "kv_get K (bytes_of k) db = Some v \<Longrightarrow> \<exists>l. decodeSpanLocation v = Inr l" for v
    using db(2) decode_length16 by blast
  show ?thesis
    using assms ft db(1) len
    by (cases f; cases "kv_get K (bytes_of k) db") (fastforce simp: idx_GetSpan_def idx_map_def)+
qed

lemma iter_decoded:
  assumes ok: "idx_ok K ix" and db: "ix_db ix = Some db"
  shows "\<exists>ls. decode_entries (kv_iter K lo hi db) = Inr ls \<and> distinct (map fst ls)
    \<and> (\<forall>k l. (k, l) \<in> set ls \<longleftrightarrow> idx_map K ix k = Some l \<and> in_bounds lo hi (bytes_of k))"
proof -
  let ?es = "kv_iter K lo hi db"
  have "\<forall>(k, v) \<in> set ?es. length v = 16" using ok db by (auto simp: iter_get idx_ok_def)
  then obtain ls where ls: "decode_entries ?es = Inr ls" "map (\<lambda>e. bytes_of (fst e)) ls = map fst ?es"
      "\<forall>k l. (k, l) \<in> set ls \<longleftrightarrow> (\<exists>v. (bytes_of k, v) \<in> set ?es \<and> decodeSpanLocation v = Inr l)"
    using decode_entries_ok by blast
  have "distinct (map fst ?es)" using iter_sorted by (rule sorted_entries_distinct)
  then have "distinct (map (\<lambda>e. bytes_of (fst e)) ls)" by (simp add: ls(2))
  then have "distinct (map bytes_of (map fst ls))" by (simp add: comp_def)
  then have "distinct (map fst ls)" by (rule distinct_map [THEN iffD1, THEN conjunct1])
  moreover have "(k, l) \<in> set ls \<longleftrightarrow> idx_map K ix k = Some l \<and> in_bounds lo hi (bytes_of k)" for k l
    using ls(3) db by (auto simp: iter_get idx_map_def split: option.splits sum.splits)
  ultimately show ?thesis using ls(1) by blast
qed

lemma idx_scan_law:
  assumes "idx_ok K ix" "idx_ScanAll K ix = (res, ix')"
  shows "idx_ok K ix' \<and> idx_map K ix' = idx_map K ix \<and>
      (res = Inl IndexIO \<or> (\<exists>ls. res = Inr ls \<and> map_of ls = idx_map K ix \<and> distinct (map fst ls)))"
proof -
  from assms(1) obtain db where db: "ix_db ix = Some db" by (auto simp: idx_ok_def)
  obtain f t where ft: "ix_fault ix = (f, ix\<lparr>ix_tape := t\<rparr>)" by (rule ix_fault_cases)
  obtain g u where gu: "ix_fault (ix\<lparr>ix_tape := t\<rparr>) = (g, ix\<lparr>ix_tape := u\<rparr>)"
    by (rule ix_fault_cases [of "ix\<lparr>ix_tape := t\<rparr>"]) simp
  obtain ls where ls: "decode_entries (kv_iter K None None db) = Inr ls" "distinct (map fst ls)"
      "\<forall>k l. (k, l) \<in> set ls \<longleftrightarrow> idx_map K ix k = Some l"
    using iter_decoded [OF assms(1) db, of None None] by (auto simp: in_bounds_def)
  have map: "map_of ls = idx_map K ix"
  proof
    fix k
    show "map_of ls k = idx_map K ix k"
      using ls(2,3) by (cases "idx_map K ix k") (auto simp: map_of_eq_None_iff image_iff)
  qed
  have take: "\<exists>qs. decode_entries (take n (kv_iter K None None db)) = Inr qs" for n
  proof -
    have "\<forall>(k, v) \<in> set (take n (kv_iter K None None db)). length v = 16"
      using assms(1) db by (auto simp: idx_ok_def iter_get dest!: in_set_takeD)
    then show ?thesis using decode_entries_ok by blast
  qed
  show ?thesis
  proof (cases "f = None")
    case False
    with assms db ft gu show ?thesis by (auto simp: idx_ScanAll_def Let_def split: sum.splits option.splits)
  next
    case True
    show ?thesis
    proof (cases g)
      case None
      with True assms db ft gu ls map show ?thesis by (auto simp: idx_ScanAll_def Let_def)
    next
      case (Some n)
      obtain qs where "decode_entries (take n (kv_iter K None None db)) = Inr qs" using take by blast
      with True Some assms db ft gu show ?thesis by (auto simp: idx_ScanAll_def Let_def)
    qed
  qed
qed

text \<open>A prefix scan without a fault returns the locations of exactly the keys with the prefix.\<close>

lemma idx_prefix_scan:
  assumes "idx_ok K ix" "ix_tape ix = []"
  shows "\<exists>ls. idx_PrefixScan K p ix = (Inr ls, ix) \<and>
    set ls = {l. \<exists>k. idx_map K ix k = Some l \<and> has_prefix k p}"
proof -
  from assms(1) obtain db where db: "ix_db ix = Some db" by (auto simp: idx_ok_def)
  have pre: "in_bounds (Some (bytes_of p)) (prefixUpperBound (bytes_of p)) (bytes_of k) \<longleftrightarrow> has_prefix k p" for k
  proof -
    have "take (length p) (bytes_of k) = bytes_of (take (length p) k)" by (simp add: bytes_of_def take_map)
    moreover have "take (length p) k = p \<Longrightarrow> length p \<le> length k" by (metis length_take min.cobounded1)
    ultimately show ?thesis by (auto simp: in_prefix_bounds has_prefix_def)
  qed
  obtain ls where ls: "decode_entries (kv_iter K (Some (bytes_of p)) (prefixUpperBound (bytes_of p)) db) = Inr ls"
      "\<forall>k l. (k, l) \<in> set ls \<longleftrightarrow> idx_map K ix k = Some l \<and> has_prefix k p"
    using iter_decoded [OF assms(1) db, of "Some (bytes_of p)" "prefixUpperBound (bytes_of p)"]
    unfolding pre by blast
  have "set (map snd ls) = {l. \<exists>k. idx_map K ix k = Some l \<and> has_prefix k p}"
  proof (rule set_eqI)
    fix l
    have "l \<in> set (map snd ls) \<longleftrightarrow> (\<exists>k. (k, l) \<in> set ls)" by force
    with ls(2) show "l \<in> set (map snd ls) \<longleftrightarrow> l \<in> {l. \<exists>k. idx_map K ix k = Some l \<and> has_prefix k p}" by simp
  qed
  then show ?thesis using ls(1) db assms(2) by (simp add: idx_PrefixScan_def Let_def ix_fault_nil)
qed

text \<open>A read error in the middle of a prefix scan is not reported: the result is cut short.\<close>

lemma idx_prefix_scan_cut:
  assumes "idx_ok K ix" "ix_tape ix = [None, Some n]"
  shows "\<exists>all. idx_PrefixScan K p (ix\<lparr>ix_tape := []\<rparr>) = (Inr all, ix\<lparr>ix_tape := []\<rparr>)
    \<and> idx_PrefixScan K p ix = (Inr (take n all), ix\<lparr>ix_tape := []\<rparr>)"
proof -
  from assms(1) obtain db where db: "ix_db ix = Some db" by (auto simp: idx_ok_def)
  let ?es = "kv_iter K (Some (bytes_of p)) (prefixUpperBound (bytes_of p)) db"
  obtain ls where ls: "decode_entries ?es = Inr ls" using iter_decoded [OF assms(1) db] by blast
  have "decode_entries es = Inr qs \<Longrightarrow> decode_entries (take m es) = Inr (take m qs)" for es qs m
  proof (induction es arbitrary: qs m)
    case (Cons e es)
    then show ?case by (cases m; cases e) (auto split: sum.splits)
  qed auto
  from this [OF ls, of n] ls db assms(2) show ?thesis
    by (cases ix) (auto simp: idx_PrefixScan_def Let_def ix_fault_def take_map)
qed

end

sublocale kv_store \<subseteq> ix: span_index "idx_ok K" "idx_map K" "idx_GetSpan K" "idx_BatchApplySpans K" "idx_ScanAll K"
  by unfold_locales (rule idx_get_law idx_apply_law idx_scan_law; assumption)+

section \<open>A store that meets the contract\<close>

text \<open>Entries in key order, each key once: the contents of the log-structured store.\<close>

fun entries_set :: "bytes \<Rightarrow> bytes \<Rightarrow> (bytes \<times> bytes) list \<Rightarrow> (bytes \<times> bytes) list" where
  "entries_set k v [] = [(k, v)]"
| "entries_set k v ((k', v') # es) =
     (if k = k' then (k, v) # es
      else if bytes_less k k' then (k, v) # (k', v') # es else (k', v') # entries_set k v es)"

fun log_apply :: "kv_op \<Rightarrow> (bytes \<times> bytes) list \<Rightarrow> (bytes \<times> bytes) list" where
  "log_apply (KvSet k v) s = (k, v) # s"
| "log_apply (KvDelete k) s = filter (\<lambda>(k', v). k' \<noteq> k) s"

definition entries_of :: "(bytes \<times> bytes) list \<Rightarrow> (bytes \<times> bytes) list" where
  "entries_of s = foldr (\<lambda>(k, v). entries_set k v) s []"

definition log_kv :: "(bytes \<times> bytes) list kv" where
  "log_kv = \<lparr>kv_get = (\<lambda>k s. map_of s k), kv_commit = fold log_apply,
     kv_iter = (\<lambda>lo hi s. filter (\<lambda>(k, v). in_bounds lo hi k) (entries_of s))\<rparr>"

lemma bytes_less_trans: "bytes_less x y \<Longrightarrow> bytes_less y z \<Longrightarrow> bytes_less x z"
proof (induction x arbitrary: y z)
  case Nil
  then show ?case by (cases z; cases y) auto
next
  case (Cons a x)
  then show ?case by (cases y; cases z) auto
qed

lemma bytes_less_linear: "bytes_less x y \<or> x = y \<or> bytes_less y x"
  by (induction x y rule: bytes_less.induct) auto

lemma entries_set_keys: "fst ` set (entries_set k v es) = insert k (fst ` set es)"
  by (induction k v es rule: entries_set.induct) auto

lemma entries_set_sorted:
  "sorted_wrt bytes_less (map fst es) \<Longrightarrow> sorted_wrt bytes_less (map fst (entries_set k v es))"
proof (induction k v es rule: entries_set.induct)
  case (2 k v k' v' es)
  consider "k = k'" | "k \<noteq> k'" "bytes_less k k'" | "k \<noteq> k'" "\<not> bytes_less k k'" "bytes_less k' k"
    using bytes_less_linear [of k k'] by blast
  then show ?case
  proof cases
    case 1
    with 2(2) show ?thesis by simp
  next
    case 2
    with \<open>sorted_wrt bytes_less (map fst ((k', v') # es))\<close> show ?thesis
      by (auto intro: bytes_less_trans)
  next
    case 3
    have "sorted_wrt bytes_less (map fst (entries_set k v es))" using 2 3 by simp
    moreover have "\<forall>y \<in> fst ` set (entries_set k v es). bytes_less k' y"
      using 2(2) 3(3) by (simp add: entries_set_keys)
    ultimately show ?thesis using 3 by simp
  qed
qed simp

lemma entries_set_map: "map_of (entries_set k v es) = (map_of es)(k \<mapsto> v)"
  if "sorted_wrt bytes_less (map fst es)"
  using that
proof (induction k v es rule: entries_set.induct)
  case (2 k v k' v' es)
  then show ?case by (auto simp: fun_eq_iff)
qed simp

lemma entries_of_ok: "sorted_wrt bytes_less (map fst (entries_of s)) \<and> map_of (entries_of s) = map_of s"
  by (induction s) (auto simp: entries_of_def entries_set_sorted entries_set_map)

interpretation log_kv: kv_store log_kv
proof (unfold_locales, goal_cases commit iter sorted)
  case (commit k ops s)
  have "map_of (fold log_apply ops s) k = fold (\<lambda>op. op_effect op k) ops (map_of s k)"
  proof (induction ops arbitrary: s)
    case (Cons op ops)
    have "map_of (filter (\<lambda>(k', v). k' \<noteq> j) s) k = (if j = k then None else map_of s k)" for j
      by (induction s) auto
    with Cons show ?case by (cases op) auto
  qed simp
  then show ?case by (simp add: log_kv_def)
next
  case (iter k v lo hi s)
  have "distinct (map fst (entries_of s))" using entries_of_ok sorted_entries_distinct by blast
  then have "(k, v) \<in> set (entries_of s) \<longleftrightarrow> map_of s k = Some v"
    using entries_of_ok [of s] by (metis map_of_eq_Some_iff)
  then show ?case by (auto simp: log_kv_def)
next
  case (sorted lo hi s)
  have "sorted_wrt bytes_less (map fst (filter P es))" if "sorted_wrt bytes_less (map fst es)" for P and es :: "(bytes \<times> bytes) list"
    using that by (induction es) auto
  then show ?case using entries_of_ok [of s] by (simp add: log_kv_def)
qed

end
