(* ===== verification/Manifest.thy ===== *)
theory Manifest
  imports File_Store
begin

text \<open>
  The two small files of derived state: the manifest of live segment ids
  (\<^verbatim>\<open>internal/segment/manifest.go\<close>) and the checkpoint of the last confirmed segment
  (\<^verbatim>\<open>internal/engine/checkpoint.go\<close>).
\<close>

section \<open>Manifest\<close>

datatype manifest_error = ManifestIO | ManifestCorrupt nat

fun ids_of_bytes :: "nat \<Rightarrow> bytes \<Rightarrow> u64 list" where
  "ids_of_bytes 0 data = []"
| "ids_of_bytes (Suc n) data = get_u64 (take 8 data) # ids_of_bytes n (drop 8 data)"

definition bytes_of_ids :: "u64 list \<Rightarrow> bytes" where
  "bytes_of_ids ids = concat (map put_u64 ids)"

definition manifest_decode :: "bytes option \<Rightarrow> manifest_error + u64 list" where
  "manifest_decode file =
     (case file of
        None \<Rightarrow> Inr []
      | Some data \<Rightarrow>
          if length data mod 8 \<noteq> 0 then Inl (ManifestCorrupt (length data))
          else Inr (ids_of_bytes (length data div 8) data))"

definition manifest_Load :: "string \<Rightarrow> file_store \<Rightarrow> (manifest_error + u64 list) \<times> file_store" where
  "manifest_Load path st =
     (case read_file path st of (Inl _, st) \<Rightarrow> (Inl ManifestIO, st) | (Inr file, st) \<Rightarrow> (manifest_decode file, st))"

definition manifest_Save :: "string \<Rightarrow> u64 list \<Rightarrow> file_store \<Rightarrow> (manifest_error + unit) \<times> file_store" where
  "manifest_Save path ids st =
     (case replace_file (path @ ''.tmp'') path (bytes_of_ids (sort ids)) st of
        (True, st) \<Rightarrow> (Inr (), st) | (False, st) \<Rightarrow> (Inl ManifestIO, st))"

definition manifest_AddSegment :: "string \<Rightarrow> u64 \<Rightarrow> file_store \<Rightarrow> (manifest_error + unit) \<times> file_store" where
  "manifest_AddSegment path i st =
     rbind (manifest_Load path st) (\<lambda>ids st.
       if i \<in> set ids then (Inr (), st) else manifest_Save path (ids @ [i]) st)"

definition RemoveSegments :: "u64 list \<Rightarrow> u64 list \<Rightarrow> u64 list" where
  "RemoveSegments ids remove = filter (\<lambda>i. i \<notin> set remove) ids"

section \<open>Checkpoint\<close>

datatype checkpoint_error = CheckpointIO | CheckpointCorrupt nat

definition checkpoint_Load :: "string \<Rightarrow> file_store \<Rightarrow> (checkpoint_error + u64) \<times> file_store" where
  "checkpoint_Load path st =
     (case read_file path st of
        (Inl _, st) \<Rightarrow> (Inl CheckpointIO, st)
      | (Inr None, st) \<Rightarrow> (Inr 0, st)
      | (Inr (Some data), st) \<Rightarrow>
          (if length data \<noteq> 8 then Inl (CheckpointCorrupt (length data)) else Inr (get_u64 data), st))"

definition checkpoint_Save :: "string \<Rightarrow> u64 \<Rightarrow> file_store \<Rightarrow> (checkpoint_error + unit) \<times> file_store" where
  "checkpoint_Save path i st =
     (case replace_file (path @ ''.tmp'') path (put_u64 i) st of
        (True, st) \<Rightarrow> (Inr (), st) | (False, st) \<Rightarrow> (Inl CheckpointIO, st))"

section \<open>What they hold\<close>

lemma length_bytes_of_ids [simp, length_simps]: "length (bytes_of_ids ids) = 8 * length ids"
  by (induction ids) (simp_all add: bytes_of_ids_def)

lemma ids_of_bytes_of_ids: "ids_of_bytes (length ids) (bytes_of_ids ids @ rest) = ids"
  by (induction ids) (simp_all add: bytes_of_ids_def)

lemma manifest_decode_encode: "manifest_decode (Some (bytes_of_ids ids)) = Inr ids"
  using ids_of_bytes_of_ids [of ids "[]"] by (simp add: manifest_decode_def)

text \<open>The ids a manifest file holds; an unreadable file holds none.\<close>

definition manifest_ids :: "string \<Rightarrow> file_store \<Rightarrow> manifest_error + u64 list" where
  "manifest_ids path st = manifest_decode (dir_get (fs_dir st) path)"

lemma path_tmp [simp]: "path \<noteq> path @ ''.tmp''" "path @ ''.tmp'' \<noteq> path"
  by simp_all

lemma manifest_Load_ids:
  "manifest_Load path st = (res, st') \<Longrightarrow>
     (res = manifest_ids path st \<or> res = Inl ManifestIO) \<and> fs_dir st' = fs_dir st"
  by (auto simp: manifest_Load_def manifest_ids_def split: prod.splits sum.splits dest: read_file_dir read_file_same)

lemma manifest_Save_ids:
  assumes "manifest_Save path ids st = (res, st')"
  shows "manifest_ids path st' = (if res = Inr () then Inr (sort ids) else manifest_ids path st)"
    and "res = Inr () \<or> res = Inl ManifestIO"
    and "n \<noteq> path \<Longrightarrow> n \<noteq> path @ ''.tmp'' \<Longrightarrow> dir_get (fs_dir st') n = dir_get (fs_dir st) n"
proof -
  obtain b st1 where r: "replace_file (path @ ''.tmp'') path (bytes_of_ids (sort ids)) st = (b, st1)" by fastforce
  with assms have st': "st' = st1" "res = (if b then Inr () else Inl ManifestIO)"
    by (auto simp: manifest_Save_def split: bool.splits)
  show "manifest_ids path st' = (if res = Inr () then Inr (sort ids) else manifest_ids path st)"
    using replace_file_atomic [OF r, of path] by (simp add: manifest_ids_def st' manifest_decode_encode)
  show "res = Inr () \<or> res = Inl ManifestIO" by (simp add: st')
  show "n \<noteq> path \<Longrightarrow> n \<noteq> path @ ''.tmp'' \<Longrightarrow> dir_get (fs_dir st') n = dir_get (fs_dir st) n"
    using replace_file_atomic [OF r, of n] by (simp add: st')
qed

lemma manifest_quiet:
  assumes "fs_tape st = []"
  shows "\<exists>st'. manifest_Save path ids st = (Inr (), st') \<and> fs_tape st' = []"
    and "manifest_Load path st = (manifest_ids path st, st)"
proof -
  obtain st' where "replace_file (path @ ''.tmp'') path (bytes_of_ids (sort ids)) st = (True, st')" "fs_tape st' = []"
    using replace_file_quiet [OF assms] by blast
  then show "\<exists>st'. manifest_Save path ids st = (Inr (), st') \<and> fs_tape st' = []" by (simp add: manifest_Save_def)
  show "manifest_Load path st = (manifest_ids path st, st)"
    using assms by (simp add: manifest_Load_def read_file_def fs_fault_nil manifest_ids_def)
qed

text \<open>Recording a segment adds it once, whatever else was recorded stays.\<close>

lemma manifest_AddSegment_list:
  assumes "manifest_AddSegment path i st = (res, st')"
  shows "(case res of
      Inr _ \<Rightarrow> (\<exists>ids ids'. manifest_ids path st = Inr ids \<and> manifest_ids path st' = Inr ids'
                \<and> ids' = (if i \<in> set ids then ids else sort (ids @ [i])))
    | Inl _ \<Rightarrow> manifest_ids path st' = manifest_ids path st)"
proof -
  obtain l st1 where l: "manifest_Load path st = (l, st1)" by fastforce
  note L = manifest_Load_ids [OF l]
  have same: "manifest_ids path st1 = manifest_ids path st" using L by (simp add: manifest_ids_def)
  show ?thesis
  proof (cases l)
    case (Inl e)
    with assms l same show ?thesis by (auto simp: manifest_AddSegment_def)
  next
    case (Inr ids)
    with L have ids: "manifest_ids path st = Inr ids" by simp
    show ?thesis
    proof (cases "i \<in> set ids")
      case True
      with assms l Inr same ids show ?thesis by (auto simp: manifest_AddSegment_def)
    next
      case False
      with assms l Inr have "manifest_Save path (ids @ [i]) st1 = (res, st')"
        by (simp add: manifest_AddSegment_def)
      from manifest_Save_ids(1,2) [OF this] same ids False show ?thesis by (cases res) auto
    qed
  qed
qed

lemma manifest_AddSegment_ids:
  assumes "manifest_AddSegment path i st = (res, st')"
  shows "(case res of
      Inr _ \<Rightarrow> (\<exists>ids ids'. manifest_ids path st = Inr ids \<and> manifest_ids path st' = Inr ids'
                \<and> set ids' = insert i (set ids))
    | Inl _ \<Rightarrow> manifest_ids path st' = manifest_ids path st)"
proof (cases res)
  case (Inr u)
  with manifest_AddSegment_list [OF assms] obtain ids where
    "manifest_ids path st = Inr ids" "manifest_ids path st' = Inr (if i \<in> set ids then ids else sort (ids @ [i]))" by auto
  with Inr show ?thesis by (simp add: insert_absorb)
qed (use manifest_AddSegment_list [OF assms] in simp)

lemma manifest_RemoveSegments: "set (RemoveSegments ids remove) = set ids - set remove"
  by (auto simp: RemoveSegments_def)

text \<open>The checkpoint reads back what was last saved; a failed save leaves the old one.\<close>

definition checkpoint_value :: "string \<Rightarrow> file_store \<Rightarrow> checkpoint_error + u64" where
  "checkpoint_value path st =
     (case dir_get (fs_dir st) path of
        None \<Rightarrow> Inr 0
      | Some data \<Rightarrow> if length data \<noteq> 8 then Inl (CheckpointCorrupt (length data)) else Inr (get_u64 data))"

lemma checkpoint_Load_value:
  "checkpoint_Load path st = (res, st') \<Longrightarrow>
     (res = checkpoint_value path st \<or> res = Inl CheckpointIO) \<and> fs_dir st' = fs_dir st"
  by (auto simp: checkpoint_Load_def checkpoint_value_def split: prod.splits sum.splits option.splits
      dest: read_file_dir read_file_same)

lemma checkpoint_Save_value:
  assumes "checkpoint_Save path i st = (res, st')"
  shows "checkpoint_value path st' = (if res = Inr () then Inr i else checkpoint_value path st)"
proof -
  obtain b st1 where r: "replace_file (path @ ''.tmp'') path (put_u64 i) st = (b, st1)" by fastforce
  with assms have st': "st' = st1" "res = (if b then Inr () else Inl CheckpointIO)"
    by (auto simp: checkpoint_Save_def split: bool.splits)
  show ?thesis
    using replace_file_atomic [OF r, of path] by (simp add: checkpoint_value_def st')
qed

end
