(* ===== verification/Store.thy ===== *)
theory Store
  imports Segment_Spec Index_Spec Manifest
begin

text \<open>
  The durable state the engine and the compactor share: the index, the directory of segment
  files and the directory of the manifest and the checkpoint. The \<open>view\<close> is the abstract
  content, the live span of every composite key; the invariant \<open>db_ok\<close> says that every index
  entry points at a record of its key in a well-formed segment.
\<close>

record 'k db =
  db_index :: "'k index"
  db_segs :: file_store
  db_meta :: file_store
  db_manifest :: string
  db_purger :: bool

section \<open>Abstraction and invariant\<close>

definition live_span :: "(seg_error + span_payload) \<Rightarrow> span_payload option" where
  "live_span r = (case r of Inl _ \<Rightarrow> None | Inr s \<Rightarrow> if Deleted s then None else Some s)"

definition view_at :: "'k kv \<Rightarrow> 'k index \<Rightarrow> file_store \<Rightarrow> string \<Rightarrow> span_payload option" where
  "view_at K ix segs key =
     (case idx_map K ix key of None \<Rightarrow> None
      | Some loc \<Rightarrow> live_span (seg_read (loc_SegmentID loc) (loc_Offset loc) segs))"

definition view :: "'k kv \<Rightarrow> 'k db \<Rightarrow> string \<Rightarrow> span_payload option" where
  "view K db = view_at K (db_index db) (db_segs db)"

text \<open>The records of a segment with the offsets they start at.\<close>

definition seg_start :: "(f64 \<Rightarrow> f64) \<Rightarrow> span_payload list \<Rightarrow> u64" where
  "seg_start Log spans =
     word_of_nat (headerSize + (case buildBloomSection Log spans of None \<Rightarrow> 0 | Some sect \<Rightarrow> length sect))"

definition seg_entries :: "(f64 \<Rightarrow> f64) \<Rightarrow> span_payload list \<Rightarrow> (u64 \<times> span_payload) list" where
  "seg_entries Log spans = placed (seg_start Log spans) spans"

definition entry_ok :: "(f64 \<Rightarrow> f64) \<Rightarrow> file_store \<Rightarrow> string \<Rightarrow> span_location \<Rightarrow> bool" where
  "entry_ok Log segs k loc \<longleftrightarrow> (\<exists>spans s. seg_holds Log segs (loc_SegmentID loc) spans
     \<and> (loc_Offset loc, s) \<in> set (seg_entries Log spans) \<and> span_key s = k)"

definition entries_ok :: "(f64 \<Rightarrow> f64) \<Rightarrow> 'k kv \<Rightarrow> 'k index \<Rightarrow> file_store \<Rightarrow> bool" where
  "entries_ok Log K ix segs \<longleftrightarrow> idx_ok K ix \<and>
     (\<forall>k loc. idx_map K ix k = Some loc \<longrightarrow> entry_ok Log segs k loc)"

definition db_ok :: "(f64 \<Rightarrow> f64) \<Rightarrow> 'k kv \<Rightarrow> 'k db \<Rightarrow> bool" where
  "db_ok Log K db \<longleftrightarrow> entries_ok Log K (db_index db) (db_segs db)"

lemma map_snd_seg_entries [simp]: "map snd (seg_entries Log spans) = spans"
  by (simp add: seg_entries_def)

lemma seg_read_entry:
  assumes "seg_holds Log segs i spans" "(off, s) \<in> set (seg_entries Log spans)"
  shows "seg_read i off segs = Inr s"
proof -
  from assms(1) obtain sect fs where s: "buildBloomSection Log spans = Some sect" "seg_fits spans"
    "dir_get (fs_dir segs) (SegmentPath i) = Some (segment_data i spans sect)" "length sect < 2 ^ 32"
    "length (segment_data i spans sect) < 2 ^ 63" by (rule seg_holdsE)
  obtain r where r: "open_light (segment_data i spans sect) = Inr r" "rd_data r = segment_data i spans sect"
    using open_light_data [OF s(4)] by blast
  from assms(2) have "(off, s) \<in> set (placed (word_of_nat (headerSize + length sect)) spans)"
    by (simp add: seg_entries_def seg_start_def s(1))
  from read_at_data [OF r(2) s(2,5) this] s(3) r(1) show ?thesis by (simp add: seg_read_def)
qed

lemma view_entry:
  assumes "idx_map K ix k = Some loc" "seg_holds Log segs (loc_SegmentID loc) spans"
    "(loc_Offset loc, s) \<in> set (seg_entries Log spans)"
  shows "view_at K ix segs k = (if Deleted s then None else Some s)"
  using assms seg_read_entry [OF assms(2,3)] by (simp add: view_at_def live_span_def)

lemma entries_okD:
  assumes "entries_ok Log K ix segs" "idx_map K ix k = Some loc"
  obtains spans s where "seg_holds Log segs (loc_SegmentID loc) spans"
    "(loc_Offset loc, s) \<in> set (seg_entries Log spans)" "span_key s = k"
  using assms unfolding entries_ok_def entry_ok_def by blast

section \<open>Files that no entry needs\<close>

text \<open>A change of other files leaves the entries and the view alone.\<close>

lemma seg_holds_same:
  "dir_get (fs_dir segs') (SegmentPath i) = dir_get (fs_dir segs) (SegmentPath i) \<Longrightarrow>
     seg_holds Log segs' i spans = seg_holds Log segs i spans"
  by (simp add: seg_holds_def)

lemma seg_read_same:
  "dir_get (fs_dir segs') (SegmentPath i) = dir_get (fs_dir segs) (SegmentPath i) \<Longrightarrow>
     seg_read i off segs' = seg_read i off segs"
  by (simp add: seg_read_def)

lemma entries_same_files:
  assumes "entries_ok Log K ix segs"
    and same: "\<And>k loc. idx_map K ix k = Some loc \<Longrightarrow>
      dir_get (fs_dir segs') (SegmentPath (loc_SegmentID loc)) = dir_get (fs_dir segs) (SegmentPath (loc_SegmentID loc))"
  shows "entries_ok Log K ix segs'" "view_at K ix segs' = view_at K ix segs"
proof -
  show "entries_ok Log K ix segs'"
    using assms(1) seg_holds_same [OF same] unfolding entries_ok_def entry_ok_def by blast
  show "view_at K ix segs' = view_at K ix segs"
    using seg_read_same [OF same] by (auto simp: view_at_def fun_eq_iff split: option.splits)
qed

section \<open>Sizes\<close>

text \<open>Filters sized without wrapping for up to \<open>n\<close> spans make any such list storable.\<close>

definition sizing_upto :: "(f64 \<Rightarrow> f64) \<Rightarrow> nat \<Rightarrow> bool" where
  "sizing_upto Log n \<longleftrightarrow> (\<forall>m \<le> n. sizing_ok Log m) \<and> n \<le> 2 ^ 28"

lemma bloom_bytes_le: "bloom_bytes m \<le> 2 ^ 29"
proof -
  have "unat (m + 7) < 2 ^ 32" using unsigned_less [of "m + 7", where 'a = nat] by simp
  then have "unat ((m + 7) div 8) < 2 ^ 29" by (simp add: unat_div_distrib less_mult_imp_div_less)
  then show ?thesis by (simp add: bloom_bytes_def)
qed

lemma write_filters_length:
  assumes "sizing_ok Log (length spans)" "write_filters Log spans dims = Some sect"
  shows "length sect \<le> length dims * (2 ^ 29 + 8)"
  using assms(2)
proof (induction dims arbitrary: sect)
  case Nil
  then show ?case by simp
next
  case (Cons dim dims)
  from Cons.prems obtain f bs where f: "bloom_add_all (map (\<lambda>s. dimensionValue s dim) spans)
      (bloom_New Log (length spans) bloomFalsePositiveRate) = Some f"
    and bs: "write_filters Log spans dims = Some bs" "sect = bloom_Encode f @ bs"
    by (auto split: option.splits)
  have "bloom_ok f"
    using bloom_add_all_ok [of "bloom_New Log (length spans) bloomFalsePositiveRate"
        "map (\<lambda>s. dimensionValue s dim) spans"] f assms(1)
    by (auto simp: sizing_ok_def)
  then have "length (bloom_Encode f) \<le> 2 ^ 29 + 8"
    using bloom_bytes_le [of "bl_m f"] by (simp add: length_bloom_Encode bloom_EncodedSize_def bloom_ok_def)
  with Cons.IH [OF bs(1)] bs(2) show ?case by simp
qed

lemma record_bytes_length:
  "seg_fits spans \<Longrightarrow> length (record_bytes spans) \<le> length spans * (2 ^ 32 + 8)"
proof (induction spans)
  case (Cons s spans)
  then show ?case by (simp add: record_bytes_def length_writeRecord recordFramingSize_def)
qed (simp add: record_bytes_def)

lemma storable_small:
  assumes "seg_fits spans" "sizing_upto Log n" "length spans \<le> n"
  shows "storable Log i spans"
proof -
  have size: "sizing_ok Log (length spans)" "length spans \<le> 2 ^ 28" using assms by (auto simp: sizing_upto_def)
  obtain sect where sect: "buildBloomSection Log spans = Some sect"
    using size(1) by (rule buildBloomSection_ok)
  have l1: "length sect \<le> 5 * (2 ^ 29 + 8)"
    using write_filters_length [OF size(1), of BloomDimensions sect] sect
    by (simp add: buildBloomSection_def BloomDimensions_def)
  have "length (record_bytes spans) \<le> 2 ^ 28 * (2 ^ 32 + 8)"
    using record_bytes_length [OF assms(1)] size(2) by (rule order.trans [OF _ mult_le_mono1])
  then have "length (segment_data i spans sect) < 2 ^ 63"
    using l1 by (simp add: segment_data_def headerSize_def)
  with assms(1) size(1) sect l1 show ?thesis by (simp add: storable_def)
qed

text \<open>What a flush of a fitting list leaves: a segment that holds it, with an entry for each key.\<close>

lemma flush_entries:
  assumes "seg_Flush Log i spans st = (Inr w, st')" "storable Log i spans" "map_of (wr_Offsets w) k = Some off"
  shows "seg_holds Log st' i spans \<and> (\<exists>s. (off, s) \<in> set (seg_entries Log spans) \<and> last_span k spans = Some s)"
proof -
  obtain sect where sect: "buildBloomSection Log spans = Some sect"
    "wr_Offsets w = snd (write_records spans (word_of_nat (headerSize + length sect)) [])"
    using assms(1) by (rule seg_Flush_ok)
  have holds: "seg_holds Log st' i spans" using assms(1,2) by (rule sg.flush_holds)
  have start: "word_of_nat (headerSize + length sect) = seg_start Log spans"
    by (simp add: seg_start_def sect(1))
  let ?L = "map_of (rev (map (\<lambda>p. (span_key (snd p), p)) (placed (seg_start Log spans) spans))) k"
  have "map_option fst ?L = Some off"
    using assms(3) unfolding sect(2) start offset_of_last(1) .
  then obtain p where L: "?L = Some p" and off: "off = fst p" by blast
  have "p \<in> set (placed (seg_start Log spans) spans)" "last_span k spans = Some (snd p)"
    using offset_of_last(3) [OF L] offset_of_last(2) [of k spans "seg_start Log spans"] L by auto
  with holds off show ?thesis by (auto simp: seg_entries_def)
qed

lemma last_span_SomeD: "last_span k spans = Some s \<Longrightarrow> s \<in> set spans \<and> span_key s = k"
  by (auto simp: last_span_def dest!: map_of_SomeD)

lemma wr_Offsets_keys:
  assumes "seg_Flush Log i spans st = (Inr w, st')"
  shows "fst ` set (wr_Offsets w) = span_key ` set spans" "distinct (map fst (wr_Offsets w))"
proof -
  obtain sect :: bytes where w: "wr_Offsets w = snd (write_records spans (word_of_nat (headerSize + length sect)) [])"
    using seg_Flush_offsets [OF assms] by blast
  have keys: "fst ` set (fold (\<lambda>(o', s). AList.update (span_key s) o') ps offs)
      = span_key ` set (map snd ps) \<union> fst ` set offs" for ps :: "(u64 \<times> span_payload) list" and offs
    by (induction ps arbitrary: offs) (simp_all add: dom_update case_prod_beta)
  have dist: "distinct (map fst offs) \<Longrightarrow>
      distinct (map fst (fold (\<lambda>(o', s). AList.update (span_key s) o') ps offs))"
    for ps :: "(u64 \<times> span_payload) list" and offs
    by (induction ps arbitrary: offs) (auto simp: distinct_update)
  from keys [of "placed (word_of_nat (headerSize + length sect)) spans" "[]"]
    dist [of "[]" "placed (word_of_nat (headerSize + length sect)) spans"]
  show "fst ` set (wr_Offsets w) = span_key ` set spans" "distinct (map fst (wr_Offsets w))"
    by (simp_all add: w write_records_eq)
qed

end
