(* ===== verification/Compactor.thy ===== *)
theory Compactor
  imports Store
begin

text \<open>
  Merging and expiring segments, \<^verbatim>\<open>internal/compactor/compactor.go\<close>, on the durable state. The
  purger is the reader cache: whether it gets every reader closed in time is an entry of the
  failure schedule of the segment directory.
\<close>

record comp_result =
  DroppedSegmentIDs :: "u64 list"
  NewSegmentID :: u64
  SpansDropped :: nat
  SpansCarried :: nat
  SpansStale :: nat

definition zero_result :: comp_result where
  "zero_result = \<lparr>DroppedSegmentIDs = [], NewSegmentID = 0, SpansDropped = 0, SpansCarried = 0, SpansStale = 0\<rparr>"

datatype comp_error =
  CompNoIds
| CompSegment seg_error
| CompIndex index_error
| CompManifest manifest_error
| CompPurge
| CompUnlink u64

section \<open>Scanning\<close>

text \<open>
  Opening a segment and streaming it through a callback. A read error of the scan aborts the
  caller, which then discards what the callback collected.
\<close>

definition scan_reader ::
    "(u64 \<Rightarrow> span_payload \<Rightarrow> 's \<Rightarrow> bool \<times> 's) \<Rightarrow> seg_reader \<Rightarrow> 's \<Rightarrow> file_store \<Rightarrow> (seg_error + 's) \<times> file_store" where
  "scan_reader f r s segs =
     (case fs_fault segs of
        (Some _, segs) \<Rightarrow> (Inl SegIO, segs)
      | (None, segs) \<Rightarrow>
          (case rd_ScanAllFunc f r s of (Inl e, _) \<Rightarrow> Inl e | (Inr _, s) \<Rightarrow> Inr s, segs))"

definition scanSegment ::
    "u64 \<Rightarrow> (u64 \<Rightarrow> span_payload \<Rightarrow> 's \<Rightarrow> bool \<times> 's) \<Rightarrow> 's \<Rightarrow> file_store \<Rightarrow> (seg_error + 's) \<times> file_store" where
  "scanSegment i f s segs = rbind (OpenReader i segs) (\<lambda>r segs. scan_reader f r s segs)"

text \<open>The variables the callbacks update; the index only for its failure schedule.\<close>

record 'k scan_state =
  sc_index :: "'k index"
  sc_survivors :: "span_payload list"
  sc_reclaim :: "string list"
  sc_dropped :: nat
  sc_stale :: nat

definition scan_start :: "'k index \<Rightarrow> 'k scan_state" where
  "scan_start ix = \<lparr>sc_index = ix, sc_survivors = [], sc_reclaim = [], sc_dropped = 0, sc_stale = 0\<rparr>"

text \<open>
  The staleness check: any error of the lookup, not only a missing key, makes the record stale.
\<close>

definition is_current :: "index_error + span_location \<Rightarrow> u64 \<Rightarrow> u64 \<Rightarrow> bool" where
  "is_current res i offset =
     (case res of Inl _ \<Rightarrow> False | Inr cur \<Rightarrow> loc_SegmentID cur = i \<and> loc_Offset cur = offset)"

definition compact_visit ::
    "'k kv \<Rightarrow> u64 \<Rightarrow> u64 \<Rightarrow> span_payload \<Rightarrow> 'k scan_state \<Rightarrow> bool \<times> 'k scan_state" where
  "compact_visit K i offset s st =
     (let key = CompositeKey (TraceID s) (SpanID s); (res, ix) = idx_GetSpan K key (sc_index st);
          st = st\<lparr>sc_index := ix\<rparr>
      in (True,
          if \<not> is_current res i offset then st\<lparr>sc_stale := sc_stale st + 1\<rparr>
          else if Deleted s
          then st\<lparr>sc_dropped := sc_dropped st + 1, sc_reclaim := sc_reclaim st @ [key]\<rparr>
          else st\<lparr>sc_survivors := sc_survivors st @ [s]\<rparr>))"

definition expire_visit ::
    "'k kv \<Rightarrow> u64 \<Rightarrow> u64 \<Rightarrow> span_payload \<Rightarrow> 'k scan_state \<Rightarrow> bool \<times> 'k scan_state" where
  "expire_visit K i offset s st =
     (let key = CompositeKey (TraceID s) (SpanID s); (res, ix) = idx_GetSpan K key (sc_index st);
          st = st\<lparr>sc_index := ix\<rparr>
      in (True,
          if \<not> is_current res i offset then st\<lparr>sc_stale := sc_stale st + 1\<rparr>
          else st\<lparr>sc_dropped := sc_dropped st + 1, sc_reclaim := sc_reclaim st @ [key]\<rparr>))"

fun compact_scan ::
    "'k kv \<Rightarrow> u64 list \<Rightarrow> 'k scan_state \<Rightarrow> file_store \<Rightarrow> (seg_error + 'k scan_state) \<times> file_store" where
  "compact_scan K [] st segs = (Inr st, segs)"
| "compact_scan K (i # ids) st segs =
     rbind (scanSegment i (compact_visit K i) st segs) (\<lambda>st segs. compact_scan K ids st segs)"

text \<open>The loop of \<^verbatim>\<open>Expire\<close>, which also collects the ids it expires.\<close>

fun expire_scan ::
    "'k kv \<Rightarrow> u64 list \<Rightarrow> i64 \<Rightarrow> 'k scan_state \<Rightarrow> file_store \<Rightarrow>
       (seg_error + u64 list \<times> 'k scan_state) \<times> file_store" where
  "expire_scan K [] cutoff st segs = (Inr ([], st), segs)"
| "expire_scan K (i # ids) cutoff st segs =
     rbind (OpenReader i segs) (\<lambda>r segs.
       if \<not> hd_MaxTimestamp (rd_Header r) <s cutoff then expire_scan K ids cutoff st segs
       else rbind (scan_reader (expire_visit K i) r st segs) (\<lambda>st segs.
              rbind (expire_scan K ids cutoff st segs) (\<lambda>(expired, st) segs. (Inr (i # expired, st), segs))))"

section \<open>Unlinking\<close>

fun remove_attempts :: "nat \<Rightarrow> string \<Rightarrow> file_store \<Rightarrow> bool \<times> file_store" where
  "remove_attempts 0 path segs = (False, segs)"
| "remove_attempts (Suc n) path segs =
     (case fs_fault segs of
        (Some _, segs) \<Rightarrow> remove_attempts n path segs
      | (None, segs) \<Rightarrow> (True, segs\<lparr>fs_dir := dir_del path (fs_dir segs)\<rparr>))"

definition unlinkAttempts :: nat where "unlinkAttempts = 3"

definition removeWithRetry :: "string \<Rightarrow> file_store \<Rightarrow> bool \<times> file_store" where
  "removeWithRetry path segs = remove_attempts unlinkAttempts path segs"

fun unlink_all :: "u64 list \<Rightarrow> file_store \<Rightarrow> (comp_error + unit) \<times> file_store" where
  "unlink_all [] segs = (Inr (), segs)"
| "unlink_all (i # ids) segs =
     (case removeWithRetry (SegmentPath i) segs of
        (False, segs) \<Rightarrow> (Inl (CompUnlink i), segs)
      | (True, segs) \<Rightarrow> unlink_all ids segs)"

definition purgeAndUnlink :: "bool \<Rightarrow> u64 list \<Rightarrow> file_store \<Rightarrow> (comp_error + unit) \<times> file_store" where
  "purgeAndUnlink purger ids segs =
     (if purger
      then case fs_fault segs of (Some _, segs) \<Rightarrow> (Inl CompPurge, segs) | (None, segs) \<Rightarrow> unlink_all ids segs
      else unlink_all ids segs)"

definition removeOrphan :: "write_result option \<Rightarrow> file_store \<Rightarrow> file_store" where
  "removeOrphan w segs =
     (case w of
        None \<Rightarrow> segs
      | Some w \<Rightarrow>
          (case fs_fault segs of
             (Some _, segs) \<Rightarrow> segs
           | (None, segs) \<Rightarrow> segs\<lparr>fs_dir := dir_del (SegmentPath (wr_SegmentID w)) (fs_dir segs)\<rparr>))"

section \<open>Compaction\<close>

text \<open>The merged segment, when anything survives.\<close>

definition compact_write ::
    "(f64 \<Rightarrow> f64) \<Rightarrow> u64 \<Rightarrow> span_payload list \<Rightarrow> file_store \<Rightarrow> (comp_error + write_result option) \<times> file_store" where
  "compact_write Log newID survivors segs =
     (if survivors = [] then (Inr None, segs)
      else case seg_Flush Log newID survivors segs of
             (Inl e, segs) \<Rightarrow> (Inl (CompSegment e), segs)
           | (Inr w, segs) \<Rightarrow> (Inr (Some w), segs))"

definition result_entries :: "write_result \<Rightarrow> (string \<times> span_location) list" where
  "result_entries w =
     map (\<lambda>(key, offset). (key, \<lparr>loc_SegmentID = wr_SegmentID w, loc_Offset = offset\<rparr>)) (wr_Offsets w)"

definition compact_commit ::
    "'k kv \<Rightarrow> string list \<Rightarrow> write_result option \<Rightarrow> 'k db \<Rightarrow> (comp_error + unit) \<times> 'k db" where
  "compact_commit K reclaim w db =
     rbind (if reclaim = [] then (Inr (), db)
            else case idx_BatchDeleteSpans K reclaim (db_index db) of
                   (Inr _, ix) \<Rightarrow> (Inr (), db\<lparr>db_index := ix\<rparr>)
                 | (Inl e, ix) \<Rightarrow>
                     (Inl (CompIndex e), db\<lparr>db_index := ix, db_segs := removeOrphan w (db_segs db)\<rparr>))
       (\<lambda>_ db. case w of
          None \<Rightarrow> (Inr (), db)
        | Some wr \<Rightarrow>
            (case idx_BatchPutSpans K (result_entries wr) (db_index db) of
               (Inr _, ix) \<Rightarrow> (Inr (), db\<lparr>db_index := ix\<rparr>)
             | (Inl e, ix) \<Rightarrow>
                 (Inl (CompIndex e), db\<lparr>db_index := ix, db_segs := removeOrphan w (db_segs db)\<rparr>)))"

text \<open>
  The manifest swap, then the files. The result Go returns beside the error of a failed unlink is
  not kept; no caller reads it.
\<close>

definition swap_manifest :: "u64 list \<Rightarrow> u64 list \<Rightarrow> 'k db \<Rightarrow> (comp_error + unit) \<times> 'k db" where
  "swap_manifest remove add db =
     (case manifest_Load (db_manifest db) (db_meta db) of
        (Inl e, meta) \<Rightarrow> (Inl (CompManifest e), db\<lparr>db_meta := meta\<rparr>)
      | (Inr live, meta) \<Rightarrow>
          (case manifest_Save (db_manifest db) (RemoveSegments live remove @ add) meta of
             (Inl e, meta) \<Rightarrow> (Inl (CompManifest e), db\<lparr>db_meta := meta\<rparr>)
           | (Inr _, meta) \<Rightarrow> (Inr (), db\<lparr>db_meta := meta\<rparr>)))"

definition unlink_old :: "u64 list \<Rightarrow> 'k db \<Rightarrow> (comp_error + unit) \<times> 'k db" where
  "unlink_old ids db =
     (case purgeAndUnlink (db_purger db) ids (db_segs db) of (res, segs) \<Rightarrow> (res, db\<lparr>db_segs := segs\<rparr>))"

definition Compact ::
    "(f64 \<Rightarrow> f64) \<Rightarrow> 'k kv \<Rightarrow> u64 list \<Rightarrow> u64 \<Rightarrow> 'k db \<Rightarrow> (comp_error + comp_result) \<times> 'k db" where
  "Compact Log K oldIDs newSegmentID db =
     (if oldIDs = [] then (Inl CompNoIds, db)
      else case compact_scan K oldIDs (scan_start (db_index db)) (db_segs db) of
        (Inl e, segs) \<Rightarrow> (Inl (CompSegment e), db\<lparr>db_segs := segs\<rparr>)
      | (Inr sc, segs) \<Rightarrow>
          (case compact_write Log newSegmentID (sc_survivors sc) segs of
             (Inl e, segs) \<Rightarrow> (Inl e, db\<lparr>db_index := sc_index sc, db_segs := segs\<rparr>)
           | (Inr w, segs) \<Rightarrow>
               rbind (compact_commit K (sc_reclaim sc) w (db\<lparr>db_index := sc_index sc, db_segs := segs\<rparr>)) (\<lambda>_ db.
               rbind (swap_manifest oldIDs (case w of None \<Rightarrow> [] | Some wr \<Rightarrow> [wr_SegmentID wr]) db) (\<lambda>_ db.
               rbind (unlink_old oldIDs db) (\<lambda>_ db.
                 (Inr \<lparr>DroppedSegmentIDs = oldIDs,
                       NewSegmentID = (case w of None \<Rightarrow> 0 | Some wr \<Rightarrow> wr_SegmentID wr),
                       SpansDropped = sc_dropped sc, SpansCarried = length (sc_survivors sc),
                       SpansStale = sc_stale sc\<rparr>, db))))))"

section \<open>Expiry\<close>

definition expire_commit :: "'k kv \<Rightarrow> string list \<Rightarrow> 'k db \<Rightarrow> (comp_error + unit) \<times> 'k db" where
  "expire_commit K reclaim db =
     (if reclaim = [] then (Inr (), db)
      else case idx_BatchDeleteSpans K reclaim (db_index db) of
             (Inr _, ix) \<Rightarrow> (Inr (), db\<lparr>db_index := ix\<rparr>)
           | (Inl e, ix) \<Rightarrow> (Inl (CompIndex e), db\<lparr>db_index := ix\<rparr>))"

definition Expire ::
    "'k kv \<Rightarrow> u64 list \<Rightarrow> i64 \<Rightarrow> 'k db \<Rightarrow> (comp_error + comp_result) \<times> 'k db" where
  "Expire K candidateIDs cutoff db =
     (case expire_scan K candidateIDs cutoff (scan_start (db_index db)) (db_segs db) of
        (Inl e, segs) \<Rightarrow> (Inl (CompSegment e), db\<lparr>db_segs := segs\<rparr>)
      | (Inr (expired, sc), segs) \<Rightarrow>
          let db = db\<lparr>db_index := sc_index sc, db_segs := segs\<rparr> in
          if expired = [] then (Inr zero_result, db)
          else
            rbind (expire_commit K (sc_reclaim sc) db) (\<lambda>_ db.
            rbind (swap_manifest expired [] db) (\<lambda>_ db.
            rbind (unlink_old expired db) (\<lambda>_ db.
              (Inr \<lparr>DroppedSegmentIDs = expired, NewSegmentID = 0, SpansDropped = sc_dropped sc,
                    SpansCarried = 0, SpansStale = sc_stale sc\<rparr>, db)))))"

end
