(* ===== verification/Compactor_Spec.thy ===== *)
theory Compactor_Spec
  imports Compactor
begin

text \<open>
  Compaction changes where spans are stored and nothing else: the view of the store, the live
  span of every key, is the same before and after, on every path where the index can be read.
  Expiry removes only spans of segments whose whole time range is before the cutoff.
\<close>

section \<open>Reading the index without a fault\<close>

lemma idx_get_quiet:
  assumes "kv_store K" "idx_ok K ix" "ix_tape ix = []"
  shows "idx_GetSpan K k ix = (case idx_map K ix k of None \<Rightarrow> Inl IndexNotFound | Some l \<Rightarrow> Inr l, ix)"
proof -
  obtain db where db: "ix_db ix = Some db" using assms(2) by (auto simp: idx_ok_def)
  obtain res ix' where g: "idx_GetSpan K k ix = (res, ix')" by fastforce
  then have ix': "ix' = ix" and "res \<noteq> Inl IndexIO"
    using db assms(3) by (auto simp: idx_GetSpan_def ix_fault_nil decodeSpanLocation_def split: option.splits if_splits)
  with kv_store.idx_get_law [OF assms(1,2) g] show ?thesis by (auto simp: g)
qed

definition spans_of :: "file_store \<Rightarrow> u64 \<Rightarrow> span_payload list" where
  "spans_of segs i = (case seg_scan i segs of Inl _ \<Rightarrow> [] | Inr xs \<Rightarrow> xs)"

lemma spans_of_holds: "seg_holds Log segs i spans \<Longrightarrow> spans_of segs i = spans"
  by (simp add: spans_of_def seg_scan_holds)

text \<open>The entries of a segment the index points at.\<close>

definition points_at :: "'k kv \<Rightarrow> 'k index \<Rightarrow> u64 \<Rightarrow> u64 \<times> span_payload \<Rightarrow> bool" where
  "points_at K ix i e \<longleftrightarrow>
     idx_map K ix (span_key (snd e)) = Some \<lparr>loc_SegmentID = i, loc_Offset = fst e\<rparr>"

definition picked :: "(f64 \<Rightarrow> f64) \<Rightarrow> 'k kv \<Rightarrow> 'k index \<Rightarrow> file_store \<Rightarrow> u64 \<Rightarrow> (u64 \<times> span_payload) list" where
  "picked Log K ix segs i =
     filter (points_at K ix i) (seg_entries Log (spans_of segs i))"

lemma is_current_quiet:
  "is_current (case m of None \<Rightarrow> Inl IndexNotFound | Some l \<Rightarrow> Inr l) i off \<longleftrightarrow>
     m = Some \<lparr>loc_SegmentID = i, loc_Offset = off\<rparr>"
  by (cases m) (auto simp: is_current_def)

lemma compact_visit_quiet:
  assumes "kv_store K" "idx_ok K (sc_index st)" "ix_tape (sc_index st) = []"
  shows "compact_visit K i off s st =
    (True, if idx_map K (sc_index st) (span_key s) \<noteq> Some \<lparr>loc_SegmentID = i, loc_Offset = off\<rparr>
           then st\<lparr>sc_stale := sc_stale st + 1\<rparr>
           else if Deleted s then st\<lparr>sc_dropped := sc_dropped st + 1, sc_reclaim := sc_reclaim st @ [span_key s]\<rparr>
           else st\<lparr>sc_survivors := sc_survivors st @ [s]\<rparr>)"
  by (cases st) (use idx_get_quiet [OF assms] in \<open>simp add: compact_visit_def Let_def is_current_quiet\<close>)

lemma expire_visit_quiet:
  assumes "kv_store K" "idx_ok K (sc_index st)" "ix_tape (sc_index st) = []"
  shows "expire_visit K i off s st =
    (True, if idx_map K (sc_index st) (span_key s) \<noteq> Some \<lparr>loc_SegmentID = i, loc_Offset = off\<rparr>
           then st\<lparr>sc_stale := sc_stale st + 1\<rparr>
           else st\<lparr>sc_dropped := sc_dropped st + 1, sc_reclaim := sc_reclaim st @ [span_key s]\<rparr>)"
  by (cases st) (use idx_get_quiet [OF assms] in \<open>simp add: expire_visit_def Let_def is_current_quiet\<close>)

lemma compact_fold:
  assumes "kv_store K" "idx_ok K (sc_index st)" "ix_tape (sc_index st) = []"
  shows "sc_index (scan_fold (compact_visit K i) es st) = sc_index st \<and>
    sc_survivors (scan_fold (compact_visit K i) es st) =
      sc_survivors st @ filter (\<lambda>s. \<not> Deleted s) (map snd (filter (points_at K (sc_index st) i) es)) \<and>
    sc_reclaim (scan_fold (compact_visit K i) es st) =
      sc_reclaim st @ map span_key (filter Deleted (map snd (filter (points_at K (sc_index st) i) es)))"
  using assms(2,3)
proof (induction es arbitrary: st)
  case Nil
  then show ?case by simp
next
  case (Cons e es)
  obtain off s where e: "e = (off, s)" by (cases e)
  note visit = compact_visit_quiet [OF assms(1) Cons.prems, of i off s]
  show ?case
    using Cons.IH Cons.prems by (simp add: e visit points_at_def)
qed

lemma expire_fold:
  assumes "kv_store K" "idx_ok K (sc_index st)" "ix_tape (sc_index st) = []"
  shows "sc_index (scan_fold (expire_visit K i) es st) = sc_index st \<and>
    sc_reclaim (scan_fold (expire_visit K i) es st) = sc_reclaim st @ map span_key (map snd (filter (points_at K (sc_index st) i) es))"
  using assms(2,3)
proof (induction es arbitrary: st)
  case Nil
  then show ?case by simp
next
  case (Cons e es)
  obtain off s where e: "e = (off, s)" by (cases e)
  note visit = expire_visit_quiet [OF assms(1) Cons.prems, of i off s]
  show ?case
    using Cons.IH Cons.prems by (simp add: e visit points_at_def)
qed

section \<open>Scanning segments that hold spans\<close>

lemma open_reader_holds:
  assumes "seg_holds Log segs i spans" "OpenReader i segs = (Inr r, segs')"
  shows "fs_dir segs' = fs_dir segs \<and> hd_MaxTimestamp (rd_Header r) = max_ts spans \<and>
    rd_ScanAllFunc f r s = (Inr (), scan_fold f (seg_entries Log spans) s)"
proof -
  from assms(1) obtain sect fs where s: "buildBloomSection Log spans = Some sect" "seg_fits spans"
    "dir_get (fs_dir segs) (SegmentPath i) = Some (segment_data i spans sect)" "length sect < 2 ^ 32"
    "decode_filters BloomDimensions sect = Inr fs" by (rule seg_holdsE)
  obtain r' where r': "open_full (segment_data i spans sect) = Inr r'" "rd_data r' = segment_data i spans sect"
      "hd_MaxTimestamp (rd_Header r') = max_ts spans" "unat (hd_BloomSectionLength (rd_Header r')) = length sect"
    using open_full_data [OF s(4,5)] by blast
  from assms(2) s(3) r'(1) have "r = r'" "fs_dir segs' = fs_dir segs"
    by (auto simp: OpenReader_def open_with_def fs_fault_def split: prod.splits option.splits)
  with r' scan_data [OF r'(2,4) s(2)] show ?thesis by (simp add: seg_entries_def seg_start_def s(1))
qed

lemma open_reader_dir: "OpenReader i segs = (res, segs') \<Longrightarrow> fs_dir segs' = fs_dir segs"
  by (auto simp: OpenReader_def open_with_def fs_fault_def split: prod.splits option.splits)

lemma scan_reader_holds:
  assumes "rd_ScanAllFunc f r s = (Inr (), t)" "scan_reader f r s segs = (res, segs')"
  shows "fs_dir segs' = fs_dir segs \<and> (res = Inr t \<or> res = Inl SegIO)"
  using assms by (auto simp: scan_reader_def fs_fault_def split: prod.splits option.splits)

lemma scanSegment_holds:
  assumes "seg_holds Log segs i spans" "scanSegment i f s segs = (res, segs')"
  shows "fs_dir segs' = fs_dir segs \<and> (\<forall>t. res = Inr t \<longrightarrow> t = scan_fold f (seg_entries Log spans) s)"
proof -
  obtain o1 segs1 where op: "OpenReader i segs = (o1, segs1)" by fastforce
  show ?thesis
  proof (cases o1)
    case (Inl e)
    with assms(2) op open_reader_dir [OF op] show ?thesis by (auto simp: scanSegment_def)
  next
    case (Inr r)
    note R = open_reader_holds [OF assms(1) op [unfolded Inr], of f s]
    from assms(2) op Inr have "scan_reader f r s segs1 = (res, segs')" by (simp add: scanSegment_def)
    from scan_reader_holds [OF _ this] R show ?thesis by auto
  qed
qed

lemma picked_same: "fs_dir segs' = fs_dir segs \<Longrightarrow> picked Log K ix segs' = picked Log K ix segs"
  by (simp add: picked_def spans_of_def seg_scan_def fun_eq_iff)

text \<open>The scan of a segment finds every entry that points into it.\<close>

lemma entry_picked:
  assumes "entries_ok Log K ix segs" "idx_map K ix k = Some loc"
  shows "\<exists>s. (loc_Offset loc, s) \<in> set (picked Log K ix segs (loc_SegmentID loc)) \<and> span_key s = k"
proof -
  obtain spans s where s: "seg_holds Log segs (loc_SegmentID loc) spans"
    "(loc_Offset loc, s) \<in> set (seg_entries Log spans)" "span_key s = k" by (rule entries_okD [OF assms]) blast
  then show ?thesis using assms(2) by (auto simp: picked_def points_at_def spans_of_holds)
qed

lemma compact_scan_holds:
  assumes "kv_store K" "\<forall>i \<in> set ids. \<exists>spans. seg_holds Log segs i spans"
    and "idx_ok K (sc_index st)" "ix_tape (sc_index st) = []" "compact_scan K ids st segs = (res, segs')"
  defines "L \<equiv> concat (map (\<lambda>i. map snd (picked Log K (sc_index st) segs i)) ids)"
  shows "fs_dir segs' = fs_dir segs \<and> (\<forall>t. res = Inr t \<longrightarrow> sc_index t = sc_index st
      \<and> sc_survivors t = sc_survivors st @ filter (\<lambda>s. \<not> Deleted s) L
      \<and> sc_reclaim t = sc_reclaim st @ map span_key (filter Deleted L))"
  using assms(2-5) unfolding L_def
proof (induction ids arbitrary: st segs)
  case Nil
  then show ?case by auto
next
  case (Cons i ids)
  from Cons.prems(1) obtain spans where spans: "seg_holds Log segs i spans" by auto
  obtain r1 segs1 where sc: "scanSegment i (compact_visit K i) st segs = (r1, segs1)" by fastforce
  note S = scanSegment_holds [OF spans sc]
  show ?case
  proof (cases r1)
    case (Inl e)
    with sc S Cons.prems(4) show ?thesis by auto
  next
    case (Inr t)
    with S have t: "t = scan_fold (compact_visit K i) (seg_entries Log spans) st" by simp
    note F = compact_fold [OF assms(1) Cons.prems(2,3), of i "seg_entries Log spans"]
    have pick: "picked Log K (sc_index st) segs i = filter (points_at K (sc_index st) i) (seg_entries Log spans)"
      using spans_of_holds [OF spans] by (simp add: picked_def)
    from Cons.prems(4) sc Inr have rest: "compact_scan K ids t segs1 = (res, segs')" by simp
    have holds: "\<forall>i \<in> set ids. \<exists>spans. seg_holds Log segs1 i spans"
      using Cons.prems(1) S by (simp add: seg_holds_def)
    have idx: "sc_index t = sc_index st" using F t by simp
    have ok: "idx_ok K (sc_index t)" "ix_tape (sc_index t) = []" using Cons.prems(2,3) by (simp_all only: idx)
    note IH = Cons.IH [OF holds ok rest]
    have same: "picked Log K (sc_index st) segs1 = picked Log K (sc_index st) segs"
      using S by (intro picked_same) simp
    have F': "sc_survivors t = sc_survivors st @ filter (\<lambda>s. \<not> Deleted s) (map snd (picked Log K (sc_index st) segs i))"
      "sc_reclaim t = sc_reclaim st @ map span_key (filter Deleted (map snd (picked Log K (sc_index st) segs i)))"
      using F unfolding t [symmetric] pick [symmetric] by blast+
    show ?thesis
    proof (intro conjI allI impI)
      show "fs_dir segs' = fs_dir segs" using IH S by simp
      fix u
      assume "res = Inr u"
      with IH have u: "sc_index u = sc_index t"
        "sc_survivors u = sc_survivors t @ filter (\<lambda>s. \<not> Deleted s) (concat (map (\<lambda>i. map snd (picked Log K (sc_index t) segs1 i)) ids))"
        "sc_reclaim u = sc_reclaim t @ map span_key (filter Deleted (concat (map (\<lambda>i. map snd (picked Log K (sc_index t) segs1 i)) ids)))"
        by blast+
      show "sc_index u = sc_index st" using u(1) idx by simp
      show "sc_survivors u = sc_survivors st @ filter (\<lambda>s. \<not> Deleted s)
          (concat (map (\<lambda>i. map snd (picked Log K (sc_index st) segs i)) (i # ids)))"
        unfolding u(2) idx same F'(1) by simp
      show "sc_reclaim u = sc_reclaim st @ map span_key (filter Deleted
          (concat (map (\<lambda>i. map snd (picked Log K (sc_index st) segs i)) (i # ids))))"
        unfolding u(3) idx same F'(2) by simp
    qed
  qed
qed

section \<open>Committing\<close>

lemma idx_batch_quiet:
  assumes "kv_store K" "idx_ok K ix" "ix_tape ix = []"
  shows "\<exists>ix'. idx_BatchApplySpans K puts dels ix = (Inr (), ix') \<and> ix_tape ix' = [] \<and> idx_ok K ix'
    \<and> idx_map K ix' = batch_map puts dels (idx_map K ix)"
proof -
  obtain res ix' where b: "idx_BatchApplySpans K puts dels ix = (res, ix')" by fastforce
  obtain db where db: "ix_db ix = Some db" using assms(2) by (auto simp: idx_ok_def)
  have "res = Inr ()" "ix_tape ix' = []"
    using b db assms(3) by (auto simp: idx_BatchApplySpans_def idx_batch_def idx_commit_def ix_fault_nil split: if_splits)
  with kv_store.idx_apply_law [OF assms(1,2) b] b show ?thesis by auto
qed

lemma idx_BatchDelete_eq: "idx_BatchDeleteSpans K dels ix = idx_BatchApplySpans K [] dels ix"
  "idx_BatchPutSpans K puts ix = idx_BatchApplySpans K puts [] ix"
  by (simp_all add: idx_BatchDeleteSpans_def idx_BatchPutSpans_def idx_BatchApplySpans_def put_ops_def delete_ops_def)

text \<open>The index after both batches.\<close>

definition compacted_map ::
    "string list \<Rightarrow> write_result option \<Rightarrow> (string \<Rightarrow> span_location option) \<Rightarrow> string \<Rightarrow> span_location option" where
  "compacted_map reclaim w m k =
     (case (case w of None \<Rightarrow> None | Some wr \<Rightarrow> map_of (wr_Offsets wr) k) of
        Some off \<Rightarrow> Some \<lparr>loc_SegmentID = (case w of None \<Rightarrow> 0 | Some wr \<Rightarrow> wr_SegmentID wr), loc_Offset = off\<rparr>
      | None \<Rightarrow> if k \<in> set reclaim then None else m k)"

lemma map_of_rev: "distinct (map fst xs) \<Longrightarrow> map_of (rev xs) = map_of xs"
  by (rule map_of_inject_set [THEN iffD2]) (simp_all add: rev_map [symmetric])

lemma map_of_result_entries:
  "map_of (result_entries w) k =
     map_option (\<lambda>off. \<lparr>loc_SegmentID = wr_SegmentID w, loc_Offset = off\<rparr>) (map_of (wr_Offsets w) k)"
proof -
  have "map_of (map (\<lambda>(key, offset). (key, \<lparr>loc_SegmentID = wr_SegmentID w, loc_Offset = offset\<rparr>)) xs) k =
     map_option (\<lambda>off. \<lparr>loc_SegmentID = wr_SegmentID w, loc_Offset = off\<rparr>) (map_of xs k)" for xs
    by (induction xs) auto
  then show ?thesis by (simp add: result_entries_def)
qed

lemma map_fst_result_entries [simp]: "map fst (result_entries w) = map fst (wr_Offsets w)"
  by (simp add: result_entries_def comp_def case_prod_beta)

lemma compact_commit_quiet:
  assumes K: "kv_store K" and ok: "idx_ok K (db_index db)" "ix_tape (db_index db) = []"
    and dist: "\<And>wr. w = Some wr \<Longrightarrow> distinct (map fst (wr_Offsets wr))"
  shows "\<exists>ix'. compact_commit K reclaim w db = (Inr (), db\<lparr>db_index := ix'\<rparr>) \<and> idx_ok K ix' \<and> ix_tape ix' = []
    \<and> idx_map K ix' = compacted_map reclaim w (idx_map K (db_index db))"
proof -
  let ?m = "idx_map K (db_index db)"
  have rest: "compact_commit K reclaim w db = rbind (if reclaim = [] then (Inr (), db)
            else case idx_BatchDeleteSpans K reclaim (db_index db) of
                   (Inr _, ix) \<Rightarrow> (Inr (), db\<lparr>db_index := ix\<rparr>)
                 | (Inl e, ix) \<Rightarrow>
                     (Inl (CompIndex e), db\<lparr>db_index := ix, db_segs := removeOrphan w (db_segs db)\<rparr>))
       (\<lambda>_ db. case w of
          None \<Rightarrow> (Inr (), db)
        | Some wr \<Rightarrow>
            (case idx_BatchPutSpans K (result_entries wr) (db_index db) of
               (Inr _, ix) \<Rightarrow> (Inr (), db\<lparr>db_index := ix\<rparr>)
             | (Inl e, ix) \<Rightarrow>
                 (Inl (CompIndex e), db\<lparr>db_index := ix, db_segs := removeOrphan w (db_segs db)\<rparr>)))"
    by (simp add: compact_commit_def)
  obtain ix1 where ix1: "(if reclaim = [] then (Inr (), db)
            else case idx_BatchDeleteSpans K reclaim (db_index db) of
                   (Inr _, ix) \<Rightarrow> (Inr (), db\<lparr>db_index := ix\<rparr>)
                 | (Inl e, ix) \<Rightarrow>
                     (Inl (CompIndex e), db\<lparr>db_index := ix, db_segs := removeOrphan w (db_segs db)\<rparr>))
        = (Inr (), db\<lparr>db_index := ix1\<rparr>)" "idx_ok K ix1" "ix_tape ix1 = []"
      "idx_map K ix1 = (\<lambda>k. if k \<in> set reclaim then None else ?m k)"
  proof (cases "reclaim = []")
    case True
    with ok show ?thesis by (intro that [of "db_index db"]) (cases db, auto)
  next
    case False
    obtain ix1 where "idx_BatchApplySpans K [] reclaim (db_index db) = (Inr (), ix1)" "ix_tape ix1 = []" "idx_ok K ix1"
      "idx_map K ix1 = batch_map [] reclaim ?m" using idx_batch_quiet [OF K ok] by blast
    with False show ?thesis by (intro that [of ix1]) (auto simp: idx_BatchDelete_eq batch_map_def)
  qed
  show ?thesis
  proof (cases w)
    case None
    have "idx_map K ix1 = compacted_map reclaim w ?m" using ix1(4) None by (auto simp: compacted_map_def)
    with rest ix1 None show ?thesis by auto
  next
    case (Some wr)
    obtain ix2 where ix2: "idx_BatchApplySpans K (result_entries wr) [] ix1 = (Inr (), ix2)" "ix_tape ix2 = []" "idx_ok K ix2"
      "idx_map K ix2 = batch_map (result_entries wr) [] (idx_map K ix1)" using idx_batch_quiet [OF K ix1(2,3)] by blast
    have "map_of (rev (result_entries wr)) = map_of (result_entries wr)"
      using dist [OF Some] by (intro map_of_rev) simp
    then have "idx_map K ix2 = compacted_map reclaim w ?m"
      unfolding ix2(4) ix1(4) Some
      by (auto simp: batch_map_def compacted_map_def map_add_def map_of_result_entries fun_eq_iff split: option.splits)
    with rest ix1(1) ix2 Some show ?thesis by (auto simp: idx_BatchDelete_eq)
  qed
qed

section \<open>Unlinking\<close>

lemma remove_attempts_other:
  "remove_attempts n path segs = (b, segs') \<Longrightarrow> m \<noteq> path \<Longrightarrow> dir_get (fs_dir segs') m = dir_get (fs_dir segs) m"
proof (induction n arbitrary: segs)
  case (Suc n)
  obtain f t where "fs_fault segs = (f, segs\<lparr>fs_tape := t\<rparr>)" by (rule fs_fault_cases)
  with Suc show ?case by (cases f) (auto split: prod.splits)
qed simp

lemma unlink_all_other:
  "unlink_all ids segs = (res, segs') \<Longrightarrow> i \<notin> set ids \<Longrightarrow>
     dir_get (fs_dir segs') (SegmentPath i) = dir_get (fs_dir segs) (SegmentPath i)"
proof (induction ids arbitrary: segs)
  case (Cons j ids)
  obtain b segs1 where r: "removeWithRetry (SegmentPath j) segs = (b, segs1)" by fastforce
  have same: "dir_get (fs_dir segs1) (SegmentPath i) = dir_get (fs_dir segs) (SegmentPath i)"
    using remove_attempts_other r Cons.prems(2) unfolding removeWithRetry_def
    by (metis SegmentPath_inject list.set_intros(1))
  show ?case
  proof (cases b)
    case True
    with Cons.prems r have "unlink_all ids segs1 = (res, segs')" by simp
    with Cons.IH [of segs1] Cons.prems(2) same show ?thesis by simp
  next
    case False
    with Cons.prems r same show ?thesis by simp
  qed
qed simp

lemma purgeAndUnlink_other:
  assumes "purgeAndUnlink purger ids segs = (res, segs')" "i \<notin> set ids"
  shows "dir_get (fs_dir segs') (SegmentPath i) = dir_get (fs_dir segs) (SegmentPath i)"
proof -
  obtain f t where "fs_fault segs = (f, segs\<lparr>fs_tape := t\<rparr>)" by (rule fs_fault_cases)
  with assms show ?thesis
    using unlink_all_other [of ids "segs\<lparr>fs_tape := t\<rparr>" res segs' i] unlink_all_other [of ids segs res segs' i]
    by (auto simp: purgeAndUnlink_def split: if_splits option.splits)
qed

lemma swap_manifest_same:
  "swap_manifest rm add db = (res, db') \<Longrightarrow>
     db_index db' = db_index db \<and> db_segs db' = db_segs db \<and> db_manifest db' = db_manifest db"
  by (auto simp: swap_manifest_def split: prod.splits sum.splits)

text \<open>Unlinking segments that no index entry names.\<close>

lemma unlink_old_view:
  assumes "entries_ok Log K (db_index db) (db_segs db)" "unlink_old ids db = (res, db')"
    and "\<And>k loc. idx_map K (db_index db) k = Some loc \<Longrightarrow> loc_SegmentID loc \<notin> set ids"
  shows "db_index db' = db_index db \<and> entries_ok Log K (db_index db') (db_segs db')
    \<and> view_at K (db_index db') (db_segs db') = view_at K (db_index db) (db_segs db) \<and> db_meta db' = db_meta db
    \<and> db_manifest db' = db_manifest db"
proof -
  obtain segs' where p: "purgeAndUnlink (db_purger db) ids (db_segs db) = (res, segs')" "db' = db\<lparr>db_segs := segs'\<rparr>"
    using assms(2) by (auto simp: unlink_old_def split: prod.splits)
  have same: "dir_get (fs_dir segs') (SegmentPath (loc_SegmentID loc)) = dir_get (fs_dir (db_segs db)) (SegmentPath (loc_SegmentID loc))"
    if "idx_map K (db_index db) k = Some loc" for k loc
    using purgeAndUnlink_other [OF p(1)] assms(3) [OF that] by simp
  from entries_same_files [OF assms(1) same] p(2) show ?thesis by simp
qed

text \<open>The manifest swap and the unlinking together, as the end of compaction and expiry.\<close>

lemma swap_unlink_view:
  assumes "entries_ok Log K (db_index db) (db_segs db)"
    and "\<And>k loc. idx_map K (db_index db) k = Some loc \<Longrightarrow> loc_SegmentID loc \<notin> set ids"
    and "rbind (swap_manifest rm add db) (\<lambda>_ db. rbind (unlink_old ids db) (\<lambda>_ db. (Inr r, db))) = (res, db')"
  shows "db_index db' = db_index db \<and> entries_ok Log K (db_index db') (db_segs db')
    \<and> view_at K (db_index db') (db_segs db') = view_at K (db_index db) (db_segs db)"
proof -
  obtain r1 db1 where sw: "swap_manifest rm add db = (r1, db1)" by fastforce
  note S = swap_manifest_same [OF sw]
  show ?thesis
  proof (cases r1)
    case (Inl e)
    with assms(1,3) sw S show ?thesis by auto
  next
    case (Inr u)
    obtain r2 db2 where un: "unlink_old ids db1 = (r2, db2)" by fastforce
    have A: "entries_ok Log K (db_index db1) (db_segs db1)" using assms(1) S by simp
    have B: "loc_SegmentID loc \<notin> set ids" if "idx_map K (db_index db1) k = Some loc" for k loc
      using assms(2) [of k loc] that S by simp
    have U: "db_index db2 = db_index db1 \<and> entries_ok Log K (db_index db2) (db_segs db2)
        \<and> view_at K (db_index db2) (db_segs db2) = view_at K (db_index db1) (db_segs db1)"
      using unlink_old_view [OF A un] B by blast
    have "db' = db2" using assms(3) sw Inr un by (cases r2) auto
    moreover have "db_index db1 = db_index db" "db_segs db1 = db_segs db" using S by simp_all
    ultimately show ?thesis using U by metis
  qed
qed

section \<open>Compaction preserves the view\<close>

definition total_spans :: "file_store \<Rightarrow> u64 list \<Rightarrow> nat" where
  "total_spans segs ids = sum_list (map (\<lambda>i. length (spans_of segs i)) ids)"

lemma length_picked: "length (concat (map (\<lambda>i. map snd (picked Log K ix segs i)) ids)) \<le> total_spans segs ids"
proof (induction ids)
  case (Cons i ids)
  have "length (picked Log K ix segs i) \<le> length (spans_of segs i)"
    unfolding picked_def by (metis length_filter_le length_map map_snd_seg_entries)
  with Cons show ?case by (simp add: total_spans_def)
qed (simp add: total_spans_def)

text \<open>The index and the files between the commit and the manifest swap.\<close>

lemma committed_view:
  assumes E: "entries_ok Log K ix segs"
    and hold: "\<forall>i \<in> set ids. \<exists>spans. seg_holds Log segs i spans"
    and L: "L = concat (map (\<lambda>i. map snd (picked Log K ix segs i)) ids)"
    and surv: "survivors = filter (\<lambda>s. \<not> Deleted s) L" and recl: "reclaim = map span_key (filter Deleted L)"
    and other: "\<And>n. n \<noteq> SegmentPath new \<Longrightarrow> dir_get (fs_dir segs') n = dir_get (fs_dir segs) n"
    and fresh: "dir_get (fs_dir segs) (SegmentPath new) = None" "new \<notin> set ids"
    and w: "case w of None \<Rightarrow> survivors = []
      | Some wr \<Rightarrow> (\<exists>st. seg_Flush Log new survivors st = (Inr wr, segs')) \<and> storable Log new survivors"
    and ix': "idx_ok K ix'" "idx_map K ix' = compacted_map reclaim w (idx_map K ix)"
  shows "entries_ok Log K ix' segs'" "view_at K ix' segs' = view_at K ix segs"
    "idx_map K ix' k = Some loc \<Longrightarrow> loc_SegmentID loc \<notin> set ids"
proof -
  have key_of_L: "s \<in> set L \<Longrightarrow> \<exists>i o' spans. i \<in> set ids \<and> seg_holds Log segs i spans
      \<and> (o', s) \<in> set (seg_entries Log spans) \<and> idx_map K ix (span_key s) = Some \<lparr>loc_SegmentID = i, loc_Offset = o'\<rparr>" for s
  proof -
    assume "s \<in> set L"
    then obtain i o' where i: "i \<in> set ids" "(o', s) \<in> set (picked Log K ix segs i)" by (auto simp: L)
    obtain spans where "seg_holds Log segs i spans" using hold i(1) by blast
    with i show ?thesis by (fastforce simp: picked_def points_at_def dest: spans_of_holds)
  qed
  have old_in_L: "\<exists>s \<in> set L. span_key s = k" if "idx_map K ix k = Some loc" "loc_SegmentID loc \<in> set ids" for k loc
    using entry_picked [OF E that(1)] that(2) unfolding L by force
  text \<open>What a key is after the commit.\<close>
  have cases: "(\<exists>wr off s. w = Some wr \<and> idx_map K ix' k = Some \<lparr>loc_SegmentID = new, loc_Offset = off\<rparr>
        \<and> seg_holds Log segs' new survivors \<and> (off, s) \<in> set (seg_entries Log survivors) \<and> s \<in> set survivors \<and> span_key s = k)
      \<or> idx_map K ix' k = None \<and> (\<exists>s \<in> set L. Deleted s \<and> span_key s = k)
      \<or> idx_map K ix' k = idx_map K ix k \<and> (\<forall>s \<in> set L. span_key s \<noteq> k)" for k
  proof (cases "\<exists>wr off. w = Some wr \<and> map_of (wr_Offsets wr) k = Some off")
    case True
    then obtain wr off st where wr: "w = Some wr" "map_of (wr_Offsets wr) k = Some off"
      "seg_Flush Log new survivors st = (Inr wr, segs')" "storable Log new survivors" using w by auto
    obtain s where s: "seg_holds Log segs' new survivors" "(off, s) \<in> set (seg_entries Log survivors)"
        "last_span k survivors = Some s" using flush_entries [OF wr(3,4,2)] by blast
    have id: "wr_SegmentID wr = new" using wr(3) by (rule seg_Flush_ok)
    have "idx_map K ix' k = Some \<lparr>loc_SegmentID = new, loc_Offset = off\<rparr>"
      using wr(1,2) by (simp add: ix'(2) compacted_map_def id)
    with wr(1) s last_span_SomeD [OF s(3)] show ?thesis by blast
  next
    case False
    then have m: "idx_map K ix' k = (if k \<in> set reclaim then None else idx_map K ix k)"
      by (auto simp: ix'(2) compacted_map_def split: option.splits)
    have "k \<notin> span_key ` set survivors"
    proof
      assume k: "k \<in> span_key ` set survivors"
      then obtain wr st where wr: "w = Some wr" "seg_Flush Log new survivors st = (Inr wr, segs')"
        using w by (auto split: option.splits)
      from k wr_Offsets_keys(1) [OF wr(2)] have "map_of (wr_Offsets wr) k \<noteq> None"
        by (simp add: map_of_eq_None_iff)
      with False wr(1) show False by blast
    qed
    with m show ?thesis by (auto simp: surv recl)
  qed
  have loc_new: "loc_SegmentID loc \<noteq> new" if "idx_map K ix k = Some loc" for k loc
    using E that fresh(1) by (auto elim!: entries_okD seg_holdsE)
  have same: "dir_get (fs_dir segs') (SegmentPath (loc_SegmentID loc)) = dir_get (fs_dir segs) (SegmentPath (loc_SegmentID loc))"
    if "idx_map K ix k = Some loc" for k loc using other loc_new [OF that] by simp
  show "idx_map K ix' k = Some loc \<Longrightarrow> loc_SegmentID loc \<notin> set ids"
    using cases [of k] old_in_L [of k loc] fresh(2) by auto
  show "entries_ok Log K ix' segs'"
    unfolding entries_ok_def
  proof (intro conjI allI impI)
    fix k loc assume k: "idx_map K ix' k = Some loc"
    from cases [of k] k consider
      (new) off s where "loc = \<lparr>loc_SegmentID = new, loc_Offset = off\<rparr>" "seg_holds Log segs' new survivors"
        "(off, s) \<in> set (seg_entries Log survivors)" "span_key s = k"
      | (old) "idx_map K ix k = Some loc" by auto
    then show "entry_ok Log segs' k loc"
    proof cases
      case new
      then show ?thesis by (auto simp: entry_ok_def)
    next
      case old
      then show ?thesis using E seg_holds_same [OF same [OF old]] by (auto simp: entries_ok_def entry_ok_def)
    qed
  qed (fact ix'(1))
  show "view_at K ix' segs' = view_at K ix segs"
  proof
    fix k
    have live: "view_at K ix segs (span_key s) = (if Deleted s then None else Some s)" if "s \<in> set L" for s
    proof -
      from key_of_L [OF that] obtain i o' spans where "seg_holds Log segs i spans"
        "(o', s) \<in> set (seg_entries Log spans)" "idx_map K ix (span_key s) = Some \<lparr>loc_SegmentID = i, loc_Offset = o'\<rparr>"
        by blast
      then show ?thesis using view_entry [of K ix "span_key s" "\<lparr>loc_SegmentID = i, loc_Offset = o'\<rparr>"] by simp
    qed
    from cases [of k] consider
      (new) off s where "idx_map K ix' k = Some \<lparr>loc_SegmentID = new, loc_Offset = off\<rparr>" "seg_holds Log segs' new survivors"
        "(off, s) \<in> set (seg_entries Log survivors)" "s \<in> set survivors" "span_key s = k"
      | (dead) s where "idx_map K ix' k = None" "s \<in> set L" "Deleted s" "span_key s = k"
      | (old) "idx_map K ix' k = idx_map K ix k" by blast
    then show "view_at K ix' segs' k = view_at K ix segs k"
    proof cases
      case new
      then have "view_at K ix' segs' k = (if Deleted s then None else Some s)"
        using view_entry [of K ix' k "\<lparr>loc_SegmentID = new, loc_Offset = off\<rparr>" Log segs' survivors s] by simp
      with live [of s] new(4,5) show ?thesis by (simp add: surv)
    next
      case dead
      with live [of s] show ?thesis by (simp add: view_at_def)
    next
      case old
      then show ?thesis using seg_read_same [OF same] by (auto simp: view_at_def split: option.splits)
    qed
  qed
qed


text \<open>Nothing is written beside the merged segment before the commit.\<close>

lemma compact_write_cases:
  assumes "compact_write Log new survivors segs = (res, segs')"
  shows "(n \<noteq> SegmentPath new \<longrightarrow> dir_get (fs_dir segs') n = dir_get (fs_dir segs) n)
    \<and> (\<forall>w. res = Inr w \<longrightarrow> (case w of None \<Rightarrow> survivors = [] \<and> segs' = segs
        | Some wr \<Rightarrow> survivors \<noteq> [] \<and> seg_Flush Log new survivors segs = (Inr wr, segs')))"
  using assms
  by (auto simp: compact_write_def dest: seg_Flush_other split: if_splits prod.splits sum.splits)

text \<open>
  What a compaction is called with: the segments to merge hold spans, the new id is unused, and
  filters of the merged size do not wrap.
\<close>

definition compact_ready :: "(f64 \<Rightarrow> f64) \<Rightarrow> u64 list \<Rightarrow> u64 \<Rightarrow> 'k db \<Rightarrow> bool" where
  "compact_ready Log oldIDs new db \<longleftrightarrow>
     (\<forall>i \<in> set oldIDs. \<exists>spans. seg_holds Log (db_segs db) i spans)
     \<and> dir_get (fs_dir (db_segs db)) (SegmentPath new) = None
     \<and> sizing_upto Log (total_spans (db_segs db) oldIDs)"

lemma seg_entries_in: "(o', s) \<in> set (seg_entries Log spans) \<Longrightarrow> s \<in> set spans"
  using map_snd_seg_entries [of Log spans] by (metis image_eqI list.set_map snd_conv)

lemma picked_storable:
  assumes "\<forall>i \<in> set ids. \<exists>spans. seg_holds Log segs i spans" "sizing_upto Log (total_spans segs ids)"
  shows "storable Log new (filter P (concat (map (\<lambda>i. map snd (picked Log K ix segs i)) ids)))"
proof (rule storable_small [OF _ assms(2)])
  have "seg_fits (map snd (picked Log K ix segs i))" if "i \<in> set ids" for i
  proof -
    from assms(1) that obtain spans where h: "seg_holds Log segs i spans" by blast
    then obtain "seg_fits spans" by (rule seg_holdsE)
    moreover have "set (map snd (picked Log K ix segs i)) \<subseteq> set spans"
      by (auto simp: picked_def spans_of_holds [OF h] dest: seg_entries_in)
    ultimately show ?thesis by (auto simp: seg_fits_def)
  qed
  then show "seg_fits (filter P (concat (map (\<lambda>i. map snd (picked Log K ix segs i)) ids)))"
    by (auto simp: seg_fits_def)
  show "length (filter P (concat (map (\<lambda>i. map snd (picked Log K ix segs i)) ids))) \<le> total_spans segs ids"
    using length_picked [of Log K ix segs ids] by (meson length_filter_le order.trans)
qed

text \<open>
  The two ways a compaction goes: it stops before the index changes, or it reaches the manifest
  swap with the index moved over to the merged segment.
\<close>

definition compact_stopped :: "u64 \<Rightarrow> 'k db \<Rightarrow> 'k db \<Rightarrow> bool" where
  "compact_stopped new db db' \<longleftrightarrow> db_index db' = db_index db \<and> db_meta db' = db_meta db
     \<and> (\<forall>n. n \<noteq> SegmentPath new \<longrightarrow> dir_get (fs_dir (db_segs db')) n = dir_get (fs_dir (db_segs db)) n)
     \<and> db_manifest db' = db_manifest db \<and> db_purger db' = db_purger db"

definition compact_moved ::
    "(f64 \<Rightarrow> f64) \<Rightarrow> 'k kv \<Rightarrow> u64 list \<Rightarrow> u64 \<Rightarrow> 'k db \<Rightarrow> write_result option \<Rightarrow> 'k index \<Rightarrow> file_store \<Rightarrow> bool" where
  "compact_moved Log K oldIDs new db w ix' segs' \<longleftrightarrow> ix_tape ix' = [] \<and> entries_ok Log K ix' segs'
     \<and> view_at K ix' segs' = view_at K (db_index db) (db_segs db)
     \<and> (\<forall>k loc. idx_map K ix' k = Some loc \<longrightarrow> loc_SegmentID loc \<notin> set oldIDs
          \<and> (w \<noteq> None \<and> loc_SegmentID loc = new \<or> idx_map K (db_index db) k = Some loc))
     \<and> (\<forall>n. n \<noteq> SegmentPath new \<longrightarrow> dir_get (fs_dir segs') n = dir_get (fs_dir (db_segs db)) n)
     \<and> (\<forall>wr. w = Some wr \<longrightarrow> wr_SegmentID wr = new
          \<and> (\<exists>spans. seg_holds Log segs' new spans \<and> length spans \<le> total_spans (db_segs db) oldIDs))"

lemma Compact_cases:
  assumes K: "kv_store K" and ok: "db_ok Log K db" and quiet: "ix_tape (db_index db) = []"
    and ready: "compact_ready Log oldIDs new db" and C: "Compact Log K oldIDs new db = (res, db')"
  shows "compact_stopped new db db' \<or> (\<exists>w ix' segs' r. compact_moved Log K oldIDs new db w ix' segs'
    \<and> rbind (swap_manifest oldIDs (case w of None \<Rightarrow> [] | Some wr \<Rightarrow> [wr_SegmentID wr]) (db\<lparr>db_segs := segs', db_index := ix'\<rparr>))
        (\<lambda>_ db. rbind (unlink_old oldIDs db) (\<lambda>_ db. (Inr r, db))) = (res, db'))"
proof -
  let ?ix = "db_index db" and ?segs = "db_segs db"
  have E: "entries_ok Log K ?ix ?segs" and I: "idx_ok K ?ix" using ok by (simp_all add: db_ok_def entries_ok_def)
  have hold: "\<forall>i \<in> set oldIDs. \<exists>spans. seg_holds Log ?segs i spans"
    and fresh: "dir_get (fs_dir ?segs) (SegmentPath new) = None"
    and size: "sizing_upto Log (total_spans ?segs oldIDs)" using ready by (simp_all add: compact_ready_def)
  have new: "new \<notin> set oldIDs" using hold fresh by (auto elim!: seg_holdsE)
  define L where "L = concat (map (\<lambda>i. map snd (picked Log K ?ix ?segs i)) oldIDs)"
  obtain r1 segs1 where sc: "compact_scan K oldIDs (scan_start ?ix) ?segs = (r1, segs1)" by fastforce
  have S: "fs_dir segs1 = fs_dir ?segs" "r1 = Inr t \<Longrightarrow> sc_index t = ?ix \<and>
      sc_survivors t = filter (\<lambda>s. \<not> Deleted s) L \<and> sc_reclaim t = map span_key (filter Deleted L)" for t
    using compact_scan_holds [OF K hold _ _ sc] I quiet by (simp_all add: scan_start_def L_def)
  show ?thesis
  proof (cases "oldIDs = [] \<or> (\<exists>e. r1 = Inl e)")
    case True
    then have "db_index db' = ?ix" "fs_dir (db_segs db') = fs_dir ?segs"
      using C sc S(1) by (auto simp: Compact_def split: if_splits)
    moreover have "db_meta db' = db_meta db" "db_manifest db' = db_manifest db" "db_purger db' = db_purger db"
      using C sc True by (auto simp: Compact_def split: if_splits)
    ultimately show ?thesis by (simp add: compact_stopped_def)
  next
    case False
    then obtain t where t: "r1 = Inr t" and ne: "oldIDs \<noteq> []" by (cases r1) auto
    note T = S(2) [OF t]
    obtain r2 segs2 where wr: "compact_write Log new (sc_survivors t) segs1 = (r2, segs2)" by fastforce
    have other: "n \<noteq> SegmentPath new \<Longrightarrow> dir_get (fs_dir segs2) n = dir_get (fs_dir ?segs) n" for n
      using compact_write_cases [OF wr, of n] S(1) by simp
    have loc_new: "loc_SegmentID loc \<noteq> new" if "idx_map K ?ix k = Some loc" for k loc
      using E that fresh by (auto elim!: entries_okD seg_holdsE)
    show ?thesis
    proof (cases r2)
      case (Inl e)
      then have "db' = db\<lparr>db_index := ?ix, db_segs := segs2\<rparr>" using C sc t wr ne T by (simp add: Compact_def)
      with other show ?thesis by (simp add: compact_stopped_def)
    next
      case (Inr w)
      have W: "case w of None \<Rightarrow> sc_survivors t = []
        | Some wr \<Rightarrow> (\<exists>st. seg_Flush Log new (sc_survivors t) st = (Inr wr, segs2)) \<and> storable Log new (sc_survivors t)"
      proof (cases w)
        case None
        then show ?thesis using compact_write_cases [OF wr] Inr by simp
      next
        case (Some x)
        have "storable Log new (sc_survivors t)"
          using picked_storable [OF hold size, of new "\<lambda>s. \<not> Deleted s" K ?ix] T by (simp add: L_def)
        moreover have "seg_Flush Log new (sc_survivors t) segs1 = (Inr x, segs2)"
          using compact_write_cases [OF wr] Inr Some by simp
        ultimately show ?thesis using Some by auto
      qed
      have "length (sc_survivors t) \<le> total_spans ?segs oldIDs"
        using order.trans [OF length_filter_le [of "\<lambda>s. \<not> Deleted s" L] length_picked [of Log K ?ix ?segs oldIDs, folded L_def]] T
        by simp
      then have id: "wr_SegmentID wr = new \<and> (\<exists>spans. seg_holds Log segs2 new spans \<and> length spans \<le> total_spans ?segs oldIDs)"
        if "w = Some wr" for wr
        using W that seg_Flush_ok sg.flush_holds by fastforce
      have dist: "w = Some wr \<Longrightarrow> distinct (map fst (wr_Offsets wr))" for wr
        using W wr_Offsets_keys(2) by (auto split: option.splits)
      let ?db2 = "db\<lparr>db_index := ?ix, db_segs := segs2\<rparr>"
      obtain ix' where cm: "compact_commit K (sc_reclaim t) w ?db2 = (Inr (), ?db2\<lparr>db_index := ix'\<rparr>)"
          "idx_ok K ix'" "ix_tape ix' = []" "idx_map K ix' = compacted_map (sc_reclaim t) w (idx_map K ?ix)"
        using compact_commit_quiet [OF K, of ?db2 w "sc_reclaim t"] I quiet dist by auto
      note V = committed_view [OF E hold L_def, of "sc_survivors t" "sc_reclaim t" new segs2 w ix']
      have V1: "entries_ok Log K ix' segs2" "view_at K ix' segs2 = view_at K ?ix ?segs"
        "\<And>k loc. idx_map K ix' k = Some loc \<Longrightarrow> loc_SegmentID loc \<notin> set oldIDs"
        using V T other fresh new W cm(2,4) by blast+
      let ?add = "case w of None \<Rightarrow> [] | Some wr \<Rightarrow> [wr_SegmentID wr]"
      let ?r = "\<lparr>DroppedSegmentIDs = oldIDs, NewSegmentID = (case w of None \<Rightarrow> 0 | Some wr \<Rightarrow> wr_SegmentID wr),
        SpansDropped = sc_dropped t, SpansCarried = length (sc_survivors t), SpansStale = sc_stale t\<rparr>"
      have "rbind (swap_manifest oldIDs ?add (db\<lparr>db_segs := segs2, db_index := ix'\<rparr>))
          (\<lambda>_ db. rbind (unlink_old oldIDs db) (\<lambda>_ db. (Inr ?r, db))) = (res, db')"
        using C sc t wr ne T Inr cm(1) by (simp add: Compact_def)
      moreover have "w \<noteq> None \<and> loc_SegmentID loc = new \<or> idx_map K ?ix k = Some loc"
        if "idx_map K ix' k = Some loc" for k loc
        using that id by (auto simp: cm(4) compacted_map_def split: option.splits if_splits)
      then have "compact_moved Log K oldIDs new db w ix' segs2"
        using V1 cm(3) other id by (simp add: compact_moved_def)
      ultimately show ?thesis by blast
    qed
  qed
qed

lemma Compact_keeps_view:
  assumes K: "kv_store K" and ok: "db_ok Log K db" and quiet: "ix_tape (db_index db) = []"
    and ready: "compact_ready Log oldIDs new db" and C: "Compact Log K oldIDs new db = (res, db')"
  shows "db_ok Log K db' \<and> view K db' = view K db"
  using Compact_cases [OF K ok quiet ready C]
proof (elim disjE exE conjE)
  assume "compact_stopped new db db'"
  moreover have "loc_SegmentID loc \<noteq> new" if "idx_map K (db_index db) k = Some loc" for k loc
    using ok ready that by (auto simp: db_ok_def compact_ready_def elim!: entries_okD seg_holdsE)
  ultimately show ?thesis
    using entries_same_files [of Log K "db_index db" "db_segs db" "db_segs db'"] ok
    by (simp add: compact_stopped_def db_ok_def view_def)
next
  fix w ix' segs' r
  assume M: "compact_moved Log K oldIDs new db w ix' segs'"
    and R: "rbind (swap_manifest oldIDs (case w of None \<Rightarrow> [] | Some wr \<Rightarrow> [wr_SegmentID wr]) (db\<lparr>db_segs := segs', db_index := ix'\<rparr>))
      (\<lambda>_ db. rbind (unlink_old oldIDs db) (\<lambda>_ db. (Inr r, db))) = (res, db')"
  from M have "entries_ok Log K ix' segs'" "view_at K ix' segs' = view_at K (db_index db) (db_segs db)"
    "\<And>k loc. idx_map K ix' k = Some loc \<Longrightarrow> loc_SegmentID loc \<notin> set oldIDs"
    by (simp_all add: compact_moved_def)
  with swap_unlink_view [OF _ _ R, of Log K] show ?thesis unfolding db_ok_def view_def by auto
qed

section \<open>Expiry\<close>

definition past :: "file_store \<Rightarrow> i64 \<Rightarrow> u64 \<Rightarrow> bool" where
  "past segs cutoff i \<longleftrightarrow> max_ts (spans_of segs i) <s cutoff"

lemma past_same: "fs_dir segs' = fs_dir segs \<Longrightarrow> past segs' = past segs"
  by (simp add: past_def spans_of_def seg_scan_def fun_eq_iff)

lemma expire_scan_holds:
  assumes "kv_store K" "\<forall>i \<in> set ids. \<exists>spans. seg_holds Log segs i spans"
    and "idx_ok K (sc_index st)" "ix_tape (sc_index st) = []" "expire_scan K ids cutoff st segs = (res, segs')"
  shows "fs_dir segs' = fs_dir segs \<and> (\<forall>expired t. res = Inr (expired, t) \<longrightarrow>
      expired = filter (past segs cutoff) ids \<and> sc_index t = sc_index st
      \<and> sc_reclaim t = sc_reclaim st @ map span_key (concat (map (\<lambda>i. map snd (picked Log K (sc_index st) segs i)) expired)))"
  using assms(2-5)
proof (induction ids arbitrary: st segs segs' res)
  case Nil
  then show ?case by auto
next
  case (Cons i ids)
  from Cons.prems(1) obtain spans where spans: "seg_holds Log segs i spans" by auto
  obtain o1 segs1 where op: "OpenReader i segs = (o1, segs1)" by fastforce
  have dir1: "fs_dir segs1 = fs_dir segs" using op by (rule open_reader_dir)
  show ?case
  proof (cases o1)
    case (Inl e)
    with op dir1 Cons.prems(4) show ?thesis by auto
  next
    case (Inr r)
    note R = open_reader_holds [OF spans op [unfolded Inr], of "expire_visit K i" st]
    have old: "past segs cutoff i \<longleftrightarrow> hd_MaxTimestamp (rd_Header r) <s cutoff"
      using R by (simp add: past_def spans_of_holds [OF spans])
    have holds1: "\<forall>i \<in> set ids. \<exists>spans. seg_holds Log segs1 i spans"
      using Cons.prems(1) dir1 by (simp add: seg_holds_def)
    show ?thesis
    proof (cases "past segs cutoff i")
      case False
      with Cons.prems(4) op Inr old have "expire_scan K ids cutoff st segs1 = (res, segs')" by simp
      note IH = Cons.IH [OF holds1 Cons.prems(2,3) this, unfolded picked_same [OF dir1] past_same [OF dir1]]
      have "filter (past segs cutoff) (i # ids) = filter (past segs cutoff) ids" using False by simp
      then show ?thesis using IH dir1 by presburger
    next
      case True
      obtain r2 segs2 where sr: "scan_reader (expire_visit K i) r st segs1 = (r2, segs2)" by fastforce
      let ?t = "scan_fold (expire_visit K i) (seg_entries Log spans) st"
      from scan_reader_holds [OF _ sr, of ?t] R have S: "fs_dir segs2 = fs_dir segs" "r2 = Inr ?t \<or> r2 = Inl SegIO"
        by auto
      from Cons.prems(4) op Inr old True sr
      have run: "rbind (r2, segs2) (\<lambda>st segs. rbind (expire_scan K ids cutoff st segs)
          (\<lambda>(expired, st) segs. (Inr (i # expired, st), segs))) = (res, segs')" by simp
      from S(2) show ?thesis
      proof
        assume "r2 = Inl SegIO"
        with run S show ?thesis by auto
      next
        assume r2: "r2 = Inr ?t"
        note F = expire_fold [OF assms(1) Cons.prems(2,3), of i "seg_entries Log spans"]
        obtain r3 segs3 where es: "expire_scan K ids cutoff ?t segs2 = (r3, segs3)" by fastforce
        have holds2: "\<forall>i \<in> set ids. \<exists>spans. seg_holds Log segs2 i spans"
          using Cons.prems(1) S by (simp add: seg_holds_def)
        have ok: "idx_ok K (sc_index ?t)" "ix_tape (sc_index ?t) = []" using F Cons.prems(2,3) by simp_all
        note IH = Cons.IH [OF holds2 ok es]
        have pick: "picked Log K (sc_index st) segs i = filter (points_at K (sc_index st) i) (seg_entries Log spans)"
          by (simp add: picked_def spans_of_holds [OF spans])
        show ?thesis
        proof (cases r3)
          case (Inl e)
          then have "res = Inl e" "segs' = segs3" using run r2 es by simp_all
          then show ?thesis using IH S(1) by simp
        next
          case (Inr p)
          obtain expired t where p: "p = (expired, t)" by fastforce
          have res: "res = Inr (i # expired, t)" "segs' = segs3" using run r2 es Inr p by simp_all
          have "expired = filter (past segs cutoff) ids \<and> sc_index t = sc_index ?t \<and> sc_reclaim t = sc_reclaim ?t @
              map span_key (concat (map (\<lambda>i. map snd (picked Log K (sc_index ?t) segs i)) expired))"
            using IH Inr p unfolding picked_same [OF S(1)] past_same [OF S(1)] by simp
          then have "filter (past segs cutoff) (i # ids) = i # expired \<and> sc_index t = sc_index st \<and> sc_reclaim t = sc_reclaim st @
              map span_key (concat (map (\<lambda>i. map snd (picked Log K (sc_index st) segs i)) (i # expired)))"
            using F True by (simp add: pick)
          moreover have "fs_dir segs' = fs_dir segs" using IH S(1) res(2) by simp
          ultimately show ?thesis unfolding res(1) by simp
        qed
      qed
    qed
  qed
qed

text \<open>
  After an expiry the keys whose current record was in an expired segment are gone and every other
  key reads as before; on an error either nothing changed or that has already happened.
\<close>

definition expired_view :: "'k kv \<Rightarrow> 'k db \<Rightarrow> u64 list \<Rightarrow> string \<Rightarrow> span_payload option" where
  "expired_view K db expired k =
     (case idx_map K (db_index db) k of
        None \<Rightarrow> None
      | Some loc \<Rightarrow> if loc_SegmentID loc \<in> set expired then None else view K db k)"

lemma Expire_view:
  assumes K: "kv_store K" and ok: "db_ok Log K db" and quiet: "ix_tape (db_index db) = []"
    and hold: "\<forall>i \<in> set ids. \<exists>spans. seg_holds Log (db_segs db) i spans" and X: "Expire K ids cutoff db = (res, db')"
  shows "db_ok Log K db' \<and>
    (let gone = expired_view K db (filter (past (db_segs db) cutoff) ids)
     in case res of Inr _ \<Rightarrow> view K db' = gone | Inl _ \<Rightarrow> view K db' = view K db \<or> view K db' = gone)"
proof -
  let ?ix = "db_index db" and ?segs = "db_segs db"
  let ?old = "filter (past ?segs cutoff) ids"
  have E: "entries_ok Log K ?ix ?segs" and I: "idx_ok K ?ix" using ok by (simp_all add: db_ok_def entries_ok_def)
  obtain r1 segs1 where sc: "expire_scan K ids cutoff (scan_start ?ix) ?segs = (r1, segs1)" by fastforce
  have S: "fs_dir segs1 = fs_dir ?segs" "r1 = Inr (expired, t) \<Longrightarrow> expired = ?old \<and> sc_index t = ?ix
      \<and> sc_reclaim t = map span_key (concat (map (\<lambda>i. map snd (picked Log K ?ix ?segs i)) ?old))" for expired t
    using expire_scan_holds [OF K hold _ _ sc] I quiet by (auto simp: scan_start_def)
  have same: "db_ok Log K db2 \<and> view K db2 = view K db" if "db_index db2 = ?ix" "fs_dir (db_segs db2) = fs_dir ?segs" for db2
    using entries_same_files [OF E, of "db_segs db2"] that by (simp add: db_ok_def view_def)
  show ?thesis
  proof (cases r1)
    case (Inl e)
    with X sc same [of db'] S show ?thesis by (auto simp: Expire_def)
  next
    case (Inr p)
    obtain expired t where p: "p = (expired, t)" by fastforce
    have T: "expired = ?old" "sc_index t = ?ix"
      "sc_reclaim t = map span_key (concat (map (\<lambda>i. map snd (picked Log K ?ix ?segs i)) ?old))"
      using S(2) Inr p by blast+
    let ?db1 = "db\<lparr>db_index := ?ix, db_segs := segs1\<rparr>"
    show ?thesis
    proof (cases "expired = []")
      case True
      then have "db' = ?db1" "res = Inr zero_result" using X sc Inr p T(2) by (simp_all add: Expire_def)
      moreover have "expired_view K db [] = view K db"
        by (simp add: expired_view_def view_def view_at_def fun_eq_iff split: option.splits)
      ultimately show ?thesis using same [of db'] S(1) True T(1) by simp
    next
      case False
      have reclaimed: "k \<in> set (sc_reclaim t) \<longleftrightarrow> (\<exists>loc. idx_map K ?ix k = Some loc \<and> loc_SegmentID loc \<in> set ?old)" for k
      proof
        assume "k \<in> set (sc_reclaim t)"
        then obtain i s o' where "i \<in> set ?old" "(o', s) \<in> set (picked Log K ?ix ?segs i)" "span_key s = k"
          unfolding T(3) by auto
        then show "\<exists>loc. idx_map K ?ix k = Some loc \<and> loc_SegmentID loc \<in> set ?old"
          by (auto simp: picked_def points_at_def)
      next
        assume "\<exists>loc. idx_map K ?ix k = Some loc \<and> loc_SegmentID loc \<in> set ?old"
        then obtain loc where loc: "idx_map K ?ix k = Some loc" "loc_SegmentID loc \<in> set ?old" by blast
        from entry_picked [OF E loc(1)] loc(2) show "k \<in> set (sc_reclaim t)" unfolding T(3) by force
      qed
      obtain ix' where b: "expire_commit K (sc_reclaim t) ?db1 = (Inr (), ?db1\<lparr>db_index := ix'\<rparr>)"
          "idx_ok K ix'" "idx_map K ix' = (\<lambda>k. if k \<in> set (sc_reclaim t) then None else idx_map K ?ix k)"
      proof (cases "sc_reclaim t = []")
        case True
        with I show ?thesis by (intro that [of ?ix]) (auto simp: expire_commit_def)
      next
        case False
        obtain ix' where "idx_BatchApplySpans K [] (sc_reclaim t) ?ix = (Inr (), ix')" "idx_ok K ix'"
          "idx_map K ix' = batch_map [] (sc_reclaim t) (idx_map K ?ix)" using idx_batch_quiet [OF K I quiet] by blast
        with False show ?thesis by (intro that [of ix']) (auto simp: expire_commit_def idx_BatchDelete_eq batch_map_def)
      qed
      have m: "idx_map K ix' k = (case idx_map K ?ix k of None \<Rightarrow> None
          | Some loc \<Rightarrow> if loc_SegmentID loc \<in> set ?old then None else Some loc)" for k
        using reclaimed [of k] by (auto simp: b(3) split: option.splits)
      have "entries_ok Log K ix' ?segs"
        using E b(2) by (auto simp: entries_ok_def m split: option.splits if_splits)
      from entries_same_files [OF this, of segs1] S(1)
      have V: "entries_ok Log K ix' segs1" "view_at K ix' segs1 = view_at K ix' ?segs" by simp_all
      have gone: "view_at K ix' ?segs = expired_view K db ?old"
        by (auto simp: fun_eq_iff expired_view_def view_def view_at_def m split: option.splits)
      have not_old: "loc_SegmentID loc \<notin> set ?old" if "idx_map K ix' k = Some loc" for k loc
        using that by (auto simp: m split: option.splits if_splits)
      let ?r = "\<lparr>DroppedSegmentIDs = ?old, NewSegmentID = 0, SpansDropped = sc_dropped t,
        SpansCarried = 0, SpansStale = sc_stale t\<rparr>"
      have "rbind (swap_manifest ?old [] (?db1\<lparr>db_index := ix'\<rparr>))
          (\<lambda>_ db. rbind (unlink_old ?old db) (\<lambda>_ db. (Inr ?r, db))) = (res, db')"
        using X sc Inr p T(1,2) False b(1) by (simp add: Expire_def Let_def)
      from swap_unlink_view [OF _ _ this, of Log K] V gone not_old
      have "db_ok Log K db' \<and> view K db' = expired_view K db ?old" unfolding db_ok_def view_def by auto
      then show ?thesis by (simp add: Let_def split: sum.splits)
    qed
  qed
qed

text \<open>A live span at or after the cutoff is never expired.\<close>

lemma Expire_keeps_recent:
  assumes "kv_store K" "db_ok Log K db" "ix_tape (db_index db) = []"
    and "\<forall>i \<in> set ids. \<exists>spans. seg_holds Log (db_segs db) i spans" "Expire K ids cutoff db = (res, db')"
    and v: "view K db k = Some s" and ts: "\<not> Timestamp s <s cutoff"
  shows "view K db' k = Some s"
proof -
  have "expired_view K db (filter (past (db_segs db) cutoff) ids) k = Some s"
  proof -
    from v obtain loc where loc: "idx_map K (db_index db) k = Some loc"
      by (auto simp: view_def view_at_def split: option.splits)
    obtain spans s' where s': "seg_holds Log (db_segs db) (loc_SegmentID loc) spans"
      "(loc_Offset loc, s') \<in> set (seg_entries Log spans)"
      using assms(2) loc by (auto simp: db_ok_def elim: entries_okD)
    have "s' = s" using view_entry [OF loc s'] v by (simp add: view_def split: if_splits)
    with s' have "Timestamp s \<le>s max_ts spans"
      using max_ts_ge seg_entries_in unfolding word_sle_eq by blast
    with ts have "\<not> past (db_segs db) cutoff (loc_SegmentID loc)"
      by (auto simp: past_def spans_of_holds [OF s'(1)] word_sless_alt word_sle_eq)
    with loc v show ?thesis by (simp add: expired_view_def)
  qed
  with Expire_view [OF assms(1-5)] v show ?thesis by (auto simp: Let_def split: sum.splits)
qed


section \<open>An unreadable index\<close>

text \<open>
  The staleness check takes any error of the index lookup for "moved or deleted". One failed read
  is enough: the current record is not carried over, the merged segment is not even written, and
  the only file that has the record is unlinked, while the call reports success.
\<close>

lemma compact_read_fault:
  assumes hold: "seg_holds Log (db_segs db) i [s]" and tapes: "fs_tape (db_segs db) = []" "fs_tape (db_meta db) = []"
    and fault: "ix_tape (db_index db) = [Some 0]" "ix_db (db_index db) \<noteq> None"
    and man: "manifest_ids (db_manifest db) (db_meta db) = Inr live"
    and idx: "idx_map K (db_index db) k = Some loc" "loc_SegmentID loc = i"
  shows "\<exists>r db'. Compact Log K [i] new db = (Inr r, db') \<and> SpansStale r = 1 \<and> SpansCarried r = 0
    \<and> idx_map K (db_index db') k = Some loc \<and> view K db' k = None"
proof -
  let ?ix = "db_index db" and ?segs = "db_segs db"
  obtain d where d: "ix_db ?ix = Some d" using fault(2) by blast
  let ?ix' = "?ix\<lparr>ix_tape := []\<rparr>"
  obtain r where r: "OpenReader i ?segs = (Inr r, ?segs)" using open_reader_quiet [OF hold tapes(1)] by blast
  obtain off where e: "seg_entries Log [s] = [(off, s)]" by (simp add: seg_entries_def)
  let ?t = "(scan_start ?ix)\<lparr>sc_index := ?ix', sc_stale := 1\<rparr>"
  have "compact_visit K i off s (scan_start ?ix) = (True, ?t)"
    using fault(1) d by (simp add: compact_visit_def scan_start_def idx_GetSpan_def ix_fault_def is_current_def Let_def)
  then have "rd_ScanAllFunc (compact_visit K i) r (scan_start ?ix) = (Inr (), ?t)"
    using open_reader_holds [OF hold r, of "compact_visit K i" "scan_start ?ix"] e by simp
  then have scan: "compact_scan K [i] (scan_start ?ix) ?segs = (Inr ?t, ?segs)"
    using r tapes(1) by (simp add: scanSegment_def scan_reader_def fs_fault_nil)
  obtain meta where meta: "manifest_Save (db_manifest db) (RemoveSegments live [i] @ []) (db_meta db) = (Inr (), meta)"
    using manifest_quiet(1) [OF tapes(2)] by blast
  have load: "manifest_Load (db_manifest db) (db_meta db) = (Inr live, db_meta db)"
    using man manifest_quiet(2) [OF tapes(2)] by simp
  let ?segs' = "?segs\<lparr>fs_dir := dir_del (SegmentPath i) (fs_dir ?segs)\<rparr>"
  have "purgeAndUnlink (db_purger db) [i] ?segs = (Inr (), ?segs')"
    using tapes(1) by (simp add: purgeAndUnlink_def removeWithRetry_def unlinkAttempts_def numeral_3_eq_3 fs_fault_nil)
  then have "Compact Log K [i] new db = (Inr \<lparr>DroppedSegmentIDs = [i], NewSegmentID = 0, SpansDropped = 0,
        SpansCarried = 0, SpansStale = 1\<rparr>, db\<lparr>db_index := ?ix', db_meta := meta, db_segs := ?segs'\<rparr>)"
    using scan load meta by (simp add: Compact_def compact_write_def compact_commit_def swap_manifest_def unlink_old_def scan_start_def)
  moreover have "seg_read i (loc_Offset loc) ?segs' = Inl SegNotExist" by (simp add: seg_read_def)
  ultimately show ?thesis using idx by (simp add: view_def view_at_def live_span_def)
qed

end
