(* ===== verification/Samples.thy ===== *)
theory Samples
  imports Wal_Spec Rollup_Spec Compactor_Spec
begin

text \<open>
  Concrete values for the witnesses: a span, its log record, a fresh log, a store with one
  segment and the index entry for it, on the reference key-value store.
\<close>

section \<open>A log\<close>

definition sample_span :: span_payload where
  "sample_span = zero_span\<lparr>TraceID := ''t1'', SpanID := ''s1'', Team := ''a'', Timestamp := 7, Payload := [1, 2]\<rparr>"

definition sample_record :: wal_record where
  "sample_record = \<lparr>Version = CurrentWALVersion, Span = sample_span\<rparr>"

definition sample_wal :: wal where
  "sample_wal = snd (CreateWALWithSegmentSize [] ''span.wal'' 0 [])"

lemma sample_fits [simp]: "span_fits sample_span"
  by (simp add: sample_span_def zero_span_def span_fits_def string_fields_def)

lemma sample_size: "payload_encoded_size sample_span = 60"
  by (simp add: payload_encoded_size_def sample_span_def zero_span_def string_fields_def wal_consts)

lemma sample_accepts [simp]: "accepts sample_record" "good_record sample_record"
  by (simp_all add: accepts_def good_record_def stamped_def sample_record_def CurrentWALVersion_def
      sample_size maxRecordSize_def)

lemma sample_stamped [simp]: "stamped sample_record = sample_record"
  by (simp add: stamped_def sample_record_def CurrentWALVersion_def)

lemma sample_wal [simp]:
  "CreateWALWithSegmentSize [] ''span.wal'' 0 [] = (Inr (), sample_wal)"
  "quiet sample_wal" "wal_ok sample_wal" "wal_log sample_wal = [(1, [])]" "named ''span.wal'' sample_wal"
  "wal_segmentID sample_wal = 1"
  using create_quiet [of "''span.wal''" 0] by (auto simp: sample_wal_def quiet_def)

section \<open>A segment store\<close>

text \<open>The logarithm the sizing of the filters calls, at the one argument it is called with.\<close>

definition sample_Log :: "f64 \<Rightarrow> f64" where
  "sample_Log x = 0xC0126BB1BBB55515"

lemma sample_sizing [simp]: "sizing_ok sample_Log 0" "sizing_ok sample_Log (Suc 0)" "sizing_ok sample_Log (Suc (Suc 0))"
proof -
  have "optimalM sample_Log (int 0) bloomFalsePositiveRate = 10" "optimalM sample_Log (int (Suc 0)) bloomFalsePositiveRate = 10"
    "optimalM sample_Log (int (Suc (Suc 0))) bloomFalsePositiveRate = 20"
    by (simp_all add: optimalM_def sample_Log_def bloomFalsePositiveRate_def f64_001_def f64_1_def f64_8_def f64_ln2_sq_def
        f64_eval cong: let_weak_cong)
  then show "sizing_ok sample_Log 0" "sizing_ok sample_Log (Suc 0)" "sizing_ok sample_Log (Suc (Suc 0))"
    unfolding sizing_ok_def by (intro bloom_New_ok; simp)+
qed

lemma sample_upto [simp]: "sizing_upto sample_Log (Suc 0)" "sizing_upto sample_Log (Suc (Suc 0))"
  by (auto simp: sizing_upto_def le_Suc_eq)

lemma sample_storable [simp]: "storable sample_Log i [sample_span]"
  by (rule storable_small [of _ _ "Suc 0"]) (simp_all add: sample_size)

definition sample_segs :: file_store where
  "sample_segs = snd (seg_Flush sample_Log 1 [sample_span] \<lparr>fs_dir = [], fs_tape = []\<rparr>)"

lemma sample_flush:
  obtains w where "seg_Flush sample_Log 1 [sample_span] \<lparr>fs_dir = [], fs_tape = []\<rparr> = (Inr w, sample_segs)"
proof -
  have "\<exists>w st'. seg_Flush sample_Log 1 [sample_span] \<lparr>fs_dir = [], fs_tape = []\<rparr> = (Inr w, st') \<and> fs_tape st' = []"
    by (rule seg_Flush_quiet) simp_all
  then show ?thesis by (auto simp: sample_segs_def intro: that)
qed

lemma sample_segs [simp]: "fs_tape sample_segs = []" "seg_holds sample_Log sample_segs 1 [sample_span]"
  "dir_get (fs_dir sample_segs) (SegmentPath 2) = None"
proof -
  have "\<exists>w st'. seg_Flush sample_Log 1 [sample_span] \<lparr>fs_dir = [], fs_tape = []\<rparr> = (Inr w, st') \<and> fs_tape st' = []"
    by (rule seg_Flush_quiet) simp_all
  then show "fs_tape sample_segs = []" by (auto simp: sample_segs_def)
  obtain w where w: "seg_Flush sample_Log 1 [sample_span] \<lparr>fs_dir = [], fs_tape = []\<rparr> = (Inr w, sample_segs)"
    by (rule sample_flush)
  show "seg_holds sample_Log sample_segs 1 [sample_span]" using w by (rule sg.flush_holds) simp
  show "dir_get (fs_dir sample_segs) (SegmentPath 2) = None"
    using seg_Flush_other [OF w, of "SegmentPath 2"] by simp
qed

definition sample_sample :: sample where
  "sample_sample = \<lparr>sm_timestamp = 7, sm_model = ''m'', sm_cost = 5, sm_tokensIn = 1, sm_tokensOut = 2, sm_latencyMs = 3\<rparr>"

section \<open>A store with its index\<close>

definition sample_loc :: span_location where
  "sample_loc = \<lparr>loc_SegmentID = 1, loc_Offset = seg_start sample_Log [sample_span]\<rparr>"

definition sample_index :: "tape \<Rightarrow> (bytes \<times> bytes) list index" where
  "sample_index t =
     \<lparr>ix_db = Some [(bytes_of (span_key sample_span), encodeSpanLocation sample_loc)], ix_tape = t\<rparr>"

definition sample_db :: "tape \<Rightarrow> (bytes \<times> bytes) list db" where
  "sample_db t = \<lparr>db_index = sample_index t, db_segs = sample_segs,
     db_meta = \<lparr>fs_dir = [(''manifest'', bytes_of_ids [1])], fs_tape = []\<rparr>, db_manifest = ''manifest'', db_purger = True\<rparr>"

lemma sample_entries: "seg_entries sample_Log [sample_span] = [(loc_Offset sample_loc, sample_span)]"
  by (simp add: seg_entries_def sample_loc_def)

lemma sample_index_map: "idx_map log_kv (sample_index t) k = (if k = span_key sample_span then Some sample_loc else None)"
  by (simp add: idx_map_def sample_index_def log_kv_def del: bytes_of_append)

lemma sample_index_ok [simp]: "idx_ok log_kv (sample_index t)"
  by (auto simp: idx_ok_def sample_index_def log_kv_def encodeSpanLocation_def)

lemma sample_db [simp]: "db_ok sample_Log log_kv (sample_db t)" "ix_tape (db_index (sample_db t)) = t"
  "db_segs (sample_db t) = sample_segs" "db_index (sample_db t) = sample_index t"
  "manifest_ids (db_manifest (sample_db t)) (db_meta (sample_db t)) = Inr [1]" "fs_tape (db_meta (sample_db t)) = []"
  using sample_segs(2)
  by (auto simp: db_ok_def entries_ok_def entry_ok_def sample_db_def sample_index_map sample_entries manifest_ids_def
      manifest_decode_encode sample_loc_def intro!: exI [of _ "[sample_span]"] split: if_splits)
     (simp add: sample_index_def)

lemma sample_view: "view log_kv (sample_db t) k = (if k = span_key sample_span then Some sample_span else None)"
proof -
  have "\<not> Deleted sample_span" by (simp add: sample_span_def zero_span_def)
  then show ?thesis
    using view_entry [of log_kv "sample_index t" k sample_loc sample_Log sample_segs "[sample_span]" sample_span]
    by (auto simp: view_def view_at_def sample_index_map sample_entries sample_loc_def)
qed

lemma sample_ready [simp]: "compact_ready sample_Log [1] 2 (sample_db t)"
  by (auto simp: compact_ready_def total_spans_def spans_of_holds [OF sample_segs(2)] intro: sample_segs(2))

end
