(* ===== verification/Engine.thy ===== *)
theory Engine
  imports Wal_Log Rollup Compactor
begin

text \<open>
  The storage engine, the write side of \<^verbatim>\<open>internal/engine/engine.go\<close>: insertion through the
  log, the ingest channel and the session buffer, the segment flush with its reclamation of the
  log, the maintenance calls and shutdown. The clock is the argument \<open>now\<close>, read once per
  operation; the iteration order of a Go map is the order of an association list.
\<close>

section \<open>State\<close>

record engine_config =
  cf_WALPath :: string
  cf_WALMaxSegmentSize :: u64
  cf_PebblePath :: string
  cf_SegmentDir :: string
  cf_CheckpointPath :: string
  cf_ManifestPath :: string
  cf_SegmentFlushThreshold :: int
  cf_CompactionSegmentThreshold :: int
  cf_RollupSnapshotInterval :: i64
  cf_CompactionInterval :: i64
  cf_RetentionPeriod :: i64
  cf_SessionTimeout :: i64
  cf_SegmentCacheSize :: int

record pending_span =
  ps_span :: span_payload
  ps_walSeg :: u64

record trace_state =
  ts_spans :: "pending_span list"
  ts_lastSeen :: i64

text \<open>
  \<open>en_chan\<close> is the ingest channel with the producers that wait for room in it behind its
  capacity; \<open>en_checkpoint\<close> is the path of the checkpoint beside the manifest.
\<close>

record 'k engine =
  en_config :: engine_config
  en_wal :: wal
  en_db :: "'k db"
  en_checkpoint :: string
  en_rollups :: rollup_manager
  en_chan :: "pending_span list"
  en_sessions :: "(string \<times> trace_state) list"
  en_count :: int
  en_next :: u64
  en_recovering :: bool
  en_pending :: "(u64 \<times> int) list"
  en_closed :: bool

datatype engine_error =
  EngWal wal_error
| EngSegment seg_error
| EngIndex index_error
| EngManifest manifest_error
| EngCheckpoint checkpoint_error
| EngRollup rollup_error
| EngMissingSegment u64
| EngDirScan
| EngClosed
| EngEmptyId
| EngCursor
| EngCardinality nat
| EngPanic

text \<open>Running an operation of a part on the engine.\<close>

definition on_wal :: "(wal \<Rightarrow> (wal_error + 'a) \<times> wal) \<Rightarrow> 'k engine \<Rightarrow> (engine_error + 'a) \<times> 'k engine" where
  "on_wal f e = (case f (en_wal e) of (r, w) \<Rightarrow> (map_sum EngWal id r, e\<lparr>en_wal := w\<rparr>))"

definition on_index ::
    "('k index \<Rightarrow> (index_error + 'a) \<times> 'k index) \<Rightarrow> 'k engine \<Rightarrow> (engine_error + 'a) \<times> 'k engine" where
  "on_index f e =
     (case f (db_index (en_db e)) of (r, ix) \<Rightarrow> (map_sum EngIndex id r, e\<lparr>en_db := (en_db e)\<lparr>db_index := ix\<rparr>\<rparr>))"

definition on_segs ::
    "('x \<Rightarrow> engine_error) \<Rightarrow> (file_store \<Rightarrow> ('x + 'a) \<times> file_store) \<Rightarrow> 'k engine \<Rightarrow> (engine_error + 'a) \<times> 'k engine" where
  "on_segs err f e =
     (case f (db_segs (en_db e)) of (r, st) \<Rightarrow> (map_sum err id r, e\<lparr>en_db := (en_db e)\<lparr>db_segs := st\<rparr>\<rparr>))"

definition on_meta ::
    "('x \<Rightarrow> engine_error) \<Rightarrow> (file_store \<Rightarrow> ('x + 'a) \<times> file_store) \<Rightarrow> 'k engine \<Rightarrow> (engine_error + 'a) \<times> 'k engine" where
  "on_meta err f e =
     (case f (db_meta (en_db e)) of (r, st) \<Rightarrow> (map_sum err id r, e\<lparr>en_db := (en_db e)\<lparr>db_meta := st\<rparr>\<rparr>))"

abbreviation ps_key :: "pending_span \<Rightarrow> string" where
  "ps_key ps \<equiv> CompositeKey (TraceID (ps_span ps)) (SpanID (ps_span ps))"

section \<open>Insertion\<close>

text \<open>A Go map read of an absent key is 0.\<close>

definition pending_count :: "(u64 \<times> int) list \<Rightarrow> u64 \<Rightarrow> int" where
  "pending_count m i = (case map_of m i of None \<Rightarrow> 0 | Some n \<Rightarrow> n)"

definition appendTracked :: "span_payload \<Rightarrow> 'k engine \<Rightarrow> (engine_error + u64) \<times> 'k engine" where
  "appendTracked span e =
     rbind (on_wal (AppendRecordWithSeg \<lparr>Version = 0, Span = span\<rparr>) e) (\<lambda>i e.
       (Inr i, e\<lparr>en_pending := AList.update i (pending_count (en_pending e) i + 1) (en_pending e)\<rparr>))"

definition chan_capacity :: nat where "chan_capacity = 10000"

text \<open>
  \<open>pick\<close> is the choice of the \<^verbatim>\<open>select\<close> between a ready channel and a cancelled context.
\<close>

definition InsertSpan :: "bool \<Rightarrow> span_payload \<Rightarrow> 'k engine \<Rightarrow> (engine_error + unit) \<times> 'k engine" where
  "InsertSpan pick span e =
     rbind (appendTracked span e) (\<lambda>i e.
       if en_closed e \<and> (pick \<or> chan_capacity \<le> length (en_chan e)) then (Inl EngClosed, e)
       else (Inr (), e\<lparr>en_chan := en_chan e @ [\<lparr>ps_span = span, ps_walSeg = i\<rparr>]\<rparr>))"

definition tombstone :: "string \<Rightarrow> string \<Rightarrow> span_payload" where
  "tombstone traceID spanID = zero_span\<lparr>TraceID := traceID, SpanID := spanID, Deleted := True\<rparr>"

definition DeleteSpan :: "bool \<Rightarrow> string \<Rightarrow> string \<Rightarrow> 'k engine \<Rightarrow> (engine_error + unit) \<times> 'k engine" where
  "DeleteSpan pick traceID spanID e =
     (if traceID = [] \<or> spanID = [] then (Inl EngEmptyId, e)
      else InsertSpan pick (tombstone traceID spanID) e)"

section \<open>Rollup snapshots\<close>

definition evict_all :: "i64 \<Rightarrow> rollup_manager \<Rightarrow> rollup_manager" where
  "evict_all cutoff m =
     \<lparr>Minute = snd (store_Evict cutoff (Minute m)), FiveMin = snd (store_Evict cutoff (FiveMin m)),
      Hour = snd (store_Evict cutoff (Hour m)), Day = snd (store_Evict cutoff (Day m))\<rparr>"

fun flush_windows :: "(string \<times> i64 \<times> rollup_store) list \<Rightarrow> file_store \<Rightarrow> (rollup_error + unit) \<times> file_store" where
  "flush_windows [] st = (Inr (), st)"
| "flush_windows ((name, wsize, store) # ws) st =
     rbind (if GetAllBuckets store = [] then (Inr (), st) else rollup_Flush name wsize (GetAllBuckets store) st)
       (\<lambda>_ st. flush_windows ws st)"

definition manager_windows :: "rollup_manager \<Rightarrow> (string \<times> i64 \<times> rollup_store) list" where
  "manager_windows m =
     [(WindowMinute, WindowSizeMinute, Minute m), (WindowFiveMin, WindowSizeFiveMin, FiveMin m),
      (WindowHour, WindowSizeHour, Hour m), (WindowDay, WindowSizeDay, Day m)]"

definition flushRollups :: "i64 \<Rightarrow> 'k engine \<Rightarrow> (engine_error + unit) \<times> 'k engine" where
  "flushRollups now e =
     (let e = e\<lparr>en_rollups := evict_all (now - cf_RetentionPeriod (en_config e)) (en_rollups e)\<rparr>
      in on_segs EngRollup (flush_windows (manager_windows (en_rollups e))) e)"

section \<open>Reclaiming the log\<close>

definition release_one :: "pending_span \<Rightarrow> (u64 \<times> int) list \<Rightarrow> (u64 \<times> int) list" where
  "release_one ps m =
     (let i = ps_walSeg ps in
      if i = 0 then m
      else if pending_count m i \<le> 1 then AList.delete i m
      else AList.update i (pending_count m i - 1) m)"

text \<open>The lowest id with a pending record, by the loop over the map.\<close>

definition lowest_pending :: "(u64 \<times> int) list \<Rightarrow> u64 option" where
  "lowest_pending m =
     fold (\<lambda>(i, n) low. case low of None \<Rightarrow> Some i | Some l \<Rightarrow> if i < l then Some i else Some l) m None"

definition reclaim_bound :: "(u64 \<times> int) list \<Rightarrow> u64 \<Rightarrow> u64 option" where
  "reclaim_bound m active =
     (case lowest_pending m of
        Some l \<Rightarrow> Some (l - 1)
      | None \<Rightarrow> if active \<le> 1 then None else Some (active - 1))"

text \<open>The part under the lock, and the removal after it.\<close>

definition release_batch :: "pending_span list \<Rightarrow> 'k engine \<Rightarrow> u64 option \<times> 'k engine" where
  "release_batch batch e =
     (let m = fold release_one batch (en_pending e)
      in (reclaim_bound m (CurrentSegment (en_wal e)), e\<lparr>en_pending := m\<rparr>))"

definition reclaim :: "u64 option \<Rightarrow> 'k engine \<Rightarrow> (engine_error + unit) \<times> 'k engine" where
  "reclaim bound e =
     (case bound of None \<Rightarrow> (Inr (), e) | Some b \<Rightarrow> on_wal (RemoveSegmentsUpTo b) e)"

definition releaseWALPending :: "pending_span list \<Rightarrow> 'k engine \<Rightarrow> (engine_error + unit) \<times> 'k engine" where
  "releaseWALPending batch e = (case release_batch batch e of (bound, e) \<Rightarrow> reclaim bound e)"

section \<open>Maintenance\<close>

definition maybeCompactLocked :: "(f64 \<Rightarrow> f64) \<Rightarrow> 'k kv \<Rightarrow> 'k engine \<Rightarrow> 'k engine" where
  "maybeCompactLocked Log K e =
     (case on_meta EngManifest (manifest_Load (db_manifest (en_db e))) e of
        (Inl _, e) \<Rightarrow> e
      | (Inr live, e) \<Rightarrow>
          if int (length live) \<le> cf_CompactionSegmentThreshold (en_config e) then e
          else
            let mergeCount = length live div 2 in
            if mergeCount < 2 then e
            else
              let toMerge = take mergeCount (sort live); newID = en_next e; e = e\<lparr>en_next := en_next e + 1\<rparr> in
              if en_recovering e then e
              else e\<lparr>en_db := snd (Compact Log K toMerge newID (en_db e))\<rparr>)"

definition maybeExpireLocked :: "'k kv \<Rightarrow> i64 \<Rightarrow> 'k engine \<Rightarrow> 'k engine" where
  "maybeExpireLocked K now e =
     (case on_meta EngManifest (manifest_Load (db_manifest (en_db e))) e of
        (Inl _, e) \<Rightarrow> e
      | (Inr live, e) \<Rightarrow>
          if live = [] then e
          else e\<lparr>en_db := snd (Expire K live (now - cf_RetentionPeriod (en_config e)) (en_db e))\<rparr>)"

section \<open>Flushing a batch\<close>

text \<open>
  The collapse to the last write of each key, in the order of first appearance: updating an
  association list keeps the place of a key and replaces its value.
\<close>

definition dedupe :: "pending_span list \<Rightarrow> pending_span list" where
  "dedupe spans = map snd (fold (\<lambda>ps. AList.update (ps_key ps) ps) spans [])"

definition live_spans :: "pending_span list \<Rightarrow> span_payload list" where
  "live_spans deduped = filter (\<lambda>s. \<not> Deleted s) (map ps_span deduped)"

definition tombstone_keys :: "pending_span list \<Rightarrow> string list" where
  "tombstone_keys deduped = map ps_key (filter (\<lambda>ps. Deleted (ps_span ps)) deduped)"

definition index_entries :: "write_result \<Rightarrow> span_payload list \<Rightarrow> (string \<times> span_location) list" where
  "index_entries r live =
     fold (\<lambda>s m. let key = CompositeKey (TraceID s) (SpanID s) in
            case map_of (wr_Offsets r) key of
              None \<Rightarrow> m
            | Some offset \<Rightarrow> AList.update key \<lparr>loc_SegmentID = wr_SegmentID r, loc_Offset = offset\<rparr> m)
       live []"

text \<open>
  Everything between the rotation of the log and the release of the batch. The answer says
  whether a segment was written.
\<close>

definition commit_batch ::
    "(f64 \<Rightarrow> f64) \<Rightarrow> 'k kv \<Rightarrow> i64 \<Rightarrow> pending_span list \<Rightarrow> 'k engine \<Rightarrow> (engine_error + bool) \<times> 'k engine" where
  "commit_batch Log K now spans e =
     (let deduped = dedupe spans; live = live_spans deduped; tombs = tombstone_keys deduped in
      if live = [] then
        rbind (on_index (idx_BatchApplySpans K [] tombs) e) (\<lambda>_ e.
        rbind (flushRollups now e) (\<lambda>_ e. (Inr False, e)))
      else
        rbind (on_segs EngSegment (seg_Flush Log (en_next e) live) e) (\<lambda>result e.
        rbind (on_index (idx_BatchApplySpans K (index_entries result live) tombs) e) (\<lambda>_ e.
        rbind (on_meta EngManifest (manifest_AddSegment (db_manifest (en_db e)) (wr_SegmentID result)) e) (\<lambda>_ e.
        rbind (on_meta EngCheckpoint (checkpoint_Save (en_checkpoint e) (wr_SegmentID result)) e) (\<lambda>_ e.
        rbind (flushRollups now e) (\<lambda>_ e. (Inr True, e)))))))"

definition writeSegmentBatch ::
    "(f64 \<Rightarrow> f64) \<Rightarrow> 'k kv \<Rightarrow> i64 \<Rightarrow> pending_span list \<Rightarrow> 'k engine \<Rightarrow> (engine_error + unit) \<times> 'k engine" where
  "writeSegmentBatch Log K now spans e =
     rbind (on_wal Rotate e) (\<lambda>_ e.
     rbind (commit_batch Log K now spans e) (\<lambda>wrote e.
     rbind (releaseWALPending spans e) (\<lambda>_ e.
       (Inr (), if wrote then maybeCompactLocked Log K (e\<lparr>en_next := en_next e + 1\<rparr>) else e))))"

text \<open>Taking spans out of the session buffer, under its lock, and writing them after it.\<close>

definition take_all :: "'k engine \<Rightarrow> pending_span list \<times> 'k engine" where
  "take_all e = (concat (map (\<lambda>(_, st). ts_spans st) (en_sessions e)), e\<lparr>en_sessions := [], en_count := 0\<rparr>)"

definition session_expired :: "i64 \<Rightarrow> 'k engine \<Rightarrow> trace_state \<Rightarrow> bool" where
  "session_expired now e st \<longleftrightarrow> cf_SessionTimeout (en_config e) <s now - ts_lastSeen st"

definition take_expired :: "i64 \<Rightarrow> 'k engine \<Rightarrow> pending_span list \<times> 'k engine" where
  "take_expired now e =
     (let out = filter (\<lambda>(_, st). session_expired now e st) (en_sessions e);
          spans = concat (map (\<lambda>(_, st). ts_spans st) out)
      in (spans, e\<lparr>en_sessions := filter (\<lambda>(_, st). \<not> session_expired now e st) (en_sessions e),
                   en_count := en_count e - int (length spans)\<rparr>))"

definition flushAllSessions ::
    "(f64 \<Rightarrow> f64) \<Rightarrow> 'k kv \<Rightarrow> i64 \<Rightarrow> 'k engine \<Rightarrow> (engine_error + unit) \<times> 'k engine" where
  "flushAllSessions Log K now e =
     (case take_all e of (spans, e) \<Rightarrow>
        if spans = [] then (Inr (), e) else writeSegmentBatch Log K now spans e)"

definition flushExpiredSessions :: "(f64 \<Rightarrow> f64) \<Rightarrow> 'k kv \<Rightarrow> i64 \<Rightarrow> 'k engine \<Rightarrow> 'k engine" where
  "flushExpiredSessions Log K now e =
     (case take_expired now e of (spans, e) \<Rightarrow>
        if spans = [] then e else snd (writeSegmentBatch Log K now spans e))"

section \<open>The ingest loop\<close>

definition sample_of :: "span_payload \<Rightarrow> sample" where
  "sample_of span =
     \<lparr>sm_timestamp = Timestamp span, sm_model = Model span, sm_cost = ScaleCost (Cost span),
      sm_tokensIn = scast (TokensIn span), sm_tokensOut = scast (TokensOut span), sm_latencyMs = LatencyMs span\<rparr>"

definition bucket_add :: "i64 \<Rightarrow> pending_span \<Rightarrow> (string \<times> trace_state) list \<Rightarrow> (string \<times> trace_state) list" where
  "bucket_add now ps sessions =
     (let traceID = TraceID (ps_span ps);
          old = (case map_of sessions traceID of None \<Rightarrow> [] | Some st \<Rightarrow> ts_spans st)
      in AList.update traceID \<lparr>ts_spans = old @ [ps], ts_lastSeen = now\<rparr> sessions)"

definition buffer_span :: "i64 \<Rightarrow> pending_span \<Rightarrow> 'k engine \<Rightarrow> 'k engine" where
  "buffer_span now ps e =
     (let span = ps_span ps;
          e = (if Deleted span then e else e\<lparr>en_rollups := manager_Add (sample_of span) (en_rollups e)\<rparr>)
      in e\<lparr>en_sessions := bucket_add now ps (en_sessions e), en_count := en_count e + 1\<rparr>)"

definition processSpan :: "(f64 \<Rightarrow> f64) \<Rightarrow> 'k kv \<Rightarrow> i64 \<Rightarrow> pending_span \<Rightarrow> 'k engine \<Rightarrow> 'k engine" where
  "processSpan Log K now ps e =
     (let e = buffer_span now ps e in
      if cf_SegmentFlushThreshold (en_config e) \<le> en_count e \<and> \<not> en_recovering e
      then snd (flushAllSessions Log K now e) else e)"

text \<open>One turn of the ingest loop, and all turns until the channel is empty (\<^verbatim>\<open>WaitForIngest\<close>).\<close>

definition ingest_one :: "(f64 \<Rightarrow> f64) \<Rightarrow> 'k kv \<Rightarrow> i64 \<Rightarrow> 'k engine \<Rightarrow> 'k engine" where
  "ingest_one Log K now e =
     (case en_chan e of [] \<Rightarrow> e | ps # rest \<Rightarrow> processSpan Log K now ps (e\<lparr>en_chan := rest\<rparr>))"

fun drain :: "(f64 \<Rightarrow> f64) \<Rightarrow> 'k kv \<Rightarrow> i64 \<Rightarrow> nat \<Rightarrow> 'k engine \<Rightarrow> 'k engine" where
  "drain Log K now 0 e = e"
| "drain Log K now (Suc n) e = drain Log K now n (ingest_one Log K now e)"

definition WaitForIngest :: "(f64 \<Rightarrow> f64) \<Rightarrow> 'k kv \<Rightarrow> i64 \<Rightarrow> 'k engine \<Rightarrow> 'k engine" where
  "WaitForIngest Log K now e = drain Log K now (length (en_chan e)) e"

definition engine_Flush :: "(f64 \<Rightarrow> f64) \<Rightarrow> 'k kv \<Rightarrow> i64 \<Rightarrow> 'k engine \<Rightarrow> (engine_error + unit) \<times> 'k engine" where
  "engine_Flush Log K now e = flushAllSessions Log K now (WaitForIngest Log K now e)"

definition LiveSegments :: "'k engine \<Rightarrow> (engine_error + u64 list) \<times> 'k engine" where
  "LiveSegments e = on_meta EngManifest (manifest_Load (db_manifest (en_db e))) e"

section \<open>Shutdown\<close>

text \<open>
  \<^verbatim>\<open>Close\<close> stops the loops, so what is left in the channel is not processed, and goes on after
  an error; the answer is the list of errors. Closing the reader cache closes idle readers, which
  changes no file but may fail.
\<close>

definition close_cache :: "'k engine \<Rightarrow> (engine_error + unit) \<times> 'k engine" where
  "close_cache e =
     (if \<not> db_purger (en_db e) then (Inr (), e)
      else on_segs EngSegment (\<lambda>segs. case fs_fault segs of (Some _, segs) \<Rightarrow> (Inl SegIO, segs) | (None, segs) \<Rightarrow> (Inr (), segs)) e)"

definition error_list :: "'e + 'a \<Rightarrow> 'e list" where
  "error_list r = (case r of Inl x \<Rightarrow> [x] | Inr _ \<Rightarrow> [])"

definition close_storage :: "'k engine \<Rightarrow> engine_error list \<times> 'k engine" where
  "close_storage e =
     (case on_wal wal_Close e of (r1, e) \<Rightarrow>
      case on_index idx_Close e of (r2, e) \<Rightarrow>
      case close_cache e of (r3, e) \<Rightarrow>
        (error_list r1 @ error_list r2 @ error_list r3, e))"

definition engine_Close :: "(f64 \<Rightarrow> f64) \<Rightarrow> 'k kv \<Rightarrow> i64 \<Rightarrow> 'k engine \<Rightarrow> engine_error list \<times> 'k engine" where
  "engine_Close Log K now e =
     (case flushAllSessions Log K now (e\<lparr>en_closed := True\<rparr>) of (r1, e) \<Rightarrow>
      case flushRollups now e of (r2, e) \<Rightarrow>
      case close_storage e of (errs, e) \<Rightarrow>
        (error_list r1 @ error_list r2 @ errs, e))"

definition CloseWithoutFlush :: "'k engine \<Rightarrow> engine_error list \<times> 'k engine" where
  "CloseWithoutFlush e = close_storage (e\<lparr>en_closed := True\<rparr>)"

end
