(* ===== verification/Engine_Query.thy ===== *)
theory Engine_Query
  imports Engine
begin

text \<open>
  The read side of \<^verbatim>\<open>internal/engine/engine.go\<close>: point and trace lookups, range queries with
  their pruning, pagination, and the aggregations over a range. Segments are opened directly,
  as the engine does with the reader cache disabled.
\<close>

section \<open>Lookups\<close>

text \<open>
  The answer of the session buffer: \<open>None\<close> when it has nothing for the key, \<open>Some None\<close> when its
  last write is a tombstone.
\<close>

definition bufferedSpan :: "string \<Rightarrow> string \<Rightarrow> 'k engine \<Rightarrow> span_payload option option" where
  "bufferedSpan traceID spanID e =
     (case map_of (en_sessions e) traceID of
        None \<Rightarrow> None
      | Some st \<Rightarrow>
          (case find (\<lambda>ps. SpanID (ps_span ps) = spanID) (rev (ts_spans st)) of
             None \<Rightarrow> None
           | Some ps \<Rightarrow> Some (if Deleted (ps_span ps) then None else Some (ps_span ps))))"

text \<open>The last write of every buffered key, in the order the keys first appear.\<close>

definition bufferedSpansByKey :: "string \<Rightarrow> 'k engine \<Rightarrow> (string \<times> span_payload) list" where
  "bufferedSpansByKey traceID e =
     fold (\<lambda>ps. AList.update (ps_key ps) (ps_span ps))
       (concat (map (\<lambda>(i, st). ts_spans st)
          (filter (\<lambda>(i, st). traceID = [] \<or> i = traceID) (en_sessions e)))) []"

definition acquireSegment :: "u64 \<Rightarrow> file_store \<Rightarrow> (seg_error + seg_reader) \<times> file_store" where
  "acquireSegment i segs = OpenReaderLight i segs"

definition GetSpan ::
    "'k kv \<Rightarrow> string \<Rightarrow> string \<Rightarrow> 'k engine \<Rightarrow> (engine_error + span_payload option) \<times> 'k engine" where
  "GetSpan K traceID spanID e =
     (case bufferedSpan traceID spanID e of
        Some s \<Rightarrow> (Inr s, e)
      | None \<Rightarrow>
          (case on_index (idx_GetSpan K (CompositeKey traceID spanID)) e of
             (Inl (EngIndex IndexNotFound), e) \<Rightarrow> (Inr None, e)
           | (Inl x, e) \<Rightarrow> (Inl x, e)
           | (Inr loc, e) \<Rightarrow>
               rbind (on_segs EngSegment (acquireSegment (loc_SegmentID loc)) e) (\<lambda>reader e.
                 case rd_ReadAt reader (loc_Offset loc) of
                   Inl x \<Rightarrow> (Inl (EngSegment x), e)
                 | Inr span \<Rightarrow> (Inr (if Deleted span then None else Some span), e))))"

text \<open>The loop over the locations of a trace, with the readers opened so far.\<close>

fun read_locations ::
    "(string \<times> span_payload) list \<Rightarrow> span_location list \<Rightarrow> (u64 \<times> seg_reader) list \<Rightarrow> file_store \<Rightarrow>
       (seg_error + span_payload list) \<times> file_store" where
  "read_locations buffered [] readers segs = (Inr [], segs)"
| "read_locations buffered (loc # locs) readers segs =
     rbind (case map_of readers (loc_SegmentID loc) of
              Some r \<Rightarrow> (Inr r, segs)
            | None \<Rightarrow> acquireSegment (loc_SegmentID loc) segs) (\<lambda>r segs.
       case rd_ReadAt r (loc_Offset loc) of
         Inl x \<Rightarrow> (Inl x, segs)
       | Inr span \<Rightarrow>
           rbind (read_locations buffered locs (AList.update (loc_SegmentID loc) r readers) segs) (\<lambda>spans segs.
             (Inr (if map_of buffered (CompositeKey (TraceID span) (SpanID span)) \<noteq> None \<or> Deleted span
                   then spans else span # spans), segs)))"

text \<open>An empty result is "not found".\<close>

definition GetTrace :: "'k kv \<Rightarrow> string \<Rightarrow> 'k engine \<Rightarrow> (engine_error + span_payload list) \<times> 'k engine" where
  "GetTrace K traceID e =
     (let buffered = bufferedSpansByKey traceID e in
      rbind (on_index (idx_PrefixScan K (CompositeKey traceID [])) e) (\<lambda>locations e.
      rbind (on_segs EngSegment (read_locations buffered locations []) e) (\<lambda>spans e.
        (Inr (spans @ filter (\<lambda>s. \<not> Deleted s) (map snd buffered)), e))))"

fun delete_spans :: "bool \<Rightarrow> string \<Rightarrow> span_payload list \<Rightarrow> 'k engine \<Rightarrow> (engine_error + unit) \<times> 'k engine" where
  "delete_spans pick traceID [] e = (Inr (), e)"
| "delete_spans pick traceID (s # spans) e =
     rbind (InsertSpan pick (tombstone traceID (SpanID s)) e) (\<lambda>_ e. delete_spans pick traceID spans e)"

definition DeleteTrace ::
    "(f64 \<Rightarrow> f64) \<Rightarrow> 'k kv \<Rightarrow> i64 \<Rightarrow> bool \<Rightarrow> string \<Rightarrow> 'k engine \<Rightarrow> (engine_error + unit) \<times> 'k engine" where
  "DeleteTrace Log K now pick traceID e =
     (if traceID = [] then (Inl EngEmptyId, e)
      else rbind (GetTrace K traceID (WaitForIngest Log K now e)) (\<lambda>spans e. delete_spans pick traceID spans e))"

section \<open>Range queries\<close>

record range_filter =
  rf_StartTS :: i64
  rf_EndTS :: i64
  rf_AgentID :: string
  rf_Model :: string
  rf_ToolName :: string
  rf_Team :: string
  rf_Status :: string

definition filter_matches :: "range_filter \<Rightarrow> span_payload \<Rightarrow> bool" where
  "filter_matches f s \<longleftrightarrow>
     \<not> (Timestamp s <s rf_StartTS f \<or> rf_EndTS f <s Timestamp s)
     \<and> \<not> (rf_AgentID f \<noteq> [] \<and> AgentID s \<noteq> rf_AgentID f)
     \<and> \<not> (rf_Model f \<noteq> [] \<and> Model s \<noteq> rf_Model f)
     \<and> \<not> (rf_ToolName f \<noteq> [] \<and> ToolName s \<noteq> rf_ToolName f)
     \<and> \<not> (rf_Team f \<noteq> [] \<and> Team s \<noteq> rf_Team f)
     \<and> \<not> (rf_Status f \<noteq> [] \<and> Status s \<noteq> rf_Status f)"

fun check_blooms :: "(string \<times> string) list \<Rightarrow> (string \<times> bloom) list \<Rightarrow> bool option" where
  "check_blooms [] blooms = Some True"
| "check_blooms ((dim, val) # checks) blooms =
     (if val = [] then check_blooms checks blooms
      else case map_of blooms dim of
             None \<Rightarrow> check_blooms checks blooms
           | Some f \<Rightarrow>
               (case bloom_MayContain val f of
                  None \<Rightarrow> None
                | Some False \<Rightarrow> Some False
                | Some True \<Rightarrow> check_blooms checks blooms))"

definition mayMatchBlooms :: "range_filter \<Rightarrow> (string \<times> bloom) list \<Rightarrow> bool option" where
  "mayMatchBlooms f blooms =
     check_blooms [(''agent_id'', rf_AgentID f), (''model'', rf_Model f), (''tool_name'', rf_ToolName f),
       (''team'', rf_Team f), (''status'', rf_Status f)] blooms"

text \<open>The callback of the scan: its variables are the index (for its failures) and the results.\<close>

definition range_visit ::
    "'k kv \<Rightarrow> range_filter \<Rightarrow> (string \<times> span_payload) list \<Rightarrow> u64 \<Rightarrow> u64 \<Rightarrow> span_payload \<Rightarrow>
       'k index \<times> span_payload list \<Rightarrow> bool \<times> 'k index \<times> span_payload list" where
  "range_visit K f buffered i offset s st =
     (let (ix, results) = st; key = CompositeKey (TraceID s) (SpanID s) in
      if Deleted s then (True, st)
      else if map_of buffered key \<noteq> None then (True, st)
      else if \<not> filter_matches f s then (True, st)
      else case idx_GetSpan K key ix of (res, ix) \<Rightarrow>
             if is_current res i offset then (True, ix, results @ [s]) else (True, ix, results))"

definition range_segment ::
    "'k kv \<Rightarrow> range_filter \<Rightarrow> (string \<times> span_payload) list \<Rightarrow> u64 \<Rightarrow> span_payload list \<Rightarrow> 'k engine \<Rightarrow>
       (engine_error + span_payload list) \<times> 'k engine" where
  "range_segment K f buffered i results e =
     rbind (on_segs EngSegment (OpenReader i) e) (\<lambda>r e.
       if hd_MaxTimestamp (rd_Header r) <s rf_StartTS f \<or> rf_EndTS f <s hd_MinTimestamp (rd_Header r)
       then (Inr results, e)
       else case mayMatchBlooms f (case rd_Blooms r of None \<Rightarrow> [] | Some bs \<Rightarrow> bs) of
         None \<Rightarrow> (Inl EngPanic, e)
       | Some False \<Rightarrow> (Inr results, e)
       | Some True \<Rightarrow>
           rbind (on_segs EngSegment (\<lambda>st. case fs_fault st of (Some _, st) \<Rightarrow> (Inl SegIO, st) | (None, st) \<Rightarrow> (Inr (), st)) e)
             (\<lambda>_ e. case rd_ScanAllFunc (range_visit K f buffered i) r (db_index (en_db e), results) of
                (res, ix, results) \<Rightarrow>
                  let e = e\<lparr>en_db := (en_db e)\<lparr>db_index := ix\<rparr>\<rparr> in
                  (case res of Inl x \<Rightarrow> (Inl (EngSegment x), e) | Inr _ \<Rightarrow> (Inr results, e))))"

fun range_segments ::
    "'k kv \<Rightarrow> range_filter \<Rightarrow> (string \<times> span_payload) list \<Rightarrow> u64 list \<Rightarrow> span_payload list \<Rightarrow> 'k engine \<Rightarrow>
       (engine_error + span_payload list) \<times> 'k engine" where
  "range_segments K f buffered [] results e = (Inr results, e)"
| "range_segments K f buffered (i # ids) results e =
     rbind (range_segment K f buffered i results e) (\<lambda>results e. range_segments K f buffered ids results e)"

definition RangeQuery :: "'k kv \<Rightarrow> range_filter \<Rightarrow> 'k engine \<Rightarrow> (engine_error + span_payload list) \<times> 'k engine" where
  "RangeQuery K f e =
     rbind (on_meta EngManifest (manifest_Load (db_manifest (en_db e))) e) (\<lambda>live e.
       let buffered = bufferedSpansByKey [] e in
       rbind (range_segments K f buffered live [] e) (\<lambda>results e.
         (Inr (results @ filter (\<lambda>s. \<not> (Deleted s \<or> \<not> filter_matches f s)) (map snd buffered)), e)))"

definition any_filter :: "i64 \<Rightarrow> i64 \<Rightarrow> range_filter" where
  "any_filter startTS endTS = \<lparr>rf_StartTS = startTS, rf_EndTS = endTS, rf_AgentID = [], rf_Model = [],
     rf_ToolName = [], rf_Team = [], rf_Status = []\<rparr>"

fun distinct_traces :: "int \<Rightarrow> span_payload list \<Rightarrow> string list \<Rightarrow> string list" where
  "distinct_traces limit [] acc = acc"
| "distinct_traces limit (s # spans) acc =
     (if TraceID s \<in> set acc then distinct_traces limit spans acc
      else let acc = acc @ [TraceID s] in
        if 0 < limit \<and> limit \<le> int (length acc) then acc else distinct_traces limit spans acc)"

definition ListTraces ::
    "'k kv \<Rightarrow> range_filter \<Rightarrow> int \<Rightarrow> 'k engine \<Rightarrow> (engine_error + string list) \<times> 'k engine" where
  "ListTraces K f limit e = rbind (RangeQuery K f e) (\<lambda>spans e. (Inr (distinct_traces limit spans []), e))"

section \<open>Pagination\<close>

text \<open>\<^verbatim>\<open>strconv.Atoi\<close>: an optional sign and decimal digits, in the range of \<^verbatim>\<open>int\<close>.\<close>

definition go_Atoi :: "string \<Rightarrow> i64 option" where
  "go_Atoi s =
     (let neg = (s \<noteq> [] \<and> hd s = CHR ''-''); digits = (if s \<noteq> [] \<and> hd s \<in> {CHR ''-'', CHR ''+''} then tl s else s)
      in if digits = [] then None
         else case parse_digits digits 0 of
                None \<Rightarrow> None
              | Some n \<Rightarrow>
                  if neg then if n \<le> 2 ^ 63 then Some (- word_of_nat n) else None
                  else if n < 2 ^ 63 then Some (word_of_nat n) else None)"

text \<open>The page of a result list; \<open>offset + pageSize\<close> is a 64-bit addition.\<close>

definition cursor_page :: "span_payload list \<Rightarrow> i64 \<Rightarrow> string \<Rightarrow> engine_error + span_payload list \<times> string" where
  "cursor_page spans pageSize cursor =
     (case (if cursor = [] then Some 0 else go_Atoi cursor) of
        None \<Rightarrow> Inl EngCursor
      | Some parsed \<Rightarrow>
          let offset = (if 0 <s parsed then parsed else 0); n = word_of_nat (length spans) in
          if n \<le>s offset \<or> pageSize \<le>s 0 then Inr ([], [])
          else
            let stop = offset + pageSize;
                nextCursor = (if stop <s n then decimal (nat (sint stop)) else []);
                stop = (if stop <s n then stop else n)
            in if stop <s offset then Inl EngPanic
               else Inr (take (unat (stop - offset)) (drop (unat offset) spans), nextCursor))"

definition QueryWithCursor ::
    "'k kv \<Rightarrow> range_filter \<Rightarrow> i64 \<Rightarrow> string \<Rightarrow> 'k engine \<Rightarrow> (engine_error + span_payload list \<times> string) \<times> 'k engine" where
  "QueryWithCursor K f pageSize cursor e =
     rbind (RangeQuery K f e) (\<lambda>spans e. (cursor_page spans pageSize cursor, e))"

definition QueryByModel where
  "QueryByModel K m startTS endTS e = RangeQuery K ((any_filter startTS endTS)\<lparr>rf_Model := m\<rparr>) e"

definition QueryByTeam where
  "QueryByTeam K t startTS endTS e = RangeQuery K ((any_filter startTS endTS)\<lparr>rf_Team := t\<rparr>) e"

definition QueryByStatus where
  "QueryByStatus K s startTS endTS e = RangeQuery K ((any_filter startTS endTS)\<lparr>rf_Status := s\<rparr>) e"

definition QueryByAgentID where
  "QueryByAgentID K a startTS endTS e = RangeQuery K ((any_filter startTS endTS)\<lparr>rf_AgentID := a\<rparr>) e"

definition QueryByToolName where
  "QueryByToolName K t startTS endTS e = RangeQuery K ((any_filter startTS endTS)\<lparr>rf_ToolName := t\<rparr>) e"

end
