(* ===== verification/Engine_Recover.thy ===== *)
theory Engine_Recover
  imports Engine_Query
begin

text \<open>
  Opening a store, \<^verbatim>\<open>CreateWispTraceWithConfig\<close> in \<^verbatim>\<open>internal/engine/engine.go\<close>: defaults, the
  next segment id from what is on disk, the rollup snapshots, the replay of the log and the
  reconciliation of the manifest with the index.
\<close>

section \<open>Configuration\<close>

definition second_ns :: i64 where "second_ns = 1000000000"

definition DefaultWispTraceConfig :: engine_config where
  "DefaultWispTraceConfig =
     \<lparr>cf_WALPath = ''wal.log'', cf_WALMaxSegmentSize = DefaultMaxSegmentSize, cf_PebblePath = ''wisp_lsm'',
      cf_SegmentDir = ''segments'', cf_CheckpointPath = ''checkpoint.dat'', cf_ManifestPath = ''manifest.dat'',
      cf_SegmentFlushThreshold = 1000, cf_CompactionSegmentThreshold = 10,
      cf_RollupSnapshotInterval = 5 * 60 * second_ns, cf_CompactionInterval = 10 * 60 * second_ns,
      cf_RetentionPeriod = 7 * 24 * 60 * 60 * second_ns, cf_SessionTimeout = 5 * second_ns,
      cf_SegmentCacheSize = 64\<rparr>"

definition or_default :: "'a \<Rightarrow> 'a \<Rightarrow> 'a \<Rightarrow> 'a" where
  "or_default zero d x = (if x = zero then d else x)"

definition config_defaults :: "engine_config \<Rightarrow> engine_config" where
  "config_defaults c =
     (let d = DefaultWispTraceConfig in
      \<lparr>cf_WALPath = or_default [] (cf_WALPath d) (cf_WALPath c),
       cf_WALMaxSegmentSize = or_default 0 (cf_WALMaxSegmentSize d) (cf_WALMaxSegmentSize c),
       cf_PebblePath = or_default [] (cf_PebblePath d) (cf_PebblePath c),
       cf_SegmentDir = or_default [] (cf_SegmentDir d) (cf_SegmentDir c),
       cf_CheckpointPath = or_default [] (cf_CheckpointPath d) (cf_CheckpointPath c),
       cf_ManifestPath = or_default [] (cf_ManifestPath d) (cf_ManifestPath c),
       cf_SegmentFlushThreshold = or_default 0 (cf_SegmentFlushThreshold d) (cf_SegmentFlushThreshold c),
       cf_CompactionSegmentThreshold = or_default 0 (cf_CompactionSegmentThreshold d) (cf_CompactionSegmentThreshold c),
       cf_RollupSnapshotInterval = or_default 0 (cf_RollupSnapshotInterval d) (cf_RollupSnapshotInterval c),
       cf_CompactionInterval = or_default 0 (cf_CompactionInterval d) (cf_CompactionInterval c),
       cf_RetentionPeriod = or_default 0 (cf_RetentionPeriod d) (cf_RetentionPeriod c),
       cf_SessionTimeout = or_default 0 (cf_SessionTimeout d) (cf_SessionTimeout c),
       cf_SegmentCacheSize = or_default 0 (cf_SegmentCacheSize d) (cf_SegmentCacheSize c)\<rparr>)"

section \<open>The next segment id\<close>

definition segment_file_id :: "string \<Rightarrow> u64 option" where
  "segment_file_id name =
     (if \<not> has_prefix name ''segment_'' \<or> \<not> has_suffix name ''.seg'' then None
      else parse_uint (trim_suffix (trim_prefix name ''segment_'') ''.seg''))"

definition max_id :: "u64 \<Rightarrow> u64 list \<Rightarrow> u64" where
  "max_id m ids = fold (\<lambda>i m. if m < i then i else m) ids m"

definition computeNextSegmentID :: "u64 \<Rightarrow> 'k engine \<Rightarrow> (engine_error + u64) \<times> 'k engine" where
  "computeNextSegmentID lastConfirmed e =
     (case on_meta EngManifest (manifest_Load (db_manifest (en_db e))) e of (live, e) \<Rightarrow>
        let maxID = (case live of Inl _ \<Rightarrow> lastConfirmed | Inr ids \<Rightarrow> max_id lastConfirmed ids) in
        (case fs_fault (db_segs (en_db e)) of
           (Some _, segs) \<Rightarrow> (Inl EngDirScan, e\<lparr>en_db := (en_db e)\<lparr>db_segs := segs\<rparr>\<rparr>)
         | (None, segs) \<Rightarrow>
             (Inr (max_id maxID (List.map_filter segment_file_id (map fst (fs_dir segs))) + 1),
              e\<lparr>en_db := (en_db e)\<lparr>db_segs := segs\<rparr>\<rparr>)))"

section \<open>Rollup snapshots\<close>

text \<open>A missing file keeps the empty store, any other error is returned.\<close>

definition load_window ::
    "string \<Rightarrow> i64 \<Rightarrow> (rollup_store \<Rightarrow> rollup_manager \<Rightarrow> rollup_manager) \<Rightarrow> 'k engine \<Rightarrow> (engine_error + unit) \<times> 'k engine" where
  "load_window name wsize dest e =
     (case on_segs EngRollup (ReadSnapshot (RollupPath name) wsize) e of
        (Inl (EngRollup RollupNotExist), e) \<Rightarrow> (Inr (), e)
      | (Inl x, e) \<Rightarrow> (Inl x, e)
      | (Inr store, e) \<Rightarrow> (Inr (), e\<lparr>en_rollups := dest store (en_rollups e)\<rparr>))"

definition loadRollupSnapshots :: "'k engine \<Rightarrow> (engine_error + unit) \<times> 'k engine" where
  "loadRollupSnapshots e =
     rbind (load_window WindowMinute WindowSizeMinute (\<lambda>s m. m\<lparr>Minute := s\<rparr>) e) (\<lambda>_ e.
     rbind (load_window WindowFiveMin WindowSizeFiveMin (\<lambda>s m. m\<lparr>FiveMin := s\<rparr>) e) (\<lambda>_ e.
     rbind (load_window WindowHour WindowSizeHour (\<lambda>s m. m\<lparr>Hour := s\<rparr>) e) (\<lambda>_ e.
       load_window WindowDay WindowSizeDay (\<lambda>s m. m\<lparr>Day := s\<rparr>) e)))"

section \<open>Replay\<close>

definition spansEqual :: "span_payload \<Rightarrow> span_payload \<Rightarrow> bool" where
  "spansEqual a b \<longleftrightarrow>
     TraceID a = TraceID b \<and> SpanID a = SpanID b \<and> ParentSpanID a = ParentSpanID b \<and> Timestamp a = Timestamp b
     \<and> AgentID a = AgentID b \<and> Model a = Model b \<and> ToolName a = ToolName b \<and> Team a = Team b \<and> Status a = Status b
     \<and> TokensIn a = TokensIn b \<and> TokensOut a = TokensOut b \<and> f64_eq (Cost a) (Cost b) \<and> LatencyMs a = LatencyMs b
     \<and> Deleted a = Deleted b \<and> Payload a = Payload b"

definition spanAlreadyIndexed :: "'k kv \<Rightarrow> span_payload \<Rightarrow> 'k engine \<Rightarrow> bool \<times> 'k engine" where
  "spanAlreadyIndexed K span e =
     (case on_index (idx_GetSpan K (CompositeKey (TraceID span) (SpanID span))) e of
        (Inl _, e) \<Rightarrow> (False, e)
      | (Inr loc, e) \<Rightarrow>
          (case on_segs EngSegment (acquireSegment (loc_SegmentID loc)) e of
             (Inl _, e) \<Rightarrow> (False, e)
           | (Inr reader, e) \<Rightarrow>
               (case rd_ReadAt reader (loc_Offset loc) of
                  Inl _ \<Rightarrow> (False, e)
                | Inr got \<Rightarrow> (spansEqual got span, e))))"

definition replay_record :: "(f64 \<Rightarrow> f64) \<Rightarrow> 'k kv \<Rightarrow> i64 \<Rightarrow> wal_record \<Rightarrow> 'k engine \<Rightarrow> 'k engine" where
  "replay_record Log K now r e =
     (case spanAlreadyIndexed K (Span r) e of
        (True, e) \<Rightarrow> e
      | (False, e) \<Rightarrow> processSpan Log K now \<lparr>ps_span = Span r, ps_walSeg = 0\<rparr> e)"

definition replay_records :: "(f64 \<Rightarrow> f64) \<Rightarrow> 'k kv \<Rightarrow> i64 \<Rightarrow> wal_record list \<Rightarrow> 'k engine \<Rightarrow> 'k engine" where
  "replay_records Log K now rs e = fold (replay_record Log K now) rs e"

section \<open>The manifest and the index\<close>

definition segmentSetEqual :: "u64 list \<Rightarrow> u64 list \<Rightarrow> bool" where
  "segmentSetEqual a b \<longleftrightarrow> length a = length b \<and> (\<forall>i \<in> set b. i \<in> set a)"

fun collect_live :: "span_location list \<Rightarrow> u64 list \<Rightarrow> 'k engine \<Rightarrow> (engine_error + u64 list) \<times> 'k engine" where
  "collect_live [] live e = (Inr live, e)"
| "collect_live (loc # locs) live e =
     (if loc_SegmentID loc \<in> set live then collect_live locs live e
      else case fs_fault (db_segs (en_db e)) of (statErr, segs) \<Rightarrow>
        let e = e\<lparr>en_db := (en_db e)\<lparr>db_segs := segs\<rparr>\<rparr> in
        if statErr \<noteq> None \<or> dir_get (fs_dir segs) (SegmentPath (loc_SegmentID loc)) = None
        then (Inl (EngMissingSegment (loc_SegmentID loc)), e)
        else collect_live locs (live @ [loc_SegmentID loc]) e)"

definition reconcileManifest :: "'k kv \<Rightarrow> 'k engine \<Rightarrow> (engine_error + unit) \<times> 'k engine" where
  "reconcileManifest K e =
     rbind (on_index (idx_ScanAll K) e) (\<lambda>indexed e.
     rbind (collect_live (map snd indexed) [] e) (\<lambda>live e.
     rbind (on_meta EngManifest (manifest_Load (db_manifest (en_db e))) e) (\<lambda>current e.
       if \<not> segmentSetEqual current live
       then on_meta EngManifest (manifest_Save (db_manifest (en_db e)) live) e
       else (Inr (), e))))"

definition recover :: "(f64 \<Rightarrow> f64) \<Rightarrow> 'k kv \<Rightarrow> i64 \<Rightarrow> 'k engine \<Rightarrow> (engine_error + unit) \<times> 'k engine" where
  "recover Log K now e =
     rbind (on_wal Replay e) (\<lambda>records e.
       let e = (replay_records Log K now records (e\<lparr>en_recovering := True\<rparr>))\<lparr>en_recovering := False\<rparr> in
       rbind (if records = [] then (Inr (), e) else flushAllSessions Log K now e) (\<lambda>_ e.
         reconcileManifest K e))"

section \<open>Opening\<close>

text \<open>
  What is on disk: the directory of the log, the directories of the segments and of the derived
  files, and the index as \<^verbatim>\<open>OpenDB\<close> finds it (no handle when that fails).
\<close>

record 'k disk =
  dk_wal :: dir
  dk_wal_tape :: tape
  dk_index :: "'k index"
  dk_segs :: file_store
  dk_meta :: file_store

definition boot_engine :: "engine_config \<Rightarrow> 'k disk \<Rightarrow> wal \<Rightarrow> file_store \<Rightarrow> file_store \<Rightarrow> 'k engine" where
  "boot_engine c d w segs meta =
     \<lparr>en_config = c, en_wal = w,
      en_db = \<lparr>db_index = dk_index d, db_segs = segs, db_meta = meta, db_manifest = cf_ManifestPath c, db_purger = 0 < cf_SegmentCacheSize c\<rparr>,
      en_checkpoint = cf_CheckpointPath c, en_rollups = NewRollupManager, en_chan = [], en_sessions = [], en_count = 0,
      en_next = 0, en_recovering = False, en_pending = [], en_closed = False\<rparr>"

text \<open>An error after the handles are open closes the store again.\<close>

definition open_engine :: "(f64 \<Rightarrow> f64) \<Rightarrow> 'k kv \<Rightarrow> i64 \<Rightarrow> u64 \<Rightarrow> 'k engine \<Rightarrow> (engine_error + unit) \<times> 'k engine" where
  "open_engine Log K now lastConfirmed e =
     (case rbind (computeNextSegmentID lastConfirmed e) (\<lambda>i e.
           rbind (loadRollupSnapshots (e\<lparr>en_next := i\<rparr>)) (\<lambda>_ e. recover Log K now e)) of
        (Inl x, e) \<Rightarrow> (Inl x, snd (engine_Close Log K now e))
      | (Inr _, e) \<Rightarrow> (Inr (), e))"

definition CreateWispTraceWithConfig ::
    "(f64 \<Rightarrow> f64) \<Rightarrow> 'k kv \<Rightarrow> i64 \<Rightarrow> engine_config \<Rightarrow> 'k disk \<Rightarrow> (engine_error + unit) \<times> 'k engine" where
  "CreateWispTraceWithConfig Log K now c d =
     (let c = config_defaults c in
      case fs_fault (dk_segs d) of
        (Some _, segs) \<Rightarrow> (Inl EngDirScan, boot_engine c d (new_wal (dk_wal d) (cf_WALPath c) (cf_WALMaxSegmentSize c) (dk_wal_tape d)) segs (dk_meta d))
      | (None, segs) \<Rightarrow>
          (case CreateWALWithSegmentSize (dk_wal d) (cf_WALPath c) (cf_WALMaxSegmentSize c) (dk_wal_tape d) of
             (Inl x, w) \<Rightarrow> (Inl (EngWal x), boot_engine c d w segs (dk_meta d))
           | (Inr _, w) \<Rightarrow>
               if ix_db (dk_index d) = None
               then (Inl (EngIndex IndexClosed), boot_engine c d (snd (wal_Close w)) segs (dk_meta d))
               else
                 (case checkpoint_Load (cf_CheckpointPath c) (dk_meta d) of
                    (Inl x, meta) \<Rightarrow> (Inl (EngCheckpoint x), snd (on_index idx_Close (boot_engine c d (snd (wal_Close w)) segs meta)))
                  | (Inr lastConfirmed, meta) \<Rightarrow> open_engine Log K now lastConfirmed (boot_engine c d w segs meta))))"

definition CreateWisp where
  "CreateWisp Log K now d = CreateWispTraceWithConfig Log K now DefaultWispTraceConfig d"

end
