(* ===== verification/Engine_Spec.thy ===== *)
theory Engine_Spec
  imports Engine_Recover Compactor_Spec Wal_Spec Rollup_Spec
begin

text \<open>
  What the engine promises: it is a map from composite keys to spans that an insertion updates
  and nothing else changes. The abstract content is the view of the durable store overridden by
  the buffered and the queued spans, in that order.
\<close>

section \<open>Applying spans to a map\<close>

definition apply_span :: "span_payload \<Rightarrow> (string \<Rightarrow> span_payload option) \<Rightarrow> string \<Rightarrow> span_payload option" where
  "apply_span s m = m(span_key s := (if Deleted s then None else Some s))"

definition apply_spans :: "span_payload list \<Rightarrow> (string \<Rightarrow> span_payload option) \<Rightarrow> string \<Rightarrow> span_payload option" where
  "apply_spans ss m = fold apply_span ss m"

lemma last_span_snoc: "last_span k (ss @ [s]) = (if span_key s = k then Some s else last_span k ss)"
  by (simp add: last_span_def)

lemma last_span_Nil [simp]: "last_span k [] = None"
  by (simp add: last_span_def)

lemma last_span_append: "last_span k (xs @ ys) = (case last_span k ys of None \<Rightarrow> last_span k xs | Some s \<Rightarrow> Some s)"
  unfolding last_span_def by (simp add: map_add_def)

lemma last_span_filter: "last_span k ss = last_span k (filter (\<lambda>s. span_key s = k) ss)"
  by (induction ss rule: rev_induct) (auto simp: last_span_snoc)

lemma last_span_None: "last_span k ss = None \<longleftrightarrow> k \<notin> span_key ` set ss"
  by (induction ss rule: rev_induct) (auto simp: last_span_snoc)

lemma apply_spans_last:
  "apply_spans ss m k = (case last_span k ss of None \<Rightarrow> m k | Some s \<Rightarrow> if Deleted s then None else Some s)"
  by (induction ss rule: rev_induct) (auto simp: apply_spans_def apply_span_def last_span_snoc)

lemma apply_spans_append: "apply_spans (xs @ ys) m = apply_spans ys (apply_spans xs m)"
  by (simp add: apply_spans_def)

lemma apply_spans_cong:
  "(\<And>k. last_span k xs = last_span k ys) \<Longrightarrow> apply_spans xs m = apply_spans ys m"
  by (simp add: fun_eq_iff apply_spans_last)

section \<open>The collapse of a batch\<close>

lemma dedupe_snoc:
  "map_of (fold (\<lambda>ps. AList.update (ps_key ps) ps) spans []) k =
     map_of (rev (map (\<lambda>ps. (ps_key ps, ps)) spans)) k"
  by (induction spans rule: rev_induct) (auto simp: update_conv')

lemma dedupe_keys:
  "distinct (map fst (fold (\<lambda>ps. AList.update (ps_key ps) ps) spans []))
   \<and> (\<forall>(k, ps) \<in> set (fold (\<lambda>ps. AList.update (ps_key ps) ps) spans []). k = ps_key ps)"
proof (induction spans rule: rev_induct)
  case (snoc x xs)
  have "distinct (map fst (AList.update k v m))" if "distinct (map fst m)" for k and v :: pending_span and m
    using that by (rule distinct_update)
  moreover have "set (AList.update k v m) \<subseteq> insert (k, v) (set m)" for k and v :: pending_span and m
    by (induction m) auto
  ultimately show ?case using snoc by fastforce
qed simp

lemma map_of_last_span:
  "map_option ps_span (map_of (rev (map (\<lambda>ps. (ps_key ps, ps)) spans)) k) = last_span k (map ps_span spans)"
  by (induction spans rule: rev_induct) (auto simp: last_span_snoc)

text \<open>Every key of the batch once, with its last write.\<close>

lemma dedupe_spans:
  shows "distinct (map ps_key (dedupe spans))"
    and "s \<in> ps_span ` set (dedupe spans) \<longleftrightarrow> last_span (span_key s) (map ps_span spans) = Some s"
proof -
  let ?m = "fold (\<lambda>ps. AList.update (ps_key ps) ps) spans []"
  have d: "distinct (map fst ?m)" and k: "\<forall>(k, ps) \<in> set ?m. k = ps_key ps" using dedupe_keys [of spans] by auto
  have "map ps_key (dedupe spans) = map fst ?m"
    using k by (auto simp: dedupe_def intro!: map_cong)
  with d show "distinct (map ps_key (dedupe spans))" by simp
  have "s \<in> ps_span ` set (dedupe spans) \<longleftrightarrow> (\<exists>ps. (span_key s, ps) \<in> set ?m \<and> ps_span ps = s)"
    using k by (force simp: dedupe_def)
  also have "\<dots> \<longleftrightarrow> (\<exists>ps. map_of ?m (span_key s) = Some ps \<and> ps_span ps = s)" using d by simp
  also have "\<dots> \<longleftrightarrow> map_option ps_span (map_of ?m (span_key s)) = Some s" by auto
  also have "\<dots> \<longleftrightarrow> last_span (span_key s) (map ps_span spans) = Some s"
    unfolding dedupe_snoc map_of_last_span ..
  finally show "s \<in> ps_span ` set (dedupe spans) \<longleftrightarrow> last_span (span_key s) (map ps_span spans) = Some s" .
qed

lemma live_spans_iff:
  "s \<in> set (live_spans (dedupe spans)) \<longleftrightarrow> \<not> Deleted s \<and> last_span (span_key s) (map ps_span spans) = Some s"
  using dedupe_spans(2) [of s spans] by (auto simp: live_spans_def)

lemma tombstone_keys_iff:
  "k \<in> set (tombstone_keys (dedupe spans)) \<longleftrightarrow> (\<exists>s. last_span k (map ps_span spans) = Some s \<and> Deleted s)"
proof -
  have "k \<in> set (tombstone_keys (dedupe spans)) \<longleftrightarrow> (\<exists>s \<in> ps_span ` set (dedupe spans). Deleted s \<and> span_key s = k)"
    by (auto simp: tombstone_keys_def)
  moreover have "s \<in> ps_span ` set (dedupe spans) \<and> span_key s = k \<longleftrightarrow> last_span k (map ps_span spans) = Some s" for s
    using dedupe_spans(2) [of s spans] last_span_SomeD [of k "map ps_span spans" s] by auto
  ultimately show ?thesis by blast
qed

lemma distinct_live: "distinct (map span_key (live_spans (dedupe spans)))"
proof -
  have "map span_key (live_spans ds) = map ps_key (filter (\<lambda>ps. \<not> Deleted (ps_span ps)) ds)" for ds
    by (induction ds) (auto simp: live_spans_def)
  with dedupe_spans(1) [of spans] show ?thesis by (simp add: distinct_map_filter)
qed

lemma last_span_distinct: "distinct (map span_key ss) \<Longrightarrow> s \<in> set ss \<Longrightarrow> last_span (span_key s) ss = Some s"
proof (induction ss rule: rev_induct)
  case (snoc x xs)
  then show ?case by (auto simp: last_span_snoc)
qed simp

lemma length_live: "length (live_spans (dedupe spans)) \<le> length spans"
proof -
  let ?m = "fold (\<lambda>ps. AList.update (ps_key ps) ps) spans []"
  have one: "length (AList.update k v m) \<le> Suc (length m)" for k and v :: pending_span and m
    by (induction m) auto
  have "length (fold (\<lambda>ps. AList.update (ps_key ps) ps) xs m) \<le> length m + length xs" for xs m
  proof (induction xs arbitrary: m)
    case (Cons x xs)
    from Cons [of "AList.update (ps_key x) x m"] one [of "ps_key x" x m] show ?case by simp
  qed simp
  from this [of spans "[]"] have "length (dedupe spans) \<le> length spans" by (simp add: dedupe_def)
  moreover have "length (live_spans (dedupe spans)) \<le> length (dedupe spans)"
    unfolding live_spans_def by (metis length_filter_le length_map)
  ultimately show ?thesis by simp
qed

section \<open>Files of the segment directory\<close>

lemma segment_not_rollup [simp]:
  "SegmentPath i \<noteq> RollupPath w" "SegmentPath i \<noteq> RollupPath w @ ''.tmp''"
  by (simp_all add: SegmentPath_def RollupPath_def)

lemma flush_windows_other:
  "flush_windows ws st = (res, st') \<Longrightarrow> dir_get (fs_dir st') (SegmentPath i) = dir_get (fs_dir st) (SegmentPath i)"
proof (induction ws arbitrary: st)
  case (Cons w ws)
  obtain name wsize store where w: "w = (name, wsize, store)" by (cases w)
  obtain r1 st1 where f: "(if GetAllBuckets store = [] then (Inr (), st) else rollup_Flush name wsize (GetAllBuckets store) st)
      = (r1, st1)" by fastforce
  have same: "dir_get (fs_dir st1) (SegmentPath i) = dir_get (fs_dir st) (SegmentPath i)"
    using f rollup_Flush_other [of name wsize "GetAllBuckets store" st r1 st1 "SegmentPath i"]
    by (auto split: if_splits)
  show ?case
  proof (cases r1)
    case (Inl x)
    with Cons.prems f same show ?thesis by (simp add: w)
  next
    case (Inr u)
    with Cons.prems f have "flush_windows ws st1 = (res, st')" by (simp add: w)
    from Cons.IH [OF this] same show ?thesis by simp
  qed
qed simp


section \<open>Committing a batch\<close>

lemma index_entries_map:
  "map_of (index_entries w live) k =
     (if k \<in> span_key ` set live
      then map_option (\<lambda>off. \<lparr>loc_SegmentID = wr_SegmentID w, loc_Offset = off\<rparr>) (map_of (wr_Offsets w) k) else None)"
  "distinct (map fst (index_entries w live))"
proof -
  show "map_of (index_entries w live) k =
     (if k \<in> span_key ` set live
      then map_option (\<lambda>off. \<lparr>loc_SegmentID = wr_SegmentID w, loc_Offset = off\<rparr>) (map_of (wr_Offsets w) k) else None)"
    by (induction live rule: rev_induct) (auto simp: index_entries_def Let_def update_conv' split: option.splits)
  show "distinct (map fst (index_entries w live))"
    by (induction live rule: rev_induct) (auto simp: index_entries_def Let_def distinct_update split: option.splits)
qed

text \<open>The index batch of a flushed segment: every live key points into it, tombstoned keys are gone.\<close>

lemma batch_indexed:
  assumes K: "kv_store K" and E: "entries_ok Log K ix segs"
    and fresh: "dir_get (fs_dir segs) (SegmentPath n) = None"
    and fl: "seg_Flush Log n (live_spans (dedupe spans)) segs = (Inr w, segs')"
    and st: "storable Log n (live_spans (dedupe spans))"
    and ap: "idx_BatchApplySpans K (index_entries w (live_spans (dedupe spans))) (tombstone_keys (dedupe spans)) ix = (r, ix')"
  shows "entries_ok Log K ix' segs' \<and> (view_at K ix' segs' = apply_spans (map ps_span spans) (view_at K ix segs)
     \<or> r = Inl IndexIO \<and> view_at K ix' segs' = view_at K ix segs)"
proof -
  let ?live = "live_spans (dedupe spans)" and ?tombs = "tombstone_keys (dedupe spans)"
  let ?last = "\<lambda>k. last_span k (map ps_span spans)"
  have I: "idx_ok K ix" using E by (simp add: entries_ok_def)
  have id: "wr_SegmentID w = n" using fl by (rule seg_Flush_ok)
  have other: "m \<noteq> SegmentPath n \<Longrightarrow> dir_get (fs_dir segs') m = dir_get (fs_dir segs) m" for m
    using seg_Flush_other [OF fl] .
  have same: "dir_get (fs_dir segs') (SegmentPath (loc_SegmentID loc)) = dir_get (fs_dir segs) (SegmentPath (loc_SegmentID loc))"
    if "idx_map K ix k = Some loc" for k loc
    using E that fresh by (intro other) (auto elim!: entries_okD seg_holdsE)
  note S = entries_same_files [OF E same]
  have ok': "idx_ok K ix'" and map': "idx_map K ix' = batch_map (index_entries w ?live) ?tombs (idx_map K ix)
      \<or> r = Inl IndexIO \<and> idx_map K ix' = idx_map K ix"
    using kv_store.idx_apply_law [OF K I ap] by blast+
  from map' show ?thesis
  proof
    assume old: "r = Inl IndexIO \<and> idx_map K ix' = idx_map K ix"
    then have "entries_ok Log K ix' segs'" using S(1) ok' by (simp add: entries_ok_def)
    moreover have "view_at K ix' segs' = view_at K ix segs" using S(2) old by (simp add: view_at_def fun_eq_iff)
    ultimately show ?thesis using old by simp
  next
    assume new: "idx_map K ix' = batch_map (index_entries w ?live) ?tombs (idx_map K ix)"
    have puts: "map_of (rev (index_entries w ?live)) k =
        map_option (\<lambda>off. \<lparr>loc_SegmentID = n, loc_Offset = off\<rparr>) (map_of (wr_Offsets w) k)" for k
    proof -
      have "k \<notin> span_key ` set ?live \<Longrightarrow> map_of (wr_Offsets w) k = None"
        using wr_Offsets_keys(1) [OF fl] by (simp add: map_of_eq_None_iff)
      then show ?thesis using map_of_rev [OF index_entries_map(2)] by (auto simp: index_entries_map(1) id)
    qed
    have im: "idx_map K ix' k = (case map_of (wr_Offsets w) k of
        Some off \<Rightarrow> Some \<lparr>loc_SegmentID = n, loc_Offset = off\<rparr>
      | None \<Rightarrow> if k \<in> set ?tombs then None else idx_map K ix k)" for k
      by (simp add: new batch_map_def map_add_def puts split: option.splits)
    have in_seg: "seg_holds Log segs' n ?live \<and> (\<exists>s. (off, s) \<in> set (seg_entries Log ?live) \<and> span_key s = k \<and> ?last k = Some s \<and> \<not> Deleted s)"
      if off: "map_of (wr_Offsets w) k = Some off" for k off
    proof -
      obtain s where s: "seg_holds Log segs' n ?live" "(off, s) \<in> set (seg_entries Log ?live)" "last_span k ?live = Some s"
        using flush_entries [OF fl st off] by blast
      from last_span_SomeD [OF s(3)] have "s \<in> set ?live" "span_key s = k" by simp_all
      with s show ?thesis by (auto simp: live_spans_iff)
    qed
    have no_off: "?last k = None \<or> (\<exists>s. ?last k = Some s \<and> Deleted s)" if "map_of (wr_Offsets w) k = None" for k
    proof (rule ccontr)
      assume "\<not> ?thesis"
      then obtain s where s: "?last k = Some s" "\<not> Deleted s" by (cases "?last k") auto
      then have "s \<in> set ?live" "span_key s = k" using last_span_SomeD [OF s(1)] by (auto simp: live_spans_iff)
      then have "k \<in> span_key ` set ?live" by blast
      with wr_Offsets_keys(1) [OF fl] that show False by (simp add: map_of_eq_None_iff)
    qed
    have "entries_ok Log K ix' segs'"
      unfolding entries_ok_def
    proof (intro conjI allI impI)
      fix k loc assume k: "idx_map K ix' k = Some loc"
      show "entry_ok Log segs' k loc"
      proof (cases "map_of (wr_Offsets w) k")
        case (Some off)
        with k have loc: "loc = \<lparr>loc_SegmentID = n, loc_Offset = off\<rparr>" by (simp add: im)
        from in_seg [OF Some] show ?thesis unfolding entry_ok_def loc by (simp only: span_location.simps) blast
      next
        case None
        with k have "idx_map K ix k = Some loc" by (auto simp: im split: if_splits)
        with S(1) show ?thesis by (simp add: entries_ok_def)
      qed
    qed (fact ok')
    moreover have "view_at K ix' segs' k = apply_spans (map ps_span spans) (view_at K ix segs) k" for k
    proof (cases "map_of (wr_Offsets w) k")
      case (Some off)
      then obtain s where s: "seg_holds Log segs' n ?live" "(off, s) \<in> set (seg_entries Log ?live)"
        "?last k = Some s" "\<not> Deleted s" using in_seg by blast
      have "view_at K ix' segs' k = Some s"
        using view_entry [of K ix' k "\<lparr>loc_SegmentID = n, loc_Offset = off\<rparr>" Log segs' ?live s] s Some by (simp add: im)
      with s show ?thesis by (simp add: apply_spans_last)
    next
      case None
      show ?thesis
      proof (cases "k \<in> set ?tombs")
        case True
        then obtain s where "?last k = Some s" "Deleted s" by (auto simp: tombstone_keys_iff)
        with True None show ?thesis by (simp add: apply_spans_last view_at_def im)
      next
        case False
        with no_off [OF None] have "?last k = None" by (auto simp: tombstone_keys_iff)
        moreover have "view_at K ix' segs' k = view_at K ix segs' k" using None False by (simp add: view_at_def im)
        ultimately show ?thesis using S(2) by (simp add: apply_spans_last)
      qed
    qed
    ultimately show ?thesis by blast
  qed
qed


text \<open>What a flush of a batch leaves alone.\<close>

definition frame where
  "frame e = (en_config e, en_checkpoint e, en_chan e, en_sessions e, en_count e, en_recovering e, en_closed e,
     db_manifest (en_db e), db_purger (en_db e))"

definition same_rest where
  "same_rest e e' \<longleftrightarrow> frame e' = frame e \<and> en_wal e' = en_wal e \<and> en_pending e' = en_pending e \<and> en_next e' = en_next e"

lemma same_rest_refl [simp]: "same_rest e e"
  by (simp add: same_rest_def)

lemma same_rest_trans: "same_rest e1 e2 \<Longrightarrow> same_rest e2 e3 \<Longrightarrow> same_rest e1 e3"
  by (simp add: same_rest_def)

lemma on_db_rest:
  "on_index f e = (r, e') \<Longrightarrow> same_rest e e'"
  "on_segs err g e = (r', e') \<Longrightarrow> same_rest e e'"
  "on_meta err g e = (r', e') \<Longrightarrow> same_rest e e'"
  by (auto simp: on_index_def on_segs_def on_meta_def same_rest_def frame_def split: prod.splits)

lemma on_segsD: "on_segs err g e = (r, e') \<Longrightarrow>
  \<exists>x st. g (db_segs (en_db e)) = (x, st) \<and> r = map_sum err id x \<and> e' = e\<lparr>en_db := (en_db e)\<lparr>db_segs := st\<rparr>\<rparr>"
  by (auto simp: on_segs_def split: prod.splits)

lemma on_indexD: "on_index g e = (r, e') \<Longrightarrow>
  \<exists>x ix. g (db_index (en_db e)) = (x, ix) \<and> r = map_sum EngIndex id x \<and> e' = e\<lparr>en_db := (en_db e)\<lparr>db_index := ix\<rparr>\<rparr>"
  by (auto simp: on_index_def split: prod.splits)

lemma on_metaD: "on_meta err g e = (r, e') \<Longrightarrow>
  \<exists>x st. g (db_meta (en_db e)) = (x, st) \<and> r = map_sum err id x \<and> e' = e\<lparr>en_db := (en_db e)\<lparr>db_meta := st\<rparr>\<rparr>"
  by (auto simp: on_meta_def split: prod.splits)

lemma on_walD: "on_wal g e = (r, e') \<Longrightarrow>
  \<exists>x w. g (en_wal e) = (x, w) \<and> r = map_sum EngWal id x \<and> e' = e\<lparr>en_wal := w\<rparr>"
  by (auto simp: on_wal_def split: prod.splits)

text \<open>The part of a state that a query of the durable content depends on.\<close>

definition same_spans where
  "same_spans Log K e e' \<longleftrightarrow> db_index (en_db e') = db_index (en_db e)
     \<and> (\<forall>i. dir_get (fs_dir (db_segs (en_db e'))) (SegmentPath i) = dir_get (fs_dir (db_segs (en_db e))) (SegmentPath i))"

lemma same_spans_view:
  assumes "same_spans Log K e e'" "db_ok Log K (en_db e)"
  shows "db_ok Log K (en_db e') \<and> view K (en_db e') = view K (en_db e)"
  using entries_same_files [of Log K "db_index (en_db e)" "db_segs (en_db e)" "db_segs (en_db e')"] assms
  by (simp add: same_spans_def db_ok_def view_def)

lemma flushRollups_same:
  assumes "flushRollups now e = (r, e')"
  shows "same_rest e e' \<and> same_spans Log K e e' \<and> db_meta (en_db e') = db_meta (en_db e)"
proof -
  let ?e = "e\<lparr>en_rollups := evict_all (now - cf_RetentionPeriod (en_config e)) (en_rollups e)\<rparr>"
  obtain x st where f: "flush_windows (manager_windows (en_rollups ?e)) (db_segs (en_db ?e)) = (x, st)"
    "e' = ?e\<lparr>en_db := (en_db ?e)\<lparr>db_segs := st\<rparr>\<rparr>"
    using on_segsD [OF assms [unfolded flushRollups_def Let_def]] by blast
  have "dir_get (fs_dir st) (SegmentPath i) = dir_get (fs_dir (db_segs (en_db e))) (SegmentPath i)" for i
    using flush_windows_other [OF f(1), of i] by simp
  with f(2) show ?thesis by (simp add: same_rest_def frame_def same_spans_def)
qed


lemma tombstones_only:
  assumes K: "kv_store K" and E: "entries_ok Log K ix segs" and live: "live_spans (dedupe spans) = []"
    and ap: "idx_BatchApplySpans K [] (tombstone_keys (dedupe spans)) ix = (r, ix')"
  shows "entries_ok Log K ix' segs \<and> (view_at K ix' segs = apply_spans (map ps_span spans) (view_at K ix segs)
     \<or> r = Inl IndexIO \<and> view_at K ix' segs = view_at K ix segs)"
proof -
  have I: "idx_ok K ix" using E by (simp add: entries_ok_def)
  have ok': "idx_ok K ix'" and map': "idx_map K ix' = batch_map [] (tombstone_keys (dedupe spans)) (idx_map K ix)
      \<or> r = Inl IndexIO \<and> idx_map K ix' = idx_map K ix"
    using kv_store.idx_apply_law [OF K I ap] by blast+
  have dead: "Deleted s" if "last_span k (map ps_span spans) = Some s" for k s
    using live_spans_iff [of s spans] last_span_SomeD [OF that] that live by auto
  from map' show ?thesis
  proof
    assume "r = Inl IndexIO \<and> idx_map K ix' = idx_map K ix"
    then show ?thesis using E ok' by (simp add: entries_ok_def view_at_def fun_eq_iff)
  next
    assume new: "idx_map K ix' = batch_map [] (tombstone_keys (dedupe spans)) (idx_map K ix)"
    have "view_at K ix' segs k = apply_spans (map ps_span spans) (view_at K ix segs) k" for k
      using dead [of k] by (auto simp: apply_spans_last view_at_def new batch_map_def tombstone_keys_iff split: option.splits)
    moreover have "entries_ok Log K ix' segs"
      using E ok' by (simp add: entries_ok_def new batch_map_def)
    ultimately show ?thesis by blast
  qed
qed

lemma same_spans_fields [simp]:
  "same_spans Log K e (e'\<lparr>en_db := (en_db e')\<lparr>db_meta := m\<rparr>\<rparr>) = same_spans Log K e e'"
  "same_spans Log K (e\<lparr>en_db := (en_db e)\<lparr>db_meta := m\<rparr>\<rparr>) e' = same_spans Log K e e'"
  "same_spans Log K e e"
  by (simp_all add: same_spans_def)

text \<open>The steps after the index batch touch neither the index nor a segment file.\<close>

lemma commit_tail:
  assumes "rbind (on_meta EngManifest (manifest_AddSegment m i) e) (\<lambda>_ e.
        rbind (on_meta EngCheckpoint (checkpoint_Save c i) e) (\<lambda>_ e.
        rbind (flushRollups now e) (\<lambda>_ e. (Inr True, e)))) = (res, e')"
  shows "same_rest e e' \<and> same_spans Log K e e'"
proof -
  obtain r1 e1 where s1: "on_meta EngManifest (manifest_AddSegment m i) e = (r1, e1)" by fastforce
  have p1: "same_rest e e1" "same_spans Log K e e1"
    using on_db_rest(3) [OF s1] on_metaD [OF s1] by (auto simp: same_spans_def)
  show ?thesis
  proof (cases r1)
    case (Inl x)
    with assms s1 p1 show ?thesis by auto
  next
    case (Inr u)
    obtain r2 e2 where s2: "on_meta EngCheckpoint (checkpoint_Save c i) e1 = (r2, e2)" by fastforce
    have p2: "same_rest e e2" "same_spans Log K e e2"
      using on_db_rest(3) [OF s2] on_metaD [OF s2] p1 by (auto simp: same_spans_def intro: same_rest_trans)
    show ?thesis
    proof (cases r2)
      case (Inl x)
      with assms s1 s2 p2 Inr show ?thesis by auto
    next
      case (Inr u)
      obtain r3 e3 where s3: "flushRollups now e2 = (r3, e3)" by fastforce
      have "same_rest e e3" "same_spans Log K e e3"
        using flushRollups_same [OF s3, of Log K] p2 by (auto simp: same_spans_def intro: same_rest_trans)
      moreover have "e' = e3" using assms s1 s2 s3 \<open>r1 = Inr _\<close> Inr by (cases r3) auto
      ultimately show ?thesis by simp
    qed
  qed
qed

definition batch_fits where
  "batch_fits Log e spans \<longleftrightarrow> dir_get (fs_dir (db_segs (en_db e))) (SegmentPath (en_next e)) = None
     \<and> (live_spans (dedupe spans) \<noteq> [] \<longrightarrow> storable Log (en_next e) (live_spans (dedupe spans)))"

lemma commit_batch_view:
  assumes K: "kv_store K" and ok: "db_ok Log K (en_db e)" and fit: "batch_fits Log e spans"
    and C: "commit_batch Log K now spans e = (res, e')"
  shows "same_rest e e' \<and> db_ok Log K (en_db e')
    \<and> (view K (en_db e') = apply_spans (map ps_span spans) (view K (en_db e))
       \<or> (\<exists>x. res = Inl x) \<and> view K (en_db e') = view K (en_db e))
    \<and> (\<forall>i. i \<noteq> en_next e \<longrightarrow>
          dir_get (fs_dir (db_segs (en_db e'))) (SegmentPath i) = dir_get (fs_dir (db_segs (en_db e))) (SegmentPath i))"
proof (cases "live_spans (dedupe spans) = []")
  case True
  let ?t = "tombstone_keys (dedupe spans)"
  obtain r1 ix' where ap: "idx_BatchApplySpans K [] ?t (db_index (en_db e)) = (r1, ix')" by fastforce
  let ?e1 = "e\<lparr>en_db := (en_db e)\<lparr>db_index := ix'\<rparr>\<rparr>"
  have T: "entries_ok Log K ix' (db_segs (en_db e)) \<and> (view_at K ix' (db_segs (en_db e))
      = apply_spans (map ps_span spans) (view_at K (db_index (en_db e)) (db_segs (en_db e)))
     \<or> r1 = Inl IndexIO \<and> view_at K ix' (db_segs (en_db e)) = view_at K (db_index (en_db e)) (db_segs (en_db e)))"
    using tombstones_only [OF K _ True ap] ok by (simp add: db_ok_def)
  have rest: "same_rest e ?e1" by (simp add: same_rest_def frame_def)
  show ?thesis
  proof (cases r1)
    case (Inl x)
    with C True ap have "e' = ?e1" "res = Inl (EngIndex x)" by (simp_all add: commit_batch_def on_index_def)
    with T rest show ?thesis by (auto simp: db_ok_def view_def)
  next
    case (Inr u)
    obtain r2 e2 where fr: "flushRollups now ?e1 = (r2, e2)" by fastforce
    have "e' = e2" using C True ap Inr fr by (cases r2) (simp_all add: commit_batch_def on_index_def)
    moreover have "db_ok Log K (en_db ?e1)" using T by (simp add: db_ok_def)
    moreover have "view K (en_db ?e1) = apply_spans (map ps_span spans) (view K (en_db e))"
      using T Inr by (simp add: view_def)
    ultimately show ?thesis
      using flushRollups_same [OF fr, of Log K] same_spans_view [of Log K ?e1 e2] rest same_rest_trans [of e ?e1 e2]
      by (auto simp: same_spans_def)
  qed
next
  case False
  let ?live = "live_spans (dedupe spans)" and ?n = "en_next e"
  have fresh: "dir_get (fs_dir (db_segs (en_db e))) (SegmentPath ?n) = None" and st: "storable Log ?n ?live"
    using fit False by (simp_all add: batch_fits_def)
  obtain r1 segs' where fl: "seg_Flush Log ?n ?live (db_segs (en_db e)) = (r1, segs')" by fastforce
  have other: "i \<noteq> ?n \<Longrightarrow> dir_get (fs_dir segs') (SegmentPath i) = dir_get (fs_dir (db_segs (en_db e))) (SegmentPath i)" for i
    using seg_Flush_other [OF fl, of "SegmentPath i"] by simp
  have E: "entries_ok Log K (db_index (en_db e)) (db_segs (en_db e))" using ok by (simp add: db_ok_def)
  show ?thesis
  proof (cases r1)
    case (Inl x)
    have e': "e' = e\<lparr>en_db := (en_db e)\<lparr>db_segs := segs'\<rparr>\<rparr>" "res = Inl (EngSegment x)"
      using C False fl Inl by (simp_all add: commit_batch_def on_segs_def)
    have "loc_SegmentID loc \<noteq> ?n" if "idx_map K (db_index (en_db e)) k = Some loc" for k loc
      using E that fresh by (auto elim!: entries_okD seg_holdsE)
    then have "entries_ok Log K (db_index (en_db e)) segs'" "view_at K (db_index (en_db e)) segs' = view_at K (db_index (en_db e)) (db_segs (en_db e))"
      using entries_same_files [OF E, of segs'] other by blast+
    with e' other show ?thesis by (simp add: db_ok_def view_def same_rest_def frame_def)
  next
    case (Inr w)
    obtain r2 ix' where ap: "idx_BatchApplySpans K (index_entries w ?live) (tombstone_keys (dedupe spans)) (db_index (en_db e)) = (r2, ix')"
      by fastforce
    let ?e2 = "e\<lparr>en_db := (en_db e)\<lparr>db_segs := segs', db_index := ix'\<rparr>\<rparr>"
    note B = batch_indexed [OF K E fresh fl [unfolded Inr] st ap]
    have rest: "same_rest e ?e2" by (simp add: same_rest_def frame_def)
    show ?thesis
    proof (cases r2)
      case (Inl x)
      with C False fl Inr ap have "e' = ?e2" "res = Inl (EngIndex x)"
        by (simp_all add: commit_batch_def on_segs_def on_index_def)
      with B rest other show ?thesis by (auto simp: db_ok_def view_def)
    next
      case (Inr u)
      have C2: "rbind (on_meta EngManifest (manifest_AddSegment (db_manifest (en_db ?e2)) (wr_SegmentID w)) ?e2) (\<lambda>_ e.
        rbind (on_meta EngCheckpoint (checkpoint_Save (en_checkpoint e) (wr_SegmentID w)) e) (\<lambda>_ e.
        rbind (flushRollups now e) (\<lambda>_ e. (Inr True, e)))) = (res, e')"
        using C False fl \<open>r1 = Inr w\<close> ap Inr by (simp add: commit_batch_def on_segs_def on_index_def)
      have chk: "rbind (on_meta EngManifest g ?e2) (\<lambda>_ e. rbind (on_meta EngCheckpoint (checkpoint_Save (en_checkpoint e) i) e) h)
        = rbind (on_meta EngManifest g ?e2) (\<lambda>_ e. rbind (on_meta EngCheckpoint (checkpoint_Save (en_checkpoint ?e2) i) e) h)"
        for g :: "file_store \<Rightarrow> (manifest_error + unit) \<times> file_store" and i
          and h :: "unit \<Rightarrow> 'a engine \<Rightarrow> (engine_error + bool) \<times> 'a engine"
        by (cases "g (db_meta (en_db ?e2))") (auto simp: on_meta_def rbind_def split: sum.splits)
      from commit_tail [OF C2 [unfolded chk], of Log K]
      have tail: "same_rest ?e2 e'" "same_spans Log K ?e2 e'" by simp_all
      have "db_ok Log K (en_db ?e2)" using B by (simp add: db_ok_def)
      moreover have "view K (en_db ?e2) = apply_spans (map ps_span spans) (view K (en_db e))"
        using B Inr by (auto simp: view_def)
      ultimately show ?thesis
        using same_spans_view [OF tail(2)] tail rest same_rest_trans [of e ?e2 e'] other
        by (auto simp: same_spans_def)
    qed
  qed
qed

end
