(* ===== verification/Engine_Content.thy ===== *)
theory Engine_Content
  imports Engine_Spec
begin

text \<open>
  The abstract content of the engine and how the write path treats it: buffering a span moves it
  from the channel to the session buffer, a flush moves the buffer to the store, compaction
  rearranges the store, and none of them changes what a key stands for.
\<close>

section \<open>Composite keys\<close>

text \<open>The key of a span determines it only when trace ids are free of the separator character.\<close>

definition sep_free :: "string \<Rightarrow> bool" where
  "sep_free t \<longleftrightarrow> CHR ''|'' \<notin> set t"

lemma CompositeKey_inject:
  assumes "sep_free t" "sep_free t'"
  shows "CompositeKey t s = CompositeKey t' s' \<longleftrightarrow> t = t' \<and> s = s'"
proof -
  have "t @ CHR ''|'' # r = t' @ CHR ''|'' # r' \<Longrightarrow> t = t' \<and> r = r'" for r r'
    using assms unfolding sep_free_def
  proof (induction t arbitrary: t')
    case Nil
    then show ?case by (cases t') auto
  next
    case (Cons c t)
    then show ?case by (cases t') auto
  qed
  from this [of "CHR ''|'' # s" "CHR ''|'' # s'"] show ?thesis by (auto simp: CompositeKey_def)
qed

section \<open>The session buffer\<close>

definition session_spans :: "'k engine \<Rightarrow> pending_span list" where
  "session_spans e = concat (map (\<lambda>(_, st). ts_spans st) (en_sessions e))"

definition bucket_ok :: "string \<times> trace_state \<Rightarrow> bool" where
  "bucket_ok b \<longleftrightarrow> sep_free (fst b) \<and> (\<forall>ps \<in> set (ts_spans (snd b)). TraceID (ps_span ps) = fst b)"

definition sessions_ok :: "'k engine \<Rightarrow> bool" where
  "sessions_ok e \<longleftrightarrow> distinct (map fst (en_sessions e)) \<and> (\<forall>b \<in> set (en_sessions e). bucket_ok b)
     \<and> (\<forall>ps \<in> set (en_chan e). sep_free (TraceID (ps_span ps)))"

definition key_in :: "string \<Rightarrow> pending_span list \<Rightarrow> pending_span list" where
  "key_in k xs = filter (\<lambda>ps. ps_key ps = k) xs"

lemma key_in_Nil [simp]: "key_in k [] = []"
  by (simp add: key_in_def)

lemma key_in_append [simp]: "key_in k (xs @ ys) = key_in k xs @ key_in k ys"
  by (simp add: key_in_def)

lemma last_span_key_in: "last_span k (map ps_span xs) = last_span k (map ps_span (key_in k xs))"
  by (subst last_span_filter) (simp add: key_in_def filter_map comp_def)

lemma key_in_buckets:
  assumes "\<forall>b \<in> set bs. bucket_ok b" "t \<notin> fst ` set bs" "sep_free t"
  shows "key_in (CompositeKey t s) (concat (map (\<lambda>(_, st). ts_spans st) bs)) = []"
  using assms
proof (induction bs)
  case (Cons b bs)
  obtain t' st where b: "b = (t', st)" by (cases b)
  have "CompositeKey t' s' \<noteq> CompositeKey t s" for s'
    using Cons.prems b CompositeKey_inject [of t' t s' s] by (auto simp: bucket_ok_def)
  then have "key_in (CompositeKey t s) (ts_spans st) = []"
    using Cons.prems(1) b by (auto simp: key_in_def filter_empty_conv bucket_ok_def)
  with Cons b show ?case by simp
qed (simp add: key_in_def)

lemma key_in_bucket:
  assumes "\<forall>b \<in> set bs. bucket_ok b" "distinct (map fst bs)" "sep_free t"
  shows "key_in (CompositeKey t s) (concat (map (\<lambda>(_, st). ts_spans st) bs)) =
    (case map_of bs t of None \<Rightarrow> [] | Some st \<Rightarrow> key_in (CompositeKey t s) (ts_spans st))"
  using assms
proof (induction bs)
  case (Cons b bs)
  obtain t' st where b: "b = (t', st)" by (cases b)
  show ?case
  proof (cases "t' = t")
    case True
    have "t \<notin> fst ` set bs" using Cons.prems(2) b True by (simp add: image_def)
    with Cons.prems b True key_in_buckets [of bs t s] show ?thesis by simp
  next
    case False
    have "CompositeKey t' s' \<noteq> CompositeKey t s" for s'
      using Cons.prems b False CompositeKey_inject [of t' t s' s] by (auto simp: bucket_ok_def)
    then have "key_in (CompositeKey t s) (ts_spans st) = []"
      using Cons.prems(1) b by (auto simp: key_in_def filter_empty_conv bucket_ok_def)
    with Cons b False show ?thesis by simp
  qed
qed (simp add: key_in_def)

text \<open>Adding a span to the bucket of its trace.\<close>

lemma update_bucket:
  assumes "\<forall>b \<in> set bs. bucket_ok b" "distinct (map fst bs)" "sep_free (TraceID (ps_span ps))"
  shows "(\<forall>b \<in> set (bucket_add now ps bs). bucket_ok b) \<and> distinct (map fst (bucket_add now ps bs))
    \<and> key_in k (concat (map (\<lambda>(_, st). ts_spans st) (bucket_add now ps bs))) = key_in k (concat (map (\<lambda>(_, st). ts_spans st) bs) @ [ps])
    \<and> mset (concat (map (\<lambda>(_, st). ts_spans st) (bucket_add now ps bs))) = add_mset ps (mset (concat (map (\<lambda>(_, st). ts_spans st) bs)))"
  using assms
proof (induction bs)
  case Nil
  then show ?case by (simp add: bucket_ok_def bucket_add_def Let_def)
next
  case (Cons b bs)
  obtain t st where b: "b = (t, st)" by (cases b)
  let ?t = "TraceID (ps_span ps)"
  show ?case
  proof (cases "t = ?t")
    case True
    have notin: "?t \<notin> fst ` set bs" using Cons.prems(2) b True by (simp add: image_def)
    have "key_in (ps_key ps) (concat (map (\<lambda>(_, st). ts_spans st) bs)) = []"
      using Cons.prems(1,3) notin by (intro key_in_buckets) auto
    then have "key_in k (ps # concat (map (\<lambda>(_, st). ts_spans st) bs)) =
        key_in k (concat (map (\<lambda>(_, st). ts_spans st) bs)) @ key_in k [ps]"
      by (cases "ps_key ps = k") (auto simp: key_in_def)
    with Cons.prems b True show ?thesis by (auto simp: bucket_ok_def bucket_add_def Let_def)
  next
    case False
    then have eq: "bucket_add now ps (b # bs) = b # bucket_add now ps bs" by (simp add: bucket_add_def b Let_def)
    have "fst ` set (bucket_add now ps bs) = insert ?t (fst ` set bs)" by (simp add: bucket_add_def Let_def dom_update)
    with Cons b False show ?thesis unfolding eq by auto
  qed
qed


text \<open>Taking out some buckets before the others changes no key: its spans are all in one bucket.\<close>

lemma key_in_partition:
  assumes "\<forall>b \<in> set bs. bucket_ok b" "distinct (map fst bs)"
  shows "key_in k (concat (map (\<lambda>(_, st). ts_spans st) (filter P bs)))
      @ key_in k (concat (map (\<lambda>(_, st). ts_spans st) (filter (\<lambda>b. \<not> P b) bs)))
    = key_in k (concat (map (\<lambda>(_, st). ts_spans st) bs))"
  using assms
proof (induction bs)
  case (Cons b bs)
  obtain t st where b: "b = (t, st)" by (cases b)
  have IH: "key_in k (concat (map (\<lambda>(_, st). ts_spans st) (filter P bs)))
      @ key_in k (concat (map (\<lambda>(_, st). ts_spans st) (filter (\<lambda>b. \<not> P b) bs)))
    = key_in k (concat (map (\<lambda>(_, st). ts_spans st) bs))" using Cons by simp
  have only: "key_in k (ts_spans st) = [] \<or> key_in k (concat (map (\<lambda>(_, st). ts_spans st) (filter P bs))) = []"
  proof (cases "key_in k (ts_spans st)")
    case (Cons ps xs)
    then have "ps \<in> set (key_in k (ts_spans st))" by simp
    then have "ps \<in> set (ts_spans st)" and k: "k = ps_key ps" by (auto simp: key_in_def)
    then have "k = CompositeKey t (SpanID (ps_span ps))" "sep_free t"
      using Cons.prems(1) b by (auto simp: bucket_ok_def)
    moreover have "t \<notin> fst ` set (filter P bs)" using Cons.prems(2) b by (auto simp: image_iff)
    ultimately show ?thesis using key_in_buckets [of "filter P bs" t] Cons.prems(1) by auto
  qed simp
  show ?case
  proof (cases "P b")
    case True
    with IH b show ?thesis by simp
  next
    case False
    with IH [symmetric] only b show ?thesis by auto
  qed
qed (simp add: key_in_def)

section \<open>Content\<close>

definition queue :: "'k engine \<Rightarrow> pending_span list" where
  "queue e = session_spans e @ en_chan e"

definition content :: "'k kv \<Rightarrow> 'k engine \<Rightarrow> string \<Rightarrow> span_payload option" where
  "content K e = apply_spans (map ps_span (queue e)) (view K (en_db e))"

lemma apply_key_in:
  "(\<And>k. key_in k xs = key_in k ys) \<Longrightarrow> apply_spans (map ps_span xs) m = apply_spans (map ps_span ys) m"
  by (rule apply_spans_cong) (metis last_span_key_in)

lemma buffer_span_fields [simp]:
  "en_sessions (buffer_span now ps e) = bucket_add now ps (en_sessions e)"
  "en_chan (buffer_span now ps e) = en_chan e" "en_db (buffer_span now ps e) = en_db e"
  "en_wal (buffer_span now ps e) = en_wal e" "en_pending (buffer_span now ps e) = en_pending e"
  "en_next (buffer_span now ps e) = en_next e" "en_recovering (buffer_span now ps e) = en_recovering e"
  "en_config (buffer_span now ps e) = en_config e" "en_count (buffer_span now ps e) = en_count e + 1"
  "en_closed (buffer_span now ps e) = en_closed e" "en_checkpoint (buffer_span now ps e) = en_checkpoint e"
  by (simp_all add: buffer_span_def Let_def)

lemma session_bucket:
  assumes "sessions_ok e" "sep_free (TraceID (ps_span ps))"
  shows "sessions_ok (buffer_span now ps e)"
    and "key_in k (session_spans (buffer_span now ps e)) = key_in k (session_spans e @ [ps])"
    and "mset (session_spans (buffer_span now ps e)) = add_mset ps (mset (session_spans e))"
  using update_bucket [where bs = "en_sessions e" and ps = ps and now = now and k = k] assms by (auto simp: sessions_ok_def session_spans_def)

lemma content_buffer:
  assumes "sessions_ok e" "en_chan e = ps # rest"
  shows "content K (buffer_span now ps (e\<lparr>en_chan := rest\<rparr>)) = content K e"
    and "sessions_ok (buffer_span now ps (e\<lparr>en_chan := rest\<rparr>))"
proof -
  let ?e = "e\<lparr>en_chan := rest\<rparr>"
  have ok: "sessions_ok ?e" and free: "sep_free (TraceID (ps_span ps))" using assms by (auto simp: sessions_ok_def)
  show "sessions_ok (buffer_span now ps ?e)" using session_bucket(1) [OF ok free] .
  have "session_spans ?e = session_spans e" by (simp add: session_spans_def)
  then have same: "key_in k (queue (buffer_span now ps ?e)) = key_in k (queue e)" for k
    using session_bucket(2) [OF ok free, of k now] assms(2) key_in_append [of k "[ps]" rest] by (simp add: queue_def)
  then show "content K (buffer_span now ps ?e) = content K e"
    unfolding content_def by (subst apply_key_in [OF same]) simp
qed

lemma content_insert:
  assumes "InsertSpan pick span e = (Inr (), e')"
  shows "content K e' = apply_span span (content K e)" "en_db e' = en_db e" "en_sessions e' = en_sessions e"
    "sessions_ok e \<Longrightarrow> sep_free (TraceID span) \<Longrightarrow> sessions_ok e'"
proof -
  obtain i w where "e' = e\<lparr>en_wal := w, en_pending := AList.update i (pending_count (en_pending e) i + 1) (en_pending e),
      en_chan := en_chan e @ [\<lparr>ps_span = span, ps_walSeg = i\<rparr>]\<rparr>"
    using assms
    by (auto simp: InsertSpan_def appendTracked_def on_wal_def rbind_def split: prod.splits sum.splits if_splits)
  then show "content K e' = apply_span span (content K e)" "en_db e' = en_db e" "en_sessions e' = en_sessions e"
    "sessions_ok e \<Longrightarrow> sep_free (TraceID span) \<Longrightarrow> sessions_ok e'"
    by (auto simp: content_def queue_def session_spans_def apply_spans_def sessions_ok_def)
qed

text \<open>Taking spans for a flush: they come before the rest, and no key notices.\<close>

lemma take_all_key_in:
  assumes "take_all e = (spans, e1)"
  shows "key_in k (spans @ queue e1) = key_in k (queue e)" "same_rest (e\<lparr>en_sessions := [], en_count := 0\<rparr>) e1"
    "en_db e1 = en_db e" "sessions_ok e \<Longrightarrow> sessions_ok e1" "mset (spans @ queue e1) = mset (queue e)"
  using assms by (auto simp: take_all_def queue_def session_spans_def sessions_ok_def)

lemma take_expired_key_in:
  assumes "take_expired now e = (spans, e1)" "sessions_ok e"
  shows "key_in k (spans @ queue e1) = key_in k (queue e)" "en_db e1 = en_db e" "sessions_ok e1"
    "mset (spans @ queue e1) = mset (queue e)"
proof -
  let ?P = "\<lambda>(_ :: string, st). session_expired now e st"
  have bs: "\<forall>b \<in> set (en_sessions e). bucket_ok b" "distinct (map fst (en_sessions e))"
    using assms(2) by (simp_all add: sessions_ok_def)
  have not: "(\<lambda>(_ :: string, st). \<not> session_expired now e st) = (\<lambda>b. \<not> ?P b)" by auto
  have e1: "spans = concat (map (\<lambda>(_, st). ts_spans st) (filter ?P (en_sessions e)))"
    "en_sessions e1 = filter (\<lambda>b. \<not> ?P b) (en_sessions e)" "en_chan e1 = en_chan e" "en_db e1 = en_db e"
    using assms(1) unfolding take_expired_def Let_def not by auto
  show "key_in k (spans @ queue e1) = key_in k (queue e)"
    using key_in_partition [OF bs, of k ?P] by (simp add: queue_def session_spans_def e1)
  show "en_db e1 = en_db e" by (fact e1(4))
  show "sessions_ok e1" using assms(2) e1 by (auto simp: sessions_ok_def distinct_map_filter)
  have "mset (concat (map g (filter P xs))) + mset (concat (map g (filter (\<lambda>b. \<not> P b) xs))) = mset (concat (map g xs))"
    for P g and xs :: "(string \<times> trace_state) list"
    by (induction xs) auto
  from this [of "\<lambda>(_, st). ts_spans st" ?P "en_sessions e"] show "mset (spans @ queue e1) = mset (queue e)"
    by (simp add: queue_def session_spans_def e1 ac_simps)
qed

end
