(* ===== verification/Engine_Store.thy ===== *)
theory Engine_Store
  imports Engine_Content
begin

text \<open>
  The invariant of the durable store as the engine sees it, and what compaction leaves of it:
  every segment of the manifest holds spans, every indexed segment is in the manifest, and no
  file has an id from the next one on.
\<close>

section \<open>The durable store\<close>

text \<open>Every segment of the manifest holds spans; every indexed segment is in the manifest.\<close>

definition manifest_holds :: "(f64 \<Rightarrow> f64) \<Rightarrow> 'k db \<Rightarrow> bool" where
  "manifest_holds Log db \<longleftrightarrow> (\<exists>ids. manifest_ids (db_manifest db) (db_meta db) = Inr ids
     \<and> distinct ids \<and> (\<forall>i \<in> set ids. \<exists>spans. seg_holds Log (db_segs db) i spans))"

definition listed :: "'k kv \<Rightarrow> 'k db \<Rightarrow> bool" where
  "listed K db \<longleftrightarrow> (\<forall>k loc. idx_map K (db_index db) k = Some loc \<longrightarrow>
     (\<exists>ids. manifest_ids (db_manifest db) (db_meta db) = Inr ids \<and> loc_SegmentID loc \<in> set ids))"

definition unused_from :: "u64 \<Rightarrow> file_store \<Rightarrow> bool" where
  "unused_from n segs \<longleftrightarrow> (\<forall>i. n \<le> i \<longrightarrow> dir_get (fs_dir segs) (SegmentPath i) = None)"

lemma seg_holds_file: "seg_holds Log segs i spans \<Longrightarrow> dir_get (fs_dir segs) (SegmentPath i) \<noteq> None"
  by (auto elim!: seg_holdsE)

lemma unused_from_holds: "unused_from n segs \<Longrightarrow> seg_holds Log segs i spans \<Longrightarrow> i < n"
  by (auto simp: unused_from_def not_less [symmetric] dest: seg_holds_file)

lemma manifest_holds_same:
  assumes "manifest_holds Log db" "manifest_ids (db_manifest db') (db_meta db') = manifest_ids (db_manifest db) (db_meta db)"
    and "\<And>i spans. seg_holds Log (db_segs db) i spans \<Longrightarrow>
      dir_get (fs_dir (db_segs db')) (SegmentPath i) = dir_get (fs_dir (db_segs db)) (SegmentPath i)"
  shows "manifest_holds Log db'"
  using assms seg_holds_same [of "db_segs db'" _ "db_segs db" Log] unfolding manifest_holds_def by metis

lemma total_spans_same:
  "(\<And>i. i \<in> set ids \<Longrightarrow> dir_get (fs_dir segs') (SegmentPath i) = dir_get (fs_dir segs) (SegmentPath i)) \<Longrightarrow>
     total_spans segs' ids = total_spans segs ids"
  by (induction ids) (simp_all add: total_spans_def spans_of_def seg_scan_def)

lemma total_spans_mset: "mset xs = mset ys \<Longrightarrow> total_spans segs xs = total_spans segs ys"
  unfolding total_spans_def sum_mset_sum_list [symmetric] mset_map by simp

lemma total_spans_sorted: "total_spans segs (take n (sort ids)) \<le> total_spans segs ids"
proof -
  have "total_spans segs (take n xs) \<le> total_spans segs xs" for xs :: "u64 list"
  proof -
    have "total_spans segs (take n xs @ drop n xs) = total_spans segs (take n xs) + total_spans segs (drop n xs)"
      by (simp only: total_spans_def map_append sum_list_append)
    then show ?thesis by simp
  qed
  from this [of "sort ids"] show ?thesis using total_spans_mset [of "sort ids" ids segs] by simp
qed

text \<open>How many spans the segments of the manifest hold.\<close>

definition stored_spans :: "'k db \<Rightarrow> nat" where
  "stored_spans db =
     (case manifest_ids (db_manifest db) (db_meta db) of Inl _ \<Rightarrow> 0 | Inr ids \<Rightarrow> total_spans (db_segs db) ids)"

text \<open>Merging some segments of a list into one that holds no more.\<close>

lemma total_spans_append: "total_spans segs (xs @ ys) = total_spans segs xs + total_spans segs ys"
  by (simp add: total_spans_def)

lemma total_spans_merge:
  assumes "distinct ids" "distinct olds" "set olds \<subseteq> set ids"
    and "\<And>i. i \<in> set ids \<Longrightarrow> i \<notin> set olds \<Longrightarrow>
      dir_get (fs_dir segs') (SegmentPath i) = dir_get (fs_dir segs) (SegmentPath i)"
    and "total_spans segs' add \<le> total_spans segs olds"
  shows "total_spans segs' (sort (RemoveSegments ids olds @ add)) \<le> total_spans segs ids"
proof -
  have "mset ids = mset (RemoveSegments ids olds @ olds)"
    using assms(1-3) by (intro set_eq_iff_mset_eq_distinct [THEN iffD1]) (auto simp: RemoveSegments_def)
  then have "total_spans segs ids = total_spans segs (RemoveSegments ids olds) + total_spans segs olds"
    using total_spans_mset total_spans_append by metis
  moreover have "total_spans segs' (RemoveSegments ids olds) = total_spans segs (RemoveSegments ids olds)"
    using assms(4) by (intro total_spans_same) (auto simp: RemoveSegments_def)
  moreover have "total_spans segs' (sort (RemoveSegments ids olds @ add)) = total_spans segs' (RemoveSegments ids olds @ add)"
    by (rule total_spans_mset) simp
  ultimately show ?thesis using assms(5) by (simp add: total_spans_append)
qed

section \<open>What compaction leaves\<close>

lemma swap_manifest_ids:
  assumes "swap_manifest rm add db = (res, db')"
  shows "(\<exists>ids. res = Inr () \<and> manifest_ids (db_manifest db) (db_meta db) = Inr ids
      \<and> manifest_ids (db_manifest db) (db_meta db') = Inr (sort (RemoveSegments ids rm @ add)))
    \<or> (\<exists>x. res = Inl x) \<and> manifest_ids (db_manifest db) (db_meta db') = manifest_ids (db_manifest db) (db_meta db)"
    and "db_purger db' = db_purger db"
    and "fs_tape (db_meta db) = [] \<Longrightarrow> fs_tape (db_meta db') = [] \<and>
      (\<forall>ids. manifest_ids (db_manifest db) (db_meta db) = Inr ids \<longrightarrow> res = Inr ())"
proof -
  let ?p = "db_manifest db"
  obtain l m1 where l: "manifest_Load ?p (db_meta db) = (l, m1)" by fastforce
  have L: "l = manifest_ids ?p (db_meta db) \<or> l = Inl ManifestIO" "manifest_ids ?p m1 = manifest_ids ?p (db_meta db)"
    using manifest_Load_ids [OF l] by (auto simp: manifest_ids_def)
  have "(\<exists>ids. res = Inr () \<and> manifest_ids ?p (db_meta db) = Inr ids
      \<and> manifest_ids ?p (db_meta db') = Inr (sort (RemoveSegments ids rm @ add)))
    \<or> (\<exists>x. res = Inl x) \<and> manifest_ids ?p (db_meta db') = manifest_ids ?p (db_meta db)"
  proof (cases l)
    case (Inl x)
    with assms l L show ?thesis by (auto simp: swap_manifest_def)
  next
    case (Inr ids)
    obtain s m2 where s: "manifest_Save ?p (RemoveSegments ids rm @ add) m1 = (s, m2)" by fastforce
    with assms l Inr have "db' = db\<lparr>db_meta := m2\<rparr>" "res = map_sum CompManifest id s"
      by (auto simp: swap_manifest_def split: sum.splits)
    moreover have "manifest_ids ?p (db_meta db) = Inr ids" using L Inr by simp
    ultimately show ?thesis using manifest_Save_ids(1,2) [OF s] L(2) by (cases s) auto
  qed
  then show "(\<exists>ids. res = Inr () \<and> manifest_ids ?p (db_meta db) = Inr ids
      \<and> manifest_ids ?p (db_meta db') = Inr (sort (RemoveSegments ids rm @ add)))
    \<or> (\<exists>x. res = Inl x) \<and> manifest_ids ?p (db_meta db') = manifest_ids ?p (db_meta db)" .
  show "db_purger db' = db_purger db" using assms by (auto simp: swap_manifest_def split: prod.splits sum.splits)
  assume q: "fs_tape (db_meta db) = []"
  show "fs_tape (db_meta db') = [] \<and> (\<forall>ids. manifest_ids ?p (db_meta db) = Inr ids \<longrightarrow> res = Inr ())"
  proof (cases "manifest_ids ?p (db_meta db)")
    case (Inl x)
    with assms q show ?thesis by (auto simp: swap_manifest_def manifest_quiet)
  next
    case (Inr ids)
    obtain m2 where "manifest_Save ?p (RemoveSegments ids rm @ add) (db_meta db) = (Inr (), m2)" "fs_tape m2 = []"
      using manifest_quiet(1) [OF q] by blast
    with assms q Inr show ?thesis by (auto simp: swap_manifest_def manifest_quiet)
  qed
qed

lemma unlink_old_rest:
  assumes "unlink_old ids db = (res, db')"
  shows "db_index db' = db_index db \<and> db_meta db' = db_meta db \<and> db_manifest db' = db_manifest db
    \<and> db_purger db' = db_purger db \<and> (\<forall>i. i \<notin> set ids \<longrightarrow>
      dir_get (fs_dir (db_segs db')) (SegmentPath i) = dir_get (fs_dir (db_segs db)) (SegmentPath i))"
  using assms purgeAndUnlink_other [of "db_purger db" ids "db_segs db"]
  by (auto simp: unlink_old_def split: prod.splits)

lemma swap_unlink_cases:
  assumes "rbind (swap_manifest rm add db) (\<lambda>_ db. rbind (unlink_old ids db) (\<lambda>_ db. (Inr r, db))) = (res, db')"
  obtains e where "swap_manifest rm add db = (Inl e, db')"
  | db1 x where "swap_manifest rm add db = (Inr (), db1)" "unlink_old ids db1 = (x, db')"
proof (cases "swap_manifest rm add db")
  case (Pair r1 db1)
  show ?thesis
  proof (cases r1)
    case (Inl e)
    with Pair assms that(1) show ?thesis by auto
  next
    case (Inr u)
    obtain x db2 where "unlink_old ids db1 = (x, db2)" by fastforce
    with Pair assms Inr that(2) show ?thesis by (cases x) auto
  qed
qed

definition compact_frame :: "u64 list \<Rightarrow> u64 \<Rightarrow> 'k db \<Rightarrow> 'k db \<Rightarrow> bool" where
  "compact_frame oldIDs new db db' \<longleftrightarrow> db_manifest db' = db_manifest db \<and> db_purger db' = db_purger db
     \<and> (\<forall>i. i \<notin> set oldIDs \<longrightarrow> i \<noteq> new \<longrightarrow>
          dir_get (fs_dir (db_segs db')) (SegmentPath i) = dir_get (fs_dir (db_segs db)) (SegmentPath i))"

lemma Compact_frame:
  assumes K: "kv_store K" and ok: "db_ok Log K db" and quiet: "ix_tape (db_index db) = []"
    and ready: "compact_ready Log oldIDs new db" and man: "manifest_holds Log db"
    and C: "Compact Log K oldIDs new db = (res, db')"
  shows "compact_frame oldIDs new db db' \<and> manifest_holds Log db' \<and> ix_tape (db_index db') = []
    \<and> (fs_tape (db_meta db) = [] \<longrightarrow> fs_tape (db_meta db') = [] \<and> (listed K db \<longrightarrow> listed K db'))
    \<and> (distinct oldIDs \<longrightarrow> (\<forall>ids. manifest_ids (db_manifest db) (db_meta db) = Inr ids \<longrightarrow> set oldIDs \<subseteq> set ids)
        \<longrightarrow> stored_spans db' \<le> stored_spans db)"
proof -
  have fresh: "seg_holds Log (db_segs db) i spans \<Longrightarrow> i \<noteq> new" for i spans
    using ready by (auto simp: compact_ready_def dest: seg_holds_file)
  obtain ids where ids: "manifest_ids (db_manifest db) (db_meta db) = Inr ids"
    "\<forall>i \<in> set ids. \<exists>spans. seg_holds Log (db_segs db) i spans" "distinct ids" using man by (auto simp: manifest_holds_def)
  have not_new: "new \<notin> set ids" using ids(2) fresh by blast
  have stored_same: "stored_spans db' = stored_spans db"
    if "manifest_ids (db_manifest db') (db_meta db') = Inr ids"
      "\<And>i. i \<noteq> new \<Longrightarrow> dir_get (fs_dir (db_segs db')) (SegmentPath i) = dir_get (fs_dir (db_segs db)) (SegmentPath i)"
  proof -
    have "total_spans (db_segs db') ids = total_spans (db_segs db) ids"
      using not_new by (intro total_spans_same that(2)) blast
    with that(1) ids(1) show ?thesis by (simp add: stored_spans_def)
  qed
  from Compact_cases [OF K ok quiet ready C] show ?thesis
  proof (elim disjE exE conjE)
    assume S: "compact_stopped new db db'"
    then have "manifest_holds Log db'"
      using fresh by (intro manifest_holds_same [OF man]) (auto simp: compact_stopped_def)
    with S quiet stored_same ids(1) show ?thesis by (simp add: compact_stopped_def compact_frame_def listed_def)
  next
    fix w :: "write_result option" and ix' segs' r
    let ?db = "db\<lparr>db_segs := segs', db_index := ix'\<rparr>" and ?add = "case w of None \<Rightarrow> [] | Some wr \<Rightarrow> [wr_SegmentID wr]"
    assume M: "compact_moved Log K oldIDs new db w ix' segs'"
      and R: "rbind (swap_manifest oldIDs ?add ?db) (\<lambda>_ db. rbind (unlink_old oldIDs db) (\<lambda>_ db. (Inr r, db))) = (res, db')"
    have files: "i \<noteq> new \<Longrightarrow> dir_get (fs_dir segs') (SegmentPath i) = dir_get (fs_dir (db_segs db)) (SegmentPath i)" for i
      using M by (simp add: compact_moved_def)
    from R show ?thesis
    proof (cases rule: swap_unlink_cases)
      case (1 e)
      note S = swap_manifest_same [OF 1] swap_manifest_ids [OF 1]
      have "manifest_holds Log db'" using S files fresh by (intro manifest_holds_same [OF man]) auto
      moreover have "fs_tape (db_meta db) \<noteq> []" using S(4) ids(1) by auto
      moreover have "stored_spans db' = stored_spans db" using S files ids(1) by (intro stored_same) auto
      ultimately show ?thesis using S M files by (simp add: compact_frame_def compact_moved_def)
    next
      case (2 db1 x)
      note S = swap_manifest_same [OF 2(1)] swap_manifest_ids [OF 2(1)] and U = unlink_old_rest [OF 2(2)]
      have path: "db_manifest db' = db_manifest db" using S U by simp
      have new: "manifest_ids (db_manifest db') (db_meta db') = Inr (sort (RemoveSegments ids oldIDs @ ?add))"
        using S U ids(1) by auto
      have same: "i \<notin> set oldIDs \<Longrightarrow> dir_get (fs_dir (db_segs db')) (SegmentPath i) = dir_get (fs_dir segs') (SegmentPath i)" for i
        using S(1) U by simp
      have holds: "\<exists>spans. seg_holds Log (db_segs db') i spans" if "i \<in> set (RemoveSegments ids oldIDs @ ?add)" for i
      proof (cases "w \<noteq> None \<and> i = new")
        case True
        with M obtain spans where "seg_holds Log segs' new spans" by (auto simp: compact_moved_def)
        moreover have "new \<notin> set oldIDs" using ready fresh [of new] unfolding compact_ready_def by blast
        ultimately show ?thesis using True same [of new] seg_holds_same [of "db_segs db'" new segs' Log] by auto
      next
        case False
        with that M have i: "i \<in> set ids" "i \<notin> set oldIDs"
          by (auto simp: manifest_RemoveSegments compact_moved_def split: option.splits)
        with ids(2) obtain spans where h: "seg_holds Log (db_segs db) i spans" by blast
        then have "dir_get (fs_dir (db_segs db')) (SegmentPath i) = dir_get (fs_dir (db_segs db)) (SegmentPath i)"
          using same i files fresh by simp
        with h seg_holds_same [of "db_segs db'" i "db_segs db" Log] show ?thesis by auto
      qed
      moreover have "distinct (sort (RemoveSegments ids oldIDs @ ?add))"
        using ids(3) not_new M by (auto simp: RemoveSegments_def compact_moved_def split: option.splits)
      ultimately have man': "manifest_holds Log db'" using new by (auto simp: manifest_holds_def)
      have "stored_spans db' \<le> stored_spans db" if "distinct oldIDs" "set oldIDs \<subseteq> set ids"
      proof -
        have "total_spans (db_segs db') ?add \<le> total_spans (db_segs db) oldIDs"
        proof (cases w)
          case (Some wr)
          with M obtain spans where sp: "wr_SegmentID wr = new" "seg_holds Log segs' new spans"
            "length spans \<le> total_spans (db_segs db) oldIDs" by (auto simp: compact_moved_def)
          have "new \<notin> set oldIDs" using that(2) not_new by blast
          then have "seg_holds Log (db_segs db') new spans" using same [of new] seg_holds_same [of "db_segs db'" new segs' Log] sp(2) by simp
          with sp Some spans_of_holds show ?thesis by (simp add: total_spans_def)
        qed (simp add: total_spans_def)
        then have "total_spans (db_segs db') (sort (RemoveSegments ids oldIDs @ ?add)) \<le> total_spans (db_segs db) ids"
          using same files not_new by (intro total_spans_merge [OF ids(3) that]) metis+
        then show ?thesis using new ids(1) by (simp add: stored_spans_def)
      qed
      moreover have "listed K db'" if L: "listed K db"
      proof -
        have "loc_SegmentID loc \<in> set (RemoveSegments ids oldIDs @ ?add)" if k: "idx_map K ix' k = Some loc" for k loc
        proof -
          from M k have c: "loc_SegmentID loc \<notin> set oldIDs"
            "w \<noteq> None \<and> loc_SegmentID loc = new \<or> idx_map K (db_index db) k = Some loc"
            and wr: "\<forall>wr. w = Some wr \<longrightarrow> wr_SegmentID wr = new" by (simp_all add: compact_moved_def)
          from c(2) show ?thesis
          proof
            assume "w \<noteq> None \<and> loc_SegmentID loc = new"
            with wr show ?thesis by auto
          next
            assume "idx_map K (db_index db) k = Some loc"
            with L ids(1) have "loc_SegmentID loc \<in> set ids" unfolding listed_def by fastforce
            with c(1) show ?thesis by (simp add: manifest_RemoveSegments)
          qed
        qed
        then show ?thesis unfolding listed_def new using S(1) U by auto
      qed
      ultimately show ?thesis
        using man' M S U same files ids(1) by (simp add: compact_frame_def compact_moved_def)
    qed
  qed
qed

section \<open>The store invariant of the engine\<close>

definition store_ok :: "(f64 \<Rightarrow> f64) \<Rightarrow> 'k kv \<Rightarrow> 'k engine \<Rightarrow> bool" where
  "store_ok Log K e \<longleftrightarrow> db_ok Log K (en_db e) \<and> ix_tape (db_index (en_db e)) = [] \<and> manifest_holds Log (en_db e)
     \<and> unused_from (en_next e) (db_segs (en_db e))
     \<and> db_manifest (en_db e) \<notin> {en_checkpoint e, en_checkpoint e @ ''.tmp''}"

text \<open>Room for \<open>n\<close> more spans: the filters of every merge fit, and there are \<open>k\<close> more segment ids.\<close>

definition room :: "(f64 \<Rightarrow> f64) \<Rightarrow> nat \<Rightarrow> nat \<Rightarrow> 'k engine \<Rightarrow> bool" where
  "room Log n k e \<longleftrightarrow> unat (en_next e) + k < 2 ^ 64 \<and> sizing_upto Log (stored_spans (en_db e) + n)"

lemma sizing_upto_le: "sizing_upto Log n \<Longrightarrow> m \<le> n \<Longrightarrow> sizing_upto Log m"
  by (simp add: sizing_upto_def)

text \<open>What the steps of a flush and its maintenance keep: the invariant, the view, everything but the store.\<close>

definition only_store :: "'k engine \<Rightarrow> 'k engine \<Rightarrow> bool" where
  "only_store e e' \<longleftrightarrow> frame e' = frame e \<and> en_wal e' = en_wal e \<and> en_pending e' = en_pending e"

definition kept :: "(f64 \<Rightarrow> f64) \<Rightarrow> 'k kv \<Rightarrow> 'k engine \<Rightarrow> 'k engine \<Rightarrow> bool" where
  "kept Log K e e' \<longleftrightarrow> store_ok Log K e' \<and> stored_spans (en_db e') \<le> stored_spans (en_db e) \<and> view K (en_db e') = view K (en_db e) \<and> only_store e e'
     \<and> (fs_tape (db_meta (en_db e)) = [] \<longrightarrow> fs_tape (db_meta (en_db e')) = [] \<and> (listed K (en_db e) \<longrightarrow> listed K (en_db e')))"

lemma kept_refl: "store_ok Log K e \<Longrightarrow> kept Log K e e"
  by (simp add: kept_def only_store_def)

lemma kept_trans: "kept Log K e1 e2 \<Longrightarrow> kept Log K e2 e3 \<Longrightarrow> kept Log K e1 e3"
  by (auto simp: kept_def only_store_def)

lemma unat_suc: "unat (n :: u64) + 1 < 2 ^ 64 \<Longrightarrow> unat (n + 1) = unat n + 1"
  by (simp add: unat_word_ariths)

lemma unused_suc: "unused_from n segs \<Longrightarrow> unat n + 1 < 2 ^ 64 \<Longrightarrow> unused_from (n + 1) segs"
  unfolding unused_from_def using unat_suc [of n] by (auto simp: word_le_nat_alt)

lemma kept_next:
  assumes "store_ok Log K e" "unat (en_next e) + 1 < 2 ^ 64"
  shows "kept Log K e (e\<lparr>en_next := en_next e + 1\<rparr>)"
  using assms unused_suc [of "en_next e" "db_segs (en_db e)"]
  by (simp add: kept_def only_store_def store_ok_def frame_def)

lemma kept_manifest_read:
  assumes "store_ok Log K e" "on_meta EngManifest (manifest_Load (db_manifest (en_db e))) e = (l, e')"
  shows "kept Log K e e'" "en_next e' = en_next e" "db_index (en_db e') = db_index (en_db e)"
    "db_segs (en_db e') = db_segs (en_db e)"
    "manifest_ids (db_manifest (en_db e')) (db_meta (en_db e')) = manifest_ids (db_manifest (en_db e)) (db_meta (en_db e))"
    "\<And>ids. l = Inr ids \<Longrightarrow> manifest_ids (db_manifest (en_db e)) (db_meta (en_db e)) = Inr ids"
proof -
  let ?p = "db_manifest (en_db e)"
  obtain x m1 where x: "manifest_Load ?p (db_meta (en_db e)) = (x, m1)" "l = map_sum EngManifest id x"
    and e': "e' = e\<lparr>en_db := (en_db e)\<lparr>db_meta := m1\<rparr>\<rparr>"
    using on_metaD [OF assms(2)] by blast
  have L: "x = manifest_ids ?p (db_meta (en_db e)) \<or> x = Inl ManifestIO" "fs_dir m1 = fs_dir (db_meta (en_db e))"
    using manifest_Load_ids [OF x(1)] by auto
  have same: "manifest_ids ?p m1 = manifest_ids ?p (db_meta (en_db e))" using L by (simp add: manifest_ids_def)
  moreover have "fs_tape (db_meta (en_db e)) = [] \<Longrightarrow> fs_tape m1 = []" using x(1) manifest_quiet(2) by fastforce
  moreover have "stored_spans (db\<lparr>db_meta := m1\<rparr>) = stored_spans db" if "db = en_db e" for db
    using same that by (simp add: stored_spans_def split: sum.split)
  ultimately show "kept Log K e e'"
    using assms(1) by (simp add: e' kept_def store_ok_def db_ok_def manifest_holds_def listed_def view_def only_store_def frame_def)
  show "en_next e' = en_next e" "db_index (en_db e') = db_index (en_db e)" "db_segs (en_db e') = db_segs (en_db e)"
    "manifest_ids (db_manifest (en_db e')) (db_meta (en_db e')) = manifest_ids ?p (db_meta (en_db e))"
    using same by (simp_all add: e')
  show "manifest_ids ?p (db_meta (en_db e)) = Inr ids" if "l = Inr ids" for ids
    using L(1) x(2) that by (cases "manifest_ids ?p (db_meta (en_db e))") auto
qed

lemma kept_compact:
  assumes K: "kv_store K" and ok: "store_ok Log K (e\<lparr>en_next := new\<rparr>)" and new: "unat new + 1 < 2 ^ 64"
    and ready: "compact_ready Log ids new (en_db e)" and next': "en_next e = new + 1"
    and sub: "distinct ids" "\<And>l. manifest_ids (db_manifest (en_db e)) (db_meta (en_db e)) = Inr l \<Longrightarrow> set ids \<subseteq> set l"
  shows "kept Log K e (e\<lparr>en_db := snd (Compact Log K ids new (en_db e))\<rparr>)"
proof -
  obtain res db' where C: "Compact Log K ids new (en_db e) = (res, db')" by fastforce
  have S: "db_ok Log K (en_db e)" "ix_tape (db_index (en_db e)) = []" "manifest_holds Log (en_db e)"
    "unused_from new (db_segs (en_db e))" "db_manifest (en_db e) \<notin> {en_checkpoint e, en_checkpoint e @ ''.tmp''}"
    using ok by (simp_all add: store_ok_def)
  note V = Compact_keeps_view [OF K S(1,2) ready C] and F = Compact_frame [OF K S(1,2) ready S(3) C]
  have "unused_from (new + 1) (db_segs db')"
    unfolding unused_from_def
  proof (intro allI impI)
    fix i assume i: "new + 1 \<le> i"
    then have le: "new < i" using unat_suc [OF new] by (simp add: word_less_nat_alt word_le_nat_alt)
    then have none: "dir_get (fs_dir (db_segs (en_db e))) (SegmentPath i) = None" using S(4) by (simp add: unused_from_def)
    then have "i \<notin> set ids" using ready by (auto simp: compact_ready_def dest: seg_holds_file)
    with F le none show "dir_get (fs_dir (db_segs db')) (SegmentPath i) = None" by (simp add: compact_frame_def)
  qed
  moreover have "stored_spans db' \<le> stored_spans (en_db e)" using F sub by blast
  ultimately show ?thesis using V F S(5) C next' by (simp add: kept_def store_ok_def compact_frame_def only_store_def frame_def)
qed

lemma maybeCompact_kept:
  assumes K: "kv_store K" and ok: "store_ok Log K e" and room: "room Log 0 1 e"
  shows "kept Log K e (maybeCompactLocked Log K e)"
proof -
  obtain l e1 where l: "on_meta EngManifest (manifest_Load (db_manifest (en_db e))) e = (l, e1)" by fastforce
  note M = kept_manifest_read [OF ok l]
  have ok1: "store_ok Log K e1" using M(1) by (simp add: kept_def)
  have n1: "unat (en_next e1) + 1 < 2 ^ 64" using room M(2) by (simp add: room_def)
  let ?e2 = "e1\<lparr>en_next := en_next e1 + 1\<rparr>"
  have k2: "kept Log K e ?e2" using kept_trans [OF M(1) kept_next [OF ok1 n1]] .
  show ?thesis
  proof (cases "\<exists>ids. l = Inr ids \<and> \<not> int (length ids) \<le> cf_CompactionSegmentThreshold (en_config e1)
      \<and> \<not> length ids div 2 < 2 \<and> \<not> en_recovering ?e2")
    case False
    then have "maybeCompactLocked Log K e = e1 \<or> maybeCompactLocked Log K e = ?e2"
      using l by (auto simp: maybeCompactLocked_def Let_def split: sum.splits)
    with M(1) k2 show ?thesis by auto
  next
    case True
    then obtain ids where ids: "l = Inr ids" "\<not> int (length ids) \<le> cf_CompactionSegmentThreshold (en_config e1)"
      "\<not> length ids div 2 < 2" "\<not> en_recovering e1" by auto
    let ?old = "take (length ids div 2) (sort ids)"
    have mids: "manifest_ids (db_manifest (en_db e1)) (db_meta (en_db e1)) = Inr ids" using M(5,6) ids(1) by simp
    have "sizing_upto Log (total_spans (db_segs (en_db e1)) ids)"
      using room M(4) mids M(5) by (simp add: room_def stored_spans_def)
    then have size: "sizing_upto Log (total_spans (db_segs (en_db e1)) ?old)"
      using total_spans_sorted by (rule sizing_upto_le)
    have "set ?old \<subseteq> set ids" using set_take_subset [of _ "sort ids"] by simp
    then have hold: "\<forall>i \<in> set ?old. \<exists>spans. seg_holds Log (db_segs (en_db e1)) i spans"
      using ok1 mids by (auto simp: store_ok_def manifest_holds_def)
    have "dir_get (fs_dir (db_segs (en_db e1))) (SegmentPath (en_next e1)) = None"
      using ok1 by (simp add: store_ok_def unused_from_def)
    with size hold have ready: "compact_ready Log ?old (en_next e1) (en_db ?e2)" by (simp add: compact_ready_def)
    have "kept Log K ?e2 (?e2\<lparr>en_db := snd (Compact Log K ?old (en_next e1) (en_db ?e2))\<rparr>)"
    proof (rule kept_compact [OF K _ n1 ready])
      show "distinct ?old" using ok1 mids by (simp add: store_ok_def manifest_holds_def)
    qed (use ok1 mids \<open>set ?old \<subseteq> set ids\<close> in simp_all)
    moreover have "maybeCompactLocked Log K e = ?e2\<lparr>en_db := snd (Compact Log K ?old (en_next e1) (en_db ?e2))\<rparr>"
      using l ids by (simp add: maybeCompactLocked_def Let_def)
    ultimately show ?thesis using kept_trans [OF k2] by simp
  qed
qed

lemma maybeCompact_next:
  "en_next (maybeCompactLocked Log K e) = en_next e \<or> en_next (maybeCompactLocked Log K e) = en_next e + 1"
proof -
  obtain l e1 where l: "on_meta EngManifest (manifest_Load (db_manifest (en_db e))) e = (l, e1)" by fastforce
  then have "en_next e1 = en_next e" by (auto simp: on_meta_def split: prod.splits)
  with l show ?thesis by (auto simp: maybeCompactLocked_def Let_def split: sum.splits)
qed

lemma room_compact:
  assumes "kv_store K" "store_ok Log K e" "room Log n (Suc k) e"
  shows "room Log n k (maybeCompactLocked Log K e)"
proof -
  have "room Log 0 1 e" using assms(3) by (auto simp: room_def intro: sizing_upto_le [OF _ le_add1])
  from maybeCompact_kept [OF assms(1,2) this]
  have "stored_spans (en_db (maybeCompactLocked Log K e)) + n \<le> stored_spans (en_db e) + n" by (simp add: kept_def)
  with assms(3) maybeCompact_next [of Log K e] unat_suc [of "en_next e"] show ?thesis
    by (auto simp: room_def intro: sizing_upto_le)
qed

end
