(* ===== verification/Engine_Flush.thy ===== *)
theory Engine_Flush
  imports Engine_Store
begin

text \<open>
  The flush of a batch as a whole: a flush that reports success moves its spans from the buffer
  to the store without changing what any key stands for, whatever operation on the segment files
  fails on the way.
\<close>

section \<open>A batch that was committed\<close>

lemma on_InrD:
  "on_segs err g e = (Inr a, e') \<Longrightarrow> \<exists>st. g (db_segs (en_db e)) = (Inr a, st) \<and> e' = e\<lparr>en_db := (en_db e)\<lparr>db_segs := st\<rparr>\<rparr>"
  "on_index h e = (Inr b, e') \<Longrightarrow> \<exists>ix. h (db_index (en_db e)) = (Inr b, ix) \<and> e' = e\<lparr>en_db := (en_db e)\<lparr>db_index := ix\<rparr>\<rparr>"
  "on_meta err' k e = (Inr c, e') \<Longrightarrow> \<exists>st. k (db_meta (en_db e)) = (Inr c, st) \<and> e' = e\<lparr>en_db := (en_db e)\<lparr>db_meta := st\<rparr>\<rparr>"
  by (auto simp: on_segs_def on_index_def on_meta_def map_sum_def split: prod.splits sum.splits)

lemma commit_tombstones:
  assumes "commit_batch Log K now spans e = (Inr wrote, e')" "live_spans (dedupe spans) = []"
  shows "\<not> wrote \<and> (\<exists>ix'. idx_BatchApplySpans K [] (tombstone_keys (dedupe spans)) (db_index (en_db e)) = (Inr (), ix')
    \<and> db_index (en_db e') = ix' \<and> db_meta (en_db e') = db_meta (en_db e)
    \<and> (\<forall>i. dir_get (fs_dir (db_segs (en_db e'))) (SegmentPath i) = dir_get (fs_dir (db_segs (en_db e))) (SegmentPath i)))"
proof -
  obtain e1 e2 where s: "on_index (idx_BatchApplySpans K [] (tombstone_keys (dedupe spans))) e = (Inr (), e1)"
    "flushRollups now e1 = (Inr (), e2)" "e' = e2" "\<not> wrote"
    using assms by (auto simp: commit_batch_def rbind_Inr_iff)
  obtain x ix' where x: "idx_BatchApplySpans K [] (tombstone_keys (dedupe spans)) (db_index (en_db e)) = (x, ix')"
    "Inr () = map_sum EngIndex id x" "e1 = e\<lparr>en_db := (en_db e)\<lparr>db_index := ix'\<rparr>\<rparr>"
    using on_indexD [OF s(1)] by blast
  from flushRollups_same [OF s(2), of Log K] x s(3,4) show ?thesis by (cases x) (auto simp: same_spans_def)
qed

lemma commit_segment:
  assumes "commit_batch Log K now spans e = (Inr wrote, e')" "live_spans (dedupe spans) \<noteq> []"
  obtains w segs' ix' m1 m2 where "wrote"
    "seg_Flush Log (en_next e) (live_spans (dedupe spans)) (db_segs (en_db e)) = (Inr w, segs')"
    "idx_BatchApplySpans K (index_entries w (live_spans (dedupe spans))) (tombstone_keys (dedupe spans)) (db_index (en_db e)) = (Inr (), ix')"
    "manifest_AddSegment (db_manifest (en_db e)) (wr_SegmentID w) (db_meta (en_db e)) = (Inr (), m1)"
    "checkpoint_Save (en_checkpoint e) (wr_SegmentID w) m1 = (Inr (), m2)"
    "db_meta (en_db e') = m2" "db_index (en_db e') = ix'"
    "\<And>i. dir_get (fs_dir (db_segs (en_db e'))) (SegmentPath i) = dir_get (fs_dir segs') (SegmentPath i)"
proof -
  let ?live = "live_spans (dedupe spans)" and ?t = "tombstone_keys (dedupe spans)"
  obtain w e1 e2 e3 e4 where s: "on_segs EngSegment (seg_Flush Log (en_next e) ?live) e = (Inr w, e1)"
    "on_index (idx_BatchApplySpans K (index_entries w ?live) ?t) e1 = (Inr (), e2)"
    "on_meta EngManifest (manifest_AddSegment (db_manifest (en_db e2)) (wr_SegmentID w)) e2 = (Inr (), e3)"
    "on_meta EngCheckpoint (checkpoint_Save (en_checkpoint e3) (wr_SegmentID w)) e3 = (Inr (), e4)"
    "flushRollups now e4 = (Inr (), e')" "wrote"
    using assms by (auto simp: commit_batch_def Let_def rbind_Inr_iff)
  obtain segs' where f: "seg_Flush Log (en_next e) ?live (db_segs (en_db e)) = (Inr w, segs')"
    "e1 = e\<lparr>en_db := (en_db e)\<lparr>db_segs := segs'\<rparr>\<rparr>" using on_InrD(1) [OF s(1)] by blast
  obtain ix' where i: "idx_BatchApplySpans K (index_entries w ?live) ?t (db_index (en_db e1)) = (Inr (), ix')"
    "e2 = e1\<lparr>en_db := (en_db e1)\<lparr>db_index := ix'\<rparr>\<rparr>" using on_InrD(2) [OF s(2)] by blast
  obtain m1 where m: "manifest_AddSegment (db_manifest (en_db e2)) (wr_SegmentID w) (db_meta (en_db e2)) = (Inr (), m1)"
    "e3 = e2\<lparr>en_db := (en_db e2)\<lparr>db_meta := m1\<rparr>\<rparr>" using on_InrD(3) [OF s(3)] by blast
  obtain m2 where c: "checkpoint_Save (en_checkpoint e3) (wr_SegmentID w) (db_meta (en_db e3)) = (Inr (), m2)"
    "e4 = e3\<lparr>en_db := (en_db e3)\<lparr>db_meta := m2\<rparr>\<rparr>" using on_InrD(3) [OF s(4)] by blast
  have r: "same_spans Log K e4 e'" "db_meta (en_db e') = db_meta (en_db e4)" using flushRollups_same [OF s(5), of Log K] by simp_all
  show ?thesis
  proof (rule that [OF s(6) f(1)])
    show "idx_BatchApplySpans K (index_entries w ?live) ?t (db_index (en_db e)) = (Inr (), ix')" using i f by simp
    show "manifest_AddSegment (db_manifest (en_db e)) (wr_SegmentID w) (db_meta (en_db e)) = (Inr (), m1)" using m i f by simp
    show "checkpoint_Save (en_checkpoint e) (wr_SegmentID w) m1 = (Inr (), m2)" using c m i f by simp
  qed (use r f i m c in \<open>simp_all add: same_spans_def\<close>)
qed

lemma checkpoint_Save_manifest:
  assumes "checkpoint_Save c i st = (res, st')" "p \<notin> {c, c @ ''.tmp''}"
  shows "manifest_ids p st' = manifest_ids p st"
proof -
  obtain b st1 where r: "replace_file (c @ ''.tmp'') c (put_u64 i) st = (b, st1)" by fastforce
  with assms replace_file_atomic [OF r, of p] show ?thesis
    by (auto simp: checkpoint_Save_def manifest_ids_def split: bool.splits)
qed

lemma meta_quiet:
  assumes "manifest_AddSegment p i m = (r, m1)" "checkpoint_Save c i m1 = (r', m2)" "fs_tape m = []"
  shows "fs_tape m2 = []"
proof -
  have "fs_tape m1 = []"
  proof (cases "manifest_ids p m")
    case (Inl x)
    with assms(1,3) show ?thesis by (auto simp: manifest_AddSegment_def manifest_quiet(2))
  next
    case (Inr ids)
    obtain st' where "manifest_Save p (ids @ [i]) m = (Inr (), st')" "fs_tape st' = []"
      using manifest_quiet(1) [OF assms(3)] by blast
    with Inr assms(1,3) show ?thesis by (auto simp: manifest_AddSegment_def manifest_quiet(2) split: if_splits)
  qed
  then obtain st' where "replace_file (c @ ''.tmp'') c (put_u64 i) m1 = (True, st')" "fs_tape st' = []"
    using replace_file_quiet by blast
  with assms(2) show ?thesis by (simp add: checkpoint_Save_def)
qed

lemma idx_batch_tape:
  "idx_BatchApplySpans K puts dels ix = (r, ix') \<Longrightarrow> ix_tape ix = [] \<Longrightarrow> ix_tape ix' = []"
  by (auto simp: idx_BatchApplySpans_def idx_batch_def idx_commit_def ix_fault_nil split: if_splits option.splits)

text \<open>The successful commit of a batch: the invariant holds again once the id is used up.\<close>

definition after_commit :: "bool \<Rightarrow> 'k engine \<Rightarrow> 'k engine" where
  "after_commit wrote e = (if wrote then e\<lparr>en_next := en_next e + 1\<rparr> else e)"

definition batch_storable :: "(f64 \<Rightarrow> f64) \<Rightarrow> pending_span list \<Rightarrow> 'k engine \<Rightarrow> bool" where
  "batch_storable Log spans e \<longleftrightarrow>
     (live_spans (dedupe spans) \<noteq> [] \<longrightarrow> storable Log (en_next e) (live_spans (dedupe spans)))"

lemma batch_map_cases:
  assumes "batch_map puts dels m k = Some loc"
  obtains "(k, loc) \<in> set puts" | "m k = Some loc"
  using assms by (auto simp: batch_map_def map_add_Some_iff split: if_splits dest: map_of_SomeD)

lemma idx_batch_map:
  assumes "kv_store K" "idx_ok K ix" "idx_BatchApplySpans K puts dels ix = (Inr (), ix')"
  shows "idx_map K ix' = batch_map puts dels (idx_map K ix)"
  using kv_store.idx_apply_law [OF assms] by auto

lemma unused_step:
  assumes "unused_from n segs" "unat n + 1 < 2 ^ 64"
    and "\<And>i. i \<noteq> n \<Longrightarrow> dir_get (fs_dir segs') (SegmentPath i) = dir_get (fs_dir segs) (SegmentPath i)"
  shows "unused_from (n + 1) segs'"
  unfolding unused_from_def
proof (intro allI impI)
  fix i assume i: "n + 1 \<le> i"
  then have "i \<noteq> n" using unat_suc [OF assms(2)] by (auto simp: word_le_nat_alt)
  with i assms(3) [of i] unused_suc [OF assms(1,2)] show "dir_get (fs_dir segs') (SegmentPath i) = None"
    by (simp add: unused_from_def)
qed

lemma commit_kept_tombstones:
  assumes K: "kv_store K" and ok: "store_ok Log K e" and live: "live_spans (dedupe spans) = []"
    and C: "commit_batch Log K now spans e = (Inr wrote, e')" and R: "same_rest e e'" and D: "db_ok Log K (en_db e')"
  shows "\<not> wrote \<and> store_ok Log K e' \<and> (\<forall>m k. room Log (length spans + m) (Suc k) e \<longrightarrow> room Log m k e')
    \<and> (fs_tape (db_meta (en_db e)) = [] \<longrightarrow> fs_tape (db_meta (en_db e')) = [] \<and> (listed K (en_db e) \<longrightarrow> listed K (en_db e')))"
proof -
  obtain ix' where w: "\<not> wrote" and ix: "idx_BatchApplySpans K [] (tombstone_keys (dedupe spans)) (db_index (en_db e)) = (Inr (), ix')"
      "db_index (en_db e') = ix'" and meta: "db_meta (en_db e') = db_meta (en_db e)"
    and files: "\<And>i. dir_get (fs_dir (db_segs (en_db e'))) (SegmentPath i) = dir_get (fs_dir (db_segs (en_db e))) (SegmentPath i)"
    using commit_tombstones [OF C live] by blast
  have S: "idx_ok K (db_index (en_db e))" "ix_tape (db_index (en_db e)) = []" "manifest_holds Log (en_db e)"
    "unused_from (en_next e) (db_segs (en_db e))" "db_manifest (en_db e) \<notin> {en_checkpoint e, en_checkpoint e @ ''.tmp''}"
    using ok by (simp_all add: store_ok_def db_ok_def entries_ok_def)
  have F: "en_next e' = en_next e" "en_checkpoint e' = en_checkpoint e" "db_manifest (en_db e') = db_manifest (en_db e)"
    using R by (simp_all add: same_rest_def frame_def)
  have "manifest_holds Log (en_db e')" by (rule manifest_holds_same [OF S(3)]) (simp_all add: F meta files)
  moreover have "unused_from (en_next e') (db_segs (en_db e'))" using S(4) F(1) files by (simp add: unused_from_def)
  moreover have "ix_tape (db_index (en_db e')) = []" using idx_batch_tape [OF ix(1) S(2)] ix(2) by simp
  ultimately have "store_ok Log K e'" using D S(5) unfolding store_ok_def F by blast
  moreover have "room Log m k e'" if "room Log (length spans + m) (Suc k) e" for m k
  proof -
    have "stored_spans (en_db e') = stored_spans (en_db e)"
      using F meta total_spans_same [of _ "db_segs (en_db e')" "db_segs (en_db e)"] files
      by (simp add: stored_spans_def split: sum.split)
    with that F show ?thesis by (auto simp: room_def elim: sizing_upto_le)
  qed
  moreover have "listed K (en_db e')" if L: "listed K (en_db e)"
    unfolding listed_def F(3) meta
  proof (intro allI impI)
    fix k loc assume "idx_map K (db_index (en_db e')) k = Some loc"
    then have "idx_map K (db_index (en_db e)) k = Some loc"
      using ix(2) idx_batch_map [OF K S(1) ix(1)] by (simp add: batch_map_def split: if_splits)
    with L show "\<exists>ids. manifest_ids (db_manifest (en_db e)) (db_meta (en_db e)) = Inr ids \<and> loc_SegmentID loc \<in> set ids"
      unfolding listed_def by simp
  qed
  ultimately show ?thesis using w meta by simp
qed

lemma commit_kept_segment:
  assumes K: "kv_store K" and ok: "store_ok Log K e" and live: "live_spans (dedupe spans) \<noteq> []"
    and st: "storable Log (en_next e) (live_spans (dedupe spans))" and nx: "unat (en_next e) + 1 < 2 ^ 64"
    and C: "commit_batch Log K now spans e = (Inr wrote, e')" and R: "same_rest e e'" and D: "db_ok Log K (en_db e')"
  shows "wrote \<and> store_ok Log K (e'\<lparr>en_next := en_next e' + 1\<rparr>)
    \<and> (\<forall>m k. room Log (length spans + m) (Suc k) e \<longrightarrow> room Log m k (e'\<lparr>en_next := en_next e' + 1\<rparr>))
    \<and> (fs_tape (db_meta (en_db e)) = [] \<longrightarrow> fs_tape (db_meta (en_db e')) = [] \<and> (listed K (en_db e) \<longrightarrow> listed K (en_db e')))"
proof -
  let ?live = "live_spans (dedupe spans)" and ?n = "en_next e" and ?p = "db_manifest (en_db e)"
  obtain w segs' ix' m1 m2 where c: "wrote" "seg_Flush Log ?n ?live (db_segs (en_db e)) = (Inr w, segs')"
    "idx_BatchApplySpans K (index_entries w ?live) (tombstone_keys (dedupe spans)) (db_index (en_db e)) = (Inr (), ix')"
    "manifest_AddSegment ?p (wr_SegmentID w) (db_meta (en_db e)) = (Inr (), m1)"
    "checkpoint_Save (en_checkpoint e) (wr_SegmentID w) m1 = (Inr (), m2)"
    "db_meta (en_db e') = m2" "db_index (en_db e') = ix'"
    and files: "\<And>i. dir_get (fs_dir (db_segs (en_db e'))) (SegmentPath i) = dir_get (fs_dir segs') (SegmentPath i)"
    using C live by (rule commit_segment) blast
  have S: "idx_ok K (db_index (en_db e))" "ix_tape (db_index (en_db e)) = []" "manifest_holds Log (en_db e)"
    "unused_from ?n (db_segs (en_db e))" "?p \<notin> {en_checkpoint e, en_checkpoint e @ ''.tmp''}"
    using ok by (simp_all add: store_ok_def db_ok_def entries_ok_def)
  have F: "en_next e' = ?n" "en_checkpoint e' = en_checkpoint e" "db_manifest (en_db e') = ?p"
    using R by (simp_all add: same_rest_def frame_def)
  have id: "wr_SegmentID w = ?n" using c(2) by (rule seg_Flush_ok)
  have other: "i \<noteq> ?n \<Longrightarrow> dir_get (fs_dir (db_segs (en_db e'))) (SegmentPath i) = dir_get (fs_dir (db_segs (en_db e))) (SegmentPath i)" for i
    using seg_Flush_other [OF c(2), of "SegmentPath i"] files by simp
  have new: "seg_holds Log (db_segs (en_db e')) ?n ?live"
    using sg.flush_holds [OF c(2) st] seg_holds_same [OF files [of ?n], of Log] by simp
  obtain ids where ids: "manifest_ids ?p (db_meta (en_db e)) = Inr ids" "\<forall>i \<in> set ids. \<exists>spans. seg_holds Log (db_segs (en_db e)) i spans"
      "distinct ids" using S(3) by (auto simp: manifest_holds_def)
  have below: "i < ?n" if "i \<in> set ids" for i using ids(2) that unused_from_holds [OF S(4)] by blast
  then have notin: "?n \<notin> set ids" by blast
  have ids': "manifest_ids ?p m2 = Inr (sort (ids @ [?n]))"
    using manifest_AddSegment_list [OF c(4)] checkpoint_Save_manifest [OF c(5) S(5)] ids(1) notin id by simp
  have "\<exists>spans. seg_holds Log (db_segs (en_db e')) i spans" if "i \<in> set (sort (ids @ [?n]))" for i
  proof (cases "i = ?n")
    case False
    with that ids(2) obtain spans where "seg_holds Log (db_segs (en_db e)) i spans" by auto
    with seg_holds_same [OF other [OF False], of Log] show ?thesis by auto
  qed (use new in blast)
  then have man: "manifest_holds Log (en_db e')" using ids' c(6) F ids(3) notin by (auto simp: manifest_holds_def)
  have "unused_from (?n + 1) (db_segs (en_db e'))"
    using unused_step [OF S(4) nx other] .
  then have store: "store_ok Log K (e'\<lparr>en_next := en_next e' + 1\<rparr>)"
    using man D S(5) F idx_batch_tape [OF c(3) S(2)] c(7) by (simp add: store_ok_def)
  have total: "total_spans (db_segs (en_db e')) (sort (ids @ [?n])) \<le> total_spans (db_segs (en_db e)) ids + length spans"
  proof -
    have "total_spans (db_segs (en_db e')) (sort (ids @ [?n])) = total_spans (db_segs (en_db e')) (ids @ [?n])"
      by (rule total_spans_mset) simp
    also have "\<dots> = total_spans (db_segs (en_db e')) ids + length ?live"
      using spans_of_holds [OF new] by (simp add: total_spans_def)
    also have "total_spans (db_segs (en_db e')) ids = total_spans (db_segs (en_db e)) ids"
      using other below by (intro total_spans_same) (metis less_irrefl)
    finally show ?thesis using length_live [of spans] by simp
  qed
  have "room Log m k (e'\<lparr>en_next := en_next e' + 1\<rparr>)" if "room Log (length spans + m) (Suc k) e" for m k
  proof -
    have "stored_spans (en_db e') + m \<le> stored_spans (en_db e) + (length spans + m)"
      using total F c(6) ids' ids(1) by (simp add: stored_spans_def)
    with that F unat_suc [OF nx] show ?thesis by (auto simp: room_def elim: sizing_upto_le)
  qed
  moreover have "listed K (en_db e')" if L: "listed K (en_db e)"
    unfolding listed_def F(3) c(6,7) ids' idx_batch_map [OF K S(1) c(3)]
  proof (intro allI impI)
    fix k loc assume "batch_map (index_entries w ?live) (tombstone_keys (dedupe spans)) (idx_map K (db_index (en_db e))) k = Some loc"
    then show "\<exists>l. (Inr (sort (ids @ [?n])) :: manifest_error + u64 list) = Inr l \<and> loc_SegmentID loc \<in> set l"
    proof (cases rule: batch_map_cases)
      case 1
      then have "map_of (index_entries w ?live) k = Some loc" using index_entries_map(2) by simp
      then show ?thesis using id by (auto simp: index_entries_map(1) split: if_splits)
    next
      case 2
      with L ids(1) have "loc_SegmentID loc \<in> set ids" unfolding listed_def by fastforce
      then show ?thesis by simp
    qed
  qed
  ultimately show ?thesis using c(1) store meta_quiet [OF c(4,5)] c(6) by simp
qed

section \<open>Writing a batch\<close>

lemma releaseWALPending_rest:
  assumes "releaseWALPending batch e = (r, e')"
  shows "en_db e' = en_db e \<and> en_next e' = en_next e \<and> frame e' = frame e"
  using assms
  by (auto simp: releaseWALPending_def release_batch_def reclaim_def on_wal_def frame_def Let_def split: option.splits prod.splits)

lemma room_mono: "room Log n k e \<Longrightarrow> n' \<le> n \<Longrightarrow> k' \<le> k \<Longrightarrow> room Log n' k' e"
  by (auto simp: room_def elim: sizing_upto_le)

lemma batch_storable_small:
  assumes "seg_fits (map ps_span spans)" "room Log (length spans) n e"
  shows "storable Log i (live_spans (dedupe spans))"
proof -
  have size: "sizing_upto Log (length spans)" using assms(2) by (auto simp: room_def elim: sizing_upto_le)
  have "set (live_spans (dedupe spans)) \<subseteq> set (map ps_span spans)"
    using live_spans_iff [of _ spans] last_span_SomeD by fastforce
  then have "seg_fits (live_spans (dedupe spans))" using assms(1) by (auto simp: seg_fits_def)
  then show ?thesis using size length_live by (rule storable_small)
qed

text \<open>A batch whose flush reports success is in the store, over what the store had.\<close>

definition flushed :: "(f64 \<Rightarrow> f64) \<Rightarrow> 'k kv \<Rightarrow> pending_span list \<Rightarrow> 'k engine \<Rightarrow> 'k engine \<Rightarrow> bool" where
  "flushed Log K spans e e' \<longleftrightarrow> store_ok Log K e' \<and> frame e' = frame e
     \<and> view K (en_db e') = apply_spans (map ps_span spans) (view K (en_db e))
     \<and> (\<forall>m k. room Log (length spans + m) (k + 2) e \<longrightarrow> room Log m k e')
     \<and> (fs_tape (db_meta (en_db e)) = [] \<longrightarrow> fs_tape (db_meta (en_db e')) = [] \<and> (listed K (en_db e) \<longrightarrow> listed K (en_db e')))"

lemma writeSegmentBatch_flushed:
  assumes K: "kv_store K" and ok: "store_ok Log K e" and fit: "seg_fits (map ps_span spans)"
    and room: "room Log (length spans) 2 e" and W: "writeSegmentBatch Log K now spans e = (Inr (), e')"
  shows "flushed Log K spans e e'"
proof -
  obtain sealed e1 wrote e2 e3 where s: "on_wal Rotate e = (Inr sealed, e1)"
    "commit_batch Log K now spans e1 = (Inr wrote, e2)" "releaseWALPending spans e2 = (Inr (), e3)"
    and e': "e' = (if wrote then maybeCompactLocked Log K (e3\<lparr>en_next := en_next e3 + 1\<rparr>) else e3)"
    using W by (auto simp: writeSegmentBatch_def rbind_Inr_iff)
  obtain w where e1: "e1 = e\<lparr>en_wal := w\<rparr>" using on_walD [OF s(1)] by blast
  have ok1: "store_ok Log K e1" and rooms: "\<And>n k. room Log n k e1 = room Log n k e" and fr1: "frame e1 = frame e"
    using ok by (simp_all add: e1 store_ok_def room_def frame_def)
  have fits: "batch_fits Log e1 spans"
    using ok1 batch_storable_small [OF fit room] by (simp add: batch_fits_def store_ok_def unused_from_def)
  have nx: "unat (en_next e1) + 1 < 2 ^ 64" using room by (simp add: room_def e1)
  have D: "db_ok Log K (en_db e1)" using ok1 by (simp add: store_ok_def)
  note V = commit_batch_view [OF K D fits s(2)]
  then have R: "same_rest e1 e2" and D2: "db_ok Log K (en_db e2)" and view2: "view K (en_db e2) = apply_spans (map ps_span spans) (view K (en_db e))"
    by (auto simp: e1)
  have C: "store_ok Log K (after_commit wrote e2) \<and> (\<forall>m k. room Log (length spans + m) (Suc k) e \<longrightarrow> room Log m k (after_commit wrote e2))
      \<and> (fs_tape (db_meta (en_db e)) = [] \<longrightarrow> fs_tape (db_meta (en_db e2)) = [] \<and> (listed K (en_db e) \<longrightarrow> listed K (en_db e2)))"
  proof (cases "live_spans (dedupe spans) = []")
    case True
    with commit_kept_tombstones [OF K ok1 True s(2) R D2] rooms show ?thesis by (simp add: after_commit_def e1)
  next
    case False
    with fits have st: "storable Log (en_next e1) (live_spans (dedupe spans))" by (simp add: batch_fits_def)
    with commit_kept_segment [OF K ok1 False st nx s(2) R D2] rooms show ?thesis by (simp add: after_commit_def e1)
  qed
  note rel = releaseWALPending_rest [OF s(3)]
  have fr3: "frame e3 = frame e" using rel R fr1 by (simp add: same_rest_def)
  have fields: "en_checkpoint e3 = en_checkpoint e2" using rel by (simp add: frame_def)
  have ok3: "store_ok Log K (after_commit wrote e3)"
    using C rel fields by (auto simp: after_commit_def store_ok_def split: if_splits)
  have room3: "room Log m k (after_commit wrote e3)" if "room Log (length spans + m) (Suc k) e" for m k
    using C rel that by (auto simp: after_commit_def room_def split: if_splits)
  show ?thesis
  proof (cases wrote)
    case False
    then have "room Log m k e3" if "room Log (length spans + m) (k + 2) e" for m k
      using room3 [of m k] room_mono [OF that order.refl, of "Suc k"] by (simp add: after_commit_def)
    with False e' rel C ok3 fr3 view2 show ?thesis by (simp add: flushed_def after_commit_def)
  next
    case True
    have "room Log 0 1 (after_commit wrote e3)" using room3 [of 0 1] room by (simp add: room_def)
    then have "kept Log K (e3\<lparr>en_next := en_next e3 + 1\<rparr>) e'"
      using maybeCompact_kept [OF K ok3] True e' by (simp add: after_commit_def)
    moreover have "room Log m k e'" if "room Log (length spans + m) (k + 2) e" for m k
      using room_compact [OF K ok3 room3 [of m "Suc k"]] that True e' by (simp add: after_commit_def)
    ultimately show ?thesis using rel C fr3 view2 by (simp add: flushed_def kept_def only_store_def frame_def)
  qed
qed

section \<open>Flushing the session buffer\<close>

lemma take_all_state:
  "take_all e = (session_spans e, e\<lparr>en_sessions := [], en_count := 0\<rparr>)"
  by (simp add: take_all_def session_spans_def)

lemma taken_state [simp]:
  "store_ok Log K (e\<lparr>en_sessions := ss, en_count := n\<rparr>) = store_ok Log K e"
  "room Log m k (e\<lparr>en_sessions := ss, en_count := n\<rparr>) = room Log m k e"
  "store_ok Log K (e\<lparr>en_chan := c\<rparr>) = store_ok Log K e" "room Log m k (e\<lparr>en_chan := c\<rparr>) = room Log m k e"
  by (simp_all add: store_ok_def room_def)

lemma flushed_frame:
  assumes "flushed Log K spans e e'"
  shows "en_chan e' = en_chan e" "en_sessions e' = en_sessions e" "session_spans e' = session_spans e"
    "en_recovering e' = en_recovering e" "en_config e' = en_config e" "queue e' = queue e"
  using assms by (simp_all add: flushed_def frame_def session_spans_def queue_def)

lemma apply_flushed:
  "flushed Log K spans e e' \<Longrightarrow> content K e' = apply_spans (map ps_span (spans @ queue e)) (view K (en_db e))"
  using flushed_frame(6) [of Log K spans e e'] by (simp add: content_def flushed_def apply_spans_append)

text \<open>A flush of the whole buffer that reports success: the content stays, the buffer is empty.\<close>

definition buffer_flushed :: "(f64 \<Rightarrow> f64) \<Rightarrow> 'k kv \<Rightarrow> 'k engine \<Rightarrow> 'k engine \<Rightarrow> bool" where
  "buffer_flushed Log K e e' \<longleftrightarrow> content K e' = content K e \<and> store_ok Log K e' \<and> en_sessions e' = []
     \<and> en_chan e' = en_chan e \<and> en_recovering e' = en_recovering e \<and> en_config e' = en_config e
     \<and> (\<forall>m k. room Log (length (session_spans e) + m) (k + 2) e \<longrightarrow> room Log m k e')
     \<and> (fs_tape (db_meta (en_db e)) = [] \<longrightarrow> fs_tape (db_meta (en_db e')) = [] \<and> (listed K (en_db e) \<longrightarrow> listed K (en_db e')))"

lemma flushed_buffer:
  assumes "flushed Log K (session_spans e) (e\<lparr>en_sessions := [], en_count := 0\<rparr>) e'"
  shows "buffer_flushed Log K e e'"
proof -
  let ?e = "e\<lparr>en_sessions := [], en_count := 0\<rparr>"
  have "queue ?e = en_chan e" by (simp add: queue_def session_spans_def)
  with apply_flushed [OF assms] have "content K e' = content K e" by (simp add: content_def queue_def)
  with assms flushed_frame [OF assms] show ?thesis by (simp add: buffer_flushed_def flushed_def)
qed

lemma flushAll_content:
  assumes K: "kv_store K" and ok: "store_ok Log K e" and fit: "seg_fits (map ps_span (session_spans e))"
    and room: "room Log (length (session_spans e)) 2 e" and F: "flushAllSessions Log K now e = (Inr (), e')"
  shows "buffer_flushed Log K e e'"
proof (rule flushed_buffer)
  let ?e = "e\<lparr>en_sessions := [], en_count := 0\<rparr>"
  show "flushed Log K (session_spans e) ?e e'"
  proof (cases "session_spans e = []")
    case True
    with F have "e' = ?e" by (simp add: flushAllSessions_def take_all_state)
    with ok True show ?thesis by (auto simp: flushed_def apply_spans_def intro: room_mono)
  next
    case False
    with F have "writeSegmentBatch Log K now (session_spans e) ?e = (Inr (), e')"
      by (simp add: flushAllSessions_def take_all_state)
    then show ?thesis using ok room fit by (intro writeSegmentBatch_flushed [OF K]) simp_all
  qed
qed

text \<open>The same for the sessions that timed out; the others stay in the buffer.\<close>

lemma flushExpired_content:
  assumes K: "kv_store K" and ok: "store_ok Log K e" and ses: "sessions_ok e"
    and T: "take_expired now e = (spans, e1)" and fit: "seg_fits (map ps_span spans)"
    and room: "room Log (length spans) 2 e" and W: "writeSegmentBatch Log K now spans e1 = (Inr (), e')"
  shows "content K e' = content K e \<and> store_ok Log K e' \<and> en_sessions e' = en_sessions e1"
proof -
  obtain ss n where e1: "e1 = e\<lparr>en_sessions := ss, en_count := n\<rparr>" using T by (auto simp: take_expired_def Let_def)
  have "flushed Log K spans e1 e'"
    using ok room by (intro writeSegmentBatch_flushed [OF K _ fit _ W]) (simp_all add: e1)
  moreover have "apply_spans (map ps_span (spans @ queue e1)) (view K (en_db e1)) = content K e"
    unfolding content_def take_expired_key_in(2) [OF T ses] by (rule apply_key_in) (rule take_expired_key_in(1) [OF T ses])
  ultimately show ?thesis using apply_flushed [of Log K spans e1 e'] flushed_frame [of Log K spans e1 e'] by (simp add: flushed_def)
qed

end
