(* ===== verification/Engine_Calm.thy ===== *)
theory Engine_Calm
  imports Engine_Flush
begin

text \<open>
  The engine without failures: every operation of the write path succeeds, so that a flush puts
  everything that was acknowledged into the store.
\<close>

section \<open>An empty schedule stays empty\<close>

lemma open_reader_tape: "OpenReader i segs = (r, segs') \<Longrightarrow> fs_tape segs = [] \<Longrightarrow> fs_tape segs' = []"
  by (auto simp: OpenReader_def open_with_def fs_fault_nil split: option.splits)

lemma scanSegment_tape:
  assumes "scanSegment i f s segs = (r, segs')" "fs_tape segs = []"
  shows "fs_tape segs' = []"
proof -
  obtain r1 segs1 where o: "OpenReader i segs = (r1, segs1)" by fastforce
  with assms open_reader_tape [OF o] show ?thesis
    by (cases r1) (auto simp: scanSegment_def scan_reader_def fs_fault_nil Let_def split: prod.splits sum.splits option.splits)
qed

lemma compact_scan_tape: "compact_scan K ids st segs = (r, segs') \<Longrightarrow> fs_tape segs = [] \<Longrightarrow> fs_tape segs' = []"
proof (induction ids arbitrary: st segs)
  case (Cons i ids)
  obtain r1 segs1 where s: "scanSegment i (compact_visit K i) st segs = (r1, segs1)" by fastforce
  with Cons scanSegment_tape [OF s] show ?case by (cases r1) auto
qed simp

lemma seg_Flush_tape: "seg_Flush Log i spans segs = (r, segs') \<Longrightarrow> fs_tape segs = [] \<Longrightarrow> fs_tape segs' = []"
  by (auto simp: seg_Flush_def seg_write_file_def seg_cleanup_def fs_fault_nil Let_def case_prod_beta split: option.splits if_splits)

lemma remove_attempts_tape: "remove_attempts n p segs = (b, segs') \<Longrightarrow> fs_tape segs = [] \<Longrightarrow> fs_tape segs' = []"
  by (cases n) (auto simp: fs_fault_nil)

lemma unlink_all_tape: "unlink_all ids segs = (r, segs') \<Longrightarrow> fs_tape segs = [] \<Longrightarrow> fs_tape segs' = []"
proof (induction ids arbitrary: segs)
  case (Cons i ids)
  obtain b segs1 where s: "removeWithRetry (SegmentPath i) segs = (b, segs1)" by fastforce
  then have "fs_tape segs1 = []" using remove_attempts_tape Cons.prems(2) by (auto simp: removeWithRetry_def)
  with Cons s show ?case by (cases b) auto
qed simp

lemma unlink_old_tape: "unlink_old ids db = (r, db') \<Longrightarrow> fs_tape (db_segs db) = [] \<Longrightarrow> fs_tape (db_segs db') = []"
  using unlink_all_tape [of ids "db_segs db"]
  by (auto simp: unlink_old_def purgeAndUnlink_def fs_fault_nil split: prod.splits if_splits)

lemma compact_commit_tape:
  "compact_commit K dels w db = (r, db') \<Longrightarrow> fs_tape (db_segs db) = [] \<Longrightarrow> fs_tape (db_segs db') = []"
  by (auto simp: compact_commit_def rbind_def removeOrphan_def fs_fault_nil split: if_splits prod.splits sum.splits option.splits)

lemma Compact_tape:
  assumes "Compact Log K ids new db = (res, db')" "fs_tape (db_segs db) = []"
  shows "fs_tape (db_segs db') = []"
proof -
  obtain r1 segs1 where sc: "compact_scan K ids (scan_start (db_index db)) (db_segs db) = (r1, segs1)" by fastforce
  have t1: "fs_tape segs1 = []" using compact_scan_tape [OF sc assms(2)] .
  show ?thesis
  proof (cases "ids = [] \<or> (\<exists>e. r1 = Inl e)")
    case True
    with assms sc t1 show ?thesis by (auto simp: Compact_def split: if_splits)
  next
    case False
    then obtain t where t: "r1 = Inr t" "ids \<noteq> []" by (cases r1) auto
    obtain r2 segs2 where wr: "compact_write Log new (sc_survivors t) segs1 = (r2, segs2)" by fastforce
    then have t2: "fs_tape segs2 = []"
      using t1 seg_Flush_tape [of Log new "sc_survivors t" segs1] by (auto simp: compact_write_def split: if_splits prod.splits sum.splits)
    show ?thesis
    proof (cases r2)
      case (Inl e)
      with assms sc t wr t2 show ?thesis by (auto simp: Compact_def)
    next
      case (Inr w)
      obtain r3 db3 where cm: "compact_commit K (sc_reclaim t) w (db\<lparr>db_index := sc_index t, db_segs := segs2\<rparr>) = (r3, db3)" by fastforce
      have t3: "fs_tape (db_segs db3) = []" using compact_commit_tape [OF cm] t2 by simp
      show ?thesis
      proof (cases r3)
        case (Inl e)
        with assms sc t wr Inr cm t3 show ?thesis by (auto simp: Compact_def)
      next
        case (Inr u)
        obtain r4 db4 where sw: "swap_manifest ids (case w of None \<Rightarrow> [] | Some wr \<Rightarrow> [wr_SegmentID wr]) db3 = (r4, db4)" by fastforce
        have t4: "fs_tape (db_segs db4) = []" using swap_manifest_same [OF sw] t3 by simp
        obtain r5 db5 where un: "unlink_old ids db4 = (r5, db5)" by fastforce
        have "db' = db4 \<or> db' = db5"
          using assms(1) sc t wr \<open>r2 = Inr w\<close> cm Inr sw un by (cases r4; cases r5) (auto simp: Compact_def)
        with t4 unlink_old_tape [OF un t4] show ?thesis by auto
      qed
    qed
  qed
qed

lemma maybeCompact_tape:
  assumes "fs_tape (db_segs (en_db e)) = []"
  shows "fs_tape (db_segs (en_db (maybeCompactLocked Log K e))) = []"
proof -
  obtain l e1 where l: "on_meta EngManifest (manifest_Load (db_manifest (en_db e))) e = (l, e1)" by fastforce
  then have "db_segs (en_db e1) = db_segs (en_db e)" by (auto simp: on_meta_def split: prod.splits)
  moreover have "fs_tape (db_segs (snd (Compact Log K ids new db))) = []" if "fs_tape (db_segs db) = []" for ids new and db :: "'a db"
    using Compact_tape [OF surjective_pairing that] .
  ultimately show ?thesis using assms l by (auto simp: maybeCompactLocked_def Let_def split: sum.splits)
qed

section \<open>Success\<close>

definition calm :: "'k engine \<Rightarrow> bool" where
  "calm e \<longleftrightarrow> fs_tape (db_segs (en_db e)) = [] \<and> fs_tape (db_meta (en_db e)) = [] \<and> quiet (en_wal e)"

lemma flush_windows_calm:
  "fs_tape st = [] \<Longrightarrow> \<exists>st'. flush_windows ws st = (Inr (), st') \<and> fs_tape st' = []"
proof (induction ws arbitrary: st)
  case (Cons w ws)
  obtain name wsize store where w: "w = (name, wsize, store)" by (cases w)
  show ?case
  proof (cases "GetAllBuckets store = []")
    case True
    with Cons w show ?thesis by simp
  next
    case False
    obtain st1 where "rollup_Flush name wsize (GetAllBuckets store) st = (Inr (), st1)" "fs_tape st1 = []"
      using rollup_Flush_quiet [OF Cons.prems False] by blast
    with Cons w False show ?thesis by simp
  qed
qed simp

lemma flushRollups_calm:
  assumes "fs_tape (db_segs (en_db e)) = []"
  shows "\<exists>e'. flushRollups now e = (Inr (), e') \<and> fs_tape (db_segs (en_db e')) = []"
proof -
  let ?e = "e\<lparr>en_rollups := evict_all (now - cf_RetentionPeriod (en_config e)) (en_rollups e)\<rparr>"
  obtain st' where "flush_windows (manager_windows (en_rollups ?e)) (db_segs (en_db ?e)) = (Inr (), st')" "fs_tape st' = []"
    using flush_windows_calm [of "db_segs (en_db ?e)"] assms by auto
  then show ?thesis by (simp add: flushRollups_def on_segs_def Let_def)
qed

lemma manifest_add_quiet:
  assumes "fs_tape st = []" "manifest_ids p st = Inr ids"
  shows "\<exists>st'. manifest_AddSegment p i st = (Inr (), st') \<and> fs_tape st' = []"
  using manifest_quiet(1) [OF assms(1), of p "ids @ [i]"] manifest_quiet(2) [OF assms(1), of p] assms
  by (auto simp: manifest_AddSegment_def)

lemma checkpoint_quiet: "fs_tape st = [] \<Longrightarrow> \<exists>st'. checkpoint_Save c i st = (Inr (), st') \<and> fs_tape st' = []"
  using replace_file_quiet [of st "c @ ''.tmp''" c "put_u64 i"] by (auto simp: checkpoint_Save_def)

lemma commit_calm:
  assumes K: "kv_store K" and ok: "store_ok Log K e" and fit: "batch_storable Log spans e"
    and q: "fs_tape (db_segs (en_db e)) = []" "fs_tape (db_meta (en_db e)) = []"
  shows "\<exists>wrote e'. commit_batch Log K now spans e = (Inr wrote, e') \<and> fs_tape (db_segs (en_db e')) = []
    \<and> fs_tape (db_meta (en_db e')) = []"
proof -
  have I: "idx_ok K (db_index (en_db e))" "ix_tape (db_index (en_db e)) = []"
    using ok by (simp_all add: store_ok_def db_ok_def entries_ok_def)
  show ?thesis
  proof (cases "live_spans (dedupe spans) = []")
    case True
    obtain ix' where ix: "idx_BatchApplySpans K [] (tombstone_keys (dedupe spans)) (db_index (en_db e)) = (Inr (), ix')"
      using idx_batch_quiet [OF K I] by blast
    let ?e1 = "e\<lparr>en_db := (en_db e)\<lparr>db_index := ix'\<rparr>\<rparr>"
    obtain e2 where e2: "flushRollups now ?e1 = (Inr (), e2)" "fs_tape (db_segs (en_db e2)) = []"
      using flushRollups_calm [of ?e1 now] q by auto
    from flushRollups_same [OF e2(1), of Log K] q(2) have "fs_tape (db_meta (en_db e2)) = []" by simp
    with e2 True ix show ?thesis by (intro exI [of _ False]) (simp add: commit_batch_def on_index_def)
  next
    case False
    let ?live = "live_spans (dedupe spans)"
    have st: "sizing_ok Log (length ?live)" using fit False by (simp add: batch_storable_def storable_def)
    have free: "dir_get (fs_dir (db_segs (en_db e))) (SegmentPath (en_next e)) = None"
      using ok by (simp add: store_ok_def unused_from_def)
    obtain w segs' where w: "seg_Flush Log (en_next e) ?live (db_segs (en_db e)) = (Inr w, segs')" "fs_tape segs' = []"
      using seg_Flush_quiet [OF q(1) False free st] by blast
    obtain ix' where ix: "idx_BatchApplySpans K (index_entries w ?live) (tombstone_keys (dedupe spans)) (db_index (en_db e)) = (Inr (), ix')"
      using idx_batch_quiet [OF K I] by blast
    obtain ids where "manifest_ids (db_manifest (en_db e)) (db_meta (en_db e)) = Inr ids"
      using ok by (auto simp: store_ok_def manifest_holds_def)
    then obtain m1 where m1: "manifest_AddSegment (db_manifest (en_db e)) (wr_SegmentID w) (db_meta (en_db e)) = (Inr (), m1)" "fs_tape m1 = []"
      using manifest_add_quiet [OF q(2)] by blast
    obtain m2 where m2: "checkpoint_Save (en_checkpoint e) (wr_SegmentID w) m1 = (Inr (), m2)" "fs_tape m2 = []"
      using checkpoint_quiet [OF m1(2)] by blast
    let ?e = "e\<lparr>en_db := (en_db e)\<lparr>db_segs := segs', db_index := ix', db_meta := m2\<rparr>\<rparr>"
    obtain e' where e': "flushRollups now ?e = (Inr (), e')" "fs_tape (db_segs (en_db e')) = []"
      using flushRollups_calm [of ?e now] w(2) by auto
    from flushRollups_same [OF e'(1), of Log K] m2(2) have "fs_tape (db_meta (en_db e')) = []" by simp
    moreover have "commit_batch Log K now spans e = (Inr True, e')"
      using False w ix m1 m2 e'(1) by (simp add: commit_batch_def on_segs_def on_index_def on_meta_def Let_def)
    ultimately show ?thesis using e'(2) by blast
  qed
qed

text \<open>A flush of a batch: it succeeds, the schedules stay empty, and the log is one segment further.\<close>

lemma writeSegmentBatch_calm:
  assumes K: "kv_store K" and ok: "store_ok Log K e" and fit: "seg_fits (map ps_span spans)"
    and room: "room Log (length spans) 2 e" and calm: "calm e" and seg: "wal_segmentID (en_wal e) \<noteq> - 1"
  shows "\<exists>e'. writeSegmentBatch Log K now spans e = (Inr (), e') \<and> calm e' \<and> flushed Log K spans e e'
    \<and> wal_segmentID (en_wal e') = wal_segmentID (en_wal e) + 1"
proof -
  obtain w1 where w1: "Rotate (en_wal e) = (Inr (wal_segmentID (en_wal e)), w1)" "quiet w1"
    "wal_segmentID w1 = wal_segmentID (en_wal e) + 1"
    using rotate_quiet [OF _ seg] calm by (auto simp: calm_def)
  let ?e1 = "e\<lparr>en_wal := w1\<rparr>"
  have ok1: "store_ok Log K ?e1" using ok by (simp add: store_ok_def)
  have fit1: "batch_storable Log spans ?e1" using batch_storable_small [OF fit room] by (simp add: batch_storable_def)
  obtain wrote e2 where e2: "commit_batch Log K now spans ?e1 = (Inr wrote, e2)" "fs_tape (db_segs (en_db e2)) = []"
    "fs_tape (db_meta (en_db e2)) = []"
    using commit_calm [OF K ok1 fit1, of now] calm unfolding calm_def by auto
  have "batch_fits Log ?e1 spans" using ok1 fit1 by (simp add: batch_fits_def batch_storable_def store_ok_def unused_from_def)
  then have "same_rest ?e1 e2" using commit_batch_view [OF K _ _ e2(1)] ok1 by (simp add: store_ok_def)
  then have wal2: "en_wal e2 = w1" by (simp add: same_rest_def)
  obtain e3 where e3: "releaseWALPending spans e2 = (Inr (), e3)" "quiet (en_wal e3)"
    "wal_segmentID (en_wal e3) = wal_segmentID w1" "en_db e3 = en_db e2"
  proof -
    obtain b e2' where b: "release_batch spans e2 = (b, e2')" "en_wal e2' = w1" "en_db e2' = en_db e2"
      using wal2 by (auto simp: release_batch_def Let_def)
    show ?thesis
    proof (cases b)
      case None
      with b w1(2) that [of e2'] show ?thesis by (simp add: releaseWALPending_def reclaim_def)
    next
      case (Some x)
      obtain w2 where w2: "RemoveSegmentsUpTo x w1 = (Inr (), w2)" "quiet w2" using remove_quiet [OF w1(2)] by blast
      have "wal_segmentID w2 = wal_segmentID w1" using remove_ok [OF _ w2(1)] w1(2) by (simp add: quiet_def wal_same_def)
      with b Some w2 that [of "e2'\<lparr>en_wal := w2\<rparr>"] show ?thesis by (simp add: releaseWALPending_def reclaim_def on_wal_def)
    qed
  qed
  let ?e = "if wrote then maybeCompactLocked Log K (e3\<lparr>en_next := en_next e3 + 1\<rparr>) else e3"
  have W: "writeSegmentBatch Log K now spans e = (Inr (), ?e)"
    using w1(1) e2(1) e3(1) by (simp add: writeSegmentBatch_def on_wal_def)
  have F: "flushed Log K spans e ?e" using writeSegmentBatch_flushed [OF K ok fit room W] .
  have wal: "en_wal (maybeCompactLocked Log K x) = en_wal x" for x :: "'a engine"
    by (auto simp: maybeCompactLocked_def on_meta_def Let_def split: sum.splits prod.splits)
  have "fs_tape (db_meta (en_db ?e)) = []" using F calm by (simp add: flushed_def calm_def)
  then have "calm ?e" using e3 e2(2) maybeCompact_tape [of "e3\<lparr>en_next := en_next e3 + 1\<rparr>" Log K] by (simp add: calm_def wal)
  with W F e3(3) w1(3) show ?thesis by (intro exI [of _ ?e]) (simp add: wal)
qed

section \<open>Draining the channel and flushing\<close>

text \<open>Room for \<open>n\<close> flushes of everything that is queued.\<close>

definition flush_ready :: "(f64 \<Rightarrow> f64) \<Rightarrow> 'k kv \<Rightarrow> nat \<Rightarrow> 'k engine \<Rightarrow> bool" where
  "flush_ready Log K n e \<longleftrightarrow> store_ok Log K e \<and> sessions_ok e \<and> calm e \<and> seg_fits (map ps_span (queue e))
     \<and> room Log (length (queue e)) (2 * n) e \<and> unat (wal_segmentID (en_wal e)) + n < 2 ^ 64"

lemma flushAll_calm:
  assumes K: "kv_store K" and ready: "flush_ready Log K (Suc n) e"
  shows "\<exists>e'. flushAllSessions Log K now e = (Inr (), e') \<and> buffer_flushed Log K e e' \<and> flush_ready Log K n e'"
proof -
  let ?e = "e\<lparr>en_sessions := [], en_count := 0\<rparr>"
  have ok: "store_ok Log K e" "sessions_ok e" "calm e" "seg_fits (map ps_span (session_spans e @ en_chan e))"
    "room Log (length (session_spans e) + length (en_chan e)) (2 * n + 2) e" "unat (wal_segmentID (en_wal e)) + Suc n < 2 ^ 64"
    using ready by (simp_all add: flush_ready_def queue_def)
  have fit: "seg_fits (map ps_span (session_spans e))" using ok(4) by (auto simp: seg_fits_def)
  have room: "room Log (length (session_spans e)) 2 e" using room_mono [OF ok(5)] by simp
  have "\<exists>e'. flushAllSessions Log K now e = (Inr (), e') \<and> calm e'
      \<and> unat (wal_segmentID (en_wal e')) \<le> Suc (unat (wal_segmentID (en_wal e)))"
  proof (cases "session_spans e = []")
    case True
    then show ?thesis using ok(3) by (auto simp: flushAllSessions_def take_all_state calm_def)
  next
    case False
    have "wal_segmentID (en_wal ?e) \<noteq> - 1" using ok(6) u64_not_max [of "wal_segmentID (en_wal e)"] by simp
    moreover have "calm ?e" using ok(3) by (simp add: calm_def)
    ultimately obtain e' where e': "writeSegmentBatch Log K now (session_spans e) ?e = (Inr (), e')" "calm e'"
      "wal_segmentID (en_wal e') = wal_segmentID (en_wal ?e) + 1"
      using writeSegmentBatch_calm [OF K, of Log ?e "session_spans e" now] ok(1) fit room by auto
    moreover have "unat (wal_segmentID (en_wal e) + 1) = Suc (unat (wal_segmentID (en_wal e)))"
      using unat_suc [of "wal_segmentID (en_wal e)"] ok(6) by simp
    ultimately show ?thesis using False by (auto simp: flushAllSessions_def take_all_state)
  qed
  then obtain e' where e': "flushAllSessions Log K now e = (Inr (), e')" "calm e'"
      "unat (wal_segmentID (en_wal e')) \<le> Suc (unat (wal_segmentID (en_wal e)))" by blast
  have B: "buffer_flushed Log K e e'" using flushAll_content [OF K ok(1) fit room e'(1)] .
  have "queue e' = en_chan e" using B by (simp add: buffer_flushed_def queue_def session_spans_def)
  then have "flush_ready Log K n e'"
    using B ok e'(2,3) by (auto simp: flush_ready_def buffer_flushed_def sessions_ok_def seg_fits_def)
  with e'(1) B show ?thesis by blast
qed

lemma ingest_one_calm:
  assumes K: "kv_store K" and ready: "flush_ready Log K (Suc n) e" and c: "en_chan e = ps # rest"
  shows "flush_ready Log K n (ingest_one Log K now e) \<and> content K (ingest_one Log K now e) = content K e
    \<and> en_chan (ingest_one Log K now e) = rest"
proof -
  let ?e = "buffer_span now ps (e\<lparr>en_chan := rest\<rparr>)"
  have ses: "sessions_ok e" and free: "sep_free (TraceID (ps_span ps))"
    using ready c by (auto simp: flush_ready_def sessions_ok_def)
  have ses': "sessions_ok (e\<lparr>en_chan := rest\<rparr>)" using ses c by (simp add: sessions_ok_def)
  note C = content_buffer(1) [OF ses c, where K = K and now = now] content_buffer(2) [OF ses c, where now = now]
  have ms: "mset (queue ?e) = mset (queue e)"
    using session_bucket(3) [OF ses' free, of now] c by (simp add: queue_def session_spans_def)
  have store: "store_ok Log K ?e = store_ok Log K e" "room Log m k ?e = room Log m k e" "calm ?e = calm e" for m k
    by (simp_all add: store_ok_def room_def calm_def)
  have ready': "flush_ready Log K (Suc n) ?e"
    using ready C(2) store mset_eq_length [OF ms] mset_eq_setD [OF ms] by (simp add: flush_ready_def seg_fits_def)
  show ?thesis
  proof (cases "cf_SegmentFlushThreshold (en_config ?e) \<le> en_count ?e \<and> \<not> en_recovering ?e")
    case True
    obtain e' where e': "flushAllSessions Log K now ?e = (Inr (), e')" "buffer_flushed Log K ?e e'" "flush_ready Log K n e'"
      using flushAll_calm [OF K ready', of now] by blast
    then have "ingest_one Log K now e = e'" using True c by (simp add: ingest_one_def processSpan_def Let_def)
    with e' C(1) show ?thesis by (simp add: buffer_flushed_def)
  next
    case False
    then have "ingest_one Log K now e = ?e" using c by (auto simp: ingest_one_def processSpan_def Let_def)
    moreover have "flush_ready Log K n ?e" using ready' by (auto simp: flush_ready_def elim: room_mono)
    ultimately show ?thesis using C(1) by simp
  qed
qed

lemma drain_calm:
  assumes "kv_store K" "flush_ready Log K (n + m) e" "length (en_chan e) = n"
  shows "flush_ready Log K m (drain Log K now n e) \<and> content K (drain Log K now n e) = content K e \<and> en_chan (drain Log K now n e) = []"
  using assms(2,3)
proof (induction n arbitrary: e)
  case (Suc n)
  then obtain ps rest where "en_chan e = ps # rest" by (cases "en_chan e") auto
  with ingest_one_calm [OF assms(1), of Log "n + m" e] Suc show ?case by simp
qed simp

text \<open>A flush of the engine: everything acknowledged ends up in the store.\<close>

lemma engine_Flush_calm:
  assumes K: "kv_store K" and ready: "flush_ready Log K (length (en_chan e) + 1) e"
  shows "\<exists>e'. engine_Flush Log K now e = (Inr (), e') \<and> view K (en_db e') = content K e \<and> content K e' = content K e
    \<and> queue e' = [] \<and> store_ok Log K e' \<and> calm e'"
proof -
  let ?e = "WaitForIngest Log K now e"
  have D: "flush_ready Log K (Suc 0) ?e" "content K ?e = content K e" "en_chan ?e = []"
    using drain_calm [OF K, of Log _ 1 e now] ready by (simp_all add: WaitForIngest_def)
  obtain e' where e': "flushAllSessions Log K now ?e = (Inr (), e')" "buffer_flushed Log K ?e e'" "flush_ready Log K 0 e'"
    using flushAll_calm [OF K D(1), of now] by blast
  have q: "queue e' = []" using e'(2) D(3) by (simp add: buffer_flushed_def queue_def session_spans_def)
  then have "content K e' = view K (en_db e')" by (simp add: content_def apply_spans_def)
  with e' q D(2) show ?thesis by (simp add: engine_Flush_def buffer_flushed_def flush_ready_def)
qed

end
