(* ===== verification/Engine_Loops.thy ===== *)
theory Engine_Loops
  imports Engine_Calm
begin

text \<open>
  The background goroutines of \<^verbatim>\<open>internal/engine/engine.go\<close>: the ingest loop, the flush of idle
  sessions, the snapshot of the rollups, compaction and expiry. Their critical sections interleave.
  As long as batches are written in the order they were taken, the content stays, except that
  expiry may take away spans from before its cutoff. Then what the shutdown leaves on disk.
\<close>

section \<open>The loops\<close>

text \<open>
  What the \<^verbatim>\<open>select\<close> of a loop sees: the context is done, or a tick (for the ingest loop, a span in
  the channel); with the clock its body reads.
\<close>

datatype turn = Stopped | Tick i64

fun ticker_loop :: "(i64 \<Rightarrow> 'e \<Rightarrow> 'e) \<Rightarrow> turn list \<Rightarrow> 'e \<Rightarrow> 'e" where
  "ticker_loop body [] e = e"
| "ticker_loop body (Stopped # turns) e = e"
| "ticker_loop body (Tick now # turns) e = ticker_loop body turns (body now e)"

definition maybeCompact :: "(f64 \<Rightarrow> f64) \<Rightarrow> 'k kv \<Rightarrow> 'k engine \<Rightarrow> 'k engine" where
  "maybeCompact Log K e = maybeCompactLocked Log K e"

definition maybeExpire :: "'k kv \<Rightarrow> i64 \<Rightarrow> 'k engine \<Rightarrow> 'k engine" where
  "maybeExpire K now e = maybeExpireLocked K now e"

definition ingestLoop :: "(f64 \<Rightarrow> f64) \<Rightarrow> 'k kv \<Rightarrow> turn list \<Rightarrow> 'k engine \<Rightarrow> 'k engine" where
  "ingestLoop Log K = ticker_loop (\<lambda>now e. ingest_one Log K now e)"

definition segmentFlushLoop :: "(f64 \<Rightarrow> f64) \<Rightarrow> 'k kv \<Rightarrow> turn list \<Rightarrow> 'k engine \<Rightarrow> 'k engine" where
  "segmentFlushLoop Log K = ticker_loop (\<lambda>now e. flushExpiredSessions Log K now e)"

definition rollupSnapshotLoop :: "turn list \<Rightarrow> 'k engine \<Rightarrow> 'k engine" where
  "rollupSnapshotLoop = ticker_loop (\<lambda>now e. snd (flushRollups now e))"

definition compactionLoop :: "(f64 \<Rightarrow> f64) \<Rightarrow> 'k kv \<Rightarrow> turn list \<Rightarrow> 'k engine \<Rightarrow> 'k engine" where
  "compactionLoop Log K = ticker_loop (\<lambda>now e. maybeExpire K now (maybeCompact Log K e))"

section \<open>Their critical sections\<close>

text \<open>
  A flush takes its batch out of the session buffer under \<^verbatim>\<open>sessionMu\<close> and writes it later under
  \<^verbatim>\<open>flushMu\<close>. In between the batch is in the hands of its goroutine: \<open>cw_taken\<close>, oldest first.
\<close>

record 'k crew =
  cw_engine :: "'k engine"
  cw_taken :: "pending_span list list"

datatype job = Receive i64 | TakeAll | TakeIdle i64 | WriteTaken nat i64 | SnapshotRollups i64 | MergeSegments | ExpireSegments i64

definition receive_span :: "i64 \<Rightarrow> 'k engine \<Rightarrow> 'k engine" where
  "receive_span now e = (case en_chan e of [] \<Rightarrow> e | ps # rest \<Rightarrow> buffer_span now ps (e\<lparr>en_chan := rest\<rparr>))"

definition hold_batch :: "pending_span list \<times> 'k engine \<Rightarrow> 'k crew \<Rightarrow> 'k crew" where
  "hold_batch t c = c\<lparr>cw_engine := snd t, cw_taken := cw_taken c @ (if fst t = [] then [] else [fst t])\<rparr>"

definition write_taken :: "(f64 \<Rightarrow> f64) \<Rightarrow> 'k kv \<Rightarrow> nat \<Rightarrow> i64 \<Rightarrow> 'k crew \<Rightarrow> 'k crew" where
  "write_taken Log K n now c =
     (if n < length (cw_taken c)
      then c\<lparr>cw_engine := snd (writeSegmentBatch Log K now (cw_taken c ! n) (cw_engine c)),
             cw_taken := take n (cw_taken c) @ drop (Suc n) (cw_taken c)\<rparr>
      else c)"

definition on_crew :: "('k engine \<Rightarrow> 'k engine) \<Rightarrow> 'k crew \<Rightarrow> 'k crew" where
  "on_crew f c = c\<lparr>cw_engine := f (cw_engine c)\<rparr>"

fun run_job :: "(f64 \<Rightarrow> f64) \<Rightarrow> 'k kv \<Rightarrow> job \<Rightarrow> 'k crew \<Rightarrow> 'k crew" where
  "run_job Log K (Receive now) c = on_crew (receive_span now) c"
| "run_job Log K TakeAll c = hold_batch (take_all (cw_engine c)) c"
| "run_job Log K (TakeIdle now) c = hold_batch (take_expired now (cw_engine c)) c"
| "run_job Log K (WriteTaken n now) c = write_taken Log K n now c"
| "run_job Log K (SnapshotRollups now) c = on_crew (\<lambda>e. snd (flushRollups now e)) c"
| "run_job Log K MergeSegments c = on_crew (maybeCompact Log K) c"
| "run_job Log K (ExpireSegments now) c = on_crew (maybeExpire K now) c"

definition run_jobs :: "(f64 \<Rightarrow> f64) \<Rightarrow> 'k kv \<Rightarrow> job list \<Rightarrow> 'k crew \<Rightarrow> 'k crew" where
  "run_jobs Log K jobs c = fold (run_job Log K) jobs c"

lemma run_jobs_simps [simp]:
  "run_jobs Log K [] c = c" "run_jobs Log K (j # jobs) c = run_jobs Log K jobs (run_job Log K j c)"
  "run_jobs Log K (jobs @ jobs') c = run_jobs Log K jobs' (run_jobs Log K jobs c)"
  by (simp_all add: run_jobs_def)

text \<open>What a flush, a turn of the ingest loop and the other bodies do is a schedule of these jobs.\<close>

definition idle_crew :: "'k engine \<Rightarrow> 'k crew" where
  "idle_crew e = \<lparr>cw_engine = e, cw_taken = []\<rparr>"

lemma flush_jobs:
  "run_jobs Log K [TakeAll, WriteTaken 0 now] (idle_crew e) = idle_crew (snd (flushAllSessions Log K now e))"
  "run_jobs Log K [TakeIdle now, WriteTaken 0 now] (idle_crew e) = idle_crew (flushExpiredSessions Log K now e)"
  by (simp_all add: idle_crew_def hold_batch_def write_taken_def flushAllSessions_def flushExpiredSessions_def split: prod.splits)

lemma ingest_jobs:
  "idle_crew (ingest_one Log K now e) = run_jobs Log K [Receive now] (idle_crew e)
    \<or> idle_crew (ingest_one Log K now e) = run_jobs Log K [Receive now, TakeAll, WriteTaken 0 now] (idle_crew e)"
proof (cases "en_chan e")
  case Nil
  then show ?thesis by (simp add: ingest_one_def on_crew_def receive_span_def idle_crew_def)
next
  case (Cons ps rest)
  then have "run_jobs Log K [Receive now] (idle_crew e) = idle_crew (buffer_span now ps (e\<lparr>en_chan := rest\<rparr>))"
    by (simp add: on_crew_def receive_span_def idle_crew_def)
  with Cons flush_jobs(1) [of Log K now "buffer_span now ps (e\<lparr>en_chan := rest\<rparr>)"] show ?thesis
    by (auto simp: ingest_one_def processSpan_def Let_def)
qed

text \<open>A loop whose turns are schedules is a schedule.\<close>

lemma loop_is_schedule:
  assumes "\<And>now e. \<exists>jobs. idle_crew (body now e) = run_jobs Log K jobs (idle_crew e)"
  shows "\<exists>jobs. idle_crew (ticker_loop body turns e) = run_jobs Log K jobs (idle_crew e)"
proof (induction turns arbitrary: e)
  case Nil
  have "idle_crew e = run_jobs Log K [] (idle_crew e)" by simp
  then show ?case by (simp only: ticker_loop.simps) blast
next
  case (Cons t turns)
  show ?case
  proof (cases t)
    case Stopped
    have "idle_crew e = run_jobs Log K [] (idle_crew e)" by simp
    then show ?thesis unfolding Stopped ticker_loop.simps by blast
  next
    case (Tick now)
    obtain js where js: "idle_crew (body now e) = run_jobs Log K js (idle_crew e)" using assms by blast
    obtain js' where "idle_crew (ticker_loop body turns (body now e)) = run_jobs Log K js' (idle_crew (body now e))" using Cons.IH by blast
    then have "idle_crew (ticker_loop body (t # turns) e) = run_jobs Log K (js @ js') (idle_crew e)" by (simp add: Tick js)
    then show ?thesis by blast
  qed
qed

lemma loops_are_schedules:
  "\<exists>jobs. idle_crew (ingestLoop Log K turns e) = run_jobs Log K jobs (idle_crew e)"
  "\<exists>jobs. idle_crew (segmentFlushLoop Log K turns e) = run_jobs Log K jobs (idle_crew e)"
  "\<exists>jobs. idle_crew (rollupSnapshotLoop turns e) = run_jobs Log K jobs (idle_crew e)"
  "\<exists>jobs. idle_crew (compactionLoop Log K turns e) = run_jobs Log K jobs (idle_crew e)"
proof -
  show "\<exists>jobs. idle_crew (ingestLoop Log K turns e) = run_jobs Log K jobs (idle_crew e)"
    unfolding ingestLoop_def by (rule loop_is_schedule) (use ingest_jobs in blast)
  show "\<exists>jobs. idle_crew (segmentFlushLoop Log K turns e) = run_jobs Log K jobs (idle_crew e)"
    unfolding segmentFlushLoop_def by (rule loop_is_schedule) (metis flush_jobs(2))
  have "idle_crew (snd (flushRollups now e)) = run_jobs Log K [SnapshotRollups now] (idle_crew e)" for now and e :: "'a engine"
    by (simp add: on_crew_def idle_crew_def)
  then show "\<exists>jobs. idle_crew (rollupSnapshotLoop turns e) = run_jobs Log K jobs (idle_crew e)"
    unfolding rollupSnapshotLoop_def by (intro loop_is_schedule) blast
  have "idle_crew (maybeExpire K now (maybeCompact Log K e)) = run_jobs Log K [MergeSegments, ExpireSegments now] (idle_crew e)"
    for now and e :: "'a engine" by (simp add: on_crew_def idle_crew_def)
  then show "\<exists>jobs. idle_crew (compactionLoop Log K turns e) = run_jobs Log K jobs (idle_crew e)"
    unfolding compactionLoop_def by (intro loop_is_schedule) blast
qed

section \<open>What expiry leaves\<close>

lemma expire_scan_tape:
  "expire_scan K ids cutoff st segs = (r, segs') \<Longrightarrow> fs_tape segs = [] \<Longrightarrow> fs_tape segs' = []"
proof (induction ids arbitrary: st segs r segs')
  case (Cons i ids)
  obtain o1 segs1 where op: "OpenReader i segs = (o1, segs1)" by fastforce
  have t1: "fs_tape segs1 = []" using open_reader_tape [OF op Cons.prems(2)] .
  show ?case
  proof (cases o1)
    case (Inl e)
    with op t1 Cons.prems(1) show ?thesis by simp
  next
    case (Inr rd)
    obtain r2 segs2 where sr: "scan_reader (expire_visit K i) rd st segs1 = (r2, segs2)" by fastforce
    then have t2: "fs_tape segs2 = []" using t1 by (auto simp: scan_reader_def fs_fault_nil)
    show ?thesis
    proof (cases "hd_MaxTimestamp (rd_Header rd) <s cutoff")
      case False
      with op Inr Cons t1 show ?thesis by auto
    next
      case True
      with op Inr Cons.prems(1) sr have run: "rbind (r2, segs2) (\<lambda>st segs. rbind (expire_scan K ids cutoff st segs)
          (\<lambda>(expired, st) segs. (Inr (i # expired, st), segs))) = (r, segs')" by simp
      show ?thesis
      proof (cases r2)
        case (Inl e)
        with run t2 show ?thesis by simp
      next
        case (Inr st2)
        obtain r3 segs3 where es: "expire_scan K ids cutoff st2 segs2 = (r3, segs3)" by fastforce
        with Cons.IH t2 run Inr show ?thesis by (cases r3) auto
      qed
    qed
  qed
qed simp

text \<open>How far an expiry got: it stopped before touching anything, or it reached the manifest swap.\<close>

lemma expire_commit_quiet:
  assumes K: "kv_store K" and I: "idx_ok K (db_index db)" "ix_tape (db_index db) = []"
  shows "\<exists>ix'. expire_commit K dels db = (Inr (), db\<lparr>db_index := ix'\<rparr>) \<and> ix_tape ix' = []
    \<and> idx_map K ix' = (\<lambda>k. if k \<in> set dels then None else idx_map K (db_index db) k)"
proof (cases "dels = []")
  case True
  with I show ?thesis by (intro exI [of _ "db_index db"]) (simp add: expire_commit_def)
next
  case False
  obtain ix' where "idx_BatchApplySpans K [] dels (db_index db) = (Inr (), ix')" "ix_tape ix' = []"
    "idx_map K ix' = batch_map [] dels (idx_map K (db_index db))" using idx_batch_quiet [OF K I] by blast
  with False show ?thesis by (intro exI [of _ ix']) (auto simp: expire_commit_def idx_BatchDelete_eq batch_map_def)
qed

lemma Expire_cases:
  assumes K: "kv_store K" and ok: "db_ok Log K db" and quiet: "ix_tape (db_index db) = []"
    and hold: "\<forall>i \<in> set ids. \<exists>spans. seg_holds Log (db_segs db) i spans" and X: "Expire K ids cutoff db = (res, db')"
  obtains segs' where "db' = db\<lparr>db_segs := segs'\<rparr>" "fs_dir segs' = fs_dir (db_segs db)"
      "fs_tape (db_segs db) = [] \<longrightarrow> fs_tape segs' = []"
  | old ix' segs' r where "old = filter (past (db_segs db) cutoff) ids" "fs_dir segs' = fs_dir (db_segs db)"
      "fs_tape (db_segs db) = [] \<longrightarrow> fs_tape segs' = []" "ix_tape ix' = []"
      "\<forall>k loc. idx_map K ix' k = Some loc \<longrightarrow> idx_map K (db_index db) k = Some loc \<and> loc_SegmentID loc \<notin> set old"
      "rbind (swap_manifest old [] (db\<lparr>db_segs := segs', db_index := ix'\<rparr>))
        (\<lambda>_ db. rbind (unlink_old old db) (\<lambda>_ db. (Inr r, db))) = (res, db')"
proof -
  let ?ix = "db_index db" and ?segs = "db_segs db"
  let ?old = "filter (past ?segs cutoff) ids"
  have E: "entries_ok Log K ?ix ?segs" and I: "idx_ok K ?ix" using ok by (simp_all add: db_ok_def entries_ok_def)
  obtain r1 segs1 where sc: "expire_scan K ids cutoff (scan_start ?ix) ?segs = (r1, segs1)" by fastforce
  have S: "fs_dir segs1 = fs_dir ?segs" "\<And>expired t. r1 = Inr (expired, t) \<Longrightarrow> expired = ?old \<and> sc_index t = ?ix
      \<and> sc_reclaim t = map span_key (concat (map (\<lambda>i. map snd (picked Log K ?ix ?segs i)) ?old))"
    using expire_scan_holds [OF K hold _ _ sc] I quiet by (auto simp: scan_start_def)
  have T: "fs_tape ?segs = [] \<longrightarrow> fs_tape segs1 = []" using expire_scan_tape [OF sc] by blast
  show thesis
  proof (cases "\<exists>t. r1 = Inr (?old, t) \<and> ?old \<noteq> []")
    case False
    have "db' = db\<lparr>db_segs := segs1\<rparr>"
    proof (cases r1)
      case (Inl e)
      with X sc show ?thesis by (simp add: Expire_def)
    next
      case (Inr p)
      obtain expired t where p: "p = (expired, t)" by fastforce
      with S(2) Inr False have "expired = []" "sc_index t = ?ix" by auto
      with X sc Inr p show ?thesis by (simp add: Expire_def Let_def)
    qed
    then show thesis using S(1) T by (rule that(1))
  next
    case True
    then obtain t where t: "r1 = Inr (?old, t)" "?old \<noteq> []" by blast
    note R = S(2) [OF t(1)]
    let ?db = "db\<lparr>db_index := ?ix, db_segs := segs1\<rparr>"
    have ix: "db_index ?db = ?ix" by simp
    obtain ix' where c: "expire_commit K (sc_reclaim t) ?db = (Inr (), ?db\<lparr>db_index := ix'\<rparr>)" "ix_tape ix' = []"
      "idx_map K ix' = (\<lambda>k. if k \<in> set (sc_reclaim t) then None else idx_map K ?ix k)"
      using expire_commit_quiet [OF K, of ?db "sc_reclaim t", unfolded ix, OF I quiet] by blast
    have gone: "loc_SegmentID loc \<notin> set ?old" if "idx_map K ix' k = Some loc" for k loc
    proof
      assume old: "loc_SegmentID loc \<in> set ?old"
      have k: "k \<notin> set (sc_reclaim t)" "idx_map K ?ix k = Some loc" using that by (simp_all add: c(3) split: if_splits)
      from entry_picked [OF E k(2)] old k(1) R show False by force
    qed
    have "\<forall>k loc. idx_map K ix' k = Some loc \<longrightarrow> idx_map K ?ix k = Some loc \<and> loc_SegmentID loc \<notin> set ?old"
      using gone by (auto simp: c(3) split: if_splits)
    moreover have "rbind (swap_manifest ?old [] (db\<lparr>db_segs := segs1, db_index := ix'\<rparr>)) (\<lambda>_ db. rbind (unlink_old ?old db)
        (\<lambda>_ db. (Inr \<lparr>DroppedSegmentIDs = ?old, NewSegmentID = 0, SpansDropped = sc_dropped t,
          SpansCarried = 0, SpansStale = sc_stale t\<rparr>, db))) = (res, db')"
      using X sc t R c(1) by (simp add: Expire_def Let_def)
    ultimately show thesis by (rule that(2) [OF refl S(1) T c(2)])
  qed
qed

text \<open>Without failures ahead an expiry succeeds.\<close>

lemma expire_scan_quiet:
  assumes "\<forall>i \<in> set ids. \<exists>spans. seg_holds Log (db_segs db) i spans" "fs_tape (db_segs db) = []"
  shows "\<exists>p. expire_scan K ids cutoff st (db_segs db) = (Inr p, db_segs db)"
  using assms(1)
proof (induction ids arbitrary: st)
  case (Cons i ids)
  from Cons.prems obtain spans where spans: "seg_holds Log (db_segs db) i spans" by auto
  obtain r where r: "OpenReader i (db_segs db) = (Inr r, db_segs db)" using open_reader_quiet [OF spans assms(2)] by blast
  note R = open_reader_holds [OF spans r, of "expire_visit K i" st]
  obtain p where p: "expire_scan K ids cutoff st (db_segs db) = (Inr p, db_segs db)" using Cons by (metis list.set_intros(2))
  obtain p' where p': "expire_scan K ids cutoff (scan_fold (expire_visit K i) (seg_entries Log spans) st) (db_segs db) = (Inr p', db_segs db)"
    using Cons by (metis list.set_intros(2))
  show ?case using r R p p' assms(2) by (cases p') (simp add: scan_reader_def fs_fault_nil)
qed simp

lemma unlink_old_quiet:
  assumes "fs_tape (db_segs db) = []"
  shows "\<exists>db'. unlink_old ids db = (Inr (), db')"
proof -
  have "\<exists>segs'. unlink_all ids segs = (Inr (), segs')" if "fs_tape segs = []" for segs
    using that
  proof (induction ids arbitrary: segs)
    case (Cons i ids)
    then show ?case by (simp add: removeWithRetry_def unlinkAttempts_def numeral_3_eq_3 fs_fault_nil)
  qed simp
  with assms show ?thesis by (fastforce simp: unlink_old_def purgeAndUnlink_def fs_fault_nil)
qed

lemma Expire_quiet:
  assumes K: "kv_store K" and ok: "db_ok Log K db" "ix_tape (db_index db) = []" "manifest_holds Log db"
    and ids: "manifest_ids (db_manifest db) (db_meta db) = Inr ids" and tapes: "fs_tape (db_segs db) = []" "fs_tape (db_meta db) = []"
    and X: "Expire K ids cutoff db = (res, db')"
  shows "\<exists>r. res = Inr r"
proof -
  have hold: "\<forall>i \<in> set ids. \<exists>spans. seg_holds Log (db_segs db) i spans" using ok(3) ids by (auto simp: manifest_holds_def)
  obtain expired t where sc: "expire_scan K ids cutoff (scan_start (db_index db)) (db_segs db) = (Inr (expired, t), db_segs db)"
    using expire_scan_quiet [OF hold tapes(1), of K cutoff "scan_start (db_index db)"] by (metis surj_pair)
  have I: "idx_ok K (db_index db)" using ok(1) by (simp add: db_ok_def entries_ok_def)
  have t: "sc_index t = db_index db" using expire_scan_holds [OF K hold _ _ sc] I ok(2) by (simp add: scan_start_def)
  obtain ix' where c: "expire_commit K (sc_reclaim t) db = (Inr (), db\<lparr>db_index := ix'\<rparr>)"
    using expire_commit_quiet [OF K I ok(2)] by blast
  obtain r1 db1 where sw: "swap_manifest expired [] (db\<lparr>db_index := ix'\<rparr>) = (r1, db1)" by fastforce
  note S = swap_manifest_same [OF sw] swap_manifest_ids(3) [OF sw]
  have r1: "r1 = Inr ()" using S tapes(2) ids by simp
  obtain db2 where "unlink_old expired db1 = (Inr (), db2)" using unlink_old_quiet [of db1 expired] S(1) tapes(1) by auto
  with X sc t c sw r1 show ?thesis by (auto simp: Expire_def Let_def split: if_splits)
qed

text \<open>What expiry leaves of the files, the manifest and the schedules.\<close>

definition expire_frame :: "(f64 \<Rightarrow> f64) \<Rightarrow> 'k kv \<Rightarrow> 'k db \<Rightarrow> 'k db \<Rightarrow> bool" where
  "expire_frame Log K db db' \<longleftrightarrow> db_manifest db' = db_manifest db \<and> db_purger db' = db_purger db
     \<and> manifest_holds Log db' \<and> ix_tape (db_index db') = [] \<and> stored_spans db' \<le> stored_spans db
     \<and> (\<forall>i. dir_get (fs_dir (db_segs db)) (SegmentPath i) = None \<longrightarrow> dir_get (fs_dir (db_segs db')) (SegmentPath i) = None)
     \<and> (fs_tape (db_segs db) = [] \<longrightarrow> fs_tape (db_segs db') = [])
     \<and> (fs_tape (db_meta db) = [] \<longrightarrow> fs_tape (db_meta db') = [] \<and> (listed K db \<longrightarrow> listed K db'))"

lemma expire_frame_same:
  assumes man: "manifest_holds Log db" and ids: "manifest_ids (db_manifest db) (db_meta db) = Inr ids"
    and "db_manifest db' = db_manifest db" "db_purger db' = db_purger db" "fs_dir (db_segs db') = fs_dir (db_segs db)"
    and "ix_tape (db_index db') = []" "manifest_ids (db_manifest db) (db_meta db') = Inr ids"
    and "fs_tape (db_segs db) = [] \<longrightarrow> fs_tape (db_segs db') = []"
    and "fs_tape (db_meta db) = [] \<longrightarrow> fs_tape (db_meta db') = [] \<and> (listed K db \<longrightarrow> listed K db')"
  shows "expire_frame Log K db db'"
proof -
  have "manifest_holds Log db'" by (rule manifest_holds_same [OF man]) (simp_all add: assms)
  moreover have "total_spans (db_segs db') ids = total_spans (db_segs db) ids" by (rule total_spans_same) (simp add: assms)
  then have "stored_spans db' = stored_spans db" using assms by (simp add: stored_spans_def)
  ultimately show ?thesis using assms by (simp add: expire_frame_def)
qed

lemma expire_frame_swapped:
  assumes man: "manifest_holds Log db" and ids: "manifest_ids (db_manifest db) (db_meta db) = Inr ids"
    and old: "old = filter P ids" and S: "swap_manifest old [] db1 = (Inr (), db2)" and U: "unlink_old old db2 = (x, db')"
    and db1: "db1 = db\<lparr>db_segs := segs', db_index := ix'\<rparr>" "fs_dir segs' = fs_dir (db_segs db)" "ix_tape ix' = []"
      "fs_tape (db_segs db) = [] \<longrightarrow> fs_tape segs' = []"
    and gone: "\<forall>k loc. idx_map K ix' k = Some loc \<longrightarrow> idx_map K (db_index db) k = Some loc \<and> loc_SegmentID loc \<notin> set old"
  shows "expire_frame Log K db db'"
proof -
  note M = swap_manifest_same [OF S] swap_manifest_ids [OF S] and R = unlink_old_rest [OF U]
  have path: "db_manifest db' = db_manifest db" "db_purger db' = db_purger db" "db_index db' = ix'" "db_segs db2 = segs'"
    using M R db1(1) by simp_all
  have new: "manifest_ids (db_manifest db) (db_meta db') = Inr (sort (RemoveSegments ids old))"
    using M(2) ids R db1(1) by auto
  have same: "dir_get (fs_dir (db_segs db')) (SegmentPath i) = dir_get (fs_dir (db_segs db)) (SegmentPath i)" if "i \<notin> set old" for i
    using R that path(4) db1(2) by simp
  have dist: "distinct ids" and hold: "\<forall>i \<in> set ids. \<exists>spans. seg_holds Log (db_segs db) i spans"
    using man ids by (auto simp: manifest_holds_def)
  have left: "set (RemoveSegments ids old) = set ids - set old" by (auto simp: manifest_RemoveSegments)
  have "\<exists>spans. seg_holds Log (db_segs db') i spans" if "i \<in> set ids - set old" for i
    using hold that seg_holds_same [of "db_segs db'" i "db_segs db" Log] same [of i] by auto
  moreover have "distinct (RemoveSegments ids old)" using dist by (simp add: RemoveSegments_def)
  ultimately have "manifest_holds Log db'" using new path(1) left by (simp add: manifest_holds_def)
  moreover have "total_spans (db_segs db') (sort (RemoveSegments ids old @ [])) \<le> total_spans (db_segs db) ids"
    using dist same unfolding old by (intro total_spans_merge) (auto simp: total_spans_def)
  then have "stored_spans db' \<le> stored_spans db" using new ids path(1) by (simp add: stored_spans_def)
  moreover have "dir_get (fs_dir (db_segs db')) (SegmentPath i) = None" if none: "dir_get (fs_dir (db_segs db)) (SegmentPath i) = None" for i
  proof -
    have "i \<notin> set old" using none hold by (auto simp: old dest: seg_holds_file)
    with same none show ?thesis by simp
  qed
  moreover have "fs_tape (db_segs db) = [] \<longrightarrow> fs_tape (db_segs db') = []" using unlink_old_tape [OF U] path(4) db1(4) by simp
  moreover have "listed K db'" if "listed K db"
    using that gone ids new left path by (fastforce simp: listed_def)
  moreover have "fs_tape (db_meta db) = [] \<longrightarrow> fs_tape (db_meta db') = []" using M(4) R db1(1) by simp
  ultimately show ?thesis using path db1(3) by (simp add: expire_frame_def)
qed

lemma Expire_frame:
  assumes K: "kv_store K" and ok: "db_ok Log K db" and quiet: "ix_tape (db_index db) = []" and man: "manifest_holds Log db"
    and ids: "manifest_ids (db_manifest db) (db_meta db) = Inr ids" and X: "Expire K ids cutoff db = (res, db')"
  shows "expire_frame Log K db db'"
proof -
  have hold: "\<forall>i \<in> set ids. \<exists>spans. seg_holds Log (db_segs db) i spans" using man ids by (auto simp: manifest_holds_def)
  from K ok quiet hold X show ?thesis
  proof (cases rule: Expire_cases)
    case (1 segs')
    then show ?thesis using quiet ids by (intro expire_frame_same [OF man ids]) (simp_all add: listed_def)
  next
    case (2 old ix' segs' r)
    let ?db = "db\<lparr>db_segs := segs', db_index := ix'\<rparr>"
    from 2(6) show ?thesis
    proof (cases rule: swap_unlink_cases)
      case (1 e)
      note M = swap_manifest_same [OF 1] swap_manifest_ids [OF 1]
      have "fs_tape (db_meta db) \<noteq> []" using M(4) ids by auto
      then show ?thesis using M 2 ids by (intro expire_frame_same [OF man ids]) auto
    next
      case (2 db1 x)
      show ?thesis by (rule expire_frame_swapped [OF man ids \<open>old = _\<close> 2 refl \<open>fs_dir segs' = _\<close> \<open>ix_tape ix' = []\<close>]) fact+
    qed
  qed
qed

section \<open>What a job keeps\<close>

text \<open>A content that may only lose spans from before one of some cutoffs.\<close>

definition fades :: "i64 set \<Rightarrow> (string \<Rightarrow> span_payload option) \<Rightarrow> (string \<Rightarrow> span_payload option) \<Rightarrow> bool" where
  "fades cs m m' \<longleftrightarrow> (\<forall>k. m' k = m k \<or> m' k = None \<and> (\<exists>s. m k = Some s \<and> (\<exists>c \<in> cs. Timestamp s <s c)))"

lemma fades_refl [simp]: "fades cs m m"
  by (simp add: fades_def)

lemma fades_trans: "fades cs m1 m2 \<Longrightarrow> fades ds m2 m3 \<Longrightarrow> fades (cs \<union> ds) m1 m3"
  unfolding fades_def by (metis UnI1 UnI2 option.distinct(1))

lemma fades_none [simp]: "fades {} m m' \<longleftrightarrow> m' = m"
  by (auto simp: fades_def)

lemma fades_apply: "fades cs m m' \<Longrightarrow> fades cs (apply_spans ss m) (apply_spans ss m')"
  by (auto simp: fades_def apply_spans_last split: option.splits)

lemma fades_keeps: "fades cs m m' \<Longrightarrow> m k = Some s \<Longrightarrow> \<forall>c \<in> cs. \<not> Timestamp s <s c \<Longrightarrow> m' k = Some s"
  unfolding fades_def by (metis option.inject)

lemma fades_from: "fades cs m m' \<Longrightarrow> m' k = Some s \<Longrightarrow> m k = Some s"
  unfolding fades_def by (metis option.distinct(1))

lemma Expire_fades:
  assumes K: "kv_store K" and ok: "db_ok Log K db" and quiet: "ix_tape (db_index db) = []"
    and hold: "\<forall>i \<in> set ids. \<exists>spans. seg_holds Log (db_segs db) i spans" and X: "Expire K ids cutoff db = (res, db')"
  shows "fades {cutoff} (view K db) (view K db')"
  unfolding fades_def
proof
  fix k
  let ?gone = "expired_view K db (filter (past (db_segs db) cutoff) ids)"
  have "view K db' = ?gone \<or> view K db' = view K db" using Expire_view [OF K ok quiet hold X] by (auto simp: Let_def split: sum.splits)
  moreover have "?gone k = view K db k \<or> ?gone k = None" by (simp add: expired_view_def split: option.splits)
  ultimately have "view K db' k = view K db k \<or> view K db' k = None" by fastforce
  moreover have "Timestamp s <s cutoff" if "view K db k = Some s" "view K db' k = None" for s
    using Expire_keeps_recent [OF K ok quiet hold X that(1)] that(2) by auto
  ultimately show "view K db' k = view K db k
      \<or> view K db' k = None \<and> (\<exists>s. view K db k = Some s \<and> (\<exists>c \<in> {cutoff}. Timestamp s <s c))"
    by (cases "view K db k") auto
qed

lemma maybeExpire_kept:
  assumes K: "kv_store K" and ok: "store_ok Log K e" and e'_def: "e' = maybeExpireLocked K now e"
  shows "store_ok Log K e' \<and> only_store e e' \<and> en_next e' = en_next e \<and> stored_spans (en_db e') \<le> stored_spans (en_db e)
    \<and> fades {now - cf_RetentionPeriod (en_config e)} (view K (en_db e)) (view K (en_db e'))
    \<and> (fs_tape (db_segs (en_db e)) = [] \<longrightarrow> fs_tape (db_segs (en_db e')) = [])
    \<and> (fs_tape (db_meta (en_db e)) = [] \<longrightarrow> fs_tape (db_meta (en_db e')) = [] \<and> (listed K (en_db e) \<longrightarrow> listed K (en_db e')))"
proof -
  obtain l e1 where l: "on_meta EngManifest (manifest_Load (db_manifest (en_db e))) e = (l, e1)" by fastforce
  note M = kept_manifest_read [OF ok l]
  have k1: "store_ok Log K e1" "stored_spans (en_db e1) \<le> stored_spans (en_db e)" "view K (en_db e1) = view K (en_db e)" "only_store e e1"
    "fs_tape (db_meta (en_db e)) = [] \<longrightarrow> fs_tape (db_meta (en_db e1)) = [] \<and> (listed K (en_db e) \<longrightarrow> listed K (en_db e1))"
    using M(1) by (simp_all add: kept_def)
  show ?thesis
  proof (cases "\<exists>ids. l = Inr ids \<and> ids \<noteq> []")
    case False
    then have "e' = e1" using l by (auto simp: e'_def maybeExpireLocked_def split: sum.splits)
    with k1 M(2,4) show ?thesis by simp
  next
    case True
    then obtain ids where ids: "l = Inr ids" "ids \<noteq> []" by blast
    have cfg: "en_config e1 = en_config e" using k1(4) by (simp add: only_store_def frame_def)
    obtain res db' where X: "Expire K ids (now - cf_RetentionPeriod (en_config e)) (en_db e1) = (res, db')" by fastforce
    then have e': "e' = e1\<lparr>en_db := db'\<rparr>" using l ids cfg by (simp add: e'_def maybeExpireLocked_def)
    have S: "db_ok Log K (en_db e1)" "ix_tape (db_index (en_db e1)) = []" "manifest_holds Log (en_db e1)"
      "unused_from (en_next e1) (db_segs (en_db e1))" "db_manifest (en_db e1) \<notin> {en_checkpoint e1, en_checkpoint e1 @ ''.tmp''}"
      using k1(1) by (simp_all add: store_ok_def)
    have mids: "manifest_ids (db_manifest (en_db e1)) (db_meta (en_db e1)) = Inr ids" using M(5,6) ids(1) by simp
    then have hold: "\<forall>i \<in> set ids. \<exists>spans. seg_holds Log (db_segs (en_db e1)) i spans" using S(3) by (auto simp: manifest_holds_def)
    note F = Expire_frame [OF K S(1-3) mids X] and V = Expire_view [OF K S(1,2) hold X] and D = Expire_fades [OF K S(1,2) hold X]
    have "store_ok Log K e'"
      using F V S(4,5) by (simp add: e' store_ok_def expire_frame_def unused_from_def)
    moreover have "only_store e e'" using k1(4) F by (simp add: e' only_store_def frame_def expire_frame_def)
    ultimately show ?thesis using F D k1 M(2,4) by (simp add: e' expire_frame_def)
  qed
qed

section \<open>Any interleaving of the loops\<close>

text \<open>
  The content, with the batches on their way to the store: what was taken is older than what is
  buffered or queued. An engine that is ready has no failures ahead and room for \<open>n\<close> jobs.
\<close>

definition crew_spans :: "'k crew \<Rightarrow> pending_span list" where
  "crew_spans c = concat (cw_taken c) @ queue (cw_engine c)"

definition crew_content :: "'k kv \<Rightarrow> 'k crew \<Rightarrow> string \<Rightarrow> span_payload option" where
  "crew_content K c = apply_spans (map ps_span (crew_spans c)) (view K (en_db (cw_engine c)))"

definition crew_ready :: "(f64 \<Rightarrow> f64) \<Rightarrow> 'k kv \<Rightarrow> nat \<Rightarrow> 'k crew \<Rightarrow> bool" where
  "crew_ready Log K n c \<longleftrightarrow> (let e = cw_engine c in store_ok Log K e \<and> sessions_ok e \<and> calm e
     \<and> seg_fits (map ps_span (crew_spans c)) \<and> room Log (length (crew_spans c)) (2 * n) e
     \<and> unat (wal_segmentID (en_wal e)) + n < 2 ^ 64)"

lemma crew_idle [simp]:
  "crew_ready Log K n (idle_crew e) = flush_ready Log K n e" "crew_content K (idle_crew e) = content K e"
  by (simp_all add: crew_ready_def flush_ready_def crew_content_def content_def crew_spans_def idle_crew_def Let_def)

fun job_cutoffs :: "i64 \<Rightarrow> job \<Rightarrow> i64 set" where
  "job_cutoffs retention (ExpireSegments now) = {now - retention}"
| "job_cutoffs retention j = {}"

lemma in_job_cutoffs: "c \<in> job_cutoffs r j \<longleftrightarrow> (\<exists>now. j = ExpireSegments now \<and> c = now - r)"
  by (cases j) auto

definition job_done :: "(f64 \<Rightarrow> f64) \<Rightarrow> 'k kv \<Rightarrow> nat \<Rightarrow> i64 set \<Rightarrow> 'k crew \<Rightarrow> 'k crew \<Rightarrow> bool" where
  "job_done Log K n cs c c' \<longleftrightarrow> crew_ready Log K n c' \<and> en_config (cw_engine c') = en_config (cw_engine c)
     \<and> fades cs (crew_content K c) (crew_content K c')
     \<and> (listed K (en_db (cw_engine c)) \<longrightarrow> listed K (en_db (cw_engine c')))"

lemma job_done_trans: "job_done Log K m cs c1 c2 \<Longrightarrow> job_done Log K n ds c2 c3 \<Longrightarrow> job_done Log K n (cs \<union> ds) c1 c3"
  using fades_trans by (auto simp: job_done_def)

lemma crew_readyD:
  assumes "crew_ready Log K (Suc n) c"
  shows "store_ok Log K (cw_engine c)" "sessions_ok (cw_engine c)" "calm (cw_engine c)" "seg_fits (map ps_span (crew_spans c))"
    "room Log (length (crew_spans c)) (2 * n + 2) (cw_engine c)" "unat (wal_segmentID (en_wal (cw_engine c))) + Suc n < 2 ^ 64"
  using assms by (simp_all add: crew_ready_def Let_def)

text \<open>Jobs that only move spans between channel, buffer and hands.\<close>

lemma move_done:
  assumes ready: "crew_ready Log K (Suc n) c" and keys: "\<And>k. key_in k (crew_spans c') = key_in k (crew_spans c)"
    and ms: "mset (crew_spans c') = mset (crew_spans c)" and ses: "sessions_ok (cw_engine c')"
    and same: "en_db (cw_engine c') = en_db (cw_engine c)" "en_wal (cw_engine c') = en_wal (cw_engine c)"
      "en_next (cw_engine c') = en_next (cw_engine c)" "en_config (cw_engine c') = en_config (cw_engine c)"
      "en_checkpoint (cw_engine c') = en_checkpoint (cw_engine c)"
  shows "job_done Log K n {} c c'"
proof -
  note R = crew_readyD [OF ready]
  have len: "length (crew_spans c') = length (crew_spans c)" using mset_eq_length [OF ms] .
  have "seg_fits (map ps_span (crew_spans c'))" using R(4) mset_eq_setD [OF ms] by (simp add: seg_fits_def)
  moreover have "room Log (length (crew_spans c)) (2 * n) (cw_engine c')" using R(5) same by (simp add: room_def)
  ultimately have "crew_ready Log K n c'" using R ses same by (simp add: crew_ready_def Let_def len store_ok_def calm_def)
  moreover have "crew_content K c' = crew_content K c" unfolding crew_content_def same(1) by (rule apply_key_in) (rule keys)
  ultimately show ?thesis using same by (simp add: job_done_def)
qed

lemma receive_done:
  assumes ready: "crew_ready Log K (Suc n) c"
  shows "job_done Log K n {} c (on_crew (receive_span now) c)"
proof (cases "en_chan (cw_engine c)")
  case Nil
  then show ?thesis using crew_readyD(2) [OF ready] by (intro move_done [OF ready]) (simp_all add: on_crew_def receive_span_def)
next
  case (Cons ps rest)
  let ?e = "cw_engine c" and ?e' = "(cw_engine c)\<lparr>en_chan := rest\<rparr>"
  have ses: "sessions_ok ?e" using crew_readyD(2) [OF ready] .
  then have ok: "sessions_ok ?e'" "sep_free (TraceID (ps_span ps))" using Cons by (auto simp: sessions_ok_def)
  note B = session_bucket [OF ok, where now = now]
  have same: "session_spans ?e' = session_spans ?e" by (simp add: session_spans_def)
  have "key_in k (queue (buffer_span now ps ?e')) = key_in k (queue ?e)" for k
    using B(2) [of k] key_in_append [of k "[ps]" rest] by (simp add: queue_def Cons same)
  moreover have "mset (queue (buffer_span now ps ?e')) = mset (queue ?e)"
    using B(3) by (simp add: queue_def Cons same)
  ultimately show ?thesis using B(1) Cons
    by (intro move_done [OF ready]) (simp_all add: on_crew_def receive_span_def crew_spans_def)
qed

lemma hold_done:
  assumes ready: "crew_ready Log K (Suc n) c" and e1: "e1 = (cw_engine c)\<lparr>en_sessions := ss, en_count := m\<rparr>" and ok: "sessions_ok e1"
    and keys: "\<And>k. key_in k (spans @ queue e1) = key_in k (queue (cw_engine c))"
    and ms: "mset (spans @ queue e1) = mset (queue (cw_engine c))"
  shows "job_done Log K n {} c (hold_batch (spans, e1) c)"
proof (rule move_done [OF ready])
  have spans: "crew_spans (hold_batch (spans, e1) c) = concat (cw_taken c) @ spans @ queue e1"
    by (simp add: crew_spans_def hold_batch_def)
  show "key_in k (crew_spans (hold_batch (spans, e1) c)) = key_in k (crew_spans c)" for k
    using keys [of k] unfolding spans by (simp add: crew_spans_def)
  show "mset (crew_spans (hold_batch (spans, e1) c)) = mset (crew_spans c)"
    using ms unfolding spans by (simp add: crew_spans_def)
qed (use ok in \<open>simp_all add: hold_batch_def e1\<close>)

lemma take_all_done:
  assumes ready: "crew_ready Log K (Suc n) c"
  shows "job_done Log K n {} c (hold_batch (take_all (cw_engine c)) c)"
proof -
  obtain spans e1 where T: "take_all (cw_engine c) = (spans, e1)" by fastforce
  note A = take_all_key_in [OF T]
  have "e1 = (cw_engine c)\<lparr>en_sessions := [], en_count := 0\<rparr>" using T by (simp add: take_all_def)
  from hold_done [OF ready this A(4) [OF crew_readyD(2) [OF ready]] A(1,5)] show ?thesis by (simp add: T)
qed

lemma take_idle_done:
  assumes ready: "crew_ready Log K (Suc n) c"
  shows "job_done Log K n {} c (hold_batch (take_expired now (cw_engine c)) c)"
proof -
  obtain spans e1 where T: "take_expired now (cw_engine c) = (spans, e1)" by fastforce
  note A = take_expired_key_in [OF T crew_readyD(2) [OF ready]]
  obtain ss m where "e1 = (cw_engine c)\<lparr>en_sessions := ss, en_count := m\<rparr>" using T by (auto simp: take_expired_def Let_def)
  from hold_done [OF ready this A(3,1,4)] show ?thesis by (simp add: T)
qed

text \<open>Jobs on the store alone.\<close>

lemma store_done:
  assumes ready: "crew_ready Log K (Suc n) c" and ok: "store_ok Log K (f (cw_engine c))" and only: "only_store (cw_engine c) (f (cw_engine c))"
    and st: "stored_spans (en_db (f (cw_engine c))) \<le> stored_spans (en_db (cw_engine c))"
      "en_next (f (cw_engine c)) = en_next (cw_engine c) \<or> en_next (f (cw_engine c)) = en_next (cw_engine c) + 1"
    and v: "fades cs (view K (en_db (cw_engine c))) (view K (en_db (f (cw_engine c))))"
    and tapes: "fs_tape (db_segs (en_db (f (cw_engine c)))) = []" "fs_tape (db_meta (en_db (f (cw_engine c)))) = []"
    and l: "listed K (en_db (cw_engine c)) \<longrightarrow> listed K (en_db (f (cw_engine c)))"
  shows "job_done Log K n cs c (on_crew f c)"
proof -
  let ?e = "cw_engine c" and ?e' = "f (cw_engine c)"
  note R = crew_readyD [OF ready]
  have fr: "en_sessions ?e' = en_sessions ?e" "en_chan ?e' = en_chan ?e" "en_wal ?e' = en_wal ?e" "en_config ?e' = en_config ?e"
    using only by (simp_all add: only_store_def frame_def)
  then have q: "crew_spans (on_crew f c) = crew_spans c" by (simp add: crew_spans_def on_crew_def queue_def session_spans_def)
  have room: "unat (en_next ?e) + (2 * n + 2) < 2 ^ 64" "sizing_upto Log (stored_spans (en_db ?e) + length (crew_spans c))"
    using R(5) by (simp_all add: room_def)
  have "unat (en_next ?e') \<le> unat (en_next ?e) + 1" using st(2) unat_suc [of "en_next ?e"] room(1) by auto
  moreover have "sizing_upto Log (stored_spans (en_db ?e') + length (crew_spans c))" by (rule sizing_upto_le [OF room(2)]) (simp add: st(1))
  ultimately have "room Log (length (crew_spans c)) (2 * n) ?e'" using room(1) by (simp add: room_def)
  moreover have "sessions_ok ?e'" "calm ?e'" using R(2,3) fr tapes by (simp_all add: sessions_ok_def calm_def)
  ultimately have "crew_ready Log K n (on_crew f c)"
    using R(4,6) ok fr(3) by (simp add: crew_ready_def Let_def q) (simp add: on_crew_def)
  moreover have "fades cs (crew_content K c) (crew_content K (on_crew f c))"
    unfolding crew_content_def q by (rule fades_apply) (use v in \<open>simp add: on_crew_def\<close>)
  ultimately show ?thesis using fr l by (simp add: job_done_def) (simp add: on_crew_def)
qed

lemma snapshot_kept:
  assumes ok: "store_ok Log K e" and calm: "calm e"
  shows "\<exists>e'. flushRollups now e = (Inr (), e') \<and> store_ok Log K e' \<and> only_store e e' \<and> en_next e' = en_next e
    \<and> stored_spans (en_db e') \<le> stored_spans (en_db e) \<and> view K (en_db e') = view K (en_db e)
    \<and> fs_tape (db_segs (en_db e')) = [] \<and> fs_tape (db_meta (en_db e')) = [] \<and> (listed K (en_db e) \<longrightarrow> listed K (en_db e'))"
proof -
  obtain e' where e': "flushRollups now e = (Inr (), e')" "fs_tape (db_segs (en_db e')) = []"
    using flushRollups_calm [of e now] calm by (auto simp: calm_def)
  have S: "same_rest e e'" "same_spans Log K e e'" "db_meta (en_db e') = db_meta (en_db e)"
    using flushRollups_same [OF e'(1), of Log K] by simp_all
  have fr: "en_next e' = en_next e" "db_manifest (en_db e') = db_manifest (en_db e)" "en_checkpoint e' = en_checkpoint e" "only_store e e'"
    using S(1) by (simp_all add: same_rest_def frame_def only_store_def)
  have files: "dir_get (fs_dir (db_segs (en_db e'))) (SegmentPath i) = dir_get (fs_dir (db_segs (en_db e))) (SegmentPath i)" for i
    using S(2) by (simp add: same_spans_def)
  have ix: "db_index (en_db e') = db_index (en_db e)" using S(2) by (simp add: same_spans_def)
  have V: "db_ok Log K (en_db e')" "view K (en_db e') = view K (en_db e)"
    using same_spans_view [OF S(2)] ok by (simp_all add: store_ok_def)
  have man: "manifest_holds Log (en_db e)" using ok by (simp add: store_ok_def)
  have "manifest_holds Log (en_db e')" by (rule manifest_holds_same [OF man]) (simp_all add: fr(2) S(3) files)
  then have "store_ok Log K e'" using ok V(1) by (simp add: store_ok_def fr ix unused_from_def files)
  moreover have "stored_spans (en_db e') \<le> stored_spans (en_db e)"
    using total_spans_same [of _ "db_segs (en_db e')" "db_segs (en_db e)"] files by (simp add: stored_spans_def fr S(3) split: sum.split)
  moreover have "listed K (en_db e) \<longrightarrow> listed K (en_db e')" by (simp add: listed_def fr S(3) ix)
  ultimately show ?thesis using e' fr V(2) calm by (intro exI [of _ e']) (simp add: calm_def S(3))
qed

lemma snapshot_done:
  assumes ready: "crew_ready Log K (Suc n) c"
  shows "job_done Log K n {} c (on_crew (\<lambda>e. snd (flushRollups now e)) c)"
proof -
  obtain e' where "flushRollups now (cw_engine c) = (Inr (), e')" "store_ok Log K e'" "only_store (cw_engine c) e'"
    "en_next e' = en_next (cw_engine c)" "stored_spans (en_db e') \<le> stored_spans (en_db (cw_engine c))"
    "view K (en_db e') = view K (en_db (cw_engine c))" "fs_tape (db_segs (en_db e')) = []" "fs_tape (db_meta (en_db e')) = []"
    "listed K (en_db (cw_engine c)) \<longrightarrow> listed K (en_db e')"
    using snapshot_kept [OF crew_readyD(1,3) [OF ready], of now] by blast
  then show ?thesis by (intro store_done [OF ready]) simp_all
qed

lemma merge_done:
  assumes K: "kv_store K" and ready: "crew_ready Log K (Suc n) c"
  shows "job_done Log K n {} c (on_crew (maybeCompact Log K) c)"
proof -
  have room: "room Log 0 1 (cw_engine c)" using crew_readyD(5) [OF ready] by (auto elim: room_mono)
  note M = maybeCompact_kept [OF K crew_readyD(1) [OF ready] room]
  show ?thesis
    using M crew_readyD(3) [OF ready] maybeCompact_tape [of "cw_engine c" Log K] maybeCompact_next [of Log K "cw_engine c"]
    by (intro store_done [OF ready]) (simp_all add: maybeCompact_def kept_def calm_def)
qed

lemma expire_done:
  assumes K: "kv_store K" and ready: "crew_ready Log K (Suc n) c"
  shows "job_done Log K n {now - cf_RetentionPeriod (en_config (cw_engine c))} c (on_crew (maybeExpire K now) c)"
  using maybeExpire_kept [OF K crew_readyD(1) [OF ready] refl, of now] crew_readyD(3) [OF ready]
  by (intro store_done [OF ready]) (simp_all add: maybeExpire_def calm_def)

text \<open>
  Writing a batch that overtakes no other: the batches taken before it have none of its keys, as
  when batches are written in the order they were taken.
\<close>

definition overtakes_none :: "nat \<Rightarrow> 'k crew \<Rightarrow> bool" where
  "overtakes_none n c \<longleftrightarrow> (n < length (cw_taken c) \<longrightarrow>
     (\<forall>b \<in> set (take n (cw_taken c)). ps_key ` set b \<inter> ps_key ` set (cw_taken c ! n) = {}))"

lemma key_in_swap:
  assumes "\<forall>b \<in> set bs. ps_key ` set b \<inter> ps_key ` set xs = {}"
  shows "key_in k (xs @ concat bs) = key_in k (concat bs @ xs)"
proof (cases "k \<in> ps_key ` set xs")
  case True
  then have "key_in k (concat bs) = []" using assms by (auto simp: key_in_def filter_empty_conv)
  then show ?thesis by simp
next
  case False
  then have "key_in k xs = []" by (auto simp: key_in_def filter_empty_conv)
  then show ?thesis by simp
qed

lemma concat_nth:
  assumes "i < length xss"
  shows "concat xss = concat (take i xss) @ xss ! i @ concat (drop (Suc i) xss)"
  using arg_cong [OF id_take_nth_drop [OF assms], of concat] by (simp only: concat_append concat.simps)

lemma write_calm:
  assumes K: "kv_store K" and ready: "crew_ready Log K (Suc n) c" and i: "i < length (cw_taken c)"
  obtains e' where "write_taken Log K i now c = c\<lparr>cw_engine := e', cw_taken := take i (cw_taken c) @ drop (Suc i) (cw_taken c)\<rparr>"
    "crew_ready Log K n (write_taken Log K i now c)" "view K (en_db e') = apply_spans (map ps_span (cw_taken c ! i)) (view K (en_db (cw_engine c)))"
    "queue e' = queue (cw_engine c)" "en_config e' = en_config (cw_engine c)"
    "listed K (en_db (cw_engine c)) \<longrightarrow> listed K (en_db e')" "en_sessions e' = en_sessions (cw_engine c)"
proof -
  let ?T = "cw_taken c" and ?e = "cw_engine c"
  let ?b = "?T ! i" and ?rest = "take i ?T @ drop (Suc i) ?T"
  note R = crew_readyD [OF ready]
  have "mset (concat ?T) = mset ?b + mset (concat ?rest)"
    unfolding concat_nth [OF i] by simp
  then have ms: "mset (crew_spans c) = mset ?b + mset (concat ?rest @ queue ?e)" by (simp add: crew_spans_def)
  have len: "length (crew_spans c) = length ?b + length (concat ?rest @ queue ?e)"
    using ms by (metis size_mset size_union)
  have mem: "set (crew_spans c) = set ?b \<union> set (concat ?rest @ queue ?e)"
    using ms by (metis set_mset_mset set_mset_union)
  have fit: "seg_fits (map ps_span ?b)" "seg_fits (map ps_span (concat ?rest @ queue ?e))"
    using R(4) mem unfolding seg_fits_def set_map by blast+
  have room: "room Log (length ?b) 2 ?e" using R(5) len by (auto elim: room_mono)
  have seg: "wal_segmentID (en_wal ?e) \<noteq> - 1" using R(6) u64_not_max [of "wal_segmentID (en_wal ?e)"] by simp
  obtain e' where W: "writeSegmentBatch Log K now ?b ?e = (Inr (), e')" "calm e'" "flushed Log K ?b ?e e'"
    "wal_segmentID (en_wal e') = wal_segmentID (en_wal ?e) + 1"
    using writeSegmentBatch_calm [OF K R(1) fit(1) room R(3) seg, of now] by blast
  note F = flushed_frame [OF W(3)]
  let ?c = "c\<lparr>cw_engine := e', cw_taken := ?rest\<rparr>"
  have c': "write_taken Log K i now c = ?c" using i W(1) by (simp add: write_taken_def)
  have spans: "crew_spans ?c = concat ?rest @ queue ?e" using F(6) by (simp add: crew_spans_def)
  have "room Log (length (concat ?rest @ queue ?e)) (2 * n) e'"
    using W(3) R(5) len by (simp add: flushed_def)
  moreover have "unat (wal_segmentID (en_wal e')) + n < 2 ^ 64" using W(4) R(6) unat_suc [of "wal_segmentID (en_wal ?e)"] by simp
  moreover have "sessions_ok e'" using R(2) F by (simp add: sessions_ok_def)
  moreover have "store_ok Log K e'" using W(3) by (simp add: flushed_def)
  ultimately have "crew_ready Log K n ?c"
    using W(2) fit(2) by (simp only: crew_ready_def Let_def spans) simp
  moreover have "listed K (en_db ?e) \<longrightarrow> listed K (en_db e')" using W(3) R(3) by (simp add: flushed_def calm_def)
  moreover have "view K (en_db e') = apply_spans (map ps_span ?b) (view K (en_db ?e))" using W(3) by (simp add: flushed_def)
  ultimately show thesis using F c' by (intro that [of e']) simp_all
qed

lemma write_done:
  assumes K: "kv_store K" and ready: "crew_ready Log K (Suc n) c" and none: "overtakes_none i c"
  shows "job_done Log K n {} c (write_taken Log K i now c)"
proof (cases "i < length (cw_taken c)")
  case False
  then have "write_taken Log K i now c = c" by (simp add: write_taken_def)
  then show ?thesis using crew_readyD(2) [OF ready] by (intro move_done [OF ready]) simp_all
next
  case True
  let ?T = "cw_taken c" and ?e = "cw_engine c"
  let ?b = "?T ! i"
  obtain e' where W: "write_taken Log K i now c = c\<lparr>cw_engine := e', cw_taken := take i ?T @ drop (Suc i) ?T\<rparr>"
    "crew_ready Log K n (write_taken Log K i now c)" "view K (en_db e') = apply_spans (map ps_span ?b) (view K (en_db ?e))"
    "queue e' = queue ?e" "en_config e' = en_config ?e" "listed K (en_db ?e) \<longrightarrow> listed K (en_db e')"
    using write_calm [OF K ready True] by metis
  let ?rest = "concat (take i ?T @ drop (Suc i) ?T) @ queue ?e"
  have T: "concat ?T = concat (take i ?T) @ ?b @ concat (drop (Suc i) ?T)"
    using True by (rule concat_nth)
  have "key_in k (?b @ ?rest) = key_in k (crew_spans c)" for k
    using key_in_swap [of "take i ?T" ?b k] none True by (simp add: overtakes_none_def crew_spans_def T)
  then have "apply_spans (map ps_span (?b @ ?rest)) (view K (en_db ?e)) = crew_content K c"
    unfolding crew_content_def by (rule apply_key_in)
  then have "crew_content K (write_taken Log K i now c) = crew_content K c"
    by (simp add: crew_content_def crew_spans_def W(1,3,4) apply_spans_append)
  then show ?thesis using W(1,2,5,6) by (simp add: job_done_def)
qed

fun orderly :: "(f64 \<Rightarrow> f64) \<Rightarrow> 'k kv \<Rightarrow> job list \<Rightarrow> 'k crew \<Rightarrow> bool" where
  "orderly Log K [] c = True"
| "orderly Log K (j # jobs) c =
     ((case j of WriteTaken n now \<Rightarrow> overtakes_none n c | _ \<Rightarrow> True) \<and> orderly Log K jobs (run_job Log K j c))"

lemma run_job_done:
  assumes "kv_store K" "crew_ready Log K (Suc n) c" "case j of WriteTaken n now \<Rightarrow> overtakes_none n c | _ \<Rightarrow> True"
  shows "job_done Log K n (job_cutoffs (cf_RetentionPeriod (en_config (cw_engine c))) j) c (run_job Log K j c)"
  using assms(3) receive_done [OF assms(2)] take_all_done [OF assms(2)] take_idle_done [OF assms(2)] write_done [OF assms(1,2)]
    snapshot_done [OF assms(2)] merge_done [OF assms(1,2)] expire_done [OF assms(1,2)]
  by (cases j) (simp_all only: run_job.simps job_cutoffs.simps job.case)

lemma run_jobs_done:
  assumes K: "kv_store K"
  shows "crew_ready Log K (length jobs + n) c \<Longrightarrow> orderly Log K jobs c \<Longrightarrow>
    job_done Log K n (\<Union>j \<in> set jobs. job_cutoffs (cf_RetentionPeriod (en_config (cw_engine c))) j) c (run_jobs Log K jobs c)"
proof (induction jobs arbitrary: c)
  case Nil
  then show ?case by (simp add: job_done_def)
next
  case (Cons j jobs)
  let ?c = "run_job Log K j c"
  have J: "job_done Log K (length jobs + n) (job_cutoffs (cf_RetentionPeriod (en_config (cw_engine c))) j) c ?c"
    using Cons.prems by (intro run_job_done [OF K]) simp_all
  then have "crew_ready Log K (length jobs + n) ?c" and cfg: "en_config (cw_engine ?c) = en_config (cw_engine c)"
    by (simp_all add: job_done_def)
  with Cons.IH [OF this(1)] Cons.prems(2) job_done_trans [OF J] show ?case by (simp add: cfg)
qed

section \<open>Between taking and writing\<close>

text \<open>
  Two batches with a key in common, the younger written first: the older record overwrites the
  newer one in the store. And whatever is in the hands of a flush, no reader sees it.
\<close>

lemma overtaking_reverts:
  assumes K: "kv_store K" and ready: "crew_ready Log K 2 c" and T: "cw_taken c = [b1, b2]" and q: "queue (cw_engine c) = []"
  shows "view K (en_db (cw_engine (run_jobs Log K [WriteTaken 1 now, WriteTaken 0 now] c)))
    = apply_spans (map ps_span (b2 @ b1)) (view K (en_db (cw_engine c)))"
proof -
  have ready2: "crew_ready Log K (Suc 1) c" using ready by (simp add: numeral_2_eq_2)
  obtain e1 where W1: "write_taken Log K 1 now c = c\<lparr>cw_engine := e1, cw_taken := take 1 (cw_taken c) @ drop (Suc 1) (cw_taken c)\<rparr>"
    "crew_ready Log K 1 (write_taken Log K 1 now c)" "view K (en_db e1) = apply_spans (map ps_span (cw_taken c ! 1)) (view K (en_db (cw_engine c)))"
    using write_calm [OF K ready2, of 1 now] T by auto
  let ?c = "write_taken Log K 1 now c"
  have T1: "cw_taken ?c = [b1]" "cw_engine ?c = e1" using W1(1) T by simp_all
  have ready1: "crew_ready Log K (Suc 0) ?c" using W1(2) by simp
  have i: "0 < length (cw_taken ?c)" using T1(1) by simp
  obtain e2 where W2: "write_taken Log K 0 now ?c = ?c\<lparr>cw_engine := e2, cw_taken := take 0 (cw_taken ?c) @ drop (Suc 0) (cw_taken ?c)\<rparr>"
    "view K (en_db e2) = apply_spans (map ps_span (cw_taken ?c ! 0)) (view K (en_db (cw_engine ?c)))"
    by (rule write_calm [OF K ready1 i, of now])
  have "cw_engine (run_jobs Log K [WriteTaken 1 now, WriteTaken 0 now] c) = e2" using W2(1) by simp
  with W2(2) W1(3) T T1 show ?thesis by (simp add: apply_spans_append)
qed

section \<open>Shutdown\<close>

lemma wal_Close_quiet: "quiet w \<Longrightarrow> \<exists>w'. wal_Close w = (Inr (), w')"
  by (auto simp: wal_Close_def quiet_def wal_fault_def split: option.splits)

lemma close_storage_calm:
  assumes "calm e" "idx_ok K (db_index (en_db e))" "ix_tape (db_index (en_db e)) = []"
  shows "\<exists>w. close_storage e = ([], e\<lparr>en_wal := w\<rparr>)"
proof -
  obtain w where "wal_Close (en_wal e) = (Inr (), w)" using wal_Close_quiet assms(1) by (auto simp: calm_def)
  with assms show ?thesis
    by (auto simp: close_storage_def close_cache_def error_list_def on_wal_def on_index_def on_segs_def idx_Close_def ix_fault_nil
        fs_fault_nil calm_def idx_ok_def)
qed

text \<open>A shutdown without failures: the buffer is in the files the closed engine leaves behind.\<close>

lemma engine_Close_calm:
  assumes K: "kv_store K" and ready: "flush_ready Log K 1 e"
  shows "\<exists>e'. engine_Close Log K now e = ([], e') \<and> content K e' = content K e \<and> queue e' = en_chan e \<and> store_ok Log K e'"
proof -
  let ?e = "e\<lparr>en_closed := True\<rparr>"
  have same: "content K ?e = content K e" "flush_ready Log K (Suc 0) ?e"
    using ready by (simp_all add: content_def queue_def session_spans_def flush_ready_def store_ok_def sessions_ok_def calm_def room_def)
  obtain e1 where e1: "flushAllSessions Log K now ?e = (Inr (), e1)" "buffer_flushed Log K ?e e1" "flush_ready Log K 0 e1"
    using flushAll_calm [OF K same(2), of now] by blast
  have c1: "store_ok Log K e1" "calm e1" using e1(3) by (simp_all add: flush_ready_def)
  obtain e2 where e2: "flushRollups now e1 = (Inr (), e2)" "store_ok Log K e2" "only_store e1 e2" "view K (en_db e2) = view K (en_db e1)"
    "fs_tape (db_segs (en_db e2)) = []" "fs_tape (db_meta (en_db e2)) = []"
    using snapshot_kept [OF c1, of now] by blast
  have fr: "en_sessions e2 = en_sessions e1" "en_chan e2 = en_chan e1" "en_wal e2 = en_wal e1"
    using e2(3) by (simp_all add: only_store_def frame_def)
  have "calm e2" using c1(2) e2(5,6) fr by (simp add: calm_def)
  moreover have "idx_ok K (db_index (en_db e2))" "ix_tape (db_index (en_db e2)) = []"
    using e2(2) by (simp_all add: store_ok_def db_ok_def entries_ok_def)
  ultimately obtain w where w: "close_storage e2 = ([], e2\<lparr>en_wal := w\<rparr>)" using close_storage_calm by blast
  then have C: "engine_Close Log K now e = ([], e2\<lparr>en_wal := w\<rparr>)" using e1(1) e2(1) by (simp add: engine_Close_def error_list_def)
  have q: "queue (e2\<lparr>en_wal := w\<rparr>) = en_chan e" "queue e1 = en_chan e"
    using e1(2) fr by (simp_all add: buffer_flushed_def queue_def session_spans_def)
  then have "content K (e2\<lparr>en_wal := w\<rparr>) = content K e" using e1(2) same(1) e2(4) by (simp add: content_def buffer_flushed_def)
  moreover have "store_ok Log K (e2\<lparr>en_wal := w\<rparr>)" using e2(2) by (simp add: store_ok_def)
  ultimately show ?thesis using C q(1) by blast
qed

end
