(* ===== verification/Engine_Durable.thy ===== *)
theory Engine_Durable
  imports Engine_Content
begin

text \<open>
  The concurrent write path as a step relation, one step per critical section of
  \<^verbatim>\<open>internal/engine/engine.go\<close>: producers append under the lock of the pending set and enqueue
  later, the ingest loop moves spans to the session buffer, flushes take batches out of it,
  commit them, release them and reclaim the log, each at a time of its own. The invariant: as long
  as every write to the log succeeds, a span that was acknowledged and is not yet in the store has
  its record in the log.
\<close>

section \<open>Runs\<close>

text \<open>
  Beside the engine: spans that are in the log and not yet in the channel, batches taken out of
  the buffer, batches that are committed and not yet released, spans of batches whose commit
  failed, and bounds computed for a reclamation that is still to run. \<open>rn_intact\<close> remembers whether
  every append so far was of a record within the limits of the format and succeeded, and every
  rotation succeeded, with a segment id to spare: a failed append can leave torn bytes in the
  active segment, and what is appended behind them may not be replayed.
\<close>

record 'k run =
  rn_engine :: "'k engine"
  rn_appended :: "pending_span list"
  rn_taken :: "pending_span list list"
  rn_done :: "pending_span list list"
  rn_failed :: "pending_span list"
  rn_bounds :: "u64 list"
  rn_intact :: bool

inductive engine_step :: "(f64 \<Rightarrow> f64) \<Rightarrow> 'k kv \<Rightarrow> 'k run \<Rightarrow> 'k run \<Rightarrow> bool" for Log K where
  append: "appendTracked s (rn_engine r) = (Inr i, e) \<Longrightarrow>
    engine_step Log K r (r\<lparr>rn_engine := e, rn_appended := rn_appended r @ [\<lparr>ps_span = s, ps_walSeg = i\<rparr>],
      rn_intact := rn_intact r \<and> wal_segmentID (en_wal (rn_engine r)) \<noteq> - 1 \<and> accepts \<lparr>Version = 0, Span = s\<rparr>\<rparr>)"
| append_fails: "appendTracked s (rn_engine r) = (Inl err, e) \<Longrightarrow>
    engine_step Log K r (r\<lparr>rn_engine := e, rn_intact := False\<rparr>)"
| enqueue: "ps \<in> set (rn_appended r) \<Longrightarrow> e = rn_engine r \<Longrightarrow>
    engine_step Log K r (r\<lparr>rn_engine := e\<lparr>en_chan := en_chan e @ [ps]\<rparr>, rn_appended := remove1 ps (rn_appended r)\<rparr>)"
| cancel: "ps \<in> set (rn_appended r) \<Longrightarrow> en_closed (rn_engine r) \<Longrightarrow>
    engine_step Log K r (r\<lparr>rn_appended := remove1 ps (rn_appended r)\<rparr>)"
| receive: "en_chan (rn_engine r) = ps # rest \<Longrightarrow>
    engine_step Log K r (r\<lparr>rn_engine := buffer_span now ps ((rn_engine r)\<lparr>en_chan := rest\<rparr>)\<rparr>)"
| take: "take_all (rn_engine r) = (spans, e) \<or> take_expired now (rn_engine r) = (spans, e) \<Longrightarrow>
    engine_step Log K r (r\<lparr>rn_engine := e, rn_taken := rn_taken r @ [spans]\<rparr>)"
| rotate: "on_wal Rotate (rn_engine r) = (Inr x, e) \<Longrightarrow>
    engine_step Log K r (r\<lparr>rn_engine := e, rn_intact := rn_intact r \<and> wal_segmentID (en_wal (rn_engine r)) \<noteq> - 1\<rparr>)"
| rotate_fails: "on_wal Rotate (rn_engine r) = (Inl err, e) \<Longrightarrow>
    engine_step Log K r (r\<lparr>rn_engine := e, rn_intact := False\<rparr>)"
| commit: "spans \<in> set (rn_taken r) \<Longrightarrow> commit_batch Log K now spans (rn_engine r) = (Inr wrote, e) \<Longrightarrow>
    engine_step Log K r (r\<lparr>rn_engine := e\<lparr>en_next := en_next e + (if wrote then 1 else 0)\<rparr>,
      rn_taken := remove1 spans (rn_taken r), rn_done := rn_done r @ [spans]\<rparr>)"
| commit_fails: "spans \<in> set (rn_taken r) \<Longrightarrow> commit_batch Log K now spans (rn_engine r) = (Inl err, e) \<Longrightarrow>
    engine_step Log K r (r\<lparr>rn_engine := e, rn_taken := remove1 spans (rn_taken r), rn_failed := rn_failed r @ spans\<rparr>)"
| release: "spans \<in> set (rn_done r) \<Longrightarrow> release_batch spans (rn_engine r) = (bound, e) \<Longrightarrow>
    engine_step Log K r (r\<lparr>rn_engine := e, rn_done := remove1 spans (rn_done r),
      rn_bounds := (case bound of None \<Rightarrow> rn_bounds r | Some b \<Rightarrow> b # rn_bounds r)\<rparr>)"
| reclaim: "b \<in> set (rn_bounds r) \<Longrightarrow> on_wal (RemoveSegmentsUpTo b) (rn_engine r) = (x, e) \<Longrightarrow>
    engine_step Log K r (r\<lparr>rn_engine := e, rn_bounds := remove1 b (rn_bounds r)\<rparr>)"
| compact: "engine_step Log K r (r\<lparr>rn_engine := maybeCompactLocked Log K (rn_engine r)\<rparr>)"
| expire: "engine_step Log K r (r\<lparr>rn_engine := maybeExpireLocked K now (rn_engine r)\<rparr>)"
| snapshot: "flushRollups now (rn_engine r) = (x, e) \<Longrightarrow> engine_step Log K r (r\<lparr>rn_engine := e\<rparr>)"

text \<open>The spans that are acknowledged, or about to be, and not released.\<close>

definition waiting :: "'k run \<Rightarrow> pending_span list" where
  "waiting r = rn_appended r @ queue (rn_engine r) @ concat (rn_taken r) @ concat (rn_done r) @ rn_failed r"

definition in_log :: "wal \<Rightarrow> pending_span \<Rightarrow> bool" where
  "in_log w ps \<longleftrightarrow> (\<exists>rs. (ps_walSeg ps, rs) \<in> set (wal_log w) \<and> stamped \<lparr>Version = 0, Span = ps_span ps\<rparr> \<in> set rs)"

definition counted :: "u64 \<Rightarrow> pending_span list \<Rightarrow> int" where
  "counted i xs = int (length (filter (\<lambda>ps. ps_walSeg ps = i) xs))"

definition pending_ok :: "u64 \<Rightarrow> (u64 \<times> int) list \<Rightarrow> pending_span list \<Rightarrow> bool" where
  "pending_ok active m xs \<longleftrightarrow> distinct (map fst m) \<and> (\<forall>i \<in> fst ` set m. 0 < i \<and> i \<le> active)
     \<and> (\<forall>i. i \<noteq> 0 \<longrightarrow> counted i xs \<le> pending_count m i)"

definition bounds_ok :: "u64 list \<Rightarrow> u64 \<Rightarrow> pending_span list \<Rightarrow> bool" where
  "bounds_ok bs active xs \<longleftrightarrow> (\<forall>b \<in> set bs. b < active \<and> (\<forall>ps \<in> set xs. ps_walSeg ps \<noteq> 0 \<longrightarrow> b < ps_walSeg ps))"

definition run_ok :: "'k run \<Rightarrow> bool" where
  "run_ok r \<longleftrightarrow> (let w = en_wal (rn_engine r) in wal_ok w
     \<and> pending_ok (wal_segmentID w) (en_pending (rn_engine r)) (waiting r)
     \<and> bounds_ok (rn_bounds r) (wal_segmentID w) (waiting r)
     \<and> (\<forall>ps \<in> set (waiting r). ps_walSeg ps \<noteq> 0 \<longrightarrow> in_log w ps))"

section \<open>The pending set\<close>

lemma counted_simps [simp]:
  "counted i [] = 0" "counted i (xs @ ys) = counted i xs + counted i ys"
  "counted i (ps # xs) = (if ps_walSeg ps = i then 1 else 0) + counted i xs"
  by (simp_all add: counted_def)

lemma counted_nonneg [simp]: "0 \<le> counted i xs"
  by (simp add: counted_def)

lemma counted_pos: "ps \<in> set xs \<Longrightarrow> 1 \<le> counted (ps_walSeg ps) xs"
  by (induction xs) (auto simp: add_increasing)

lemma counted_mset: "mset xs = mset ys \<Longrightarrow> counted i xs = counted i ys"
  unfolding counted_def by (metis mset_filter size_mset)

lemma pending_count_update: "pending_count (AList.update i n m) j = (if j = i then n else pending_count m j)"
  by (simp add: pending_count_def update_conv')

lemma pending_count_delete: "distinct (map fst m) \<Longrightarrow> pending_count (AList.delete i m) j = (if j = i then 0 else pending_count m j)"
  by (simp add: pending_count_def delete_conv')

lemma release_one_count:
  "pending_count m i - (if ps_walSeg ps = i then 1 else 0) \<le> pending_count (release_one ps m) i" if "distinct (map fst m)" "i \<noteq> 0"
  using that by (auto simp: release_one_def Let_def pending_count_update pending_count_delete)

lemma release_one_keys:
  "fst ` set (release_one ps m) \<subseteq> fst ` set m" "distinct (map fst m) \<Longrightarrow> distinct (map fst (release_one ps m))"
proof -
  have "ps_walSeg ps \<in> fst ` set m" if "\<not> pending_count m (ps_walSeg ps) \<le> 1"
    using that by (force simp: pending_count_def dest: map_of_SomeD split: option.splits)
  then show "fst ` set (release_one ps m) \<subseteq> fst ` set m"
    by (auto simp: release_one_def Let_def dom_update dest: set_mp [OF dom_delete_subset, OF imageI])
  show "distinct (map fst m) \<Longrightarrow> distinct (map fst (release_one ps m))"
    by (simp add: release_one_def Let_def distinct_update distinct_delete)
qed

lemma release_fold:
  assumes "distinct (map fst m)"
  shows "distinct (map fst (fold release_one xs m)) \<and> fst ` set (fold release_one xs m) \<subseteq> fst ` set m
    \<and> (\<forall>i. i \<noteq> 0 \<longrightarrow> pending_count m i - counted i xs \<le> pending_count (fold release_one xs m) i)"
  using assms
proof (induction xs arbitrary: m)
  case (Cons ps xs)
  note R = release_one_keys(2) [OF Cons.prems, of ps] release_one_keys(1) [of ps m]
  have "pending_count m i - counted i (ps # xs) \<le> pending_count (fold release_one (ps # xs) m) i" if "i \<noteq> 0" for i
    using Cons.IH [OF R(1)] release_one_count [OF Cons.prems that, of ps] that by fastforce
  with Cons.IH [OF R(1)] subset_trans [OF _ R(2)] show ?case by simp
qed simp

lemma u64_pred_less: "0 < (l :: u64) \<Longrightarrow> l - 1 < l"
  using word_less_inc [of "l - 1"] by auto

lemma lowest_pending_fold:
  "fold (\<lambda>(i, n) low. case low of None \<Rightarrow> Some i | Some l \<Rightarrow> if i < l then Some i else Some l) m (Some l0)
    = Some (fold (\<lambda>(i, n) l. min i l) m (l0 :: u64))"
  by (induction m arbitrary: l0) (auto simp: min.absorb3 min.absorb2 not_less)

lemma fold_min: "fold (\<lambda>(i, n) l. min i l) m l0 \<le> (l0 :: u64) \<and> (\<forall>i \<in> fst ` set m. fold (\<lambda>(i, n) l. min i l) m l0 \<le> i)
    \<and> fold (\<lambda>(i, n) l. min i l) m l0 \<in> insert l0 (fst ` set m)"
proof (induction m arbitrary: l0)
  case (Cons a m)
  obtain i n where a: "a = (i, n)" by (cases a)
  from Cons [of "min i l0"] show ?case by (auto simp: a min_def split: if_splits)
qed simp

lemma lowest_pending_least:
  assumes "lowest_pending m = Some l"
  shows "l \<in> fst ` set m" "i \<in> fst ` set m \<Longrightarrow> l \<le> i"
proof -
  obtain j n m' where m: "m = (j, n) # m'" using assms by (cases m) (auto simp: lowest_pending_def)
  then have "l = fold (\<lambda>(i, n) l. min i l) m' j" using assms by (simp add: lowest_pending_def lowest_pending_fold)
  with fold_min [of m' j] m show "l \<in> fst ` set m" "i \<in> fst ` set m \<Longrightarrow> l \<le> i" by auto
qed

lemma lowest_pending_none: "lowest_pending m = None \<Longrightarrow> m = []"
  by (cases m) (auto simp: lowest_pending_def lowest_pending_fold)

lemma pending_key: "0 < pending_count m i \<Longrightarrow> i \<in> fst ` set m"
  by (force simp: pending_count_def dest: map_of_SomeD split: option.splits)

text \<open>The bound lies below every span that is still counted, and below the active segment.\<close>

lemma reclaim_bound_safe:
  assumes "pending_ok active m xs" "reclaim_bound m active = Some b"
  shows "b < active" "ps \<in> set xs \<Longrightarrow> ps_walSeg ps \<noteq> 0 \<Longrightarrow> b < ps_walSeg ps"
proof -
  have key: "ps_walSeg ps \<in> fst ` set m" if "ps \<in> set xs" "ps_walSeg ps \<noteq> 0" for ps
  proof -
    have "1 \<le> pending_count m (ps_walSeg ps)"
      using counted_pos [OF that(1)] assms(1) that(2) by (force simp: pending_ok_def)
    then show ?thesis by (intro pending_key) simp
  qed
  have "b < active \<and> (\<forall>ps \<in> set xs. ps_walSeg ps \<noteq> 0 \<longrightarrow> b < ps_walSeg ps)"
  proof (cases "lowest_pending m")
    case (Some l)
    note L = lowest_pending_least [OF Some]
    have b: "b = l - 1" using assms(2) Some by (simp add: reclaim_bound_def)
    have l: "0 < l" "l \<le> active" using L(1) assms(1) by (auto simp: pending_ok_def)
    have "b < l" using l(1) by (simp add: b u64_pred_less)
    with l(2) L(2) key show ?thesis by force
  next
    case None
    then have "m = []" by (rule lowest_pending_none)
    moreover have "b = active - 1" "1 < active" using assms(2) None by (auto simp: reclaim_bound_def split: if_splits)
    moreover from this have "b < active" by (auto intro!: u64_pred_less elim: order.strict_trans [rotated])
    ultimately show ?thesis using key by auto
  qed
  then show "b < active" "ps \<in> set xs \<Longrightarrow> ps_walSeg ps \<noteq> 0 \<Longrightarrow> b < ps_walSeg ps" by auto
qed

section \<open>Steps that do not touch the log\<close>

definition write_same :: "'k engine \<Rightarrow> 'k engine \<Rightarrow> bool" where
  "write_same e e' \<longleftrightarrow> en_wal e' = en_wal e \<and> en_pending e' = en_pending e \<and> queue e' = queue e"

lemma same_rest_write: "same_rest e e' \<Longrightarrow> write_same e e'"
  by (simp add: same_rest_def write_same_def frame_def queue_def session_spans_def)

definition keeps :: "('k engine \<Rightarrow> (engine_error + 'a) \<times> 'k engine) \<Rightarrow> bool" where
  "keeps f \<longleftrightarrow> (\<forall>e r e'. f e = (r, e') \<longrightarrow> same_rest e e')"

lemma keepsD: "keeps f \<Longrightarrow> f e = (r, e') \<Longrightarrow> same_rest e e'"
  by (simp add: keeps_def)

lemma keeps_bind:
  assumes "keeps f" "\<And>a. keeps (g a)"
  shows "keeps (\<lambda>e. rbind (f e) g)"
  unfolding keeps_def
proof (intro allI impI)
  fix e r e' assume x: "rbind (f e) g = (r, e')"
  obtain a e1 where f: "f e = (a, e1)" by fastforce
  from assms(1) f have s: "same_rest e e1" by (rule keepsD)
  show "same_rest e e'"
  proof (cases a)
    case (Inl z)
    with x f s show ?thesis by simp
  next
    case (Inr b)
    with x f have "g b e1 = (r, e')" by simp
    with assms(2) have "same_rest e1 e'" by (rule keepsD)
    with s show ?thesis by (rule same_rest_trans)
  qed
qed

lemma keeps_on:
  "keeps (\<lambda>e. on_index (h e) e)" "keeps (\<lambda>e. on_segs err (k e) e)" "keeps (\<lambda>e. on_meta err' (m e) e)"
  "keeps (Pair x)" "keeps (flushRollups now)"
proof -
  show "keeps (\<lambda>e. on_index (h e) e)" by (auto simp: keeps_def dest: on_db_rest(1))
  show "keeps (\<lambda>e. on_segs err (k e) e)" by (auto simp: keeps_def dest: on_db_rest(2))
  show "keeps (\<lambda>e. on_meta err' (m e) e)" by (auto simp: keeps_def dest: on_db_rest(3))
  show "keeps (Pair x)" by (simp add: keeps_def)
  show "keeps (flushRollups now)" by (auto simp: keeps_def dest: flushRollups_same)
qed

lemma keeps_commit: "keeps (commit_batch Log K now spans)"
proof (cases "live_spans (dedupe spans) = []")
  case True
  then have "commit_batch Log K now spans = (\<lambda>e. rbind (on_index (idx_BatchApplySpans K [] (tombstone_keys (dedupe spans))) e)
      (\<lambda>_ e. rbind (flushRollups now e) (\<lambda>_. Pair (Inr False))))" by (simp add: fun_eq_iff commit_batch_def)
  then show ?thesis by (simp only:) (intro keeps_bind keeps_on)
next
  case False
  let ?live = "live_spans (dedupe spans)" and ?t = "tombstone_keys (dedupe spans)"
  from False have "commit_batch Log K now spans = (\<lambda>e. rbind (on_segs EngSegment (seg_Flush Log (en_next e) ?live) e) (\<lambda>result e.
      rbind (on_index (idx_BatchApplySpans K (index_entries result ?live) ?t) e) (\<lambda>_ e.
      rbind (on_meta EngManifest (manifest_AddSegment (db_manifest (en_db e)) (wr_SegmentID result)) e) (\<lambda>_ e.
      rbind (on_meta EngCheckpoint (checkpoint_Save (en_checkpoint e) (wr_SegmentID result)) e) (\<lambda>_ e.
      rbind (flushRollups now e) (\<lambda>_. Pair (Inr True)))))))" by (simp add: fun_eq_iff commit_batch_def Let_def)
  then show ?thesis by (simp only:) (intro keeps_bind keeps_on)
qed

lemma maintenance_write:
  "write_same e (maybeCompactLocked Log K e)" "write_same e (maybeExpireLocked K now e)"
  by (auto simp: write_same_def queue_def session_spans_def maybeCompactLocked_def maybeExpireLocked_def on_meta_def Let_def
      split: sum.splits prod.splits)

lemma bucket_add_mset:
  "mset (concat (map (\<lambda>(_, st). ts_spans st) (bucket_add now ps bs))) = add_mset ps (mset (concat (map (\<lambda>(_, st). ts_spans st) bs)))"
  by (induction bs) (auto simp: bucket_add_def Let_def)

lemma receive_mset:
  assumes "en_chan e = ps # rest"
  shows "mset (queue (buffer_span now ps (e\<lparr>en_chan := rest\<rparr>))) = mset (queue e)"
  using assms bucket_add_mset [of now ps "en_sessions e"] by (simp add: queue_def session_spans_def)

lemma take_mset:
  assumes "take_all e = (spans, e') \<or> take_expired now e = (spans, e')"
  shows "mset (spans @ queue e') = mset (queue e)" "en_wal e' = en_wal e" "en_pending e' = en_pending e"
proof -
  have part: "mset (concat (map g (filter P xs))) + mset (concat (map g (filter (\<lambda>b. \<not> P b) xs))) = mset (concat (map g xs))"
    for P g and xs :: "(string \<times> trace_state) list" by (induction xs) auto
  have not: "(\<lambda>(_ :: string, st). \<not> session_expired now e st) = (\<lambda>b. \<not> (\<lambda>(_ :: string, st). session_expired now e st) b)" by auto
  show "mset (spans @ queue e') = mset (queue e)"
    using assms
  proof
    assume "take_expired now e = (spans, e')"
    then show ?thesis
      using part [of "\<lambda>(_, st). ts_spans st" "\<lambda>(_, st). session_expired now e st" "en_sessions e"]
      unfolding take_expired_def Let_def not by (auto simp: queue_def session_spans_def ac_simps)
  qed (auto simp: take_all_def queue_def session_spans_def)
  show "en_wal e' = en_wal e" "en_pending e' = en_pending e" using assms by (auto simp: take_all_def take_expired_def Let_def)
qed

lemma counted_mono: "mset xs \<subseteq># mset ys \<Longrightarrow> counted i xs \<le> counted i ys"
  unfolding counted_def by (metis mset_filter multiset_filter_mono of_nat_le_iff size_mset size_mset_mono)

lemma run_ok_mono:
  assumes "run_ok r" "en_wal (rn_engine r') = en_wal (rn_engine r)" "en_pending (rn_engine r') = en_pending (rn_engine r)"
    and "rn_bounds r' = rn_bounds r" "mset (waiting r') \<subseteq># mset (waiting r)"
  shows "run_ok r'"
proof -
  have "set (waiting r') \<subseteq> set (waiting r)" using assms(5) by (metis set_mset_mono set_mset_mset)
  moreover have "counted i (waiting r') \<le> counted i (waiting r)" for i using assms(5) by (rule counted_mono)
  ultimately have "pending_ok a m (waiting r) \<Longrightarrow> pending_ok a m (waiting r')" "bounds_ok bs a (waiting r) \<Longrightarrow> bounds_ok bs a (waiting r')"
    and "\<forall>ps \<in> set (waiting r). P ps \<Longrightarrow> \<forall>ps \<in> set (waiting r'). P ps" for a m bs P
    unfolding pending_ok_def bounds_ok_def by (force intro: order.trans)+
  with assms(1) show ?thesis unfolding run_ok_def Let_def assms(2-4) by blast
qed

section \<open>Steps on the log\<close>

lemma log_add_in:
  "(i, rs) \<in> set l \<Longrightarrow> \<exists>rs'. (i, rs') \<in> set (log_add j r l) \<and> set rs \<subseteq> set rs'"
proof (cases l rule: rev_cases)
  case (snoc l' y)
  then show "(i, rs) \<in> set l \<Longrightarrow> ?thesis" by (cases y) (auto simp: log_add_def)
qed simp

lemma log_add_new_in: "\<exists>rs. (i, rs) \<in> set (log_add i r l) \<and> r \<in> set rs"
  by (cases l rule: rev_cases) (auto simp: log_add_def)

lemma in_log_add:
  assumes "in_log w ps" "wal_log w' = log_add j r (wal_log w)"
  shows "in_log w' ps"
proof -
  obtain rs where rs: "(ps_walSeg ps, rs) \<in> set (wal_log w)" "stamped \<lparr>Version = 0, Span = ps_span ps\<rparr> \<in> set rs"
    using assms(1) by (auto simp: in_log_def)
  obtain rs' where "(ps_walSeg ps, rs') \<in> set (wal_log w')" "set rs \<subseteq> set rs'"
    using log_add_in [OF rs(1), of j r] assms(2) by auto
  with rs(2) show ?thesis unfolding in_log_def by blast
qed

lemma run_okD:
  assumes "run_ok r"
  shows "wal_ok (en_wal (rn_engine r))" "pending_ok (wal_segmentID (en_wal (rn_engine r))) (en_pending (rn_engine r)) (waiting r)"
    "bounds_ok (rn_bounds r) (wal_segmentID (en_wal (rn_engine r))) (waiting r)"
    "ps \<in> set (waiting r) \<Longrightarrow> ps_walSeg ps \<noteq> 0 \<Longrightarrow> in_log (en_wal (rn_engine r)) ps"
  using assms by (simp_all add: run_ok_def Let_def)

lemma pending_ok_grow:
  assumes "pending_ok a m xs" "a \<le> a'"
  shows "pending_ok a' m xs"
  using assms by (force simp: pending_ok_def)

lemma bounds_ok_grow: "bounds_ok bs a xs \<Longrightarrow> a \<le> a' \<Longrightarrow> bounds_ok bs a' xs"
  by (force simp: bounds_ok_def)

text \<open>The segment after a segment that is not the last one.\<close>

lemma next_segment: "(i :: u64) \<noteq> - 1 \<Longrightarrow> i \<le> i + 1 \<and> (i < j \<longrightarrow> i + 1 \<le> j)"
  using word_less_inc [of i] by (auto simp: less_imp_le inc_le)

lemma append_run_ok:
  assumes ok: "run_ok r" and acc: "accepts \<lparr>Version = 0, Span = s\<rparr>"
    and lt: "wal_segmentID (en_wal (rn_engine r)) \<noteq> - 1" and pos: "0 < wal_segmentID (en_wal (rn_engine r))"
    and A: "appendTracked s (rn_engine r) = (Inr i, e)"
  shows "run_ok (r\<lparr>rn_engine := e, rn_appended := rn_appended r @ [\<lparr>ps_span = s, ps_walSeg = i\<rparr>]\<rparr>) \<and> 0 < wal_segmentID (en_wal e)"
proof -
  let ?w = "en_wal (rn_engine r)" and ?m = "en_pending (rn_engine r)" and ?ps = "\<lparr>ps_span = s, ps_walSeg = i\<rparr>"
  let ?r = "r\<lparr>rn_engine := e, rn_appended := rn_appended r @ [?ps]\<rparr>"
  obtain w' where w': "AppendRecordWithSeg \<lparr>Version = 0, Span = s\<rparr> ?w = (Inr i, w')"
    "e = (rn_engine r)\<lparr>en_wal := w', en_pending := AList.update i (pending_count ?m i + 1) ?m\<rparr>"
    using A by (auto simp: appendTracked_def on_wal_def rbind_def map_sum_def split: prod.splits sum.splits)
  note R = run_okD [OF ok] and L = append_ok [OF run_okD(1) [OF ok] lt acc w'(1)]
  have act: "wal_segmentID ?w \<le> i" using L next_segment [OF lt] by auto
  then have "0 < i" using pos by (rule order.strict_trans2 [rotated])
  note act = act this
  have set: "set (waiting ?r) = insert ?ps (set (waiting r))" and cnt: "counted j (waiting ?r) = counted j (waiting r) + (if j = i then 1 else 0)" for j
    using w'(2) by (auto simp: waiting_def queue_def session_spans_def)
  have pe: "en_pending e = AList.update i (pending_count ?m i + 1) ?m" by (simp add: w'(2))
  have "pending_ok i (en_pending e) (waiting ?r)"
    using R(2) act unfolding pending_ok_def cnt pe
    by (auto simp: pending_count_update distinct_update dom_update intro: order.trans)
  moreover have "bounds_ok (rn_bounds r) i (waiting ?r)"
    using R(3) act unfolding bounds_ok_def set by force
  moreover have "in_log w' ps" if "ps \<in> set (waiting ?r)" "ps_walSeg ps \<noteq> 0" for ps
  proof (cases "ps = ?ps")
    case True
    with L log_add_new_in [of i] show ?thesis unfolding in_log_def True by simp
  next
    case False
    with that R(4) set have "in_log ?w ps" by auto
    then show ?thesis using L in_log_add by blast
  qed
  ultimately show ?thesis using L act w'(2) by (simp add: run_ok_def Let_def)
qed

lemma rotate_run_ok:
  assumes ok: "run_ok r" and lt: "wal_segmentID (en_wal (rn_engine r)) \<noteq> - 1" and A: "on_wal Rotate (rn_engine r) = (Inr x, e)"
  shows "run_ok (r\<lparr>rn_engine := e\<rparr>) \<and> wal_segmentID (en_wal (rn_engine r)) \<le> wal_segmentID (en_wal e)"
proof -
  let ?w = "en_wal (rn_engine r)"
  obtain w' y where w': "rotateLocked ?w = (Inr y, w')" "e = (rn_engine r)\<lparr>en_wal := w'\<rparr>"
    using A by (auto simp: on_wal_def Rotate_def map_sum_def split: prod.splits sum.splits)
  note R = run_okD [OF ok] and L = rotateLocked_ok [OF run_okD(1) [OF ok] lt w'(1)]
  have act: "wal_segmentID ?w \<le> wal_segmentID w'" using L(3) next_segment [OF lt] by simp
  have wait: "waiting (r\<lparr>rn_engine := e\<rparr>) = waiting r" using w'(2) by (simp add: waiting_def queue_def session_spans_def)
  have "in_log w' ps" if "in_log ?w ps" for ps using that L(4) by (auto simp: in_log_def)
  then show ?thesis
    using R L(2) act w'(2) pending_ok_grow [OF R(2) act] bounds_ok_grow [OF R(3) act] wait by (simp add: run_ok_def Let_def)
qed

lemma concat_remove1: "xs \<in> set xss \<Longrightarrow> mset (concat xss) = mset xs + mset (concat (remove1 xs xss))"
  by (induction xss) auto

lemma release_run_ok:
  assumes ok: "run_ok r" and sp: "spans \<in> set (rn_done r)" and A: "release_batch spans (rn_engine r) = (bound, e)"
  shows "run_ok (r\<lparr>rn_engine := e, rn_done := remove1 spans (rn_done r),
    rn_bounds := (case bound of None \<Rightarrow> rn_bounds r | Some b \<Rightarrow> b # rn_bounds r)\<rparr>)"
    (is "run_ok ?r")
proof -
  let ?w = "en_wal (rn_engine r)" and ?m = "en_pending (rn_engine r)" and ?m' = "fold release_one spans (en_pending (rn_engine r))"
  have e: "e = (rn_engine r)\<lparr>en_pending := ?m'\<rparr>" and b: "bound = reclaim_bound ?m' (wal_segmentID ?w)"
    using A by (auto simp: release_batch_def Let_def CurrentSegment_def)
  note R = run_okD [OF ok]
  have "mset (concat (rn_done r)) = mset spans + mset (concat (remove1 spans (rn_done r)))"
    using sp by (rule concat_remove1)
  then have ms: "mset (waiting r) = mset (spans @ waiting ?r)"
    by (simp add: waiting_def e queue_def session_spans_def)
  then have cnt: "counted i (waiting r) = counted i spans + counted i (waiting ?r)" for i
    using counted_mset [OF ms, of i] by simp
  have sub: "set (waiting ?r) \<subseteq> set (waiting r)" using mset_eq_setD [OF ms] by auto
  have P: "pending_ok (wal_segmentID ?w) ?m' (waiting ?r)"
  proof -
    have d: "distinct (map fst ?m)" and k: "\<forall>i \<in> fst ` set ?m. 0 < i \<and> i \<le> wal_segmentID ?w"
      and c: "i \<noteq> 0 \<Longrightarrow> counted i (waiting r) \<le> pending_count ?m i" for i
      using R(2) by (simp_all add: pending_ok_def)
    note F = release_fold [OF d, of spans]
    have "counted i (waiting ?r) \<le> pending_count ?m' i" if "i \<noteq> 0" for i
    proof -
      have "pending_count ?m i - counted i spans \<le> pending_count ?m' i" using F that by blast
      with c [OF that] cnt [of i] show ?thesis by linarith
    qed
    with F k show ?thesis unfolding pending_ok_def by blast
  qed
  have B: "bounds_ok (rn_bounds r) (wal_segmentID ?w) (waiting ?r)" using R(3) sub unfolding bounds_ok_def by blast
  have "bounds_ok (rn_bounds ?r) (wal_segmentID ?w) (waiting ?r)"
  proof (cases bound)
    case None
    with B show ?thesis by simp
  next
    case (Some b')
    with b have "reclaim_bound ?m' (wal_segmentID ?w) = Some b'" by simp
    from reclaim_bound_safe [OF P this] B Some show ?thesis by (simp add: bounds_ok_def)
  qed
  moreover have "in_log ?w ps" if "ps \<in> set (waiting ?r)" "ps_walSeg ps \<noteq> 0" for ps
    using R(4) [OF subsetD [OF sub that(1)] that(2)] .
  moreover have "en_wal (rn_engine ?r) = ?w" "en_pending (rn_engine ?r) = ?m'" by (simp_all add: e)
  ultimately show ?thesis using P R(1) unfolding run_ok_def Let_def by simp
qed

lemma reclaim_run_ok:
  assumes ok: "run_ok r" and bd: "b \<in> set (rn_bounds r)" and A: "on_wal (RemoveSegmentsUpTo b) (rn_engine r) = (x, e)"
  shows "run_ok (r\<lparr>rn_engine := e, rn_bounds := remove1 b (rn_bounds r)\<rparr>)
    \<and> wal_segmentID (en_wal e) = wal_segmentID (en_wal (rn_engine r))" (is "run_ok ?r \<and> _")
proof -
  let ?w = "en_wal (rn_engine r)"
  obtain y w' where w': "RemoveSegmentsUpTo b ?w = (y, w')" "e = (rn_engine r)\<lparr>en_wal := w'\<rparr>"
    using on_walD [OF A] by blast
  note R = run_okD [OF ok]
  obtain D where D: "wal_ok w'" "wal_segmentID w' = wal_segmentID ?w" "wal_log w' = log_drop D (wal_log ?w)" "D \<subseteq> {i. i \<le> b \<and> i \<noteq> wal_segmentID ?w}"
    using remove_ok [OF R(1) w'(1)] by blast
  have wait: "waiting ?r = waiting r" using w'(2) by (simp add: waiting_def queue_def session_spans_def)
  have "in_log w' ps" if "ps \<in> set (waiting r)" "ps_walSeg ps \<noteq> 0" for ps
  proof -
    have "b < ps_walSeg ps" using R(3) bd that by (auto simp: bounds_ok_def)
    then have "ps_walSeg ps \<notin> D" using D(4) by auto
    with R(4) [OF that] D(3) show ?thesis by (auto simp: in_log_def log_drop_def)
  qed
  moreover have "bounds_ok (remove1 b (rn_bounds r)) (wal_segmentID ?w) (waiting r)"
    using R(3) set_remove1_subset [of b "rn_bounds r"] unfolding bounds_ok_def by blast
  ultimately show ?thesis using D R(2) w'(2) wait by (simp add: run_ok_def Let_def)
qed

section \<open>Every reachable run\<close>

definition run_start :: "'k run \<Rightarrow> bool" where
  "run_start r \<longleftrightarrow> wal_ok (en_wal (rn_engine r)) \<and> 0 < wal_segmentID (en_wal (rn_engine r))
     \<and> en_pending (rn_engine r) = [] \<and> rn_bounds r = [] \<and> (\<forall>ps \<in> set (waiting r). ps_walSeg ps = 0)"

lemma run_start_ok: "run_start r \<Longrightarrow> run_ok r"
  by (auto simp: run_start_def run_ok_def Let_def pending_ok_def bounds_ok_def pending_count_def counted_def filter_empty_conv)

definition segment_pos :: "'k run \<Rightarrow> bool" where
  "segment_pos r \<longleftrightarrow> 0 < wal_segmentID (en_wal (rn_engine r))"

lemma intact_fields [simp]:
  "run_ok (r\<lparr>rn_intact := b\<rparr>) = run_ok r" "segment_pos (r\<lparr>rn_intact := b\<rparr>) = segment_pos r"
  by (simp_all add: run_ok_def waiting_def segment_pos_def)

lemma write_same_run_ok:
  assumes "run_ok r" "write_same (rn_engine r) e"
  shows "run_ok (r\<lparr>rn_engine := e\<rparr>)"
  using assms by (intro run_ok_mono [OF assms(1)]) (auto simp: write_same_def waiting_def)

lemma engine_step_ok:
  assumes "engine_step Log K r r'" "run_ok r" "segment_pos r" "rn_intact r'"
  shows "run_ok r' \<and> segment_pos r'"
  using assms(1)
proof (cases rule: engine_step.cases)
  case (append s i e)
  let ?r = "r\<lparr>rn_engine := e, rn_appended := rn_appended r @ [\<lparr>ps_span = s, ps_walSeg = i\<rparr>]\<rparr>"
  have "r' = ?r\<lparr>rn_intact := rn_intact r'\<rparr>" using append(1) by simp
  moreover have "run_ok ?r \<and> segment_pos ?r"
    using append_run_ok [OF assms(2) _ _ _ append(2)] append(1) assms(3,4) by (simp add: segment_pos_def)
  ultimately show ?thesis by (metis intact_fields)
next
  case (append_fails s err e)
  with assms(4) show ?thesis by simp
next
  case (rotate_fails err e)
  with assms(4) show ?thesis by simp
next
  case (enqueue ps e)
  then have "mset (waiting r') = mset (waiting r)" by (simp add: waiting_def queue_def session_spans_def)
  with enqueue assms run_ok_mono [OF assms(2), of r'] show ?thesis by (simp add: segment_pos_def)
next
  case (cancel ps)
  then have "mset (waiting r') \<subseteq># mset (waiting r)" by (simp add: waiting_def)
  with cancel assms run_ok_mono [OF assms(2), of r'] show ?thesis by (simp add: segment_pos_def)
next
  case (receive ps rest now)
  then have "mset (waiting r') = mset (waiting r)" using receive_mset [of "rn_engine r" ps rest now] by (simp add: waiting_def)
  with receive assms run_ok_mono [OF assms(2), of r'] show ?thesis by (simp add: segment_pos_def)
next
  case (take spans e now)
  note T = take_mset [OF take(2)]
  have "mset (waiting r') = mset (waiting r)" using T(1) take(1) by (simp add: waiting_def ac_simps)
  with take(1) T assms run_ok_mono [OF assms(2), of r'] show ?thesis by (simp add: segment_pos_def)
next
  case (rotate x e)
  have "r' = (r\<lparr>rn_engine := e\<rparr>)\<lparr>rn_intact := rn_intact r'\<rparr>" using rotate(1) by simp
  moreover have "run_ok (r\<lparr>rn_engine := e\<rparr>) \<and> segment_pos (r\<lparr>rn_engine := e\<rparr>)"
    using rotate_run_ok [OF assms(2) _ rotate(2)] rotate(1) assms(3,4) by (fastforce simp: segment_pos_def)
  ultimately show ?thesis by (metis intact_fields)
next
  case (commit spans now wrote e)
  note W = same_rest_write [OF keepsD [OF keeps_commit commit(3)]]
  have "mset (waiting r') = mset (waiting r)"
    using concat_remove1 [OF commit(2)] W commit(1) by (simp add: waiting_def write_same_def queue_def session_spans_def)
  with commit(1) W assms run_ok_mono [OF assms(2), of r'] show ?thesis by (simp add: segment_pos_def write_same_def)
next
  case (commit_fails spans now err e)
  note W = same_rest_write [OF keepsD [OF keeps_commit commit_fails(3)]]
  have "mset (waiting r') = mset (waiting r)"
    using concat_remove1 [OF commit_fails(2)] W commit_fails(1) by (simp add: waiting_def write_same_def queue_def session_spans_def)
  with commit_fails(1) W assms run_ok_mono [OF assms(2), of r'] show ?thesis by (simp add: segment_pos_def write_same_def)
next
  case (release spans bound e)
  moreover from release(3) have "en_wal e = en_wal (rn_engine r)" by (auto simp: release_batch_def Let_def)
  ultimately show ?thesis using release_run_ok [OF assms(2)] assms(3) by (simp add: segment_pos_def)
next
  case (reclaim b x e)
  with reclaim_run_ok [OF assms(2)] assms(3) show ?thesis by (simp add: segment_pos_def)
next
  case compact
  with write_same_run_ok [OF assms(2) maintenance_write(1)] assms(3) maintenance_write(1) [of "rn_engine r" Log K] show ?thesis
    by (simp add: segment_pos_def write_same_def)
next
  case (expire now)
  with write_same_run_ok [OF assms(2) maintenance_write(2)] assms(3) maintenance_write(2) [of "rn_engine r" K now] show ?thesis
    by (simp add: segment_pos_def write_same_def)
next
  case (snapshot now x e)
  note W = same_rest_write [OF keepsD [OF keeps_on(5) snapshot(2)]]
  with snapshot write_same_run_ok [OF assms(2) W] assms(3) show ?thesis by (simp add: segment_pos_def write_same_def)
qed

lemma engine_step_intact: "engine_step Log K r r' \<Longrightarrow> rn_intact r' \<Longrightarrow> rn_intact r"
  by (cases rule: engine_step.cases) auto

lemma reachable_ok:
  assumes "(engine_step Log K)\<^sup>*\<^sup>* r0 r" "run_start r0" "rn_intact r"
  shows "run_ok r"
proof -
  from assms(2) have "run_ok r0 \<and> segment_pos r0" using run_start_ok by (simp add: run_start_def segment_pos_def)
  with assms(1) have "rn_intact r \<longrightarrow> run_ok r \<and> segment_pos r"
    by induction (use engine_step_ok engine_step_intact in blast)+
  with assms(3) show ?thesis by blast
qed

text \<open>No step renames the log.\<close>

definition wal_name :: "wal \<Rightarrow> string \<times> string" where
  "wal_name w = (wal_prefix w, wal_extn w)"

lemma wal_name_named: "wal_name w' = wal_name w \<Longrightarrow> named base w' = named base w"
  by (auto simp: wal_name_def named_def)

lemma wal_fault_name: "wal_fault w = (f, w') \<Longrightarrow> wal_name w' = wal_name w"
  by (auto simp: wal_fault_def wal_name_def split: prod.splits)

lemma append_bytes_name: "wal_name (append_bytes bs w) = wal_name w"
  by (simp add: append_bytes_def wal_name_def split: option.split)

lemma write_name: "write_and_sync buf w = (r, w') \<Longrightarrow> wal_name w' = wal_name w"
  by (auto simp: write_and_sync_def Let_def append_bytes_name dest!: wal_fault_name split: prod.splits option.splits)

lemma open_name: "openSegment i w = (r, w') \<Longrightarrow> wal_name w' = wal_name w"
  by (auto simp: openSegment_def wal_name_def Let_def dest!: wal_fault_name split: prod.splits option.splits)

lemma rotate_name: "rotateLocked w = (r, w') \<Longrightarrow> wal_name w' = wal_name w"
  by (auto simp: rotateLocked_def sealFile_def rbind_def wal_name_def Let_def dest!: open_name wal_fault_name
      split: prod.splits sum.splits option.splits if_splits)

lemma append_name: "AppendRecordWithSeg rec w = (r, w') \<Longrightarrow> wal_name w' = wal_name w"
  by (auto simp: AppendRecordWithSeg_def rbind_def Let_def dest!: rotate_name write_name split: prod.splits sum.splits if_splits)

lemma remove_loop_name: "remove_loop ids bound failed w = (b, w') \<Longrightarrow> wal_name w' = wal_name w"
proof (induction ids bound failed w rule: remove_loop.induct)
  case (2 i ids bound failed w)
  obtain f w1 where f: "wal_fault w = (f, w1)" by fastforce
  with 2 wal_fault_name [OF f] show ?case by (auto simp: wal_name_def split: if_splits option.splits)
qed simp

lemma remove_name: "RemoveSegmentsUpTo bound w = (r, w') \<Longrightarrow> wal_name w' = wal_name w"
  by (auto simp: RemoveSegmentsUpTo_def listSegmentIDs_def rbind_def dest!: wal_fault_name remove_loop_name
      split: prod.splits sum.splits option.splits)

lemma engine_step_name:
  assumes "engine_step Log K r r'"
  shows "wal_name (en_wal (rn_engine r')) = wal_name (en_wal (rn_engine r))"
  using assms
proof (cases rule: engine_step.cases)
  case (commit spans now wrote e)
  with same_rest_write [OF keepsD [OF keeps_commit commit(3)]] show ?thesis by (simp add: write_same_def)
next
  case (commit_fails spans now err e)
  with same_rest_write [OF keepsD [OF keeps_commit commit_fails(3)]] show ?thesis by (simp add: write_same_def)
next
  case compact
  with maintenance_write(1) [of "rn_engine r" Log K] show ?thesis by (simp add: write_same_def)
next
  case (expire now)
  with maintenance_write(2) [of "rn_engine r" K now] show ?thesis by (simp add: write_same_def)
next
  case (snapshot now x e)
  with same_rest_write [OF keepsD [OF keeps_on(5) snapshot(2)]] show ?thesis by (simp add: write_same_def)
next
  case (take spans e now)
  then have "en_wal e = en_wal (rn_engine r)" by (auto simp: take_all_def take_expired_def Let_def)
  with take(1) show ?thesis by simp
qed (auto simp: appendTracked_def on_wal_def rbind_def Rotate_def release_batch_def Let_def
  dest!: append_name rotate_name remove_name split: prod.splits sum.splits)

lemma reachable_name:
  "(engine_step Log K)\<^sup>*\<^sup>* r0 r \<Longrightarrow> wal_name (en_wal (rn_engine r)) = wal_name (en_wal (rn_engine r0))"
  by (induction rule: rtranclp_induct) (auto dest: engine_step_name)

text \<open>
  After a crash at any point of an intact run the replay of the log returns every span that is
  still waiting.
\<close>

lemma crash_returns_waiting:
  assumes R: "(engine_step Log K)\<^sup>*\<^sup>* r0 r" "run_start r0" "rn_intact r" and ps: "ps \<in> set (waiting r)" "ps_walSeg ps \<noteq> 0"
    and nm: "named base (en_wal (rn_engine r0))" and C: "accepts torn" "encode_record torn = p @ q" "q \<noteq> []" "m \<noteq> 0"
  shows "\<exists>w out. CreateWALWithSegmentSize (crash_dir (en_wal (rn_engine r)) p) base m [] = (Inr (), w)
    \<and> Replay w = (Inr out, w) \<and> stamped \<lparr>Version = 0, Span = ps_span ps\<rparr> \<in> set out"
proof -
  note ok = reachable_ok [OF R]
  obtain rs where rs: "(ps_walSeg ps, rs) \<in> set (wal_log (en_wal (rn_engine r)))" "stamped \<lparr>Version = 0, Span = ps_span ps\<rparr> \<in> set rs"
    using run_okD(4) [OF ok ps] by (auto simp: in_log_def)
  obtain w where "CreateWALWithSegmentSize (crash_dir (en_wal (rn_engine r)) p) base m [] = (Inr (), w)"
    "Replay w = (Inr (log_records (wal_log (en_wal (rn_engine r)))), w)"
    using crash_recovery [OF run_okD(1) [OF ok] nm [folded wal_name_named [OF reachable_name [OF R(1)]]] C] by blast
  with rs show ?thesis by force
qed

end
