(* ===== verification/Engine_Read.thy ===== *)
theory Engine_Read
  imports Engine_Flush
begin

text \<open>
  The read side returns the abstract content: point lookups, and range queries, whose pruning by
  zone map and filters drops no matching span and whose check against the index keeps superseded
  and deleted records out.
\<close>

section \<open>The buffer as a reader sees it\<close>

definition as_live :: "span_payload \<Rightarrow> span_payload option" where
  "as_live s = (if Deleted s then None else Some s)"

lemma CompositeKey_span [simp]: "CompositeKey t s = CompositeKey t s' \<longleftrightarrow> s = s'"
  by (simp add: CompositeKey_def)

lemma find_last:
  assumes "\<forall>ps \<in> set xs. TraceID (ps_span ps) = t"
  shows "map_option ps_span (find (\<lambda>ps. SpanID (ps_span ps) = s) (rev xs)) = last_span (CompositeKey t s) (map ps_span xs)"
  using assms by (induction xs rule: rev_induct) (auto simp: last_span_snoc)

lemma bufferedSpan_last:
  assumes "sessions_ok e" "sep_free t"
  shows "bufferedSpan t s e = map_option as_live (last_span (CompositeKey t s) (map ps_span (session_spans e)))"
proof -
  let ?k = "CompositeKey t s"
  have bs: "\<forall>b \<in> set (en_sessions e). bucket_ok b" "distinct (map fst (en_sessions e))"
    using assms(1) by (simp_all add: sessions_ok_def)
  have all: "last_span ?k (map ps_span (session_spans e)) = (case map_of (en_sessions e) t of None \<Rightarrow> None
      | Some st \<Rightarrow> last_span ?k (map ps_span (ts_spans st)))"
  proof -
    have k: "key_in ?k (session_spans e) = (case map_of (en_sessions e) t of None \<Rightarrow> [] | Some st \<Rightarrow> key_in ?k (ts_spans st))"
      using key_in_bucket [OF bs assms(2), of s] by (simp add: session_spans_def)
    show ?thesis
      unfolding last_span_key_in [of ?k "session_spans e"] k
      by (cases "map_of (en_sessions e) t") (simp_all add: last_span_key_in [of ?k "ts_spans _", symmetric])
  qed
  show ?thesis
  proof (cases "map_of (en_sessions e) t")
    case None
    then show ?thesis by (simp add: all bufferedSpan_def)
  next
    case (Some st)
    then have "bucket_ok (t, st)" using bs(1) map_of_SomeD by fastforce
    then have "\<forall>ps \<in> set (ts_spans st). TraceID (ps_span ps) = t" by (simp add: bucket_ok_def)
    from find_last [OF this, of s, symmetric] show ?thesis
      by (cases "find (\<lambda>ps. SpanID (ps_span ps) = s) (rev (ts_spans st))")
        (simp_all add: Some all bufferedSpan_def as_live_def)
  qed
qed

text \<open>
  What a reader sees: the store overridden by the session buffer. The spans in the channel are
  acknowledged but not yet visible.
\<close>

definition visible :: "'k kv \<Rightarrow> 'k engine \<Rightarrow> string \<Rightarrow> span_payload option" where
  "visible K e = apply_spans (map ps_span (session_spans e)) (view K (en_db e))"

lemma content_visible: "content K e = apply_spans (map ps_span (en_chan e)) (visible K e)"
  by (simp add: content_def queue_def visible_def apply_spans_append)

lemma visible_last:
  "visible K e k = (case last_span k (map ps_span (session_spans e)) of None \<Rightarrow> view K (en_db e) k | Some s \<Rightarrow> as_live s)"
  by (simp add: visible_def apply_spans_last as_live_def split: option.split)

section \<open>Point lookups\<close>

lemma acquire_read:
  assumes "acquireSegment i segs = (Inr r, segs')"
  shows "rd_ReadAt r off = seg_read i off segs"
  using assms
  by (auto simp: acquireSegment_def OpenReaderLight_def open_with_def seg_read_def fs_fault_def split: prod.splits option.splits)

lemma acquire_quiet:
  assumes "seg_holds Log segs i spans" "fs_tape segs = []"
  shows "\<exists>r. acquireSegment i segs = (Inr r, segs)"
proof -
  from assms(1) obtain sect where s: "dir_get (fs_dir segs) (SegmentPath i) = Some (segment_data i spans sect)" "length sect < 2 ^ 32"
    by (rule seg_holdsE)
  obtain r where "open_light (segment_data i spans sect) = Inr r" using open_light_data [OF s(2)] by blast
  with s assms(2) show ?thesis by (simp add: acquireSegment_def OpenReaderLight_def open_with_def fs_fault_nil)
qed

lemma GetSpan_visible:
  assumes K: "kv_store K" and ok: "db_ok Log K (en_db e)" "sessions_ok e" "sep_free t"
    and G: "GetSpan K t s e = (res, e')"
  shows "(res = Inr (visible K e (CompositeKey t s)) \<or> (\<exists>x. res = Inl x))
    \<and> (fs_tape (db_segs (en_db e)) = [] \<longrightarrow> ix_tape (db_index (en_db e)) = [] \<longrightarrow> res = Inr (visible K e (CompositeKey t s)))"
proof (cases "bufferedSpan t s e")
  case (Some a)
  then obtain x where "last_span (CompositeKey t s) (map ps_span (session_spans e)) = Some x" "a = as_live x"
    using bufferedSpan_last [OF ok(2,3), of s] by auto
  then have "visible K e (CompositeKey t s) = a" by (simp add: visible_last)
  with G Some show ?thesis by (simp add: GetSpan_def)
next
  case None
  let ?k = "CompositeKey t s" and ?ix = "db_index (en_db e)" and ?segs = "db_segs (en_db e)"
  have E: "entries_ok Log K ?ix ?segs" and I: "idx_ok K ?ix" using ok(1) by (simp_all add: db_ok_def entries_ok_def)
  have c: "visible K e ?k = (case idx_map K ?ix ?k of None \<Rightarrow> None | Some loc \<Rightarrow> live_span (seg_read (loc_SegmentID loc) (loc_Offset loc) ?segs))"
    using None bufferedSpan_last [OF ok(2,3), of s] by (simp add: visible_last view_def view_at_def)
  obtain r1 ix1 where g: "idx_GetSpan K ?k ?ix = (r1, ix1)" by fastforce
  from kv_store.idx_get_law [OF K I g] have r1: "r1 = Inl IndexIO \<or> r1 = (case idx_map K ?ix ?k of None \<Rightarrow> Inl IndexNotFound | Some l \<Rightarrow> Inr l)"
    by blast
  have quiet: "r1 \<noteq> Inl IndexIO" if "ix_tape ?ix = []"
    using idx_get_quiet [OF K I that, of ?k] g by (auto split: option.splits)
  show ?thesis
  proof (cases "r1 = Inl IndexIO")
    case True
    with G None g quiet show ?thesis by (auto simp: GetSpan_def on_index_def)
  next
    case False
    with r1 have r1: "r1 = (case idx_map K ?ix ?k of None \<Rightarrow> Inl IndexNotFound | Some l \<Rightarrow> Inr l)" by blast
    show ?thesis
    proof (cases "idx_map K ?ix ?k")
      case None
      with r1 G \<open>bufferedSpan t s e = None\<close> g c show ?thesis by (simp add: GetSpan_def on_index_def)
    next
      case (Some loc)
      let ?i = "loc_SegmentID loc"
      obtain spans x where h: "seg_holds Log ?segs ?i spans" "(loc_Offset loc, x) \<in> set (seg_entries Log spans)"
        using E Some by (rule entries_okD)
      have rd: "seg_read ?i (loc_Offset loc) ?segs = Inr x" using seg_read_entry [OF h] .
      obtain r2 segs2 where a: "acquireSegment ?i ?segs = (r2, segs2)" by fastforce
      show ?thesis
      proof (cases r2)
        case (Inl y)
        then have "fs_tape ?segs \<noteq> []" using acquire_quiet [OF h(1)] a by auto
        with Inl G \<open>bufferedSpan t s e = None\<close> g r1 Some a show ?thesis by (auto simp: GetSpan_def on_index_def on_segs_def)
      next
        case (Inr r)
        have "rd_ReadAt r (loc_Offset loc) = Inr x" using acquire_read [OF a [unfolded Inr]] rd by simp
        with Inr G \<open>bufferedSpan t s e = None\<close> g r1 Some a c rd show ?thesis
          by (simp add: GetSpan_def on_index_def on_segs_def live_span_def)
      qed
    qed
  qed
qed

section \<open>The buffer as a range query sees it\<close>

lemma last_by_key:
  fixes xs :: "pending_span list"
  defines "m \<equiv> fold (\<lambda>ps. AList.update (ps_key ps) (ps_span ps)) xs []"
  shows "map_of m k = last_span k (map ps_span xs)" "distinct (map fst m)" "(k, s) \<in> set m \<Longrightarrow> k = span_key s"
proof -
  have gen: "map_of (fold (\<lambda>ps. AList.update (ps_key ps) (ps_span ps)) ys []) k = last_span k (map ps_span ys)" for ys k
    by (induction ys rule: rev_induct) (auto simp: update_conv' last_span_snoc)
  then show "map_of m k = last_span k (map ps_span xs)" by (simp add: m_def)
  have "distinct (map fst (fold (\<lambda>ps. AList.update (ps_key ps) (ps_span ps)) ys []))" for ys :: "pending_span list"
    by (induction ys rule: rev_induct) (auto simp: distinct_update)
  then show d: "distinct (map fst m)" by (simp add: m_def)
  assume "(k, s) \<in> set m"
  with d have "map_of m k = Some s" by simp
  with gen [of xs k] last_span_SomeD [of k "map ps_span xs" s] show "k = span_key s" by (simp add: m_def)
qed

lemma buffered_all: "bufferedSpansByKey [] e = fold (\<lambda>ps. AList.update (ps_key ps) (ps_span ps)) (session_spans e) []"
proof -
  have "filter (\<lambda>(i, st). True) xs = xs" for xs :: "(string \<times> trace_state) list" by (induction xs) auto
  then show ?thesis by (simp add: bufferedSpansByKey_def session_spans_def)
qed

lemma buffered_last:
  "map_of (bufferedSpansByKey [] e) k = last_span k (map ps_span (session_spans e))"
  "distinct (map fst (bufferedSpansByKey [] e))" "(k, s) \<in> set (bufferedSpansByKey [] e) \<Longrightarrow> k = span_key s"
  unfolding buffered_all by (fact last_by_key)+

section \<open>Pruning\<close>

lemma check_blooms_sound:
  assumes "\<forall>(dim, f) \<in> set blooms. bloom_ok f"
  shows "\<exists>b. check_blooms checks blooms = Some b
    \<and> (\<forall>s. admits blooms s \<longrightarrow> (\<forall>(dim, val) \<in> set checks. val \<noteq> [] \<longrightarrow> dimensionValue s dim = val) \<longrightarrow> b)"
proof (induction checks)
  case (Cons c checks)
  obtain dim val where c: "c = (dim, val)" by (cases c)
  from Cons.IH obtain b where b: "check_blooms checks blooms = Some b"
      "\<forall>s. admits blooms s \<longrightarrow> (\<forall>(dim, val) \<in> set checks. val \<noteq> [] \<longrightarrow> dimensionValue s dim = val) \<longrightarrow> b" by blast
  show ?case
  proof (cases "val = [] \<or> map_of blooms dim = None")
    case True
    with b c show ?thesis by auto
  next
    case False
    then obtain f where f: "map_of blooms dim = Some f" "val \<noteq> []" by auto
    then have mem: "(dim, f) \<in> set blooms" by (simp add: map_of_SomeD)
    with assms have "bloom_ok f" by blast
    then obtain t where t: "bloom_MayContain val f = Some t" using bloom_MayContain_iff by blast
    show ?thesis
    proof (cases t)
      case True
      with b c f t show ?thesis by auto
    next
      case False
      have "bloom_MayContain (dimensionValue s dim) f = Some True" if "admits blooms s" for s
        using that mem by (auto simp: admits_def)
      then have no: "dimensionValue s dim \<noteq> val" if "admits blooms s" for s using that False t by fastforce
      have "check_blooms (c # checks) blooms = Some False" using False c f t by simp
      moreover have False if "admits blooms s" "\<forall>(dim, val) \<in> set (c # checks). val \<noteq> [] \<longrightarrow> dimensionValue s dim = val" for s
        using no [OF that(1)] that(2) c f(2) by simp
      ultimately show ?thesis by blast
    qed
  qed
qed (intro exI [of _ True], simp)

lemma mayMatchBlooms_sound:
  assumes "\<forall>(dim, f) \<in> set blooms. bloom_ok f"
  obtains b where "mayMatchBlooms f blooms = Some b" "\<And>s. admits blooms s \<Longrightarrow> filter_matches f s \<Longrightarrow> b"
proof -
  let ?checks = "[(''agent_id'', rf_AgentID f), (''model'', rf_Model f), (''tool_name'', rf_ToolName f),
       (''team'', rf_Team f), (''status'', rf_Status f)]"
  have m: "\<forall>(dim, val) \<in> set ?checks. val \<noteq> [] \<longrightarrow> dimensionValue s dim = val" if "filter_matches f s" for s
    using that unfolding filter_matches_def by (simp add: dimensionValue_def) blast
  obtain b where b: "check_blooms ?checks blooms = Some b"
    "\<And>s. admits blooms s \<Longrightarrow> \<forall>(dim, val) \<in> set ?checks. val \<noteq> [] \<longrightarrow> dimensionValue s dim = val \<Longrightarrow> b"
    using check_blooms_sound [OF assms, of ?checks] by blast
  show ?thesis
  proof (rule that [of b])
    show "mayMatchBlooms f blooms = Some b" using b(1) by (simp add: mayMatchBlooms_def)
    show "admits blooms s \<Longrightarrow> filter_matches f s \<Longrightarrow> b" for s by (rule b(2) [OF _ m])
  qed
qed

section \<open>One segment\<close>

text \<open>What a range query takes from a segment: live, matching, not overridden by the buffer, and current.\<close>

definition taken :: "range_filter \<Rightarrow> (string \<times> span_payload) list \<Rightarrow> span_payload \<Rightarrow> bool" where
  "taken f buffered s \<longleftrightarrow> \<not> Deleted s \<and> map_of buffered (span_key s) = None \<and> filter_matches f s"

definition from_segment where
  "from_segment Log K f buffered ix segs i = filter (taken f buffered) (map snd (picked Log K ix segs i))"

lemma range_fold:
  assumes "kv_store K" "idx_ok K ix" "ix_tape ix = []"
  shows "scan_fold (range_visit K f buffered i) es (ix, results) =
    (ix, results @ filter (taken f buffered) (map snd (filter (points_at K ix i) es)))"
proof (induction es arbitrary: results)
  case (Cons x es)
  obtain off s where x: "x = (off, s)" by (cases x)
  have "range_visit K f buffered i off s (ix, results) =
      (True, ix, if points_at K ix i (off, s) \<and> taken f buffered s then results @ [s] else results)"
    using idx_get_quiet [OF assms] by (simp add: range_visit_def Let_def is_current_quiet points_at_def taken_def)
  with Cons x show ?case by simp
qed simp

text \<open>Reading changes nothing but the segment store's fault schedule.\<close>

definition reread :: "'k engine \<Rightarrow> 'k engine \<Rightarrow> bool" where
  "reread e e' \<longleftrightarrow> (\<exists>segs. e' = e\<lparr>en_db := (en_db e)\<lparr>db_segs := segs\<rparr>\<rparr> \<and> fs_dir segs = fs_dir (db_segs (en_db e))
     \<and> (fs_tape (db_segs (en_db e)) = [] \<longrightarrow> fs_tape segs = []))"

lemma reread_refl: "reread e e"
  unfolding reread_def by (intro exI [of _ "db_segs (en_db e)"]) simp

lemma reread_trans:
  assumes "reread e1 e2" "reread e2 e3"
  shows "reread e1 e3"
proof -
  from assms(2) obtain segs where "e3 = e2\<lparr>en_db := (en_db e2)\<lparr>db_segs := segs\<rparr>\<rparr>"
    "fs_dir segs = fs_dir (db_segs (en_db e2))" "fs_tape (db_segs (en_db e2)) = [] \<longrightarrow> fs_tape segs = []"
    by (auto simp: reread_def)
  with assms(1) show ?thesis unfolding reread_def by (intro exI [of _ segs]) auto
qed

lemma reread_fields:
  assumes "reread e e'"
  shows "fs_dir (db_segs (en_db e')) = fs_dir (db_segs (en_db e))" "db_index (en_db e') = db_index (en_db e)"
    "fs_tape (db_segs (en_db e)) = [] \<Longrightarrow> fs_tape (db_segs (en_db e')) = []"
    "seg_holds Log (db_segs (en_db e')) = seg_holds Log (db_segs (en_db e))"
    "picked Log K ix (db_segs (en_db e')) = picked Log K ix (db_segs (en_db e))"
  using assms by (auto simp: reread_def seg_holds_def fun_eq_iff intro!: picked_same [THEN fun_cong])

lemma range_segment_holds:
  assumes K: "kv_store K" and ix: "idx_ok K (db_index (en_db e))" "ix_tape (db_index (en_db e)) = []"
    and h: "seg_holds Log (db_segs (en_db e)) i spans" and R: "range_segment K f buffered i results e = (res, e')"
  shows "reread e e' \<and> (res = Inr (results @ from_segment Log K f buffered (db_index (en_db e)) (db_segs (en_db e)) i)
      \<or> (\<exists>x. res = Inl x) \<and> fs_tape (db_segs (en_db e)) \<noteq> [])"
proof -
  let ?ix = "db_index (en_db e)" and ?segs = "db_segs (en_db e)"
  obtain o1 segs1 where op: "OpenReader i ?segs = (o1, segs1)" by fastforce
  let ?e1 = "e\<lparr>en_db := (en_db e)\<lparr>db_segs := segs1\<rparr>\<rparr>"
  have tape: "fs_tape segs1 = []" if "fs_tape ?segs = []"
    using open_reader_quiet [OF h that] op that by auto
  have re1: "reread e ?e1" unfolding reread_def using open_reader_dir [OF op] tape by blast
  show ?thesis
  proof (cases o1)
    case (Inl y)
    then have "fs_tape ?segs \<noteq> []" using open_reader_quiet [OF h] op by auto
    with R op Inl re1 show ?thesis by (auto simp: range_segment_def on_segs_def)
  next
    case (Inr r)
    from open_reader_header [OF h op [unfolded Inr]] obtain fs where hd:
      "hd_MinTimestamp (rd_Header r) = min_ts spans" "hd_MaxTimestamp (rd_Header r) = max_ts spans" "rd_Blooms r = Some fs"
      "\<forall>s \<in> set spans. admits fs s" "\<forall>(dim, f) \<in> set fs. bloom_ok f" by blast
    obtain b where b: "mayMatchBlooms f fs = Some b" "\<And>s. admits fs s \<Longrightarrow> filter_matches f s \<Longrightarrow> b"
      using mayMatchBlooms_sound [OF hd(5)] by blast
    have in_spans: "s \<in> set spans" if "s \<in> set (map snd (picked Log K ?ix ?segs i))" for s
    proof -
      have "set (picked Log K ?ix ?segs i) \<subseteq> set (seg_entries Log spans)"
        by (simp add: picked_def spans_of_holds [OF h])
      from image_mono [OF this, of snd] that have "s \<in> set (map snd (seg_entries Log spans))" unfolding set_map by blast
      then show ?thesis by simp
    qed
    have none: "from_segment Log K f buffered ?ix ?segs i = []" if "\<And>s. s \<in> set spans \<Longrightarrow> \<not> filter_matches f s"
      using that in_spans by (auto simp: from_segment_def taken_def filter_empty_conv)
    show ?thesis
    proof (cases "max_ts spans <s rf_StartTS f \<or> rf_EndTS f <s min_ts spans \<or> \<not> b")
      case True
      have "\<not> filter_matches f s" if "s \<in> set spans" for s
        using True min_ts_le [OF that] max_ts_ge [OF that] b(2) hd(4) that by (force simp: filter_matches_def sless_iff)
      from none [OF this] True R re1 show ?thesis
        by (auto simp: range_segment_def on_segs_def op Inr hd(1-3) b(1) split: if_splits)
    next
      case False
      obtain flt segs2 where fl: "fs_fault segs1 = (flt, segs2)" by fastforce
      let ?e2 = "e\<lparr>en_db := (en_db e)\<lparr>db_segs := segs2\<rparr>\<rparr>"
      have "reread ?e1 ?e2" unfolding reread_def using fl fs_fault_nil [of segs1] by (auto simp: fs_fault_def intro!: exI [of _ segs2] split: prod.splits)
      with re1 have re2: "reread e ?e2" by (rule reread_trans)
      show ?thesis
      proof (cases flt)
        case (Some n)
        with fl have "fs_tape segs1 \<noteq> []" by (auto simp: fs_fault_nil)
        with tape Some False R re2 show ?thesis by (auto simp: range_segment_def on_segs_def op Inr hd(1-3) b(1) fl)
      next
        case None
        have "rd_ScanAllFunc (range_visit K f buffered i) r (?ix, results) =
            (Inr (), ?ix, results @ from_segment Log K f buffered ?ix ?segs i)"
          using open_reader_holds [OF h op [unfolded Inr], of "range_visit K f buffered i" "(?ix, results)"]
          by (simp add: range_fold [OF K ix] from_segment_def picked_def spans_of_holds [OF h])
        with None False R re2 show ?thesis by (auto simp: range_segment_def on_segs_def Let_def op Inr hd(1-3) b(1) fl)
      qed
    qed
  qed
qed

section \<open>All segments\<close>

lemma from_segment_reread:
  assumes "reread e e'"
  shows "from_segment Log K f buffered (db_index (en_db e')) (db_segs (en_db e'))
    = from_segment Log K f buffered (db_index (en_db e)) (db_segs (en_db e))"
  by (simp add: from_segment_def reread_fields [OF assms] fun_eq_iff)

lemma range_segments_holds:
  assumes "kv_store K" "idx_ok K (db_index (en_db e))" "ix_tape (db_index (en_db e)) = []"
    and "\<forall>i \<in> set ids. \<exists>spans. seg_holds Log (db_segs (en_db e)) i spans"
    and "range_segments K f buffered ids results e = (res, e')"
  shows "reread e e' \<and> (res = Inr (results @ concat (map (from_segment Log K f buffered (db_index (en_db e)) (db_segs (en_db e))) ids))
      \<or> (\<exists>x. res = Inl x) \<and> fs_tape (db_segs (en_db e)) \<noteq> [])"
  using assms(2-5)
proof (induction ids arbitrary: results e)
  case Nil
  then show ?case by (auto simp: reread_refl)
next
  case (Cons i ids)
  obtain r1 e1 where R: "range_segment K f buffered i results e = (r1, e1)" by fastforce
  obtain spans where h: "seg_holds Log (db_segs (en_db e)) i spans" using Cons.prems(3) by auto
  note S = range_segment_holds [OF assms(1) Cons.prems(1,2) h R]
  have re: "reread e e1" using S by blast
  note F = reread_fields [OF re]
  show ?case
  proof (cases r1)
    case (Inl x)
    with S R Cons.prems(4) show ?thesis by auto
  next
    case (Inr res1)
    with R Cons.prems(4) have "range_segments K f buffered ids res1 e1 = (res, e')" by simp
    from Cons.IH [OF _ _ _ this]
    have I: "reread e1 e' \<and> (res = Inr (res1 @ concat (map (from_segment Log K f buffered (db_index (en_db e)) (db_segs (en_db e))) ids))
      \<or> (\<exists>x. res = Inl x) \<and> fs_tape (db_segs (en_db e1)) \<noteq> [])"
      unfolding from_segment_reread [OF re] unfolding F(2,4) using Cons.prems(1-3) by simp
    from S Inr have "res1 = results @ from_segment Log K f buffered (db_index (en_db e)) (db_segs (en_db e)) i" by blast
    with I reread_trans [OF re] F(3) show ?thesis by auto
  qed
qed

section \<open>Range queries are exact\<close>

lemma length_record_pos: "0 < length (writeRecord s)"
  by (simp add: length_writeRecord recordFramingSize_def)

lemma placed_distinct:
  assumes "start + length (record_bytes spans) < 2 ^ 64"
  shows "distinct (map fst (placed (word_of_nat start) spans))"
  using assms
proof (induction spans arbitrary: start)
  case (Cons s spans)
  have len: "start + length (writeRecord s) + length (record_bytes spans) < 2 ^ 64" using Cons.prems by (simp add: record_bytes_def)
  have "(word_of_nat start :: u64) \<notin> set (map fst (placed (word_of_nat (start + length (writeRecord s))) spans))"
  proof
    assume "(word_of_nat start :: u64) \<in> set (map fst (placed (word_of_nat (start + length (writeRecord s))) spans))"
    then obtain s' where "(word_of_nat start, s') \<in> set (placed (word_of_nat (start + length (writeRecord s))) spans)" by auto
    then obtain xs ys where xs: "spans = xs @ s' # ys"
      "(word_of_nat start :: u64) = word_of_nat (start + length (writeRecord s) + length (record_bytes xs))"
      using placed_split by blast
    let ?n = "start + length (writeRecord s) + length (record_bytes xs)"
    have "?n < 2 ^ 64" using len by (simp add: xs(1) record_bytes_def)
    then have "unat (word_of_nat ?n :: u64) = ?n" "unat (word_of_nat start :: u64) = start"
      by (simp_all add: unat_of_nat del: of_nat_add)
    then have "?n = start" unfolding xs(2) [symmetric] by simp
    with length_record_pos [of s] show False by simp
  qed
  with Cons.IH [OF len] show ?case by simp
qed simp

lemma seg_entries_distinct:
  assumes "seg_holds Log segs i spans"
  shows "distinct (map fst (seg_entries Log spans))"
proof -
  from assms obtain sect where s: "buildBloomSection Log spans = Some sect" "length (segment_data i spans sect) < 2 ^ 63"
    by (rule seg_holdsE)
  then have "headerSize + length sect + length (record_bytes spans) < 2 ^ 64" by (simp add: segment_data_def)
  from placed_distinct [OF this] show ?thesis by (simp add: seg_entries_def seg_start_def s(1))
qed

text \<open>The records the index points at in one segment have different keys.\<close>

lemma picked_keys:
  assumes "seg_holds Log segs i spans"
  shows "distinct (map span_key (map snd (picked Log K ix segs i)))"
proof -
  have d: "distinct (map fst (picked Log K ix segs i))"
    using seg_entries_distinct [OF assms] by (simp add: picked_def spans_of_holds [OF assms] distinct_map_filter)
  have "span_key (snd x) \<noteq> span_key (snd y)"
    if "x \<in> set (picked Log K ix segs i)" "y \<in> set (picked Log K ix segs i)" "fst x \<noteq> fst y" for x y
    using that by (auto simp: picked_def points_at_def)
  then have "inj_on (\<lambda>x. span_key (snd x)) (set (picked Log K ix segs i))"
    using d unfolding distinct_map inj_on_def by metis
  with d show ?thesis by (simp add: distinct_map comp_def)
qed

lemma distinct_concat_map:
  assumes "distinct ids" "\<And>i. i \<in> set ids \<Longrightarrow> distinct (g i)"
    and "\<And>i j x. i \<in> set ids \<Longrightarrow> j \<in> set ids \<Longrightarrow> x \<in> set (g i) \<Longrightarrow> x \<in> set (g j) \<Longrightarrow> i = j"
  shows "distinct (concat (map g ids))"
  using assms
proof (induction ids)
  case (Cons i ids)
  then have "distinct (concat (map g ids))" by simp
  moreover have "set (g i) \<inter> set (concat (map g ids)) = {}" using Cons.prems(1,3) by fastforce
  ultimately show ?case using Cons.prems(2) by simp
qed simp

lemma span_key_snd:
  "(\<And>k s. (k, s) \<in> set b \<Longrightarrow> k = span_key s) \<Longrightarrow> map span_key (map snd b) = map fst b"
  by (induction b) (simp, fastforce)

text \<open>What the segments of the manifest contribute, and in which order: every key of the store once.\<close>

lemma from_segments:
  assumes ok: "db_ok Log K db" "listed K db" and ids: "manifest_ids (db_manifest db) (db_meta db) = Inr ids"
    "distinct ids" "\<forall>i \<in> set ids. \<exists>spans. seg_holds Log (db_segs db) i spans"
  shows "s \<in> set (concat (map (from_segment Log K f b (db_index db) (db_segs db)) ids)) \<longleftrightarrow>
      map_of b (span_key s) = None \<and> view K db (span_key s) = Some s \<and> filter_matches f s"
    and "distinct (map span_key (concat (map (from_segment Log K f b (db_index db) (db_segs db)) ids)))"
proof -
  let ?ix = "db_index db" and ?segs = "db_segs db"
  let ?from = "from_segment Log K f b ?ix ?segs"
  have E: "entries_ok Log K ?ix ?segs" using ok(1) by (simp add: db_ok_def)
  have from_iff: "s \<in> set (?from i) \<longleftrightarrow> (\<exists>off. (off, s) \<in> set (picked Log K ?ix ?segs i)) \<and> taken f b s" for s i
    by (force simp: from_segment_def)
  have at: "idx_map K ?ix (span_key s) = Some \<lparr>loc_SegmentID = i, loc_Offset = off\<rparr>"
    if "(off, s) \<in> set (picked Log K ?ix ?segs i)" for off s i
    using that by (simp add: picked_def points_at_def)
  show "s \<in> set (concat (map ?from ids)) \<longleftrightarrow>
      map_of b (span_key s) = None \<and> view K db (span_key s) = Some s \<and> filter_matches f s" (is "?l \<longleftrightarrow> ?r")
  proof
    assume ?l
    then obtain i off where i: "i \<in> set ids" "(off, s) \<in> set (picked Log K ?ix ?segs i)" "taken f b s" by (auto simp: from_iff)
    then obtain spans where h: "seg_holds Log ?segs i spans" using ids(3) by blast
    have "(off, s) \<in> set (seg_entries Log spans)" using i(2) by (simp add: picked_def spans_of_holds [OF h])
    with view_entry [OF at [OF i(2)]] h have "view K db (span_key s) = (if Deleted s then None else Some s)" by (simp add: view_def)
    with i(3) show ?r by (simp add: taken_def)
  next
    assume ?r
    then obtain loc where loc: "idx_map K ?ix (span_key s) = Some loc" by (auto simp: view_def view_at_def split: option.splits)
    obtain spans x where h: "seg_holds Log ?segs (loc_SegmentID loc) spans"
      "(loc_Offset loc, x) \<in> set (seg_entries Log spans)" "span_key x = span_key s" using E loc by (rule entries_okD)
    with view_entry [OF loc h(1,2)] \<open>?r\<close> have "x = s" "\<not> Deleted s" by (auto simp: view_def split: if_splits)
    moreover have "loc_SegmentID loc \<in> set ids" using ok(2) loc ids(1) unfolding listed_def by fastforce
    moreover have "(loc_Offset loc, x) \<in> set (picked Log K ?ix ?segs (loc_SegmentID loc))"
      using h loc by (simp add: picked_def spans_of_holds points_at_def)
    ultimately show ?l using \<open>?r\<close> by (auto simp: from_iff taken_def)
  qed
  have "distinct (map span_key (?from i))" if "i \<in> set ids" for i
  proof -
    from ids(3) that obtain spans where "seg_holds Log ?segs i spans" by blast
    show ?thesis unfolding from_segment_def by (rule distinct_map_filter [OF picked_keys [OF \<open>seg_holds Log ?segs i spans\<close>]])
  qed
  moreover have "i = j" if k: "k \<in> set (map span_key (?from i))" "k \<in> set (map span_key (?from j))" for i j k
  proof -
    obtain s s' where s: "s \<in> set (?from i)" "k = span_key s" "s' \<in> set (?from j)" "k = span_key s'" using k unfolding set_map by blast
    then obtain off off' where "(off, s) \<in> set (picked Log K ?ix ?segs i)" "(off', s') \<in> set (picked Log K ?ix ?segs j)"
      by (auto simp: from_iff)
    from at [OF this(1)] at [OF this(2)] s(2,4) show ?thesis by simp
  qed
  ultimately show "distinct (map span_key (concat (map ?from ids)))"
    using distinct_concat_map [OF ids(2), of "\<lambda>i. map span_key (?from i)"] by (simp add: map_concat comp_def)
qed

lemma RangeQuery_visible:
  assumes K: "kv_store K" and ok: "db_ok Log K (en_db e)" "ix_tape (db_index (en_db e)) = []" "manifest_holds Log (en_db e)"
    "listed K (en_db e)" and R: "RangeQuery K f e = (res, e')"
  shows "(\<exists>out. res = Inr out \<and> distinct (map span_key out)
        \<and> (\<forall>s. s \<in> set out \<longleftrightarrow> visible K e (span_key s) = Some s \<and> filter_matches f s))
      \<or> (\<exists>x. res = Inl x) \<and> (fs_tape (db_segs (en_db e)) \<noteq> [] \<or> fs_tape (db_meta (en_db e)) \<noteq> [])"
proof -
  let ?ix = "db_index (en_db e)" and ?segs = "db_segs (en_db e)" and ?b = "bufferedSpansByKey [] e"
  obtain ids where ids: "manifest_ids (db_manifest (en_db e)) (db_meta (en_db e)) = Inr ids" "distinct ids"
    "\<forall>i \<in> set ids. \<exists>spans. seg_holds Log ?segs i spans" using ok(3) by (auto simp: manifest_holds_def)
  have E: "entries_ok Log K ?ix ?segs" and I: "idx_ok K ?ix" using ok(1) by (simp_all add: db_ok_def entries_ok_def)
  obtain l m1 where L: "manifest_Load (db_manifest (en_db e)) (db_meta (en_db e)) = (l, m1)" by fastforce
  let ?e1 = "e\<lparr>en_db := (en_db e)\<lparr>db_meta := m1\<rparr>\<rparr>"
  show ?thesis
  proof (cases l)
    case (Inl x)
    with L ids(1) manifest_quiet(2) have "fs_tape (db_meta (en_db e)) \<noteq> []" by fastforce
    with Inl L R show ?thesis by (auto simp: RangeQuery_def on_meta_def)
  next
    case (Inr l')
    with L ids(1) have "l' = ids" using manifest_Load_ids [OF L] by auto
    moreover have b: "bufferedSpansByKey [] ?e1 = ?b" by (simp add: buffered_all session_spans_def)
    obtain r2 e2 where S: "range_segments K f ?b ids [] ?e1 = (r2, e2)" by fastforce
    let ?from = "from_segment Log K f ?b ?ix ?segs"
    let ?live = "filter (\<lambda>s. \<not> (Deleted s \<or> \<not> filter_matches f s)) (map snd ?b)"
    have cases: "r2 = Inr (concat (map ?from ids)) \<or> (\<exists>x. r2 = Inl x) \<and> fs_tape ?segs \<noteq> []"
      using range_segments_holds [OF K _ _ _ S, of Log] I ok(2) ids(3) by simp
    ultimately have res: "res = (case r2 of Inl x \<Rightarrow> Inl x | Inr xs \<Rightarrow> Inr (xs @ ?live))"
      using R L Inr S b by (cases r2) (auto simp: RangeQuery_def on_meta_def Let_def)
    let ?out = "concat (map ?from ids) @ ?live"
    note B = buffered_last [where e = e] and F = from_segments [OF ok(1,4) ids, where f = f and b = ?b]
    have vis: "visible K e k = (case map_of ?b k of None \<Rightarrow> view K (en_db e) k | Some s \<Rightarrow> as_live s)" for k
      by (simp add: visible_last B(1))
    have from_iff: "s \<in> set (concat (map ?from ids)) \<longleftrightarrow> map_of ?b (span_key s) = None \<and> visible K e (span_key s) = Some s \<and> filter_matches f s" for s
      unfolding F(1) vis by auto
    have "s \<in> snd ` set ?b \<longleftrightarrow> map_of ?b (span_key s) = Some s" for s
      using B(2,3) by force
    then have live_iff: "s \<in> set ?live \<longleftrightarrow> map_of ?b (span_key s) \<noteq> None \<and> visible K e (span_key s) = Some s \<and> filter_matches f s" for s
      by (auto simp: vis as_live_def dest: B(3) [OF map_of_SomeD] split: if_splits)
    have "distinct (map span_key ?live)"
      using B(2) span_key_snd [OF B(3)] by (metis distinct_map_filter)
    moreover have "span_key x \<noteq> span_key y" if "x \<in> set (concat (map ?from ids))" "y \<in> set ?live" for x y
      using from_iff [of x] live_iff [of y] that by metis
    ultimately have "distinct (map span_key ?out)"
      using F(2) by (simp only: map_append distinct_append set_map) blast
    with cases res from_iff live_iff show ?thesis by auto
  qed
qed

end
