(* ===== verification/Engine_Replay.thy ===== *)
theory Engine_Replay
  imports Engine_Read Engine_Recover
begin

text \<open>
  Recovery record by record: what the check \<^verbatim>\<open>spanAlreadyIndexed\<close> decides, and what a replay of
  an older and a newer version of one span leaves behind. The allocation of the next segment id.
\<close>

section \<open>The check of a replayed record\<close>

definition indexed_as :: "'k kv \<Rightarrow> 'k db \<Rightarrow> span_payload \<Rightarrow> bool" where
  "indexed_as K db s \<longleftrightarrow>
     (case view K db (span_key s) of None \<Rightarrow> False | Some got \<Rightarrow> spansEqual got s)"

text \<open>Without a fault the check compares the record with the live span of its key.\<close>

lemma spanAlreadyIndexed_quiet:
  assumes K: "kv_store K" and ok: "db_ok Log K (en_db e)" "ix_tape (db_index (en_db e)) = []"
    and q: "fs_tape (db_segs (en_db e)) = []" and live: "\<not> Deleted s"
  shows "spanAlreadyIndexed K s e = (indexed_as K (en_db e) s, e)"
proof -
  let ?k = "span_key s" and ?ix = "db_index (en_db e)" and ?segs = "db_segs (en_db e)"
  have E: "entries_ok Log K ?ix ?segs" and I: "idx_ok K ?ix" using ok(1) by (simp_all add: db_ok_def entries_ok_def)
  note get = idx_get_quiet [OF K I ok(2), of ?k]
  have same: "e\<lparr>en_db := (en_db e)\<lparr>db_index := ?ix\<rparr>\<rparr> = e" "e\<lparr>en_db := (en_db e)\<lparr>db_segs := ?segs\<rparr>\<rparr> = e" by simp_all
  show ?thesis
  proof (cases "idx_map K ?ix ?k")
    case None
    then show ?thesis by (simp add: spanAlreadyIndexed_def on_index_def get indexed_as_def view_def view_at_def)
  next
    case (Some loc)
    obtain spans x where h: "seg_holds Log ?segs (loc_SegmentID loc) spans"
      "(loc_Offset loc, x) \<in> set (seg_entries Log spans)" using E Some by (rule entries_okD)
    obtain r where a: "acquireSegment (loc_SegmentID loc) ?segs = (Inr r, ?segs)" using acquire_quiet [OF h(1) q] by blast
    have rd: "rd_ReadAt r (loc_Offset loc) = Inr x" using acquire_read [OF a] seg_read_entry [OF h] by simp
    have "view K (en_db e) ?k = (if Deleted x then None else Some x)" using view_entry [OF Some h] by (simp add: view_def)
    moreover have "Deleted x \<Longrightarrow> \<not> spansEqual x s" using live by (simp add: spansEqual_def)
    ultimately show ?thesis using Some rd
      by (simp add: spanAlreadyIndexed_def on_index_def on_segs_def get a indexed_as_def)
  qed
qed

lemma replay_one:
  assumes "kv_store K" "db_ok Log K (en_db e)" "ix_tape (db_index (en_db e)) = []" "fs_tape (db_segs (en_db e)) = []"
    and "\<not> Deleted (Span r)" "en_recovering e"
  shows "replay_record Log K now r e =
    (if indexed_as K (en_db e) (Span r) then e else buffer_span now \<lparr>ps_span = Span r, ps_walSeg = 0\<rparr> e)"
  using spanAlreadyIndexed_quiet [OF assms(1-5)] assms(6)
  by (simp add: replay_record_def processSpan_def Let_def)

text \<open>
  The log holds two versions of a span and the store already the newer one, as after a crash
  between the commit of a batch and the removal of its log segments. The older record is not
  what the index points at, so it is buffered again; the newer one is, so it is skipped: the
  older version is what readers see, and what the flush at the end of recovery persists.
\<close>

lemma replay_reverts:
  assumes K: "kv_store K" and ok: "db_ok Log K (en_db e)" "ix_tape (db_index (en_db e)) = []"
    and q: "fs_tape (db_segs (en_db e)) = []" and rec: "en_recovering e" "en_sessions e = []" "en_chan e = []"
    and free: "sep_free (TraceID (Span older))" "span_key (Span newer) = span_key (Span older)"
    and live: "\<not> Deleted (Span older)" "\<not> Deleted (Span newer)"
    and differ: "\<not> spansEqual (Span newer) (Span older)" "spansEqual (Span newer) (Span newer)"
    and stored: "view K (en_db e) (span_key (Span older)) = Some (Span newer)"
  shows "visible K (replay_records Log K now [older, newer] e) (span_key (Span older)) = Some (Span older)"
    "queue (replay_records Log K now [older, newer] e) = [\<lparr>ps_span = Span older, ps_walSeg = 0\<rparr>]"
proof -
  let ?ps = "\<lparr>ps_span = Span older, ps_walSeg = 0\<rparr>"
  let ?e = "buffer_span now ?ps e"
  have "replay_record Log K now older e = ?e"
    using replay_one [OF K ok q live(1) rec(1)] stored differ(1) by (simp add: indexed_as_def)
  moreover have "replay_record Log K now newer ?e = ?e"
  proof -
    have "indexed_as K (en_db ?e) (Span newer)" using stored differ(2) free(2) by (simp add: indexed_as_def)
    then show ?thesis using replay_one [of K Log ?e newer now] K ok q live(2) rec(1) by simp
  qed
  ultimately have eq: "replay_records Log K now [older, newer] e = ?e" by (simp add: replay_records_def)
  have "session_spans ?e = [?ps]" using rec(2) by (simp add: session_spans_def bucket_add_def Let_def)
  then show "queue (replay_records Log K now [older, newer] e) = [?ps]"
    "visible K (replay_records Log K now [older, newer] e) (span_key (Span older)) = Some (Span older)"
    using rec(3) live(1) by (simp_all add: eq queue_def visible_last as_live_def last_span_def)
qed

section \<open>The next segment id\<close>

lemma max_id_ge: "m \<le> max_id m ids" "i \<in> set ids \<Longrightarrow> i \<le> max_id m ids"
proof -
  have gen: "m \<le> max_id m ids \<and> (\<forall>i \<in> set ids. i \<le> max_id m ids)" for m
    unfolding max_id_def
  proof (induction ids arbitrary: m)
    case (Cons j ids)
    from Cons [of "if m < j then j else m"] show ?case by (auto split: if_splits)
  qed simp
  then show "m \<le> max_id m ids" "i \<in> set ids \<Longrightarrow> i \<le> max_id m ids" by auto
qed

lemma segment_file_id_path: "segment_file_id (SegmentPath i) = Some i"
proof -
  have "SegmentPath i = (''segment_'' @ pad6 (unat i)) @ ''.seg''" by (simp add: SegmentPath_def)
  then have "has_suffix (SegmentPath i) ''.seg''" by (metis has_suffix_append)
  moreover have "has_prefix (SegmentPath i) ''segment_''" unfolding SegmentPath_def by (rule has_prefix_append)
  moreover have "trim_suffix (trim_prefix (SegmentPath i) ''segment_'') ''.seg'' = pad6 (unat i)"
    unfolding SegmentPath_def by (simp only: trim_prefix_append trim_suffix_append)
  ultimately show ?thesis by (simp add: segment_file_id_def)
qed

text \<open>The id computed at start-up is above the checkpoint and above every segment file, listed or not.\<close>

lemma next_id_fresh:
  assumes "computeNextSegmentID lastConfirmed e = (Inr n, e')" "n \<noteq> 0"
  shows "lastConfirmed < n" "unused_from n (db_segs (en_db e'))"
proof -
  obtain live e1 where L: "on_meta EngManifest (manifest_Load (db_manifest (en_db e))) e = (live, e1)" by fastforce
  obtain flt t where F: "fs_fault (db_segs (en_db e1)) = (flt, (db_segs (en_db e1))\<lparr>fs_tape := t\<rparr>)" by (rule fs_fault_cases)
  let ?m = "case live of Inl _ \<Rightarrow> lastConfirmed | Inr ids \<Rightarrow> max_id lastConfirmed ids"
  let ?ids = "List.map_filter segment_file_id (map fst (fs_dir (db_segs (en_db e1))))"
  have r: "n = max_id ?m ?ids + 1" "fs_dir (db_segs (en_db e')) = fs_dir (db_segs (en_db e1))"
    using assms(1) L F by (auto simp: computeNextSegmentID_def Let_def split: option.splits)
  have "max_id ?m ?ids \<noteq> - 1"
  proof
    assume "max_id ?m ?ids = - 1"
    with r(1) assms(2) show False by simp
  qed
  then have less: "max_id ?m ?ids < n" unfolding r(1) by (rule word_less_inc)
  have "lastConfirmed \<le> ?m" using max_id_ge(1) by (simp split: sum.split)
  also have "?m \<le> max_id ?m ?ids" by (rule max_id_ge(1))
  finally show "lastConfirmed < n" using less by simp
  have "dir_get (fs_dir (db_segs (en_db e1))) (SegmentPath i) = None" if "n \<le> i" for i
  proof (rule ccontr)
    assume "dir_get (fs_dir (db_segs (en_db e1))) (SegmentPath i) \<noteq> None"
    then have "SegmentPath i \<in> set (map fst (fs_dir (db_segs (en_db e1))))" by (force dest: map_of_SomeD)
    then have "i \<in> set ?ids" using segment_file_id_path [of i] by (force simp: List.map_filter_def)
    then have "i \<le> max_id ?m ?ids" by (rule max_id_ge(2))
    with that less show False by simp
  qed
  with r(2) show "unused_from n (db_segs (en_db e'))" by (simp add: unused_from_def)
qed

end
