(* ===== verification/Cache.thy ===== *)
theory Cache
  imports Segment
begin

text \<open>
  The cache of open segment readers in \<^verbatim>\<open>internal/segment/cache.go\<close>. Entries and release
  handles are shared objects, so they live in heaps and are named by their position; the pool of
  used handles may give back any of them or drop them. Closing a reader can fail, by the
  schedule \<open>ca_tape\<close>.
\<close>

section \<open>State\<close>

record cache_entry =
  ce_id :: u64
  ce_reader :: seg_reader
  ce_refs :: int
  ce_evicted :: bool
  ce_closed :: bool

datatype lease = Cached nat | Direct seg_reader

record release_handle =
  ha_lease :: lease
  ha_fired :: bool

text \<open>The list \<open>ca_lru\<close> has the most recently acquired entry first.\<close>

record cache =
  ca_maxEntries :: int
  ca_entries :: "(u64 \<times> nat) list"
  ca_lru :: "nat list"
  ca_dead :: "u64 list"
  ca_closed :: bool
  ca_heap :: "cache_entry list"
  ca_handles :: "release_handle list"
  ca_pool :: "nat list"
  ca_tape :: tape

definition NewCache :: "int \<Rightarrow> tape \<Rightarrow> cache" where
  "NewCache maxEntries t =
     \<lparr>ca_maxEntries = maxEntries, ca_entries = [], ca_lru = [], ca_dead = [], ca_closed = False,
      ca_heap = [], ca_handles = [], ca_pool = [], ca_tape = t\<rparr>"

datatype cache_error = CacheClosed | CachePurged | CachePurgeTimeout | CacheOpen seg_error | CacheCloseFailed

definition on_entry :: "nat \<Rightarrow> (cache_entry \<Rightarrow> cache_entry) \<Rightarrow> cache \<Rightarrow> cache" where
  "on_entry a f c = c\<lparr>ca_heap := (ca_heap c)[a := f (ca_heap c ! a)]\<rparr>"

section \<open>Detaching and closing\<close>

definition detachLocked :: "nat \<Rightarrow> cache \<Rightarrow> cache" where
  "detachLocked a c =
     (let i = ce_id (ca_heap c ! a);
          c = (if map_of (ca_entries c) i = Some a then c\<lparr>ca_entries := AList.delete i (ca_entries c)\<rparr> else c);
          c = c\<lparr>ca_lru := remove1 a (ca_lru c)\<rparr>
      in on_entry a (\<lambda>e. e\<lparr>ce_evicted := True\<rparr>) c)"

text \<open>\<^verbatim>\<open>reader.Close\<close>: the handle is gone also when an error is reported.\<close>

definition close_reader :: "cache \<Rightarrow> cache_error option \<times> cache" where
  "close_reader c =
     (case next_fault (ca_tape c) of
        (Some _, t) \<Rightarrow> (Some CacheCloseFailed, c\<lparr>ca_tape := t\<rparr>)
      | (None, t) \<Rightarrow> (None, c\<lparr>ca_tape := t\<rparr>))"

definition closeEntryLocked :: "nat \<Rightarrow> cache \<Rightarrow> cache_error option \<times> cache" where
  "closeEntryLocked a c =
     (if ce_closed (ca_heap c ! a) then (None, c)
      else close_reader (on_entry a (\<lambda>e. e\<lparr>ce_closed := True\<rparr>) c))"

text \<open>The least recently acquired entry without a reader in flight.\<close>

definition victim :: "cache \<Rightarrow> nat option" where
  "victim c = find (\<lambda>a. ce_refs (ca_heap c ! a) = 0) (rev (ca_lru c))"

lemma find_SomeD: "find P xs = Some x \<Longrightarrow> x \<in> set xs \<and> P x"
  by (induction xs) (auto split: if_splits)

lemma victim_in_lru: "victim c = Some a \<Longrightarrow> a \<in> set (ca_lru c) \<and> ce_refs (ca_heap c ! a) = 0"
  using find_SomeD [of "\<lambda>a. ce_refs (ca_heap c ! a) = 0" "rev (ca_lru c)" a] by (simp add: victim_def)

lemma close_lru [simp]: "ca_lru (snd (closeEntryLocked a c)) = ca_lru c"
  by (auto simp: closeEntryLocked_def close_reader_def on_entry_def split: prod.splits option.splits)

lemma detach_lru [simp]: "ca_lru (detachLocked a c) = remove1 a (ca_lru c)"
  by (simp add: detachLocked_def Let_def on_entry_def)

lemma victim_shrinks:
  "victim c = Some a \<Longrightarrow> length (ca_lru (snd (closeEntryLocked a (detachLocked a c)))) < length (ca_lru c)"
  using victim_in_lru [of c a] length_pos_if_in_set [of a "ca_lru c"] by (simp add: length_remove1)

function evictOverflowLocked :: "cache \<Rightarrow> cache" where
  "evictOverflowLocked c =
     (if int (length (ca_entries c)) \<le> ca_maxEntries c then c
      else case victim c of
             None \<Rightarrow> c
           | Some a \<Rightarrow> evictOverflowLocked (snd (closeEntryLocked a (detachLocked a c))))"
  by pat_completeness auto
termination
  by (relation "measure (\<lambda>c. length (ca_lru c))") (auto dest: victim_shrinks)

declare evictOverflowLocked.simps [simp del]

section \<open>Leases\<close>

text \<open>
  \<^verbatim>\<open>releasePool.Get\<close> and the handle set up for an entry: \<open>pick\<close> is the pooled handle that the
  pool gives back, if it does.
\<close>

definition releaseHandle :: "nat option \<Rightarrow> nat \<Rightarrow> cache \<Rightarrow> nat \<times> cache" where
  "releaseHandle pick a c =
     (let handle = \<lparr>ha_lease = Cached a, ha_fired = False\<rparr> in
      case pick of
        Some h \<Rightarrow>
          if h \<in> set (ca_pool c)
          then (h, c\<lparr>ca_pool := remove1 h (ca_pool c), ca_handles := (ca_handles c)[h := handle]\<rparr>)
          else (length (ca_handles c), c\<lparr>ca_handles := ca_handles c @ [handle]\<rparr>)
      | None \<Rightarrow> (length (ca_handles c), c\<lparr>ca_handles := ca_handles c @ [handle]\<rparr>))"

definition NewDirectRelease :: "seg_reader \<Rightarrow> cache \<Rightarrow> nat \<times> cache" where
  "NewDirectRelease r c =
     (length (ca_handles c), c\<lparr>ca_handles := ca_handles c @ [\<lparr>ha_lease = Direct r, ha_fired = False\<rparr>]\<rparr>)"

definition add_entry :: "u64 \<Rightarrow> seg_reader \<Rightarrow> cache \<Rightarrow> cache" where
  "add_entry i r c =
     (let a = length (ca_heap c) in
      c\<lparr>ca_heap := ca_heap c @ [\<lparr>ce_id = i, ce_reader = r, ce_refs = 1, ce_evicted = False, ce_closed = False\<rparr>],
        ca_lru := a # ca_lru c, ca_entries := AList.update i a (ca_entries c)\<rparr>)"

definition Acquire ::
    "nat option \<Rightarrow> u64 \<Rightarrow> cache \<Rightarrow> file_store \<Rightarrow> (cache_error + seg_reader \<times> nat) \<times> cache \<times> file_store" where
  "Acquire pick i c segs =
     (if ca_closed c then (Inl CacheClosed, c, segs)
      else if i \<in> set (ca_dead c) then (Inl CachePurged, c, segs)
      else case map_of (ca_entries c) i of
             Some a \<Rightarrow>
               let c = on_entry a (\<lambda>e. e\<lparr>ce_refs := ce_refs e + 1\<rparr>) (c\<lparr>ca_lru := a # remove1 a (ca_lru c)\<rparr>) in
               (case releaseHandle pick a c of (h, c) \<Rightarrow> (Inr (ce_reader (ca_heap c ! a), h), c, segs))
           | None \<Rightarrow>
               (case OpenReaderLight i segs of
                  (Inl x, segs) \<Rightarrow> (Inl (CacheOpen x), c, segs)
                | (Inr r, segs) \<Rightarrow>
                    let a = length (ca_heap c); c = evictOverflowLocked (add_entry i r c) in
                    (case releaseHandle pick a c of (h, c) \<Rightarrow> (Inr (r, h), c, segs))))"

definition cache_release :: "nat \<Rightarrow> cache \<Rightarrow> cache_error option \<times> cache" where
  "cache_release a c =
     (let c = on_entry a (\<lambda>e. e\<lparr>ce_refs := ce_refs e - 1\<rparr>) c in
      if ce_refs (ca_heap c ! a) = 0 \<and> ce_evicted (ca_heap c ! a) then closeEntryLocked a c else (None, c))"

definition Release :: "nat \<Rightarrow> cache \<Rightarrow> cache_error option \<times> cache" where
  "Release h c =
     (if ha_fired (ca_handles c ! h) then (None, c)
      else let c = c\<lparr>ca_handles := (ca_handles c)[h := (ca_handles c ! h)\<lparr>ha_fired := True\<rparr>]\<rparr> in
           case ha_lease (ca_handles c ! h) of
             Direct _ \<Rightarrow> close_reader c
           | Cached a \<Rightarrow> (case cache_release a c of (err, c) \<Rightarrow> (err, c\<lparr>ca_pool := h # ca_pool c\<rparr>)))"

section \<open>Purging and shutting down\<close>

text \<open>One pass over the entries that are waited for: those at rest are closed.\<close>

definition keep_first :: "cache_error option \<Rightarrow> cache_error option \<Rightarrow> cache_error option" where
  "keep_first firstErr err = (if firstErr = None then err else firstErr)"

fun close_idle :: "nat list \<Rightarrow> cache_error option \<Rightarrow> cache \<Rightarrow> nat list \<times> cache_error option \<times> cache" where
  "close_idle [] firstErr c = ([], firstErr, c)"
| "close_idle (a # pending) firstErr c =
     (if ce_refs (ca_heap c ! a) = 0
      then case closeEntryLocked a c of (err, c) \<Rightarrow> close_idle pending (keep_first firstErr err) c
      else case close_idle pending firstErr c of (remaining, firstErr, c) \<Rightarrow> (a # remaining, firstErr, c))"

fun close_forced :: "nat list \<Rightarrow> cache_error option \<Rightarrow> cache \<Rightarrow> cache_error option \<times> cache" where
  "close_forced [] firstErr c = (firstErr, c)"
| "close_forced (a # pending) firstErr c =
     (case closeEntryLocked a c of (err, c) \<Rightarrow> close_forced pending (keep_first firstErr err) c)"

datatype wait_result = Done "cache_error option" | Waiting "nat list" "cache_error option"

text \<open>
  One turn of the loop of \<^verbatim>\<open>waitAndCloseLocked\<close>, up to \<^verbatim>\<open>cond.Wait\<close>, which gives up the lock;
  \<open>timedOut\<close> is the flag the watchdog sets.
\<close>

definition wait_turn ::
    "bool \<Rightarrow> bool \<Rightarrow> nat list \<Rightarrow> cache_error option \<Rightarrow> cache \<Rightarrow> wait_result \<times> cache" where
  "wait_turn force timedOut pending firstErr c =
     (case close_idle pending firstErr c of (remaining, firstErr, c) \<Rightarrow>
        if remaining = [] then (Done firstErr, c)
        else if timedOut
        then if \<not> force then (Done (Some CachePurgeTimeout), c)
             else (case close_forced remaining firstErr c of (err, c) \<Rightarrow> (Done err, c))
        else (Waiting remaining firstErr, c))"

fun purge_ids :: "u64 list \<Rightarrow> nat list \<Rightarrow> cache \<Rightarrow> nat list \<times> cache" where
  "purge_ids [] pending c = (pending, c)"
| "purge_ids (i # ids) pending c =
     (let c = c\<lparr>ca_dead := List.insert i (ca_dead c)\<rparr> in
      case map_of (ca_entries c) i of
        None \<Rightarrow> purge_ids ids pending c
      | Some a \<Rightarrow> purge_ids ids (pending @ [a]) (detachLocked a c))"

text \<open>\<^verbatim>\<open>Purge\<close> and \<^verbatim>\<open>Close\<close> up to their first wait.\<close>

definition Purge :: "u64 list \<Rightarrow> cache \<Rightarrow> wait_result \<times> cache" where
  "Purge ids c =
     (if ca_closed c then (Done None, c)
      else case purge_ids ids [] c of (pending, c) \<Rightarrow>
        if pending = [] then (Done None, c) else wait_turn False False pending None c)"

definition cache_Close :: "cache \<Rightarrow> wait_result \<times> cache" where
  "cache_Close c =
     (if ca_closed c then (Done None, c)
      else let c = c\<lparr>ca_closed := True\<rparr>; pending = map snd (ca_entries c); c = fold detachLocked pending c in
        if pending = [] then (Done None, c) else wait_turn True False pending None c)"

end
