(* ===== verification/Cache_Inv.thy ===== *)
theory Cache_Inv
  imports Cache Segment_Spec
begin

text \<open>
  The cache under interleaved clients as a step relation with one step per critical section, its
  invariant, and what acquiring, evicting and releasing keep of it.
\<close>

section \<open>Runs\<close>

record cache_wait =
  cw_force :: bool
  cw_ids :: "u64 list"
  cw_pending :: "nat list"
  cw_err :: "cache_error option"

text \<open>
  The cache and the segment files, the handles that clients hold with their entries, the purges
  that wait, and the segments of purges that gave up.
\<close>

record cache_run =
  cr_cache :: cache
  cr_segs :: file_store
  cr_leases :: "(nat \<times> nat) list"
  cr_waits :: "cache_wait list"
  cr_leaked :: "u64 list"

definition wait_next :: "bool \<Rightarrow> u64 list \<Rightarrow> wait_result \<Rightarrow> cache_wait list" where
  "wait_next force ids res =
     (case res of Done _ \<Rightarrow> []
      | Waiting pending err \<Rightarrow> [\<lparr>cw_force = force, cw_ids = ids, cw_pending = pending, cw_err = err\<rparr>])"

inductive cache_step :: "cache_run \<Rightarrow> cache_run \<Rightarrow> bool" where
  acquire: "Acquire pick i (cr_cache r) (cr_segs r) = (Inr (rd, h), c, segs) \<Longrightarrow> ha_lease (ca_handles c ! h) = Cached a \<Longrightarrow>
    cache_step r (r\<lparr>cr_cache := c, cr_segs := segs, cr_leases := (h, a) # cr_leases r\<rparr>)"
| acquire_fails: "Acquire pick i (cr_cache r) (cr_segs r) = (Inl x, c, segs) \<Longrightarrow>
    cache_step r (r\<lparr>cr_cache := c, cr_segs := segs\<rparr>)"
| release: "(h, a) \<in> set (cr_leases r) \<Longrightarrow> Release h (cr_cache r) = (err, c) \<Longrightarrow>
    cache_step r (r\<lparr>cr_cache := c, cr_leases := remove1 (h, a) (cr_leases r)\<rparr>)"
| purge: "Purge ids (cr_cache r) = (res, c) \<Longrightarrow>
    cache_step r (r\<lparr>cr_cache := c, cr_waits := wait_next False ids res @ cr_waits r\<rparr>)"
| close: "cache_Close (cr_cache r) = (res, c) \<Longrightarrow>
    cache_step r (r\<lparr>cr_cache := c, cr_waits := wait_next True [] res @ cr_waits r\<rparr>)"
| wait: "w \<in> set (cr_waits r) \<Longrightarrow> wait_turn (cw_force w) timedOut (cw_pending w) (cw_err w) (cr_cache r) = (res, c) \<Longrightarrow>
    leaked = (if res = Done (Some CachePurgeTimeout) then cw_ids w @ cr_leaked r else cr_leaked r) \<Longrightarrow>
    cache_step r (r\<lparr>cr_cache := c, cr_waits := wait_next (cw_force w) (cw_ids w) res @ remove1 w (cr_waits r), cr_leaked := leaked\<rparr>)"
| create: "dir_get (fs_dir (cr_segs r)) (SegmentPath i) = None \<Longrightarrow>
    cache_step r (r\<lparr>cr_segs := (cr_segs r)\<lparr>fs_dir := dir_put (SegmentPath i) data (fs_dir (cr_segs r))\<rparr>\<rparr>)"
| unlink: "i \<in> set (ca_dead (cr_cache r)) \<Longrightarrow>
    cache_step r (r\<lparr>cr_segs := (cr_segs r)\<lparr>fs_dir := dir_del (SegmentPath i) (fs_dir (cr_segs r))\<rparr>\<rparr>)"

section \<open>Invariant\<close>

definition leases_on :: "nat \<Rightarrow> (nat \<times> nat) list \<Rightarrow> int" where
  "leases_on a L = int (length (filter (\<lambda>(h, b). b = a) L))"

definition handles_ok :: "cache \<Rightarrow> (nat \<times> nat) list \<Rightarrow> bool" where
  "handles_ok c L \<longleftrightarrow> distinct (map fst L) \<and> distinct (ca_pool c) \<and> (\<forall>h \<in> set (ca_pool c). h < length (ca_handles c))
     \<and> (\<forall>(h, a) \<in> set L. h < length (ca_handles c) \<and> h \<notin> set (ca_pool c)
          \<and> ca_handles c ! h = \<lparr>ha_lease = Cached a, ha_fired = False\<rparr> \<and> a < length (ca_heap c))"

definition refs_ok :: "cache \<Rightarrow> (nat \<times> nat) list \<Rightarrow> bool" where
  "refs_ok c L \<longleftrightarrow> (\<forall>a < length (ca_heap c). ce_refs (ca_heap c ! a) = leases_on a L)"

definition table_ok :: "cache \<Rightarrow> bool" where
  "table_ok c \<longleftrightarrow> distinct (map fst (ca_entries c)) \<and> distinct (ca_lru c) \<and> set (ca_lru c) = snd ` set (ca_entries c)
     \<and> (\<forall>(i, a) \<in> set (ca_entries c). a < length (ca_heap c) \<and> ce_id (ca_heap c ! a) = i \<and> \<not> ce_evicted (ca_heap c ! a) \<and> i \<notin> set (ca_dead c))
     \<and> (\<forall>a < length (ca_heap c). \<not> ce_evicted (ca_heap c ! a) \<longrightarrow> (ce_id (ca_heap c ! a), a) \<in> set (ca_entries c))"

definition closed_ok :: "cache \<Rightarrow> bool" where
  "closed_ok c \<longleftrightarrow> (\<forall>a < length (ca_heap c). ce_closed (ca_heap c ! a) \<longrightarrow> ce_evicted (ca_heap c ! a) \<and> ce_refs (ca_heap c ! a) = 0)"

text \<open>Open entries out of the table are in \<open>X\<close>, and in use unless they are in \<open>Y\<close>.\<close>

definition open_ok :: "nat set \<Rightarrow> nat set \<Rightarrow> cache \<Rightarrow> bool" where
  "open_ok X Y c \<longleftrightarrow> (\<forall>a < length (ca_heap c). ce_evicted (ca_heap c ! a) \<and> \<not> ce_closed (ca_heap c ! a) \<longrightarrow>
     a \<in> X \<and> (a \<in> Y \<or> ce_refs (ca_heap c ! a) \<noteq> 0))"

definition readers_ok :: "cache \<Rightarrow> file_store \<Rightarrow> bool" where
  "readers_ok c segs \<longleftrightarrow> (\<forall>a < length (ca_heap c). \<not> ce_evicted (ca_heap c ! a) \<longrightarrow>
     (\<exists>data. dir_get (fs_dir segs) (SegmentPath (ce_id (ca_heap c ! a))) = Some data \<and> open_light data = Inr (ce_reader (ca_heap c ! a))))"

definition core_ok :: "nat set \<Rightarrow> nat set \<Rightarrow> cache \<Rightarrow> file_store \<Rightarrow> bool" where
  "core_ok X Y c segs \<longleftrightarrow> table_ok c \<and> closed_ok c \<and> open_ok X Y c \<and> readers_ok c segs"

text \<open>Who accounts for an entry out of the table: a purge that waits, or one that gave up.\<close>

definition accounted :: "cache_wait list \<Rightarrow> u64 list \<Rightarrow> cache \<Rightarrow> nat set" where
  "accounted W leaked c = (\<Union>w \<in> set W. set (cw_pending w)) \<union> {a. a < length (ca_heap c) \<and> ce_id (ca_heap c ! a) \<in> set leaked}"

definition waits_ok :: "cache_wait list \<Rightarrow> cache \<Rightarrow> bool" where
  "waits_ok W c \<longleftrightarrow> (\<forall>w \<in> set W. \<not> cw_force w \<and> set (cw_ids w) \<subseteq> set (ca_dead c)
     \<and> (\<forall>a \<in> set (cw_pending w). a < length (ca_heap c) \<and> ce_evicted (ca_heap c ! a) \<and> ce_id (ca_heap c ! a) \<in> set (cw_ids w)))"

definition live_ok :: "cache \<Rightarrow> file_store \<Rightarrow> cache_wait list \<Rightarrow> u64 list \<Rightarrow> bool" where
  "live_ok c segs W leaked \<longleftrightarrow> core_ok (accounted W leaked c) {} c segs \<and> waits_ok W c"

definition cache_ok :: "cache_run \<Rightarrow> bool" where
  "cache_ok r \<longleftrightarrow> handles_ok (cr_cache r) (cr_leases r) \<and> refs_ok (cr_cache r) (cr_leases r)
     \<and> (\<not> ca_closed (cr_cache r) \<longrightarrow> live_ok (cr_cache r) (cr_segs r) (cr_waits r) (cr_leaked r))"

section \<open>Closing\<close>

text \<open>\<open>c'\<close> differs from \<open>c\<close> in the entries marked closed only.\<close>

definition closes :: "cache \<Rightarrow> cache \<Rightarrow> bool" where
  "closes c c' \<longleftrightarrow> (\<exists>h t. c' = c\<lparr>ca_heap := h, ca_tape := t\<rparr> \<and> length h = length (ca_heap c)
     \<and> (\<forall>a < length h. \<exists>b. h ! a = (ca_heap c ! a)\<lparr>ce_closed := b\<rparr>))"

lemma entry_closed: "\<exists>b. e = e\<lparr>ce_closed := b\<rparr>" for e :: cache_entry
  by (rule exI [of _ "ce_closed e"]) simp

lemma closes_refl: "closes c c"
  unfolding closes_def by (intro exI [of _ "ca_heap c"] exI [of _ "ca_tape c"]) (simp add: entry_closed)

lemma closes_fields:
  assumes "closes c c'"
  shows "ca_entries c' = ca_entries c" "ca_lru c' = ca_lru c" "ca_dead c' = ca_dead c" "ca_closed c' = ca_closed c"
    "ca_handles c' = ca_handles c" "ca_pool c' = ca_pool c" "ca_maxEntries c' = ca_maxEntries c" "length (ca_heap c') = length (ca_heap c)"
    "a < length (ca_heap c) \<Longrightarrow> ce_id (ca_heap c' ! a) = ce_id (ca_heap c ! a)"
    "a < length (ca_heap c) \<Longrightarrow> ce_reader (ca_heap c' ! a) = ce_reader (ca_heap c ! a)"
    "a < length (ca_heap c) \<Longrightarrow> ce_refs (ca_heap c' ! a) = ce_refs (ca_heap c ! a)"
    "a < length (ca_heap c) \<Longrightarrow> ce_evicted (ca_heap c' ! a) = ce_evicted (ca_heap c ! a)"
  using assms by (fastforce simp: closes_def)+

lemma closes_trans:
  assumes "closes c1 c2" "closes c2 c3"
  shows "closes c1 c3"
proof -
  obtain h t where c3: "c3 = c2\<lparr>ca_heap := h, ca_tape := t\<rparr>" "length h = length (ca_heap c2)"
    "\<forall>a < length h. \<exists>b. h ! a = (ca_heap c2 ! a)\<lparr>ce_closed := b\<rparr>" using assms(2) by (auto simp: closes_def)
  obtain h' t' where c2: "c2 = c1\<lparr>ca_heap := h', ca_tape := t'\<rparr>" "length h' = length (ca_heap c1)"
    "\<forall>a < length h'. \<exists>b. h' ! a = (ca_heap c1 ! a)\<lparr>ce_closed := b\<rparr>" using assms(1) by (auto simp: closes_def)
  have "\<exists>b. h ! a = (ca_heap c1 ! a)\<lparr>ce_closed := b\<rparr>" if "a < length h" for a
    using c3(2,3) c2 that by fastforce
  with c2 c3(1,2) show ?thesis unfolding closes_def by (intro exI [of _ h] exI [of _ t]) auto
qed

lemma closeEntry:
  assumes "closeEntryLocked a c = (err, c')"
  shows "closes c c'" "b < length (ca_heap c) \<Longrightarrow> ce_closed (ca_heap c' ! b) \<longleftrightarrow> b = a \<or> ce_closed (ca_heap c ! b)"
proof -
  have "closes c c' \<and> (\<forall>b < length (ca_heap c). ce_closed (ca_heap c' ! b) \<longleftrightarrow> b = a \<or> ce_closed (ca_heap c ! b))"
  proof (cases "ce_closed (ca_heap c ! a)")
    case True
    with assms show ?thesis by (auto simp: closeEntryLocked_def closes_refl)
  next
    case False
    then obtain t where t: "c' = c\<lparr>ca_heap := (ca_heap c)[a := (ca_heap c ! a)\<lparr>ce_closed := True\<rparr>], ca_tape := t\<rparr>"
      using assms by (auto simp: closeEntryLocked_def close_reader_def on_entry_def split: prod.splits option.splits)
    have "\<exists>b. (ca_heap c)[a := (ca_heap c ! a)\<lparr>ce_closed := True\<rparr>] ! d = (ca_heap c ! d)\<lparr>ce_closed := b\<rparr>" if "d < length (ca_heap c)" for d
      using that entry_closed [of "ca_heap c ! d"] by (cases "d = a") auto
    then have "closes c c'" unfolding closes_def t
      by (intro exI [of _ "(ca_heap c)[a := (ca_heap c ! a)\<lparr>ce_closed := True\<rparr>]"] exI [of _ t]) simp
    moreover have "ce_closed (ca_heap c' ! b) \<longleftrightarrow> b = a \<or> ce_closed (ca_heap c ! b)" if "b < length (ca_heap c)" for b
      using that by (cases "b = a") (auto simp: t)
    ultimately show ?thesis by blast
  qed
  then show "closes c c'" "b < length (ca_heap c) \<Longrightarrow> ce_closed (ca_heap c' ! b) \<longleftrightarrow> b = a \<or> ce_closed (ca_heap c ! b)" by auto
qed

lemma closes_ok:
  assumes "closes c c'"
  shows "table_ok c' = table_ok c" "readers_ok c' segs = readers_ok c segs" "handles_ok c' L = handles_ok c L" "refs_ok c' L = refs_ok c L"
proof -
  note F = closes_fields [OF assms]
  show "readers_ok c' segs = readers_ok c segs" "refs_ok c' L = refs_ok c L" "handles_ok c' L = handles_ok c L"
    by (simp_all add: readers_ok_def refs_ok_def handles_ok_def F cong: conj_cong imp_cong)
  have "(\<forall>(i, a) \<in> set (ca_entries c). a < length (ca_heap c) \<and> ce_id (ca_heap c' ! a) = i \<and> \<not> ce_evicted (ca_heap c' ! a) \<and> i \<notin> set (ca_dead c))
    \<longleftrightarrow> (\<forall>(i, a) \<in> set (ca_entries c). a < length (ca_heap c) \<and> ce_id (ca_heap c ! a) = i \<and> \<not> ce_evicted (ca_heap c ! a) \<and> i \<notin> set (ca_dead c))"
    using F(9,12) by auto
  then show "table_ok c' = table_ok c" unfolding table_ok_def F(1-3,8) using F(9,12) by auto
qed

section \<open>Detaching\<close>

lemma detach_fields [simp]:
  "ca_handles (detachLocked a c) = ca_handles c" "ca_pool (detachLocked a c) = ca_pool c" "ca_dead (detachLocked a c) = ca_dead c"
  "ca_closed (detachLocked a c) = ca_closed c" "ca_maxEntries (detachLocked a c) = ca_maxEntries c"
  "length (ca_heap (detachLocked a c)) = length (ca_heap c)"
  "ca_heap (detachLocked a c) = (ca_heap c)[a := (ca_heap c ! a)\<lparr>ce_evicted := True\<rparr>]"
  by (simp_all add: detachLocked_def Let_def on_entry_def)

lemma update_field:
  assumes "\<And>e. f (g e) = f e"
  shows "f (xs[a := g (xs ! a)] ! b) = f (xs ! b)"
proof (cases "a = b \<and> a < length xs")
  case False
  then have "xs[a := g (xs ! a)] ! b = xs ! b" by (cases "a < length xs") (auto simp: list_update_beyond)
  then show ?thesis by simp
qed (use assms in auto)

lemma detach_heap:
  "ce_id (ca_heap (detachLocked a c) ! b) = ce_id (ca_heap c ! b)" "ce_refs (ca_heap (detachLocked a c) ! b) = ce_refs (ca_heap c ! b)"
  "ce_closed (ca_heap (detachLocked a c) ! b) = ce_closed (ca_heap c ! b)"
  "ce_reader (ca_heap (detachLocked a c) ! b) = ce_reader (ca_heap c ! b)"
  "b < length (ca_heap c) \<Longrightarrow> ce_evicted (ca_heap (detachLocked a c) ! b) \<longleftrightarrow> b = a \<or> ce_evicted (ca_heap c ! b)"
proof -
  show "ce_id (ca_heap (detachLocked a c) ! b) = ce_id (ca_heap c ! b)" "ce_refs (ca_heap (detachLocked a c) ! b) = ce_refs (ca_heap c ! b)"
    "ce_closed (ca_heap (detachLocked a c) ! b) = ce_closed (ca_heap c ! b)" "ce_reader (ca_heap (detachLocked a c) ! b) = ce_reader (ca_heap c ! b)"
    unfolding detach_fields(7) by (rule update_field, simp)+
  show "b < length (ca_heap c) \<Longrightarrow> ce_evicted (ca_heap (detachLocked a c) ! b) \<longleftrightarrow> b = a \<or> ce_evicted (ca_heap c ! b)"
    by (cases "b = a") auto
qed

lemma detach_core:
  assumes ok: "core_ok X Y c segs" and a: "(i, a) \<in> set (ca_entries c)"
  shows "core_ok (insert a X) (insert a Y) (detachLocked a c) segs" "ce_evicted (ca_heap (detachLocked a c) ! a)"
    "ca_entries (detachLocked a c) = AList.delete i (ca_entries c)"
proof -
  have T: "distinct (map fst (ca_entries c))" "distinct (ca_lru c)" "set (ca_lru c) = snd ` set (ca_entries c)"
    "\<And>j b. (j, b) \<in> set (ca_entries c) \<Longrightarrow> b < length (ca_heap c) \<and> ce_id (ca_heap c ! b) = j \<and> \<not> ce_evicted (ca_heap c ! b) \<and> j \<notin> set (ca_dead c)"
    "\<And>b. b < length (ca_heap c) \<Longrightarrow> \<not> ce_evicted (ca_heap c ! b) \<Longrightarrow> (ce_id (ca_heap c ! b), b) \<in> set (ca_entries c)"
    using ok by (auto simp: core_ok_def table_ok_def)
  have i: "ce_id (ca_heap c ! a) = i" "a < length (ca_heap c)" using T(4) [OF a] by auto
  have "map_of (ca_entries c) i = Some a" using T(1) a by simp
  then show E: "ca_entries (detachLocked a c) = AList.delete i (ca_entries c)" by (simp add: detachLocked_def Let_def on_entry_def i)
  show "ce_evicted (ca_heap (detachLocked a c) ! a)" using i(2) by simp
  have mem: "(j, b) \<in> set (AList.delete i (ca_entries c)) \<longleftrightarrow> (j, b) \<in> set (ca_entries c) \<and> b \<noteq> a" for j b
  proof -
    have "(j, b) \<in> set (AList.delete i (ca_entries c)) \<longleftrightarrow> (j, b) \<in> set (ca_entries c) \<and> j \<noteq> i"
      by (auto simp: AList.delete_eq)
    moreover have "j = i \<longleftrightarrow> b = a" if "(j, b) \<in> set (ca_entries c)"
      using T(4) [OF that] i(1) T(1) a that by (auto dest: eq_key_imp_eq_value)
    ultimately show ?thesis by blast
  qed
  have "table_ok (detachLocked a c)"
    unfolding table_ok_def E
  proof (intro conjI)
    show "distinct (map fst (AList.delete i (ca_entries c)))" using T(1) by (rule distinct_delete)
    show "distinct (ca_lru (detachLocked a c))" using T(2) by simp
    show "set (ca_lru (detachLocked a c)) = snd ` set (AList.delete i (ca_entries c))" using T(2,3) mem by force
    show "\<forall>(j, b) \<in> set (AList.delete i (ca_entries c)). b < length (ca_heap (detachLocked a c)) \<and> ce_id (ca_heap (detachLocked a c) ! b) = j
        \<and> \<not> ce_evicted (ca_heap (detachLocked a c) ! b) \<and> j \<notin> set (ca_dead (detachLocked a c))"
      using T(4) mem by (auto simp: detach_heap simp del: detach_fields(7))
    show "\<forall>b < length (ca_heap (detachLocked a c)). \<not> ce_evicted (ca_heap (detachLocked a c) ! b) \<longrightarrow>
        (ce_id (ca_heap (detachLocked a c) ! b), b) \<in> set (AList.delete i (ca_entries c))"
      using T(5) mem by (auto simp: detach_heap simp del: detach_fields(7))
  qed
  moreover have "closed_ok (detachLocked a c)" "open_ok (insert a X) (insert a Y) (detachLocked a c)" "readers_ok (detachLocked a c) segs"
    using ok by (auto simp: core_ok_def closed_ok_def open_ok_def readers_ok_def detach_heap simp del: detach_fields(7))
  ultimately show "core_ok (insert a X) (insert a Y) (detachLocked a c) segs" by (simp add: core_ok_def)
qed

section \<open>Closing entries at rest\<close>

lemma close_idle_entry:
  assumes ok: "core_ok X Y c segs" and a: "a < length (ca_heap c)" "ce_evicted (ca_heap c ! a)" "ce_refs (ca_heap c ! a) = 0"
    and C: "closeEntryLocked a c = (err, c')"
  shows "core_ok (X - {a}) (Y - {a}) c' segs"
proof -
  note R = closeEntry(1) [OF C] and F = closes_fields [OF closeEntry(1) [OF C]] and B = closeEntry(2) [OF C]
  have "closed_ok c'" using ok a by (auto simp: core_ok_def closed_ok_def F B)
  moreover have "open_ok (X - {a}) (Y - {a}) c'" using ok a by (auto simp: core_ok_def open_ok_def F B)
  ultimately show ?thesis using ok closes_ok [OF R] by (simp add: core_ok_def)
qed

lemma core_mono: "core_ok X Y c segs \<Longrightarrow> X \<subseteq> X' \<Longrightarrow> Y \<subseteq> Y' \<Longrightarrow> core_ok X' Y' c segs"
  by (fastforce simp: core_ok_def open_ok_def)

lemma close_idle_ok:
  assumes "core_ok (X \<union> set pending) (set pending) c segs" "\<forall>a \<in> set pending. a < length (ca_heap c) \<and> ce_evicted (ca_heap c ! a)"
    and "close_idle pending fe c = (remaining, fe', c')"
  shows "core_ok (X \<union> set remaining) {} c' segs \<and> closes c c' \<and> set remaining \<subseteq> set pending"
  using assms
proof (induction pending fe c arbitrary: X remaining fe' c' rule: close_idle.induct)
  case (1 fe c)
  then show ?case by (simp add: closes_refl)
next
  case (2 a pending fe c)
  show ?case
  proof (cases "ce_refs (ca_heap c ! a) = 0")
    case True
    obtain err c1 where C: "closeEntryLocked a c = (err, c1)" by fastforce
    note R = closeEntry(1) [OF C]
    have "core_ok (X \<union> set pending) (set pending) c1 segs"
      using close_idle_entry [OF 2(3) _ _ True C] 2(4) by (auto intro: core_mono)
    moreover have "\<forall>b \<in> set pending. b < length (ca_heap c1) \<and> ce_evicted (ca_heap c1 ! b)"
      using 2(4) closes_fields [OF R] by auto
    ultimately show ?thesis using 2(1) [OF True C [symmetric]] 2(5) True C closes_trans [OF R] by auto
  next
    case False
    obtain rem fe1 c1 where C: "close_idle pending fe c = (rem, fe1, c1)" by (metis prod_cases3)
    have "core_ok (insert a X \<union> set pending) (set pending) c segs"
      using 2(3) False by (auto simp: core_ok_def open_ok_def)
    from 2(2) [OF False this _ C] 2(4) have "core_ok (insert a X \<union> set rem) {} c1 segs \<and> closes c c1 \<and> set rem \<subseteq> set pending" by simp
    with 2(5) False C show ?thesis by auto
  qed
qed

section \<open>What every operation keeps\<close>

text \<open>The heap only grows, an entry keeps its segment and never comes back into the table.\<close>

definition grows :: "cache \<Rightarrow> cache \<Rightarrow> bool" where
  "grows c c' \<longleftrightarrow> length (ca_heap c) \<le> length (ca_heap c') \<and> set (ca_dead c) \<subseteq> set (ca_dead c') \<and> ca_closed c' = ca_closed c
     \<and> (\<forall>a < length (ca_heap c). ce_id (ca_heap c' ! a) = ce_id (ca_heap c ! a)
          \<and> (ce_evicted (ca_heap c ! a) \<longrightarrow> ce_evicted (ca_heap c' ! a)))"

lemma grows_refl: "grows c c"
  by (simp add: grows_def)

lemma grows_trans: "grows c1 c2 \<Longrightarrow> grows c2 c3 \<Longrightarrow> grows c1 c3"
  by (fastforce simp: grows_def)

lemma grows_closes: "closes c c' \<Longrightarrow> grows c c'"
  by (simp add: grows_def closes_fields)

lemma grows_detach: "grows c (detachLocked a c)"
  by (simp add: grows_def detach_heap del: detach_fields(7))

text \<open>Leases are untouched by an eviction.\<close>

definition same_leases :: "cache \<Rightarrow> cache \<Rightarrow> bool" where
  "same_leases c c' \<longleftrightarrow> ca_handles c' = ca_handles c \<and> ca_pool c' = ca_pool c \<and> length (ca_heap c') = length (ca_heap c)
     \<and> (\<forall>a < length (ca_heap c). ce_refs (ca_heap c' ! a) = ce_refs (ca_heap c ! a))"

lemma same_leases_trans: "same_leases c1 c2 \<Longrightarrow> same_leases c2 c3 \<Longrightarrow> same_leases c1 c3"
  by (simp add: same_leases_def)

lemma same_leases_simps: "same_leases c c" "closes c c' \<Longrightarrow> same_leases c c'" "same_leases c (detachLocked a c)"
  by (simp_all add: same_leases_def closes_fields detach_heap del: detach_fields(7))

lemma same_leases_ok: "same_leases c c' \<Longrightarrow> handles_ok c' L = handles_ok c L \<and> refs_ok c' L = refs_ok c L"
  by (simp add: same_leases_def handles_ok_def refs_ok_def)

lemma evict_ok:
  "core_ok X {} c segs \<Longrightarrow> core_ok X {} (evictOverflowLocked c) segs \<and> grows c (evictOverflowLocked c)
    \<and> same_leases c (evictOverflowLocked c)
    \<and> (int (length (ca_entries (evictOverflowLocked c))) \<le> ca_maxEntries c
       \<or> (\<forall>a \<in> snd ` set (ca_entries (evictOverflowLocked c)). ce_refs (ca_heap (evictOverflowLocked c) ! a) \<noteq> 0))"
proof (induction c rule: evictOverflowLocked.induct)
  case (1 c)
  show ?case
  proof (cases "int (length (ca_entries c)) \<le> ca_maxEntries c")
    case True
    with 1(2) show ?thesis by (subst (1 2 3 4 5 6) evictOverflowLocked.simps) (simp add: grows_refl same_leases_simps)
  next
    case False
    show ?thesis
    proof (cases "victim c")
      case None
      have "\<forall>a \<in> set (ca_lru c). ce_refs (ca_heap c ! a) \<noteq> 0" using None by (simp add: victim_def find_None_iff)
      moreover have "set (ca_lru c) = snd ` set (ca_entries c)" using 1(2) by (simp add: core_ok_def table_ok_def)
      ultimately show ?thesis using 1(2) None False
        by (subst (1 2 3 4 5 6) evictOverflowLocked.simps) (simp add: grows_refl same_leases_simps)
    next
      case (Some a)
      note V = victim_in_lru [OF Some]
      have "set (ca_lru c) = snd ` set (ca_entries c)" using 1(2) by (simp add: core_ok_def table_ok_def)
      then obtain i where i: "(i, a) \<in> set (ca_entries c)" using V by force
      let ?d = "detachLocked a c"
      obtain err c1 where C: "closeEntryLocked a ?d = (err, c1)" by fastforce
      note D = detach_core [OF 1(2) i]
      have len: "a < length (ca_heap c)" using 1(2) i by (auto simp: core_ok_def table_ok_def)
      have "core_ok (insert a X - {a}) ({a} - {a}) c1 segs"
        using D(1,2) len V by (intro close_idle_entry [OF _ _ _ _ C]) (simp_all add: detach_heap del: detach_fields(7))
      then have core: "core_ok X {} c1 segs" by (rule core_mono) auto
      have eq: "evictOverflowLocked c = evictOverflowLocked c1" using False Some C by (subst evictOverflowLocked.simps) simp
      have "snd (closeEntryLocked a ?d) = c1" by (simp add: C)
      note IH = 1(1) [OF False Some, unfolded this, OF core]
      note g = grows_trans [OF grows_detach grows_closes [OF closeEntry(1) [OF C]]]
        and l = same_leases_trans [OF same_leases_simps(3) same_leases_simps(2) [OF closeEntry(1) [OF C]]]
        and m = closes_fields(7) [OF closeEntry(1) [OF C]]
      show ?thesis unfolding eq using IH grows_trans [OF g] same_leases_trans [OF l] m by simp
    qed
  qed
qed

section \<open>Acquire\<close>

lemma leases_on_simps [simp]:
  "leases_on b [] = 0" "leases_on b ((h, a) # L) = (if a = b then 1 else 0) + leases_on b L" "0 \<le> leases_on b L"
  by (simp_all add: leases_on_def)

lemma leases_on_pos: "(h, a) \<in> set L \<Longrightarrow> 1 \<le> leases_on a L"
  by (induction L) (auto intro: add_increasing)

lemma leases_on_remove: "(h, a) \<in> set L \<Longrightarrow> leases_on b (remove1 (h, a) L) = leases_on b L - (if a = b then 1 else 0)"
  by (induction L) auto

lemma releaseHandle_ok:
  assumes "handles_ok c L" "a < length (ca_heap c)" "releaseHandle pick a c = (h, c')"
  shows "handles_ok c' ((h, a) # L) \<and> ca_handles c' ! h = \<lparr>ha_lease = Cached a, ha_fired = False\<rparr>
    \<and> (\<exists>hs p. c' = c\<lparr>ca_pool := p, ca_handles := hs\<rparr>)"
proof (cases "\<exists>k. pick = Some k \<and> k \<in> set (ca_pool c)")
  case True
  then obtain k where k: "pick = Some k" "k \<in> set (ca_pool c)" by blast
  with assms(3) have c': "h = k" "c' = c\<lparr>ca_pool := remove1 k (ca_pool c), ca_handles := (ca_handles c)[k := \<lparr>ha_lease = Cached a, ha_fired = False\<rparr>]\<rparr>"
    by (auto simp: releaseHandle_def)
  have "k \<notin> fst ` set L" using assms(1) k(2) by (force simp: handles_ok_def)
  with assms(1,2) k(2) show ?thesis unfolding c' by (auto simp: handles_ok_def nth_list_update)
next
  case False
  with assms(3) have c': "h = length (ca_handles c)" "c' = c\<lparr>ca_handles := ca_handles c @ [\<lparr>ha_lease = Cached a, ha_fired = False\<rparr>]\<rparr>"
    by (auto simp: releaseHandle_def Let_def split: option.splits if_splits)
  have "\<exists>hs p. c' = c\<lparr>ca_pool := p, ca_handles := hs\<rparr>"
    unfolding c' by (intro exI [of _ "ca_handles c @ [\<lparr>ha_lease = Cached a, ha_fired = False\<rparr>]"] exI [of _ "ca_pool c"]) simp
  moreover have "length (ca_handles c) \<notin> set (ca_pool c)" "length (ca_handles c) \<notin> fst ` set L"
    using assms(1) by (auto simp: handles_ok_def)
  then have "handles_ok c' ((h, a) # L)" using assms(1,2) unfolding c' by (auto simp: handles_ok_def nth_append)
  ultimately show ?thesis by (simp add: c')
qed

lemma core_handles: "core_ok X Y (c\<lparr>ca_pool := p, ca_handles := hs\<rparr>) segs = core_ok X Y c segs"
  "refs_ok (c\<lparr>ca_pool := p, ca_handles := hs\<rparr>) L = refs_ok c L" "grows c0 (c\<lparr>ca_pool := p, ca_handles := hs\<rparr>) = grows c0 c"
  by (simp_all add: core_ok_def table_ok_def closed_ok_def open_ok_def readers_ok_def refs_ok_def grows_def)

lemma update_absent: "map_of es i = None \<Longrightarrow> AList.update i a es = es @ [(i, a)]"
  by (induction es) (auto split: if_splits)

lemma add_entry_ok:
  assumes ok: "core_ok X {} c segs" "handles_ok c L" "refs_ok c L" and i: "map_of (ca_entries c) i = None" "i \<notin> set (ca_dead c)"
    and read: "dir_get (fs_dir segs) (SegmentPath i) = Some data" "open_light data = Inr rd"
    and fresh: "X \<subseteq> {..<length (ca_heap c)}"
  shows "core_ok X {} (add_entry i rd c) segs" "handles_ok (add_entry i rd c) L"
    "\<And>h. refs_ok (add_entry i rd c) ((h, length (ca_heap c)) # L)" "grows c (add_entry i rd c)"
proof -
  let ?a = "length (ca_heap c)" and ?c = "add_entry i rd c"
  have ent: "ca_entries ?c = ca_entries c @ [(i, ?a)]"
    using i(1) by (simp add: add_entry_def Let_def update_absent)
  have heap: "ca_heap ?c = ca_heap c @ [\<lparr>ce_id = i, ce_reader = rd, ce_refs = 1, ce_evicted = False, ce_closed = False\<rparr>]"
    "ca_lru ?c = ?a # ca_lru c" "ca_dead ?c = ca_dead c" "ca_handles ?c = ca_handles c" "ca_pool ?c = ca_pool c" "ca_closed ?c = ca_closed c"
    by (simp_all add: add_entry_def Let_def)
  have T: "table_ok c" "closed_ok c" "open_ok X {} c" "readers_ok c segs" using ok(1) by (simp_all add: core_ok_def)
  have "i \<notin> fst ` set (ca_entries c)" using i(1) by (simp add: map_of_eq_None_iff)
  moreover have "?a \<notin> snd ` set (ca_entries c)" using T(1) by (auto simp: table_ok_def)
  ultimately have "table_ok ?c" using T(1) i(2) unfolding table_ok_def ent heap by (auto simp: nth_append less_Suc_eq)
  moreover have "closed_ok ?c" "open_ok X {} ?c" using T(2,3) by (auto simp: closed_ok_def open_ok_def heap nth_append)
  moreover have "readers_ok ?c segs" using T(4) read by (auto simp: readers_ok_def heap nth_append)
  ultimately show "core_ok X {} ?c segs" by (simp add: core_ok_def)
  show "handles_ok ?c L" using ok(2) by (auto simp: handles_ok_def heap)
  have "leases_on ?a L = 0" using ok(2) by (auto simp: handles_ok_def leases_on_def filter_empty_conv)
  then show "refs_ok ?c ((h, ?a) # L)" for h using ok(3) by (auto simp: refs_ok_def heap nth_append less_Suc_eq)
  show "grows c ?c" by (simp add: grows_def heap nth_append)
qed

lemma hit_ok:
  assumes ok: "core_ok X {} c segs" "handles_ok c L" "refs_ok c L" and i: "(i, a) \<in> set (ca_entries c)"
  defines "c' \<equiv> on_entry a (\<lambda>e. e\<lparr>ce_refs := ce_refs e + 1\<rparr>) (c\<lparr>ca_lru := a # remove1 a (ca_lru c)\<rparr>)"
  shows "core_ok X {} c' segs" "handles_ok c' L" "\<And>h. refs_ok c' ((h, a) # L)" "grows c c'" "a < length (ca_heap c')"
    "ce_reader (ca_heap c' ! a) = ce_reader (ca_heap c ! a)"
proof -
  have T: "table_ok c" "closed_ok c" "open_ok X {} c" "readers_ok c segs" using ok(1) by (simp_all add: core_ok_def)
  have a: "a < length (ca_heap c)" "\<not> ce_evicted (ca_heap c ! a)" "distinct (ca_lru c)" "set (ca_lru c) = snd ` set (ca_entries c)"
    using T(1) i unfolding table_ok_def by auto
  have "a \<in> set (ca_lru c)" unfolding a(4) using i by force
  have heap: "ca_heap c' = (ca_heap c)[a := (ca_heap c ! a)\<lparr>ce_refs := ce_refs (ca_heap c ! a) + 1\<rparr>]"
    "ca_lru c' = a # remove1 a (ca_lru c)" "ca_entries c' = ca_entries c" "ca_dead c' = ca_dead c" "ca_closed c' = ca_closed c"
    "ca_handles c' = ca_handles c" "ca_pool c' = ca_pool c"
    by (simp_all add: c'_def on_entry_def)
  have F: "ce_id (ca_heap c' ! b) = ce_id (ca_heap c ! b)" "ce_evicted (ca_heap c' ! b) = ce_evicted (ca_heap c ! b)"
    "ce_closed (ca_heap c' ! b) = ce_closed (ca_heap c ! b)" "ce_reader (ca_heap c' ! b) = ce_reader (ca_heap c ! b)" for b
    unfolding heap by (rule update_field, simp)+
  have len: "length (ca_heap c') = length (ca_heap c)" by (simp add: heap)
  have refs: "ce_refs (ca_heap c' ! b) = ce_refs (ca_heap c ! b) + (if b = a then 1 else 0)" if "b < length (ca_heap c)" for b
    using that a(1) by (simp add: heap nth_list_update)
  have "set (ca_lru c') = set (ca_lru c)" "distinct (ca_lru c')" using a(3) \<open>a \<in> set (ca_lru c)\<close> by (auto simp: heap)
  then have "table_ok c'" using T(1) by (simp add: table_ok_def F len heap(3,4))
  moreover have "closed_ok c'" using T(2) a(2) refs by (auto simp: closed_ok_def F len)
  moreover have "open_ok X {} c'" using T(3) a(2) refs by (auto simp: open_ok_def F len)
  moreover have "readers_ok c' segs" using T(4) by (simp add: readers_ok_def F len)
  ultimately show "core_ok X {} c' segs" by (simp add: core_ok_def)
  show "handles_ok c' L" using ok(2) by (simp add: handles_ok_def len heap(6,7))
  show "refs_ok c' ((h, a) # L)" for h using ok(3) refs by (auto simp: refs_ok_def len)
  show "grows c c'" by (simp add: grows_def F len heap(4,5))
  show "a < length (ca_heap c')" using a(1) by (simp add: len)
  show "ce_reader (ca_heap c' ! a) = ce_reader (ca_heap c ! a)" by (rule F)
qed

lemma open_light_dir:
  assumes "OpenReaderLight i segs = (r, segs')"
  shows "fs_dir segs' = fs_dir segs"
    "r = Inr rd \<Longrightarrow> \<exists>data. dir_get (fs_dir segs) (SegmentPath i) = Some data \<and> open_light data = Inr rd"
  using assms by (auto simp: OpenReaderLight_def open_with_def fs_fault_def split: prod.splits option.splits)

text \<open>The reader is the one an open of the file gives, whether it was cached or not.\<close>

lemma core_ok_dir: "fs_dir segs' = fs_dir segs \<Longrightarrow> core_ok X Y c segs' = core_ok X Y c segs"
  by (simp add: core_ok_def readers_ok_def)

lemma Acquire_ok:
  assumes ok: "core_ok X {} c segs" "handles_ok c L" "refs_ok c L" and fresh: "X \<subseteq> {..<length (ca_heap c)}"
    and A: "Acquire pick i c segs = (Inr (rd, h), c', segs')"
  obtains a data where "ca_handles c' ! h = \<lparr>ha_lease = Cached a, ha_fired = False\<rparr>" "handles_ok c' ((h, a) # L)" "refs_ok c' ((h, a) # L)"
    "core_ok X {} c' segs'" "grows c c'" "fs_dir segs' = fs_dir segs"
    "dir_get (fs_dir segs) (SegmentPath i) = Some data" "open_light data = Inr rd"
proof -
  have open': "\<not> ca_closed c" "i \<notin> set (ca_dead c)" using A by (auto simp: Acquire_def split: if_splits)
  show ?thesis
  proof (cases "map_of (ca_entries c) i")
    case (Some a)
    then have i: "(i, a) \<in> set (ca_entries c)" by (rule map_of_SomeD)
    let ?c = "on_entry a (\<lambda>e. e\<lparr>ce_refs := ce_refs e + 1\<rparr>) (c\<lparr>ca_lru := a # remove1 a (ca_lru c)\<rparr>)"
    note H = hit_ok [OF ok i]
    obtain h1 c1 where R: "releaseHandle pick a ?c = (h1, c1)" by fastforce
    have eq: "h1 = h" "c1 = c'" "segs' = segs" using A open' Some R by (simp_all add: Acquire_def Let_def)
    note R' = releaseHandle_ok [OF H(2,5) R [unfolded eq]]
    then obtain hs p where c': "c' = ?c\<lparr>ca_pool := p, ca_handles := hs\<rparr>" by blast
    have rd: "rd = ce_reader (ca_heap c ! a)"
      using A open' Some R eq H(6) by (simp add: Acquire_def Let_def c')
    have "a < length (ca_heap c)" "\<not> ce_evicted (ca_heap c ! a)" "ce_id (ca_heap c ! a) = i" using ok(1) i by (auto simp: core_ok_def table_ok_def)
    then obtain data where "dir_get (fs_dir segs) (SegmentPath i) = Some data" "open_light data = Inr rd"
      using ok(1) rd by (auto simp: core_ok_def readers_ok_def)
    then show ?thesis using that [of a data] R' H(1,3,4) eq(3) unfolding c' core_handles by blast
  next
    case None
    obtain o1 segs1 where O: "OpenReaderLight i segs = (o1, segs1)" by fastforce
    have o1: "o1 = Inr rd" "segs1 = segs'" using A open' None O by (auto simp: Acquire_def Let_def split: sum.splits prod.splits)
    note D = open_light_dir [OF O]
    obtain data where data: "dir_get (fs_dir segs) (SegmentPath i) = Some data" "open_light data = Inr rd" using D(2) o1(1) by blast
    let ?a = "length (ca_heap c)" and ?c1 = "add_entry i rd c" and ?c = "evictOverflowLocked (add_entry i rd c)"
    note E = add_entry_ok [OF ok None open'(2) data fresh]
    note V = evict_ok [OF E(1)]
    then have L: "handles_ok ?c L" "\<And>h. refs_ok ?c ((h, ?a) # L)" using same_leases_ok E(2,3) by blast+
    have "?a < length (ca_heap ?c1)" by (simp add: add_entry_def Let_def)
    then have a: "?a < length (ca_heap ?c)" using V by (simp add: same_leases_def)
    obtain h1 c1 where R: "releaseHandle pick ?a ?c = (h1, c1)" by fastforce
    have eq: "h1 = h" "c1 = c'" using A open' None R O o1 by (simp_all add: Acquire_def Let_def)
    note R' = releaseHandle_ok [OF L(1) a R [unfolded eq]]
    then obtain hs p where c': "c' = ?c\<lparr>ca_pool := p, ca_handles := hs\<rparr>" by blast
    have "core_ok X {} ?c segs'" using V core_ok_dir [OF D(1)] o1(2) by blast
    moreover have "grows c ?c" using grows_trans [OF E(4)] V by blast
    ultimately show ?thesis using that [of ?a data] R' L(2) D(1) o1(2) data unfolding c' core_handles by blast
  qed
qed

lemma Acquire_fails:
  assumes "Acquire pick i c segs = (Inl x, c', segs')"
  shows "c' = c" "fs_dir segs' = fs_dir segs"
proof -
  have "c' = c \<and> fs_dir segs' = fs_dir segs"
  proof (cases "ca_closed c \<or> i \<in> set (ca_dead c)")
    case True
    with assms show ?thesis by (auto simp: Acquire_def split: if_splits)
  next
    case False
    show ?thesis
    proof (cases "map_of (ca_entries c) i")
      case None
      with False assms open_light_dir(1) [of i segs] show ?thesis
        by (cases "OpenReaderLight i segs") (auto simp: Acquire_def Let_def split: sum.splits prod.splits)
    next
      case (Some a)
      with False assms show ?thesis by (simp add: Acquire_def Let_def split: prod.splits)
    qed
  qed
  then show "c' = c" "fs_dir segs' = fs_dir segs" by auto
qed

section \<open>Release\<close>

lemma Release_ok:
  assumes ok: "handles_ok c L" "refs_ok c L" and l: "(h, a) \<in> set L" and R: "Release h c = (err, c')"
  shows "handles_ok c' (remove1 (h, a) L)" "refs_ok c' (remove1 (h, a) L)" "grows c c'" "core_ok X {} c segs \<Longrightarrow> core_ok X {} c' segs"
proof -
  have h: "h < length (ca_handles c)" "ca_handles c ! h = \<lparr>ha_lease = Cached a, ha_fired = False\<rparr>" "a < length (ca_heap c)" "h \<notin> set (ca_pool c)"
    using ok(1) l by (auto simp: handles_ok_def)
  let ?hs = "(ca_handles c)[h := \<lparr>ha_lease = Cached a, ha_fired = True\<rparr>]"
  define c2 where "c2 = on_entry a (\<lambda>e. e\<lparr>ce_refs := ce_refs e - 1\<rparr>) (c\<lparr>ca_handles := ?hs\<rparr>)"
  have heap: "ca_heap c2 = (ca_heap c)[a := (ca_heap c ! a)\<lparr>ce_refs := ce_refs (ca_heap c ! a) - 1\<rparr>]" "ca_handles c2 = ?hs"
    "ca_lru c2 = ca_lru c" "ca_entries c2 = ca_entries c" "ca_dead c2 = ca_dead c" "ca_closed c2 = ca_closed c" "ca_pool c2 = ca_pool c"
    by (simp_all add: c2_def on_entry_def)
  have F: "ce_id (ca_heap c2 ! b) = ce_id (ca_heap c ! b)" "ce_evicted (ca_heap c2 ! b) = ce_evicted (ca_heap c ! b)"
    "ce_closed (ca_heap c2 ! b) = ce_closed (ca_heap c ! b)" "ce_reader (ca_heap c2 ! b) = ce_reader (ca_heap c ! b)" for b
    unfolding heap by (rule update_field, simp)+
  have len: "length (ca_heap c2) = length (ca_heap c)" by (simp add: heap)
  have refs: "ce_refs (ca_heap c2 ! b) = ce_refs (ca_heap c ! b) - (if b = a then 1 else 0)" if "b < length (ca_heap c)" for b
    using that h(3) by (simp add: heap nth_list_update)
  have pos: "1 \<le> ce_refs (ca_heap c ! a)" using ok(2) leases_on_pos [OF l] h(3) by (simp add: refs_ok_def)
  let ?shut = "ce_refs (ca_heap c2 ! a) = 0 \<and> ce_evicted (ca_heap c2 ! a)"
  obtain err1 c3 where C: "closeEntryLocked a c2 = (err1, c3)" by fastforce
  define c4 where "c4 = (if ?shut then c3 else c2)"
  have c': "c' = c4\<lparr>ca_pool := h # ca_pool c4\<rparr>"
    using R h(1,2) C by (auto simp: Release_def cache_release_def Let_def c2_def [symmetric] c4_def split: if_splits)
  have cl: "closes c2 c4" using closeEntry(1) [OF C] by (simp add: c4_def closes_refl)
  note G = closes_fields [OF cl]
  have L: "distinct (map fst L)" using ok(1) by (simp add: handles_ok_def)
  have rem: "(k, b) \<in> set (remove1 (h, a) L) \<longleftrightarrow> (k, b) \<in> set L \<and> k \<noteq> h" for k b
    using L l eq_key_imp_eq_value [OF L] by (auto simp: distinct_map)
  have "distinct (map fst (remove1 (h, a) L))" using L by (simp add: distinct_map inj_on_def)
  then show "handles_ok c' (remove1 (h, a) L)"
    using ok(1) h(1,4) rem by (auto simp: handles_ok_def c' G heap len)
  show "refs_ok c' (remove1 (h, a) L)"
    using ok(2) refs leases_on_remove [OF l] by (auto simp: refs_ok_def c' G len)
  have "grows c c2" by (simp add: grows_def F len heap(5,6))
  then have "grows c c4" using grows_closes [OF cl] by (rule grows_trans)
  then show "grows c c'" by (simp add: grows_def c')
  assume core: "core_ok X {} c segs"
  then have T: "table_ok c" "closed_ok c" "open_ok X {} c" "readers_ok c segs" by (simp_all add: core_ok_def)
  have "table_ok c2" using T(1) by (simp add: table_ok_def F len heap(3-5))
  moreover have "closed_ok c2" using T(2) pos refs by (fastforce simp: closed_ok_def F len)
  moreover have "open_ok X {a} c2" using T(3) refs by (auto simp: open_ok_def F len)
  moreover have "readers_ok c2 segs" using T(4) by (simp add: readers_ok_def F len)
  ultimately have core2: "core_ok X {a} c2 segs" by (simp add: core_ok_def)
  have "core_ok X {} c4 segs"
  proof (cases ?shut)
    case True
    have "core_ok (X - {a}) ({a} - {a}) c3 segs" using True h(3) len by (intro close_idle_entry [OF core2 _ _ _ C]) simp_all
    then have "core_ok X {} c3 segs" by (rule core_mono) auto
    with True show ?thesis by (simp add: c4_def)
  next
    case False
    with core2 show ?thesis by (auto simp: c4_def core_ok_def open_ok_def)
  qed
  then show "core_ok X {} c' segs"
    by (simp add: c' core_ok_def table_ok_def closed_ok_def open_ok_def readers_ok_def)
qed

end
