(* ===== verification/Cache_Spec.thy ===== *)
theory Cache_Spec
  imports Cache_Inv
begin

text \<open>
  The invariant of the cache holds in every reachable state: a leased reader is open, a purge
  that returned leaves no open reader of its segments, and a cached reader is the one a fresh
  open would give.
\<close>

section \<open>Purge\<close>

lemma dead_core:
  assumes "core_ok X Y c segs" "i \<notin> fst ` set (ca_entries c)"
  shows "core_ok X Y (c\<lparr>ca_dead := List.insert i (ca_dead c)\<rparr>) segs"
proof -
  have "table_ok c" "\<forall>(j, b) \<in> set (ca_entries c). j \<noteq> i" using assms by (force simp: core_ok_def)+
  then have "table_ok (c\<lparr>ca_dead := List.insert i (ca_dead c)\<rparr>)" unfolding table_ok_def by auto
  with assms(1) show ?thesis by (simp add: core_ok_def closed_ok_def open_ok_def readers_ok_def)
qed

lemma detach_dead: "detachLocked a (c\<lparr>ca_dead := d\<rparr>) = (detachLocked a c)\<lparr>ca_dead := d\<rparr>"
  by (simp add: detachLocked_def Let_def on_entry_def)

definition held :: "u64 set \<Rightarrow> nat list \<Rightarrow> cache \<Rightarrow> bool" where
  "held I pending c \<longleftrightarrow> (\<forall>a \<in> set pending. a < length (ca_heap c) \<and> ce_evicted (ca_heap c ! a) \<and> ce_id (ca_heap c ! a) \<in> I)"

lemma held_grows: "held I pending c \<Longrightarrow> grows c c' \<Longrightarrow> held I pending c'"
  by (auto simp: held_def grows_def)

lemma purge_ids_ok:
  assumes "core_ok (X \<union> set p) (set p) c segs" "held I p c" "set ids \<subseteq> I" "purge_ids ids p c = (p', c')"
  shows "core_ok (X \<union> set p') (set p') c' segs \<and> held I p' c' \<and> grows c c' \<and> same_leases c c' \<and> set ids \<subseteq> set (ca_dead c')"
  using assms
proof (induction ids p c rule: purge_ids.induct)
  case (1 p c)
  then show ?case by (simp add: grows_refl same_leases_simps)
next
  case (2 i ids p c)
  let ?d = "c\<lparr>ca_dead := List.insert i (ca_dead c)\<rparr>"
  have g: "grows c ?d" by (auto simp: grows_def)
  have l: "same_leases c ?d" by (simp add: same_leases_def)
  show ?case
  proof (cases "map_of (ca_entries c) i")
    case None
    then have "core_ok (X \<union> set p) (set p) ?d segs" using dead_core [OF 2(3)] by (simp add: map_of_eq_None_iff)
    from 2(1) [OF refl, simplified, OF None this] 2(4-6) None held_grows [OF 2(4) g]
    have "core_ok (X \<union> set p') (set p') c' segs \<and> held I p' c' \<and> grows ?d c' \<and> same_leases ?d c' \<and> set ids \<subseteq> set (ca_dead c')" by simp
    with grows_trans [OF g] same_leases_trans [OF l] show ?thesis by (auto simp: grows_def)
  next
    case (Some a)
    then have i: "(i, a) \<in> set (ca_entries c)" by (rule map_of_SomeD)
    note D = detach_core [OF 2(3) i]
    have a: "a < length (ca_heap c)" "ce_id (ca_heap c ! a) = i" using 2(3) i by (auto simp: core_ok_def table_ok_def)
    have "i \<notin> fst ` set (ca_entries (detachLocked a c))" unfolding D(3) by (auto simp: AList.delete_eq)
    from dead_core [OF D(1) this] have core: "core_ok (insert a (X \<union> set p)) (insert a (set p)) (detachLocked a ?d) segs"
      by (simp add: detach_dead)
    have gd: "grows c (detachLocked a ?d)" using grows_trans [OF g grows_detach] .
    have ld: "same_leases c (detachLocked a ?d)" using same_leases_trans [OF l same_leases_simps(3)] .
    have held: "held I (p @ [a]) (detachLocked a ?d)"
      using held_grows [OF 2(4) gd] D(2) a 2(5) by (auto simp: held_def detach_dead detach_heap simp del: detach_fields(7))
    have "purge_ids ids (p @ [a]) (detachLocked a ?d) = (p', c')" using 2(6) Some by simp
    from 2(2) [OF refl, simplified, OF Some core held _ this] 2(5)
    have IH: "core_ok (X \<union> set p') (set p') c' segs" "held I p' c'" "grows (detachLocked a ?d) c'" "same_leases (detachLocked a ?d) c'"
      "set ids \<subseteq> set (ca_dead c')" by simp_all
    have "set (ca_dead (detachLocked a ?d)) \<subseteq> set (ca_dead c')" using IH(3) unfolding grows_def by blast
    then have "i \<in> set (ca_dead c')" by simp
    with IH grows_trans [OF gd IH(3)] same_leases_trans [OF ld IH(4)] show ?thesis by simp
  qed
qed

lemma wait_turn_ok:
  assumes "core_ok (X \<union> set p) (set p) c segs" "held I p c" "wait_turn False timedOut p fe c = (res, c')"
  shows "closes c c' \<and> (case res of
      Done e \<Rightarrow> core_ok (if e = Some CachePurgeTimeout then X \<union> set p else X) {} c' segs
    | Waiting p' _ \<Rightarrow> core_ok (X \<union> set p') {} c' segs \<and> set p' \<subseteq> set p)"
proof -
  obtain rem fe1 c1 where I: "close_idle p fe c = (rem, fe1, c1)" by (metis prod_cases3)
  have "\<forall>a \<in> set p. a < length (ca_heap c) \<and> ce_evicted (ca_heap c ! a)" using assms(2) by (simp add: held_def)
  note C = close_idle_ok [OF assms(1) this I]
  have "core_ok (X \<union> set p) {} c1 segs" using C by (auto intro: core_mono)
  with assms(3) I C show ?thesis by (auto simp: wait_turn_def split: if_splits)
qed

text \<open>A pass reports no timeout of its own.\<close>

lemma close_idle_error:
  "close_idle p fe c = (rem, fe', c') \<Longrightarrow> fe \<noteq> Some CachePurgeTimeout \<Longrightarrow> fe' \<noteq> Some CachePurgeTimeout"
proof (induction p fe c arbitrary: rem fe' c' rule: close_idle.induct)
  case (2 a p f c)
  obtain err c2 where C: "closeEntryLocked a c = (err, c2)" by fastforce
  have err: "err \<noteq> Some CachePurgeTimeout"
    using C by (auto simp: closeEntryLocked_def close_reader_def split: if_splits prod.splits option.splits)
  show ?case
  proof (cases "ce_refs (ca_heap c ! a) = 0")
    case True
    with 2 C err show ?thesis by (auto simp: keep_first_def split: if_splits)
  next
    case False
    obtain rem' f' c' where I: "close_idle p f c = (rem', f', c')" by (metis prod_cases3)
    from 2(2) [OF False I 2(4)] 2(3) False I show ?thesis by simp
  qed
qed simp

lemma wait_turn_closes:
  assumes "wait_turn force timedOut p fe c = (res, c')"
  shows "closes c c'"
proof -
  have idle: "close_idle p f c = (rem, f1, c1) \<Longrightarrow> closes c c1" for p f c rem f1 c1
  proof (induction p f c arbitrary: rem f1 c1 rule: close_idle.induct)
    case (2 a p f c)
    obtain err c2 where C: "closeEntryLocked a c = (err, c2)" by fastforce
    show ?case
    proof (cases "ce_refs (ca_heap c ! a) = 0")
      case True
      with 2(3) C have "close_idle p (keep_first f err) c2 = (rem, f1, c1)" by simp
      from closes_trans [OF closeEntry(1) [OF C] 2(1) [OF True C [symmetric] this]] show ?thesis .
    next
      case False
      obtain rem' f' c' where I: "close_idle p f c = (rem', f', c')" by (metis prod_cases3)
      from 2(2) [OF False I] 2(3) False I show ?thesis by simp
    qed
  qed (simp add: closes_refl)
  have forced: "close_forced p f c = (e, c1) \<Longrightarrow> closes c c1" for p f c e c1
  proof (induction p f c rule: close_forced.induct)
    case (2 a p f c)
    obtain err c2 where C: "closeEntryLocked a c = (err, c2)" by fastforce
    with 2(2) have "close_forced p (keep_first f err) c2 = (e, c1)" by simp
    from closes_trans [OF closeEntry(1) [OF C] 2(1) [OF C [symmetric] this]] show ?case .
  qed (simp add: closes_refl)
  obtain rem f1 c1 where I: "close_idle p fe c = (rem, f1, c1)" by (metis prod_cases3)
  obtain e c2 where F: "close_forced rem f1 c1 = (e, c2)" by fastforce
  from idle [OF I] closes_trans [OF idle [OF I] forced [OF F]] assms I F show ?thesis
    by (auto simp: wait_turn_def split: if_splits)
qed

section \<open>Every step\<close>

lemma accounted_mono:
  assumes "grows c c'" "set W \<subseteq> set W'" "set l \<subseteq> set l'"
  shows "accounted W l c \<subseteq> accounted W' l' c'"
proof -
  have "a < length (ca_heap c') \<and> ce_id (ca_heap c' ! a) \<in> set l'" if "a < length (ca_heap c)" "ce_id (ca_heap c ! a) \<in> set l" for a
    using that assms(1,3) by (auto simp: grows_def)
  with assms(2) show ?thesis unfolding accounted_def by blast
qed

lemma waits_held: "waits_ok W c \<longleftrightarrow> (\<forall>w \<in> set W. \<not> cw_force w \<and> set (cw_ids w) \<subseteq> set (ca_dead c) \<and> held (set (cw_ids w)) (cw_pending w) c)"
  by (simp add: waits_ok_def held_def)

lemma waits_grow:
  assumes "waits_ok W c" "grows c c'" "set W' \<subseteq> set W"
  shows "waits_ok W' c'"
proof -
  have "set (ca_dead c) \<subseteq> set (ca_dead c')" using assms(2) by (simp add: grows_def)
  with assms held_grows [OF _ assms(2)] show ?thesis unfolding waits_held by blast
qed

lemma live_grow:
  assumes "live_ok c segs W l" "core_ok (accounted W l c) {} c' segs'" "grows c c'"
  shows "live_ok c' segs' W l"
  using assms core_mono [OF assms(2) accounted_mono [OF assms(3) subset_refl subset_refl] subset_refl] waits_grow [OF _ assms(3) subset_refl]
  by (simp add: live_ok_def)

text \<open>A purge, or a turn of one that waits, resolves its entries or keeps accounting for them.\<close>

lemma Purge_ok:
  assumes ok: "live_ok c segs W l" and P: "Purge ids c = (res, c')"
  shows "same_leases c c' \<and> ca_closed c' = ca_closed c
    \<and> (\<not> ca_closed c \<longrightarrow> live_ok c' segs (wait_next False ids res @ W) l \<and> set ids \<subseteq> set (ca_dead c'))"
proof (cases "ca_closed c")
  case True
  with P show ?thesis by (auto simp: Purge_def same_leases_simps)
next
  case False
  obtain p c1 where I: "purge_ids ids [] c = (p, c1)" by fastforce
  have "core_ok (accounted W l c \<union> set []) (set []) c segs" using ok by (simp add: live_ok_def)
  from purge_ids_ok [OF this _ subset_refl I]
  have A: "core_ok (accounted W l c \<union> set p) (set p) c1 segs" "held (set ids) p c1" "grows c c1" "same_leases c c1" "set ids \<subseteq> set (ca_dead c1)"
    by (simp_all add: held_def)
  have W: "waits_ok W c" using ok by (simp add: live_ok_def)
  show ?thesis
  proof (cases "p = []")
    case True
    with P False I have eq: "res = Done None" "c' = c1" by (auto simp: Purge_def)
    from A(1) True have "core_ok (accounted W l c) {} c1 segs" by simp
    from live_grow [OF ok this A(3)] A(3-5) show ?thesis by (simp add: eq wait_next_def grows_def)
  next
    case p: False
    have T: "wait_turn False False p None c1 = (res, c')" using P False I p by (simp add: Purge_def)
    note C = wait_turn_closes [OF T] and R = wait_turn_ok [OF A(1,2) T]
    have g: "grows c c'" using grows_trans [OF A(3) grows_closes [OF C]] .
    have l: "same_leases c c'" using same_leases_trans [OF A(4) same_leases_simps(2) [OF C]] .
    have d: "set ids \<subseteq> set (ca_dead c')" using A(5) closes_fields(3) [OF C] by simp
    have mono: "accounted W l c \<subseteq> accounted W l c'" using accounted_mono [OF g] by simp
    have "live_ok c' segs (wait_next False ids res @ W) l"
    proof (cases res)
      case (Done e)
      have "e \<noteq> Some CachePurgeTimeout" using T Done close_idle_error [of p None c1] by (auto simp: wait_turn_def split: if_splits prod.splits)
      with R Done have "core_ok (accounted W l c) {} c' segs" by simp
      from live_grow [OF ok this g] Done show ?thesis by (simp add: wait_next_def)
    next
      case (Waiting p' e)
      with R have "core_ok (accounted W l c \<union> set p') {} c' segs" "set p' \<subseteq> set p" by auto
      moreover have "accounted W l c \<union> set p' \<subseteq> accounted (wait_next False ids res @ W) l c'"
        using mono Waiting by (auto simp: accounted_def wait_next_def)
      moreover have "held (set ids) p' c'" using held_grows [OF A(2) grows_closes [OF C]] \<open>set p' \<subseteq> set p\<close> by (auto simp: held_def)
      ultimately show ?thesis
        using waits_grow [OF W g subset_refl] d Waiting core_mono [OF _ _ subset_refl] by (auto simp: live_ok_def waits_held wait_next_def)
    qed
    with g l d show ?thesis by (simp add: grows_def)
  qed
qed

lemma wait_ok:
  assumes ok: "live_ok c segs W l" and w: "w \<in> set W"
    and T: "wait_turn (cw_force w) timedOut (cw_pending w) (cw_err w) c = (res, c')"
    and l': "l' = (if res = Done (Some CachePurgeTimeout) then cw_ids w @ l else l)"
  shows "live_ok c' segs (wait_next (cw_force w) (cw_ids w) res @ remove1 w W) l'"
proof -
  have W: "waits_ok W c" using ok by (simp add: live_ok_def)
  with w have w': "\<not> cw_force w" "set (cw_ids w) \<subseteq> set (ca_dead c)" "held (set (cw_ids w)) (cw_pending w) c" by (auto simp: waits_held)
  let ?p = "cw_pending w" and ?X = "accounted (remove1 w W) l c"
  have "set W \<subseteq> insert w (set (remove1 w W))" using in_set_remove1 by fastforce
  then have "accounted W l c \<subseteq> ?X \<union> set ?p" unfolding accounted_def by blast
  with ok have core: "core_ok (?X \<union> set ?p) (set ?p) c segs" by (auto simp: live_ok_def intro: core_mono)
  note C = wait_turn_closes [OF T] and R = wait_turn_ok [OF core w'(3) T [simplified w'(1) if_False, unfolded eq_False [THEN iffD2, OF w'(1)]]]
  note g = grows_closes [OF C]
  have sub: "set (remove1 w W) \<subseteq> set W" by (rule set_remove1_subset)
  note W' = waits_grow [OF W g sub]
  have X: "?X \<subseteq> accounted (remove1 w W) l' c'" using accounted_mono [OF g subset_refl, of l l' "remove1 w W"] l' by auto
  have held: "held (set (cw_ids w)) ?p c'" using held_grows [OF w'(3) g] .
  have dead: "set (cw_ids w) \<subseteq> set (ca_dead c')" using w'(2) closes_fields(3) [OF C] by simp
  show ?thesis
  proof (cases res)
    case (Done e)
    have "core_ok (accounted (remove1 w W) l' c') {} c' segs"
    proof (cases "e = Some CachePurgeTimeout")
      case True
      with Done l' have "set ?p \<subseteq> accounted (remove1 w W) l' c'" using held by (auto simp: held_def accounted_def)
      with X have "?X \<union> set ?p \<subseteq> accounted (remove1 w W) l' c'" by blast
      with R Done True show ?thesis by (auto intro: core_mono)
    next
      case False
      with R Done X show ?thesis by (auto intro: core_mono)
    qed
    with W' Done show ?thesis by (simp add: live_ok_def wait_next_def)
  next
    case (Waiting p' e)
    with R have p': "core_ok (?X \<union> set p') {} c' segs" "set p' \<subseteq> set ?p" by auto
    have "?X \<union> set p' \<subseteq> accounted (wait_next (cw_force w) (cw_ids w) res @ remove1 w W) l' c'"
      using X Waiting by (auto simp: accounted_def wait_next_def)
    moreover have "held (set (cw_ids w)) p' c'" using held p'(2) by (auto simp: held_def)
    ultimately show ?thesis using W' w'(1) dead Waiting core_mono [OF p'(1) _ subset_refl]
      by (simp add: live_ok_def waits_held wait_next_def)
  qed
qed

lemma Close_ok:
  assumes "cache_Close c = (res, c')"
  shows "same_leases c c'" "ca_closed c'"
proof -
  have fold: "same_leases c (fold detachLocked p c) \<and> ca_closed (fold detachLocked p c) = ca_closed c" for p c
  proof (induction p arbitrary: c)
    case (Cons a p)
    from Cons [of "detachLocked a c"] same_leases_trans [OF same_leases_simps(3) [of c a]] show ?case by simp
  qed (simp add: same_leases_simps)
  have "same_leases c c' \<and> ca_closed c'"
  proof (cases "ca_closed c")
    case True
    with assms show ?thesis by (simp add: cache_Close_def same_leases_simps)
  next
    case False
    let ?p = "map snd (ca_entries c)"
    let ?c = "fold detachLocked ?p (c\<lparr>ca_closed := True\<rparr>)"
    have "same_leases c (c\<lparr>ca_closed := True\<rparr>)" by (simp add: same_leases_def)
    then have c: "same_leases c ?c" "ca_closed ?c" using fold [of "c\<lparr>ca_closed := True\<rparr>" ?p] same_leases_trans by auto
    show ?thesis
    proof (cases "?p = []")
      case True
      with assms False c show ?thesis by (auto simp: cache_Close_def Let_def)
    next
      case p: False
      then have "wait_turn True False ?p None ?c = (res, c')" using assms False by (simp add: cache_Close_def Let_def)
      note C = wait_turn_closes [OF this]
      from same_leases_trans [OF c(1) same_leases_simps(2) [OF C]] c(2) closes_fields(4) [OF C] show ?thesis by simp
    qed
  qed
  then show "same_leases c c'" "ca_closed c'" by auto
qed

lemma files_ok:
  assumes "core_ok X Y c segs" "\<And>i a. (i, a) \<in> set (ca_entries c) \<Longrightarrow> dir_get (fs_dir segs) (SegmentPath i) \<noteq> None \<Longrightarrow>
      dir_get (fs_dir segs') (SegmentPath i) = dir_get (fs_dir segs) (SegmentPath i)"
  shows "core_ok X Y c segs'"
proof -
  have T: "table_ok c" "readers_ok c segs" using assms(1) by (simp_all add: core_ok_def)
  have "dir_get (fs_dir segs') (SegmentPath (ce_id (ca_heap c ! a))) = dir_get (fs_dir segs) (SegmentPath (ce_id (ca_heap c ! a)))"
    if "a < length (ca_heap c)" "\<not> ce_evicted (ca_heap c ! a)" for a
  proof (rule assms(2))
    show "(ce_id (ca_heap c ! a), a) \<in> set (ca_entries c)" using T(1) that by (simp add: table_ok_def)
    show "dir_get (fs_dir segs) (SegmentPath (ce_id (ca_heap c ! a))) \<noteq> None" using T(2) that by (auto simp: readers_ok_def)
  qed
  with T(2) have "readers_ok c segs'" by (simp add: readers_ok_def)
  with assms(1) show ?thesis by (simp add: core_ok_def)
qed

lemma cache_step_ok:
  assumes step: "cache_step r r'" and ok: "cache_ok r"
  shows "cache_ok r'"
proof -
  have H: "handles_ok (cr_cache r) (cr_leases r)" "refs_ok (cr_cache r) (cr_leases r)"
    and L: "\<not> ca_closed (cr_cache r) \<Longrightarrow> live_ok (cr_cache r) (cr_segs r) (cr_waits r) (cr_leaked r)"
    using ok by (auto simp: cache_ok_def)
  let ?X = "accounted (cr_waits r) (cr_leaked r) (cr_cache r)"
  from step show ?thesis
  proof (cases rule: cache_step.cases)
    case (acquire pick i rd h c segs a)
    then have "\<not> ca_closed (cr_cache r)" by (auto simp: Acquire_def split: if_splits)
    note live = L [OF this]
    then have core: "core_ok ?X {} (cr_cache r) (cr_segs r)" and "?X \<subseteq> {..<length (ca_heap (cr_cache r))}"
      by (auto simp: live_ok_def waits_ok_def accounted_def)
    from Acquire_ok [OF core H this(2) acquire(2)] obtain b where "ca_handles c ! h = \<lparr>ha_lease = Cached b, ha_fired = False\<rparr>"
      "handles_ok c ((h, b) # cr_leases r)" "refs_ok c ((h, b) # cr_leases r)" "core_ok ?X {} c segs" "grows (cr_cache r) c" by blast
    with live_grow [OF live] acquire(1,3) show ?thesis by (simp add: cache_ok_def)
  next
    case (acquire_fails pick i x c segs)
    note F = Acquire_fails [OF acquire_fails(2)]
    from ok acquire_fails(1) F core_ok_dir [OF F(2)] show ?thesis by (simp add: cache_ok_def live_ok_def)
  next
    case (release h a err c)
    note R = Release_ok [OF H release(2,3)]
    have closed: "ca_closed c = ca_closed (cr_cache r)" using R(3) by (simp add: grows_def)
    have "live_ok c (cr_segs r) (cr_waits r) (cr_leaked r)" if "\<not> ca_closed (cr_cache r)"
    proof (rule live_grow [OF L [OF that] _ R(3)])
      show "core_ok ?X {} c (cr_segs r)" using R(4) L [OF that] by (simp add: live_ok_def)
    qed
    with R(1,2) closed release(1) show ?thesis by (simp add: cache_ok_def)
  next
    case (purge ids res c)
    show ?thesis
    proof (cases "ca_closed (cr_cache r)")
      case True
      with purge ok show ?thesis by (auto simp: Purge_def cache_ok_def)
    next
      case False
      note P = Purge_ok [OF L [OF False] purge(2)]
      with same_leases_ok H False purge(1) show ?thesis by (auto simp: cache_ok_def)
    qed
  next
    case (close res c)
    from Close_ok [OF close(2)] same_leases_ok H close(1) show ?thesis by (auto simp: cache_ok_def)
  next
    case (wait w timedOut res c leaked)
    note C = wait_turn_closes [OF wait(3)]
    from same_leases_ok [OF same_leases_simps(2) [OF C]] closes_fields(4) [OF C] H wait_ok [OF L wait(2,3,4)] wait(1)
    show ?thesis by (auto simp: cache_ok_def)
  next
    case (create i data)
    let ?segs = "(cr_segs r)\<lparr>fs_dir := dir_put (SegmentPath i) data (fs_dir (cr_segs r))\<rparr>"
    have "core_ok X Y c ?segs" if "core_ok X Y c (cr_segs r)" for X Y c
      by (rule files_ok [OF that]) (use create(2) in auto)
    with ok create(1) show ?thesis by (simp add: cache_ok_def live_ok_def)
  next
    case (unlink i)
    let ?segs = "(cr_segs r)\<lparr>fs_dir := dir_del (SegmentPath i) (fs_dir (cr_segs r))\<rparr>"
    have "core_ok X Y (cr_cache r) ?segs" if "core_ok X Y (cr_cache r) (cr_segs r)" for X Y
      by (rule files_ok [OF that]) (use unlink(2) that in \<open>auto simp: core_ok_def table_ok_def\<close>)
    with ok unlink(1) show ?thesis by (simp add: cache_ok_def live_ok_def)
  qed
qed

section \<open>Every reachable run\<close>

definition cache_start :: "int \<Rightarrow> tape \<Rightarrow> file_store \<Rightarrow> cache_run" where
  "cache_start maxEntries t segs = \<lparr>cr_cache = NewCache maxEntries t, cr_segs = segs, cr_leases = [], cr_waits = [], cr_leaked = []\<rparr>"

lemma cache_reachable:
  assumes "cache_step\<^sup>*\<^sup>* (cache_start n t segs) r"
  shows "cache_ok r"
  using assms
proof (induction rule: rtranclp_induct)
  case base
  show ?case by (simp add: cache_start_def NewCache_def cache_ok_def handles_ok_def refs_ok_def live_ok_def core_ok_def
        table_ok_def closed_ok_def open_ok_def readers_ok_def waits_ok_def)
next
  case (step r r')
  then show ?case by (simp add: cache_step_ok)
qed

text \<open>A leased reader is open, and its handle is good for one release.\<close>

lemma lease_open:
  assumes "cache_ok r" "\<not> ca_closed (cr_cache r)" "(h, a) \<in> set (cr_leases r)"
  shows "\<not> ce_closed (ca_heap (cr_cache r) ! a)" "\<not> ha_fired (ca_handles (cr_cache r) ! h)"
proof -
  have a: "a < length (ca_heap (cr_cache r))" and "\<not> ha_fired (ca_handles (cr_cache r) ! h)"
    using assms(1,3) by (auto simp: cache_ok_def handles_ok_def)
  have "1 \<le> ce_refs (ca_heap (cr_cache r) ! a)" using assms(1) leases_on_pos [OF assms(3)] a by (simp add: cache_ok_def refs_ok_def)
  with assms(1,2) a show "\<not> ce_closed (ca_heap (cr_cache r) ! a)" by (auto simp: cache_ok_def live_ok_def core_ok_def closed_ok_def)
  show "\<not> ha_fired (ca_handles (cr_cache r) ! h)" by fact
qed

text \<open>A segment whose purges have all returned without giving up has no open reader, and never gets one.\<close>

lemma purged_closed:
  assumes "cache_ok r" "\<not> ca_closed (cr_cache r)" "i \<in> set (ca_dead (cr_cache r))"
    and "\<forall>w \<in> set (cr_waits r). i \<notin> set (cw_ids w)" "i \<notin> set (cr_leaked r)"
    and a: "a < length (ca_heap (cr_cache r))" "ce_id (ca_heap (cr_cache r) ! a) = i"
  shows "ce_closed (ca_heap (cr_cache r) ! a)"
proof (rule ccontr)
  assume no: "\<not> ce_closed (ca_heap (cr_cache r) ! a)"
  have live: "live_ok (cr_cache r) (cr_segs r) (cr_waits r) (cr_leaked r)" using assms(1,2) by (simp add: cache_ok_def)
  then have "ce_evicted (ca_heap (cr_cache r) ! a)" using a assms(3) by (auto simp: live_ok_def core_ok_def table_ok_def)
  with no live a(1) have "a \<in> accounted (cr_waits r) (cr_leaked r) (cr_cache r)" by (auto simp: live_ok_def core_ok_def open_ok_def)
  with live assms(4,5) a show False by (auto simp: live_ok_def accounted_def waits_ok_def)
qed

text \<open>An acquired reader is the one that the file gives now.\<close>

lemma Acquire_reader:
  assumes ok: "cache_ok r" and A: "Acquire pick i (cr_cache r) (cr_segs r) = (Inr (rd, h), c', segs')"
  shows "\<exists>data. dir_get (fs_dir (cr_segs r)) (SegmentPath i) = Some data \<and> open_light data = Inr rd
    \<and> fs_dir segs' = fs_dir (cr_segs r) \<and> h \<notin> fst ` set (cr_leases r)"
proof -
  have "\<not> ca_closed (cr_cache r)" using A by (auto simp: Acquire_def split: if_splits)
  with ok have live: "live_ok (cr_cache r) (cr_segs r) (cr_waits r) (cr_leaked r)"
    and H: "handles_ok (cr_cache r) (cr_leases r)" "refs_ok (cr_cache r) (cr_leases r)" by (simp_all add: cache_ok_def)
  let ?X = "accounted (cr_waits r) (cr_leaked r) (cr_cache r)"
  have core: "core_ok ?X {} (cr_cache r) (cr_segs r)" "?X \<subseteq> {..<length (ca_heap (cr_cache r))}"
    using live by (auto simp: live_ok_def waits_ok_def accounted_def)
  obtain a data where D: "handles_ok c' ((h, a) # cr_leases r)" "fs_dir segs' = fs_dir (cr_segs r)"
    "dir_get (fs_dir (cr_segs r)) (SegmentPath i) = Some data" "open_light data = Inr rd"
    using Acquire_ok [OF core(1) H core(2) A] by blast
  from D(1) have "h \<notin> fst ` set (cr_leases r)" by (simp add: handles_ok_def)
  with D(2-4) show ?thesis by blast
qed

section \<open>Where the promises stop\<close>

text \<open>
  A purge of a segment that was purged before finds no entry and returns success at once, although
  a reader that the earlier purge gave up on is still in flight.
\<close>

lemma purge_again:
  assumes "cache_ok r" "\<not> ca_closed (cr_cache r)" "i \<in> set (ca_dead (cr_cache r))"
    and "(h, a) \<in> set (cr_leases r)" "ce_id (ca_heap (cr_cache r) ! a) = i"
  shows "\<exists>c'. Purge [i] (cr_cache r) = (Done None, c') \<and> \<not> ce_closed (ca_heap c' ! a)"
proof -
  have live: "live_ok (cr_cache r) (cr_segs r) (cr_waits r) (cr_leaked r)" using assms(1,2) by (simp add: cache_ok_def)
  then have "i \<notin> fst ` set (ca_entries (cr_cache r))" using assms(3) by (auto simp: live_ok_def core_ok_def table_ok_def)
  then have "map_of (ca_entries (cr_cache r)) i = None" by (simp add: map_of_eq_None_iff)
  with assms(2) lease_open(1) [OF assms(1,2,4)] show ?thesis by (simp add: Purge_def Let_def)
qed

text \<open>
  A handle goes back to the pool with its release and may be issued again; a second release by
  its first owner then ends the lease of the new one.
\<close>

lemma releaseHandle_pooled: "h \<in> set (ca_pool c) \<Longrightarrow> fst (releaseHandle (Some h) a c) = h"
  by (simp add: releaseHandle_def Let_def)

lemma Acquire_pooled:
  assumes "core_ok X {} c segs" "X \<subseteq> {..<length (ca_heap c)}" "handles_ok c L" "refs_ok c L" "h \<in> set (ca_pool c)"
    and A: "Acquire (Some h) i c segs = (Inr (rd, h'), c', segs')"
  shows "h' = h"
proof -
  have open': "\<not> ca_closed c" "i \<notin> set (ca_dead c)" using A by (auto simp: Acquire_def split: if_splits)
  show ?thesis
  proof (cases "map_of (ca_entries c) i")
    case (Some a)
    let ?c = "on_entry a (\<lambda>e. e\<lparr>ce_refs := ce_refs e + 1\<rparr>) (c\<lparr>ca_lru := a # remove1 a (ca_lru c)\<rparr>)"
    have "fst (releaseHandle (Some h) a ?c) = h" by (rule releaseHandle_pooled) (simp add: on_entry_def assms(5))
    with A open' Some show ?thesis by (auto simp: Acquire_def Let_def split: prod.splits)
  next
    case None
    obtain o1 segs1 where O: "OpenReaderLight i segs = (o1, segs1)" by fastforce
    have o1: "o1 = Inr rd" using A open' None O by (auto simp: Acquire_def Let_def split: sum.splits prod.splits)
    obtain data where data: "dir_get (fs_dir segs) (SegmentPath i) = Some data" "open_light data = Inr rd" using open_light_dir(2) [OF O o1] by blast
    note E = add_entry_ok(1) [OF assms(1,3,4) None open'(2) data assms(2)]
    have "ca_pool (evictOverflowLocked (add_entry i rd c)) = ca_pool c"
      using evict_ok [OF E] by (simp add: same_leases_def add_entry_def Let_def)
    then have "fst (releaseHandle (Some h) (length (ca_heap c)) (evictOverflowLocked (add_entry i rd c))) = h"
      using assms(5) by (intro releaseHandle_pooled) simp
    with A open' None O o1 show ?thesis by (auto simp: Acquire_def Let_def split: prod.splits)
  qed
qed

lemma release_again:
  assumes ok: "cache_ok r" "h \<in> set (ca_pool (cr_cache r))"
    and A: "Acquire (Some h) i (cr_cache r) (cr_segs r) = (Inr (rd, h'), c', segs')"
    and R: "Release h c' = (err, c'')" and a: "ha_lease (ca_handles c' ! h') = Cached a"
  shows "h' = h \<and> ce_refs (ca_heap c'' ! a) < leases_on a ((h', a) # cr_leases r)"
proof -
  have closed: "\<not> ca_closed (cr_cache r)" using A by (auto simp: Acquire_def split: if_splits)
  then have live: "live_ok (cr_cache r) (cr_segs r) (cr_waits r) (cr_leaked r)"
    and H: "handles_ok (cr_cache r) (cr_leases r)" "refs_ok (cr_cache r) (cr_leases r)" using ok(1) by (simp_all add: cache_ok_def)
  let ?X = "accounted (cr_waits r) (cr_leaked r) (cr_cache r)"
  have core: "core_ok ?X {} (cr_cache r) (cr_segs r)" "?X \<subseteq> {..<length (ca_heap (cr_cache r))}"
    using live by (auto simp: live_ok_def waits_ok_def accounted_def)
  obtain b where b: "ca_handles c' ! h' = \<lparr>ha_lease = Cached b, ha_fired = False\<rparr>"
    "handles_ok c' ((h', b) # cr_leases r)" "refs_ok c' ((h', b) # cr_leases r)"
    using Acquire_ok [OF core(1) H core(2) A] by blast
  have "b = a" using a b(1) by simp
  have same: "h' = h" using Acquire_pooled [OF core(1) core(2) H ok(2) A] .
  note R' = Release_ok [OF b(2,3) _ R, of b, unfolded same, simplified]
  have len: "a < length (ca_heap c')" using b(2) \<open>b = a\<close> by (simp add: handles_ok_def)
  then have "a < length (ca_heap c'')" using R'(3) by (auto simp: grows_def)
  then have "ce_refs (ca_heap c'' ! a) = leases_on a (cr_leases r)"
    using R'(2) \<open>b = a\<close> by (simp add: refs_ok_def)
  with same show ?thesis by simp
qed

end
