(* ===== verification/Engine_Samples.thy ===== *)
theory Engine_Samples
  imports Samples Engine_Loops Engine_Durable Engine_Replay Cache_Spec
begin

text \<open>
  Concrete engines for the witnesses: a fresh one, the one after an insertion, and one over the
  store with one segment.
\<close>

definition empty_db :: "(bytes \<times> bytes) list db" where
  "empty_db = \<lparr>db_index = \<lparr>ix_db = Some [], ix_tape = []\<rparr>, db_segs = \<lparr>fs_dir = [], fs_tape = []\<rparr>,
     db_meta = \<lparr>fs_dir = [], fs_tape = []\<rparr>, db_manifest = ''manifest'', db_purger = True\<rparr>"

definition sample_engine :: "'k db \<Rightarrow> 'k engine" where
  "sample_engine db =
     \<lparr>en_config = DefaultWispTraceConfig, en_wal = sample_wal, en_db = db, en_checkpoint = ''checkpoint'',
      en_rollups = NewRollupManager, en_chan = [], en_sessions = [], en_count = 0, en_next = 2,
      en_recovering = False, en_pending = [], en_closed = False\<rparr>"

lemma sample_engine [simp]:
  "en_config (sample_engine db) = DefaultWispTraceConfig" "en_wal (sample_engine db) = sample_wal" "en_db (sample_engine db) = db"
  "en_chan (sample_engine db) = []" "en_sessions (sample_engine db) = []" "en_count (sample_engine db) = 0"
  "en_next (sample_engine db) = 2" "en_recovering (sample_engine db) = False" "en_pending (sample_engine db) = []"
  "en_closed (sample_engine db) = False" "session_spans (sample_engine db) = []" "queue (sample_engine db) = []"
  "sessions_ok (sample_engine db)"
  by (simp_all add: sample_engine_def session_spans_def queue_def sessions_ok_def)

lemma empty_map: "idx_map log_kv \<lparr>ix_db = Some [], ix_tape = []\<rparr> k = None" "idx_ok log_kv \<lparr>ix_db = Some [], ix_tape = []\<rparr>"
  by (simp_all add: idx_map_def idx_ok_def log_kv_def)

lemma empty_db [simp]:
  "db_ok sample_Log log_kv empty_db" "view log_kv empty_db k = None" "manifest_holds sample_Log empty_db" "listed log_kv empty_db"
  "stored_spans empty_db = 0" "ix_tape (db_index empty_db) = []" "fs_tape (db_segs empty_db) = []" "fs_tape (db_meta empty_db) = []"
  by (simp_all add: empty_db_def db_ok_def entries_ok_def empty_map view_def view_at_def manifest_holds_def manifest_ids_def
      manifest_decode_def listed_def stored_spans_def total_spans_def)

lemma empty_engine [simp]:
  "store_ok sample_Log log_kv (sample_engine empty_db)" "calm (sample_engine empty_db)"
  by (simp_all add: store_ok_def calm_def unused_from_def)
    (simp_all add: empty_db_def sample_engine_def)

lemma sample_db_more [simp]:
  "manifest_holds sample_Log (sample_db t)" "listed log_kv (sample_db t)" "fs_tape (db_segs (sample_db t)) = []"
proof -
  have "\<exists>spans. seg_holds sample_Log sample_segs 1 spans" by (rule exI, rule sample_segs(2))
  then show "manifest_holds sample_Log (sample_db t)" by (simp add: manifest_holds_def)
qed (auto simp: listed_def sample_index_map sample_loc_def split: if_splits)

text \<open>After one insertion.\<close>

lemma sample_live [simp]: "\<not> Deleted sample_span" "sep_free (TraceID sample_span)" "seg_fits [sample_span]"
  by (simp_all add: sep_free_def sample_size) (simp_all add: sample_span_def zero_span_def)

lemma sample_append:
  obtains i w where "AppendRecordWithSeg \<lparr>Version = 0, Span = sample_span\<rparr> sample_wal = (Inr i, w)" "quiet w"
    "wal_segmentID w = i" "i = 1 \<or> i = 2"
proof -
  have acc: "accepts \<lparr>Version = 0, Span = sample_span\<rparr>"
    by (simp add: accepts_def good_record_def stamped_def CurrentWALVersion_def sample_size maxRecordSize_def)
  then obtain i w where w: "AppendRecordWithSeg \<lparr>Version = 0, Span = sample_span\<rparr> sample_wal = (Inr i, w)" "quiet w"
    using append_quiet [of sample_wal "\<lparr>Version = 0, Span = sample_span\<rparr>"] by auto
  from append_ok [OF _ _ acc w(1)] have "wal_segmentID w = i" "i = 1 \<or> i = 2" by auto
  with w that show ?thesis by blast
qed

lemma sample_insert:
  obtains e i w where "InsertSpan False sample_span (sample_engine empty_db) = (Inr (), e)"
    "e = (sample_engine empty_db)\<lparr>en_wal := w, en_pending := [(i, 1)], en_chan := [\<lparr>ps_span = sample_span, ps_walSeg = i\<rparr>]\<rparr>"
    "flush_ready sample_Log log_kv 8 e" "content log_kv e (span_key sample_span) = Some sample_span"
proof -
  obtain i w where w: "AppendRecordWithSeg \<lparr>Version = 0, Span = sample_span\<rparr> sample_wal = (Inr i, w)" "quiet w"
    "wal_segmentID w = i" "i = 1 \<or> i = 2" by (rule sample_append)
  define e where "e = (sample_engine empty_db)\<lparr>en_wal := w, en_pending := [(i, 1)], en_chan := [\<lparr>ps_span = sample_span, ps_walSeg = i\<rparr>]\<rparr>"
  have ins: "InsertSpan False sample_span (sample_engine empty_db) = (Inr (), e)"
    using w by (simp add: InsertSpan_def appendTracked_def on_wal_def pending_count_def e_def)
  have q: "queue e = [\<lparr>ps_span = sample_span, ps_walSeg = i\<rparr>]" by (simp add: e_def queue_def session_spans_def)
  have st: "store_ok sample_Log log_kv e" using empty_engine(1) by (simp add: store_ok_def e_def)
  have "unat (wal_segmentID (en_wal e)) + 8 < 2 ^ 64" using w(3,4) by (auto simp: e_def)
  then have "flush_ready sample_Log log_kv 8 e"
    using st w(2) unfolding flush_ready_def q by (simp add: e_def calm_def sessions_ok_def room_def sample_size)
  moreover have "content log_kv e (span_key sample_span) = Some sample_span"
    by (simp add: content_def q apply_spans_def apply_span_def)
  ultimately show ?thesis using that ins e_def by blast
qed

lemma flush_ready_mono: "flush_ready Log K n e \<Longrightarrow> m \<le> n \<Longrightarrow> flush_ready Log K m e"
  by (auto simp: flush_ready_def elim: room_mono)

text \<open>The ingest loop has put the span into the session buffer.\<close>

lemma sample_buffered:
  obtains e ps where "InsertSpan False sample_span (sample_engine empty_db) = (Inr (), e)" "ps_span ps = sample_span"
    "session_spans (receive_span 0 e) = [ps]" "en_chan (receive_span 0 e) = []" "flush_ready sample_Log log_kv 7 (receive_span 0 e)"
    "content log_kv (receive_span 0 e) (span_key sample_span) = Some sample_span" "flush_ready sample_Log log_kv 8 e"
    "content log_kv e (span_key sample_span) = Some sample_span" "en_config e = DefaultWispTraceConfig"
proof -
  obtain e i w where e: "InsertSpan False sample_span (sample_engine empty_db) = (Inr (), e)"
    "e = (sample_engine empty_db)\<lparr>en_wal := w, en_pending := [(i, 1)], en_chan := [\<lparr>ps_span = sample_span, ps_walSeg = i\<rparr>]\<rparr>"
    "flush_ready sample_Log log_kv 8 e" "content log_kv e (span_key sample_span) = Some sample_span" by (rule sample_insert)
  let ?ps = "\<lparr>ps_span = sample_span, ps_walSeg = i\<rparr>"
  have "crew_ready sample_Log log_kv (Suc 7) (idle_crew e)" using e(3) by simp
  from receive_done [OF this, of 0] have "job_done sample_Log log_kv 7 {} (idle_crew e) (idle_crew (receive_span 0 e))"
    by (simp add: on_crew_def idle_crew_def)
  then have "flush_ready sample_Log log_kv 7 (receive_span 0 e)" "content log_kv (receive_span 0 e) = content log_kv e"
    by (simp_all add: job_done_def)
  moreover have "session_spans (receive_span 0 e) = [?ps]" "en_chan (receive_span 0 e) = []"
    by (simp_all add: e(2) receive_span_def session_spans_def bucket_add_def)
  ultimately show ?thesis using that [OF e(1), of ?ps] e(2,3,4) by simp
qed

definition sample_run :: "'k engine \<Rightarrow> 'k run" where
  "sample_run e = \<lparr>rn_engine = e, rn_appended = [], rn_taken = [], rn_done = [], rn_failed = [], rn_bounds = [], rn_intact = True\<rparr>"

lemma sample_more [simp]: "sizing_upto sample_Log 0" "ix_tape (sample_index t) = t"
  by (simp_all add: sizing_upto_def sample_index_def)

lemma sample_stamp: "stamped \<lparr>Version = 0, Span = sample_span\<rparr> = sample_record"
  by (simp add: stamped_def sample_record_def CurrentWALVersion_def)

lemma sample_run [simp]: "run_start (sample_run (sample_engine db))" "rn_engine (sample_run e) = e"
  by (simp_all add: sample_run_def run_start_def waiting_def)

lemma sample_appended:
  obtains r i where "engine_step sample_Log log_kv (sample_run (sample_engine empty_db)) r"
    "\<lparr>ps_span = sample_span, ps_walSeg = i\<rparr> \<in> set (waiting r)" "i \<noteq> 0" "rn_intact r"
proof -
  obtain i w where w: "AppendRecordWithSeg \<lparr>Version = 0, Span = sample_span\<rparr> sample_wal = (Inr i, w)" "i = 1 \<or> i = 2"
    by (rule sample_append)
  let ?r0 = "sample_run (sample_engine empty_db)" and ?e = "(sample_engine empty_db)\<lparr>en_wal := w, en_pending := [(i, 1)]\<rparr>"
  have a: "appendTracked sample_span (rn_engine ?r0) = (Inr i, ?e)"
    using w by (simp add: appendTracked_def on_wal_def pending_count_def)
  have acc: "accepts \<lparr>Version = 0, Span = sample_span\<rparr>"
    by (simp add: accepts_def good_record_def stamped_def CurrentWALVersion_def sample_size maxRecordSize_def)
  show ?thesis
    by (rule that [OF engine_step.append [OF a], of i]) (use w(2) acc in \<open>auto simp: waiting_def sample_run_def\<close>)
qed

text \<open>An older version of the sample span.\<close>

definition older_span :: span_payload where
  "older_span = sample_span\<lparr>Team := ''b''\<rparr>"

lemma older_span [simp]:
  "TraceID older_span = TraceID sample_span" "SpanID older_span = SpanID sample_span" "\<not> Deleted older_span"
  "\<not> spansEqual sample_span older_span" "spansEqual sample_span sample_span"
  by (simp_all add: older_span_def spansEqual_def f64_eq_def) (simp_all add: sample_span_def zero_span_def f64_is_nan_def)

text \<open>Two flushes have taken the older version and the newer one, and neither has written its batch.\<close>

definition sample_crew :: "(bytes \<times> bytes) list crew" where
  "sample_crew = \<lparr>cw_engine = sample_engine empty_db,
     cw_taken = [[\<lparr>ps_span = older_span, ps_walSeg = 0\<rparr>], [\<lparr>ps_span = sample_span, ps_walSeg = 0\<rparr>]]\<rparr>"

lemma sample_crew [simp]:
  "cw_engine sample_crew = sample_engine empty_db"
  "cw_taken sample_crew = [[\<lparr>ps_span = older_span, ps_walSeg = 0\<rparr>], [\<lparr>ps_span = sample_span, ps_walSeg = 0\<rparr>]]"
  "crew_ready sample_Log log_kv 2 sample_crew"
proof -
  have "seg_fits [older_span]"
    by (simp add: older_span_def sample_span_def zero_span_def span_fits_def payload_encoded_size_def string_fields_def wal_consts)
  then show "crew_ready sample_Log log_kv 2 sample_crew"
    using sample_size by (simp add: crew_ready_def crew_spans_def sample_crew_def room_def Let_def)
qed (simp_all add: sample_crew_def)

section \<open>A cache\<close>

definition sample_reader :: seg_reader where
  "sample_reader = (case fst (OpenReaderLight 1 sample_segs) of Inr r \<Rightarrow> r)"

lemma sample_reader: "OpenReaderLight 1 sample_segs = (Inr sample_reader, sample_segs)"
  using acquire_quiet [OF sample_segs(2,1)] by (auto simp: sample_reader_def acquireSegment_def)

definition cache_with :: "int \<Rightarrow> bool \<Rightarrow> bool \<Rightarrow> nat list \<Rightarrow> cache" where
  "cache_with refs evicted fired pool =
     \<lparr>ca_maxEntries = 4, ca_entries = (if evicted then [] else [(1, 0)]), ca_lru = (if evicted then [] else [0]),
      ca_dead = (if evicted then [1] else []), ca_closed = False,
      ca_heap = [\<lparr>ce_id = 1, ce_reader = sample_reader, ce_refs = refs, ce_evicted = evicted, ce_closed = False\<rparr>],
      ca_handles = [\<lparr>ha_lease = Cached 0, ha_fired = fired\<rparr>], ca_pool = pool, ca_tape = []\<rparr>"

lemma sample_acquire: "Acquire None 1 (NewCache 4 []) sample_segs = (Inr (sample_reader, 0), cache_with 1 False False [], sample_segs)"
  by (simp add: Acquire_def NewCache_def sample_reader add_entry_def Let_def evictOverflowLocked.simps releaseHandle_def cache_with_def)

lemma sample_release: "Release 0 (cache_with 1 False False []) = (None, cache_with 0 False True [0])"
  by (simp add: Release_def cache_release_def cache_with_def Let_def on_entry_def)

lemma sample_reacquire:
  "Acquire (Some 0) 1 (cache_with 0 False True [0]) sample_segs = (Inr (sample_reader, 0), cache_with 1 False False [], sample_segs)"
  by (simp add: Acquire_def cache_with_def Let_def on_entry_def releaseHandle_def)

lemma sample_purge: "Purge [1] (cache_with 1 False False []) = (Waiting [0] None, cache_with 1 True False [])"
  by (simp add: Purge_def cache_with_def Let_def detachLocked_def on_entry_def wait_turn_def)

lemma sample_timeout: "wait_turn False True [0] None (cache_with 1 True False []) = (Done (Some CachePurgeTimeout), cache_with 1 True False [])"
  by (simp add: wait_turn_def cache_with_def)

definition cache_run_of :: "cache \<Rightarrow> (nat \<times> nat) list \<Rightarrow> cache_wait list \<Rightarrow> u64 list \<Rightarrow> cache_run" where
  "cache_run_of c L W leaked = \<lparr>cr_cache = c, cr_segs = sample_segs, cr_leases = L, cr_waits = W, cr_leaked = leaked\<rparr>"

lemma sample_steps:
  "cache_step\<^sup>*\<^sup>* (cache_start 4 [] sample_segs) (cache_run_of (cache_with 1 False False []) [(0, 0)] [] [])"
  "cache_step\<^sup>*\<^sup>* (cache_start 4 [] sample_segs) (cache_run_of (cache_with 0 False True [0]) [] [] [])"
  "cache_step\<^sup>*\<^sup>* (cache_start 4 [] sample_segs) (cache_run_of (cache_with 1 True False []) [(0, 0)] [] [1])"
proof -
  have "cache_step (cache_start 4 [] sample_segs) (cache_run_of (cache_with 1 False False []) [(0, 0)] [] [])"
    using cache_step.acquire [where r = "cache_start 4 [] sample_segs", simplified cache_start_def cache_run.simps, OF sample_acquire, of 0]
    by (simp add: cache_start_def cache_run_of_def cache_with_def)
  then show 1: "cache_step\<^sup>*\<^sup>* (cache_start 4 [] sample_segs) (cache_run_of (cache_with 1 False False []) [(0, 0)] [] [])" by simp
  have "cache_step (cache_run_of (cache_with 1 False False []) [(0, 0)] [] []) (cache_run_of (cache_with 0 False True [0]) [] [] [])"
    using cache_step.release [of 0 0 "cache_run_of (cache_with 1 False False []) [(0, 0)] [] []" None "cache_with 0 False True [0]"]
    by (simp add: cache_run_of_def sample_release)
  with 1 show "cache_step\<^sup>*\<^sup>* (cache_start 4 [] sample_segs) (cache_run_of (cache_with 0 False True [0]) [] [] [])" by simp
  let ?w = "\<lparr>cw_force = False, cw_ids = [1], cw_pending = [0], cw_err = None\<rparr>"
  have "cache_step (cache_run_of (cache_with 1 False False []) [(0, 0)] [] []) (cache_run_of (cache_with 1 True False []) [(0, 0)] [?w] [])"
    using cache_step.purge [of "[1]" "cache_run_of (cache_with 1 False False []) [(0, 0)] [] []" "Waiting [0] None" "cache_with 1 True False []"]
    by (simp add: cache_run_of_def sample_purge wait_next_def)
  moreover have "cache_step (cache_run_of (cache_with 1 True False []) [(0, 0)] [?w] []) (cache_run_of (cache_with 1 True False []) [(0, 0)] [] [1])"
    using cache_step.wait [of ?w "cache_run_of (cache_with 1 True False []) [(0, 0)] [?w] []" True "Done (Some CachePurgeTimeout)" "cache_with 1 True False []" "[1]"]
    by (simp add: cache_run_of_def sample_timeout wait_next_def)
  ultimately show "cache_step\<^sup>*\<^sup>* (cache_start 4 [] sample_segs) (cache_run_of (cache_with 1 True False []) [(0, 0)] [] [1])"
    using 1 by (meson rtranclp.rtrancl_into_rtrancl)
qed

end
