(* ===== verification/Engine_Aggregate.thy ===== *)
theory Engine_Aggregate
  imports Engine_Query
begin

text \<open>
  The aggregations of \<^verbatim>\<open>internal/engine/engine.go\<close> over the spans of a range. A Go map is an
  association list in the order of first insertion, which stands for any iteration order. The
  sorting of \<^verbatim>\<open>sort.Slice\<close> is insertion sort, its algorithm for up to twelve elements; for
  longer slices Go may order ties otherwise.
\<close>

section \<open>Sorting\<close>

definition go_insert :: "('a \<Rightarrow> 'a \<Rightarrow> bool) \<Rightarrow> 'a \<Rightarrow> 'a list \<Rightarrow> 'a list" where
  "go_insert lt x xs = rev (dropWhile (lt x) (rev xs)) @ [x] @ rev (takeWhile (lt x) (rev xs))"

definition go_sort :: "('a \<Rightarrow> 'a \<Rightarrow> bool) \<Rightarrow> 'a list \<Rightarrow> 'a list" where
  "go_sort lt xs = foldl (\<lambda>acc x. go_insert lt x acc) [] xs"

definition string_less :: "string \<Rightarrow> string \<Rightarrow> bool" where
  "string_less s t \<longleftrightarrow> bytes_less (bytes_of s) (bytes_of t)"

text \<open>\<^verbatim>\<open>if limit > 0 && len(xs) > limit { xs = xs[:limit] }\<close>\<close>

definition cap_list :: "int \<Rightarrow> 'a list \<Rightarrow> 'a list" where
  "cap_list limit xs = (if 0 < limit \<and> limit < int (length xs) then take (nat limit) xs else xs)"

section \<open>Sums by dimension\<close>

record token_stats =
  tk_TokensIn :: i64
  tk_TokensOut :: i64
  tk_Total :: i64

definition lookup0 :: "'a \<Rightarrow> (string \<times> 'a) list \<Rightarrow> string \<Rightarrow> 'a" where
  "lookup0 d m k = (case map_of m k of None \<Rightarrow> d | Some v \<Rightarrow> v)"

text \<open>The loop \<^verbatim>\<open>for s in spans { if dim(s) != "" { res[dim(s)] = f(s, res[dim(s)]) } }\<close>.\<close>

definition group_by :: "(span_payload \<Rightarrow> string) \<Rightarrow> 'a \<Rightarrow> (span_payload \<Rightarrow> 'a \<Rightarrow> 'a) \<Rightarrow> span_payload list \<Rightarrow> (string \<times> 'a) list" where
  "group_by dim zero step spans =
     fold (\<lambda>s res. if dim s \<noteq> [] then AList.update (dim s) (step s (lookup0 zero res (dim s))) res else res) spans []"

definition add_cost :: "span_payload \<Rightarrow> f64 \<Rightarrow> f64" where
  "add_cost s c = f64_add c (Cost s)"

definition add_tokens :: "span_payload \<Rightarrow> token_stats \<Rightarrow> token_stats" where
  "add_tokens s t =
     \<lparr>tk_TokensIn = tk_TokensIn t + scast (TokensIn s), tk_TokensOut = tk_TokensOut t + scast (TokensOut s),
      tk_Total = tk_Total t + (scast (TokensIn s) + scast (TokensOut s))\<rparr>"

definition no_tokens :: token_stats where
  "no_tokens = \<lparr>tk_TokensIn = 0, tk_TokensOut = 0, tk_Total = 0\<rparr>"

definition over_range ::
    "'k kv \<Rightarrow> range_filter \<Rightarrow> (span_payload list \<Rightarrow> engine_error + 'a) \<Rightarrow> 'k engine \<Rightarrow> (engine_error + 'a) \<times> 'k engine" where
  "over_range K f g e = rbind (RangeQuery K f e) (\<lambda>spans e. (g spans, e))"

definition GetCostByModel where
  "GetCostByModel K startTS endTS e =
     over_range K (any_filter startTS endTS) (\<lambda>spans. Inr (group_by Model 0 add_cost spans)) e"

definition GetCostByTeam where
  "GetCostByTeam K startTS endTS e =
     over_range K (any_filter startTS endTS) (\<lambda>spans. Inr (group_by Team 0 add_cost spans)) e"

definition GetTokensByModel where
  "GetTokensByModel K startTS endTS e =
     over_range K (any_filter startTS endTS) (\<lambda>spans. Inr (group_by Model no_tokens add_tokens spans)) e"

definition GetTopTeamsByCost where
  "GetTopTeamsByCost K limit startTS endTS e =
     rbind (GetCostByTeam K startTS endTS e) (\<lambda>byTeam e.
       (Inr (cap_list limit (go_sort (\<lambda>(t, c) (t', c'). f64_lt c' c) byTeam)), e))"

definition count_models :: "span_payload list \<Rightarrow> (string \<times> i64) list" where
  "count_models spans = group_by Model 0 (\<lambda>s n. n + 1) spans"

definition GetTopModelsBySpanCount where
  "GetTopModelsBySpanCount K limit startTS endTS e =
     over_range K (any_filter startTS endTS)
       (\<lambda>spans. Inr (cap_list limit (go_sort (\<lambda>(m, n) (m', n'). n' <s n) (count_models spans)))) e"

definition QueryAggregations :: "string \<Rightarrow> i64 \<Rightarrow> i64 \<Rightarrow> 'k engine \<Rightarrow> rollup_error + buckets" where
  "QueryAggregations window startTS endTS e = manager_GetBucketInRange window startTS endTS (en_rollups e)"

section \<open>Failures\<close>

text \<open>
  \<^verbatim>\<open>strings.ToLower\<close> as far as a comparison with an ASCII string can tell: ASCII letters, and
  the two other characters whose lower case is ASCII, U+212A (k) and U+0130 (i).
\<close>

definition lower_char :: "char \<Rightarrow> char" where
  "lower_char c = (let n = of_char c :: nat in if 65 \<le> n \<and> n \<le> 90 then char_of (n + 32) else c)"

fun lower_bytes :: "bytes \<Rightarrow> string" where
  "lower_bytes [] = []"
| "lower_bytes (b # bs) =
     (if take 3 (b # bs) = [0xE2, 0x84, 0xAA] then CHR ''k'' # lower_bytes (drop 2 bs)
      else if take 2 (b # bs) = [0xC4, 0xB0] then CHR ''i'' # lower_bytes (drop 1 bs)
      else lower_char (char_of_byte b) # lower_bytes bs)"

definition ToLower :: "string \<Rightarrow> string" where
  "ToLower s = lower_bytes (bytes_of s)"

definition failed_status :: "string \<Rightarrow> bool" where
  "failed_status status =
     (let st = ToLower status in st \<noteq> ''ok'' \<and> st \<noteq> ''success'' \<and> st \<noteq> ''unset'' \<and> st \<noteq> [])"

fun failed_spans :: "int \<Rightarrow> span_payload list \<Rightarrow> span_payload list \<Rightarrow> span_payload list" where
  "failed_spans limit [] acc = acc"
| "failed_spans limit (s # spans) acc =
     (if failed_status (Status s)
      then let acc = acc @ [s] in
           if 0 < limit \<and> limit \<le> int (length acc) then acc else failed_spans limit spans acc
      else failed_spans limit spans acc)"

definition GetFailedSpans where
  "GetFailedSpans K limit startTS endTS e =
     over_range K (any_filter startTS endTS) (\<lambda>spans. Inr (failed_spans limit spans [])) e"

definition f64_100 :: f64 where "f64_100 = f64_of_int 100"

definition error_rate :: "span_payload list \<Rightarrow> f64" where
  "error_rate spans =
     (if spans = [] then 0
      else f64_mul (f64_div (f64_of_int (int (length (filter (\<lambda>s. failed_status (Status s)) spans))))
             (f64_of_int (int (length spans)))) f64_100)"

definition GetErrorRate where
  "GetErrorRate K m startTS endTS e =
     over_range K ((any_filter startTS endTS)\<lparr>rf_Model := m\<rparr>) (\<lambda>spans. Inr (error_rate spans)) e"

section \<open>Distinct values\<close>

definition MaxCardinalityPerQuery :: int where "MaxCardinalityPerQuery = 10000"

definition cardinalityStop :: "int \<Rightarrow> int \<times> bool" where
  "cardinalityStop limit =
     (if 0 < limit \<and> limit \<le> MaxCardinalityPerQuery then (limit, False) else (MaxCardinalityPerQuery, True))"

fun collect_distinct ::
    "(span_payload \<Rightarrow> string) \<Rightarrow> int \<Rightarrow> bool \<Rightarrow> span_payload list \<Rightarrow> string list \<Rightarrow> engine_error + string list" where
  "collect_distinct dim stop errOnCap [] acc = Inr acc"
| "collect_distinct dim stop errOnCap (s # spans) acc =
     (if dim s \<noteq> [] \<and> dim s \<notin> set acc
      then let acc = acc @ [dim s] in
           if stop \<le> int (length acc)
           then if errOnCap then Inl (EngCardinality (length acc)) else Inr acc
           else collect_distinct dim stop errOnCap spans acc
      else collect_distinct dim stop errOnCap spans acc)"

definition distinct_values :: "(span_payload \<Rightarrow> string) \<Rightarrow> int \<Rightarrow> span_payload list \<Rightarrow> engine_error + string list" where
  "distinct_values dim limit spans =
     (case cardinalityStop limit of (stop, errOnCap) \<Rightarrow>
        (case collect_distinct dim stop errOnCap spans [] of
           Inl x \<Rightarrow> Inl x
         | Inr vals \<Rightarrow> Inr (cap_list limit (go_sort string_less vals))))"

definition GetDistinctModels where
  "GetDistinctModels K startTS endTS limit e =
     over_range K (any_filter startTS endTS) (distinct_values Model limit) e"

definition GetDistinctTeams where
  "GetDistinctTeams K startTS endTS limit e =
     over_range K (any_filter startTS endTS) (distinct_values Team limit) e"

definition GetDistinctAgents where
  "GetDistinctAgents K startTS endTS limit e =
     over_range K (any_filter startTS endTS) (distinct_values AgentID limit) e"

end
