(* ===== verification/Consistency.thy ===== *)
theory Consistency
  imports Engine_Recover Engine_Aggregate
begin

text \<open>
  The cross-check of manifest, segment files, index and checkpoint in
  \<^verbatim>\<open>internal/engine/consistency.go\<close>. A message of the report is a constructor with the values it
  prints. A Go map is visited in the order of its association list. The error of closing a
  reader is an entry of the failure schedule where the code looks at it.
\<close>

section \<open>Reports\<close>

datatype check_error =
  CheckManifest manifest_error
| CheckCheckpoint checkpoint_error
| CheckDirScan
| CheckMissingFile u64
| CheckOpen u64 seg_error
| CheckHeaderId u64 u64
| CheckScan u64 seg_error
| CheckClose u64
| CheckSpanCount u64 u32 nat
| CheckIndexScan index_error
| CheckEntryOpen string u64 seg_error
| CheckEntryRead string u64 u64 seg_error
| CheckEntryKey string string u64 u64
| CheckRescan u64 seg_error
| CheckLiveElsewhere string u64 u64 u64 u64
| CheckCheckpointAhead u64 u64

datatype check_warning =
  WarnUnlisted string u64
| WarnTombstoneIndexed string u64 u64 u64
| WarnNotIndexed string u64

record consistency_report =
  rep_Errors :: "check_error list"
  rep_Warnings :: "check_warning list"

definition no_findings :: consistency_report where
  "no_findings = \<lparr>rep_Errors = [], rep_Warnings = []\<rparr>"

definition report_OK :: "consistency_report \<Rightarrow> bool" where
  "report_OK r \<longleftrightarrow> rep_Errors r = []"

definition addErrors :: "check_error list \<Rightarrow> consistency_report \<Rightarrow> consistency_report" where
  "addErrors es r = r\<lparr>rep_Errors := rep_Errors r @ es\<rparr>"

definition addWarnings :: "check_warning list \<Rightarrow> consistency_report \<Rightarrow> consistency_report" where
  "addWarnings ws r = r\<lparr>rep_Warnings := rep_Warnings r @ ws\<rparr>"

section \<open>Files and manifest\<close>

text \<open>\<^verbatim>\<open>os.ReadDir\<close> lists the names in byte order.\<close>

definition listSegmentFiles :: "file_store \<Rightarrow> (unit + (u64 \<times> string) list) \<times> file_store" where
  "listSegmentFiles st =
     (case fs_fault st of
        (Some _, st) \<Rightarrow> (Inl (), st)
      | (None, st) \<Rightarrow>
          (Inr (fold (\<lambda>name files. case segment_file_id name of None \<Rightarrow> files | Some i \<Rightarrow> AList.update i name files)
             (go_sort string_less (map fst (fs_dir st))) []), st))"

text \<open>The scan of an open reader and the error of closing it.\<close>

definition scan_and_close :: "seg_reader \<Rightarrow> file_store \<Rightarrow> (seg_error + (u64 \<times> span_payload) list) \<times> bool \<times> file_store" where
  "scan_and_close r st =
     (let (scanErr, st) = fs_fault st; (closeErr, st) = fs_fault st
      in (if scanErr \<noteq> None then Inl SegIO else rd_ScanAll r, closeErr \<noteq> None, st))"

definition check_segment :: "(u64 \<times> string) list \<Rightarrow> u64 \<Rightarrow> file_store \<Rightarrow> check_error list \<times> file_store" where
  "check_segment files i st =
     (if map_of files i = None then ([CheckMissingFile i], st)
      else case OpenReader i st of
        (Inl x, st) \<Rightarrow> ([CheckOpen i x], st)
      | (Inr r, st) \<Rightarrow>
          if hd_SegmentID (rd_Header r) \<noteq> i then ([CheckHeaderId i (hd_SegmentID (rd_Header r))], st)
          else case scan_and_close r st of
            (Inl x, _, st) \<Rightarrow> ([CheckScan i x], st)
          | (Inr spans, closeErr, st) \<Rightarrow>
              (if closeErr then [CheckClose i]
               else if word_of_nat (length spans) \<noteq> hd_SpanCount (rd_Header r)
               then [CheckSpanCount i (hd_SpanCount (rd_Header r)) (length spans)]
               else [], st))"

fun check_segments :: "(u64 \<times> string) list \<Rightarrow> u64 list \<Rightarrow> file_store \<Rightarrow> check_error list \<times> file_store" where
  "check_segments files [] st = ([], st)"
| "check_segments files (i # ids) st =
     (let (es, st) = check_segment files i st; (es', st) = check_segments files ids st in (es @ es', st))"

definition unlisted :: "u64 list \<Rightarrow> (u64 \<times> string) list \<Rightarrow> check_warning list" where
  "unlisted live files = map (\<lambda>(i, name). WarnUnlisted name i) (filter (\<lambda>(i, name). i \<notin> set live) files)"

section \<open>Index and segments\<close>

definition check_entry :: "string \<times> span_location \<Rightarrow> file_store \<Rightarrow> check_error list \<times> file_store" where
  "check_entry entry st =
     (case entry of (key, loc) \<Rightarrow>
        case OpenReader (loc_SegmentID loc) st of
          (Inl x, st) \<Rightarrow> ([CheckEntryOpen key (loc_SegmentID loc) x], st)
        | (Inr r, st) \<Rightarrow>
            (case rd_ReadAt r (loc_Offset loc) of
               Inl x \<Rightarrow> [CheckEntryRead key (loc_SegmentID loc) (loc_Offset loc) x]
             | Inr span \<Rightarrow>
                 if CompositeKey (TraceID span) (SpanID span) \<noteq> key
                 then [CheckEntryKey key (CompositeKey (TraceID span) (SpanID span)) (loc_SegmentID loc) (loc_Offset loc)]
                 else [], st))"

fun check_entries :: "(string \<times> span_location) list \<Rightarrow> file_store \<Rightarrow> check_error list \<times> file_store" where
  "check_entries [] st = ([], st)"
| "check_entries (entry # entries) st =
     (let (es, st) = check_entry entry st; (es', st) = check_entries entries st in (es @ es', st))"

definition scanSegmentRecords :: "u64 \<Rightarrow> file_store \<Rightarrow> (seg_error + (u64 \<times> span_payload) list) \<times> file_store" where
  "scanSegmentRecords i st =
     rbind (OpenReader i st) (\<lambda>r st.
       case scan_and_close r st of
         (Inl x, _, st) \<Rightarrow> (Inl x, st)
       | (Inr spans, closeErr, st) \<Rightarrow> (if closeErr then Inl SegIO else Inr spans, st))"

definition authoritative :: "(u64 \<times> span_payload) list \<Rightarrow> (string \<times> u64) list" where
  "authoritative spans = fold (\<lambda>(off, s). AList.update (CompositeKey (TraceID s) (SpanID s)) off) spans []"

definition check_record ::
    "(string \<times> span_location) list \<Rightarrow> u64 \<Rightarrow> (string \<times> u64) list \<Rightarrow> u64 \<times> span_payload \<Rightarrow> consistency_report \<Rightarrow> consistency_report" where
  "check_record indexed i auth sc rep =
     (case sc of (off, s) \<Rightarrow>
        let key = CompositeKey (TraceID s) (SpanID s) in
        if (case map_of auth key of None \<Rightarrow> 0 | Some o' \<Rightarrow> o') \<noteq> off then rep
        else case map_of indexed key of
          None \<Rightarrow> if Deleted s then rep else addWarnings [WarnNotIndexed key i] rep
        | Some loc \<Rightarrow>
            if Deleted s then addWarnings [WarnTombstoneIndexed key i (loc_SegmentID loc) (loc_Offset loc)] rep
            else if loc_SegmentID loc \<noteq> i \<or> loc_Offset loc \<noteq> off
            then addErrors [CheckLiveElsewhere key i off (loc_SegmentID loc) (loc_Offset loc)] rep
            else rep)"

fun check_records ::
    "(string \<times> span_location) list \<Rightarrow> u64 list \<Rightarrow> consistency_report \<Rightarrow> file_store \<Rightarrow> consistency_report \<times> file_store" where
  "check_records indexed [] rep st = (rep, st)"
| "check_records indexed (i # ids) rep st =
     (case scanSegmentRecords i st of
        (Inl x, st) \<Rightarrow> check_records indexed ids (addErrors [CheckRescan i x] rep) st
      | (Inr spans, st) \<Rightarrow>
          check_records indexed ids (fold (check_record indexed i (authoritative spans)) spans rep) st)"

section \<open>The check\<close>

definition check_index :: "'k kv \<Rightarrow> u64 list \<Rightarrow> (u64 \<times> string) list \<Rightarrow> u64 option \<Rightarrow> consistency_report \<Rightarrow> 'k engine \<Rightarrow>
    consistency_report \<times> 'k engine" where
  "check_index K live files cp rep e =
     (case idx_ScanAll K (db_index (en_db e)) of
        (Inl x, ix) \<Rightarrow> (addErrors [CheckIndexScan x] rep, e\<lparr>en_db := (en_db e)\<lparr>db_index := ix\<rparr>\<rparr>)
      | (Inr indexed, ix) \<Rightarrow>
          let (es, st) = check_entries indexed (db_segs (en_db e));
              (rep, st) = check_records indexed live (addErrors es rep) st;
              highest = max_id 0 (map fst files);
              c = (case cp of None \<Rightarrow> 0 | Some c \<Rightarrow> c)
          in (if highest < c then addErrors [CheckCheckpointAhead c highest] rep else rep,
              e\<lparr>en_db := (en_db e)\<lparr>db_index := ix, db_segs := st\<rparr>\<rparr>))"

definition CheckConsistency :: "'k kv \<Rightarrow> 'k engine \<Rightarrow> consistency_report \<times> 'k engine" where
  "CheckConsistency K e =
     (case on_meta EngManifest (manifest_Load (db_manifest (en_db e))) e of
        (Inl x, e) \<Rightarrow> (addErrors (case x of EngManifest m \<Rightarrow> [CheckManifest m] | _ \<Rightarrow> []) no_findings, e)
      | (Inr live, e) \<Rightarrow>
          (case checkpoint_Load (en_checkpoint e) (db_meta (en_db e)) of
             (cp, meta) \<Rightarrow>
               let e = e\<lparr>en_db := (en_db e)\<lparr>db_meta := meta\<rparr>\<rparr>;
                   rep = (case cp of Inl x \<Rightarrow> addErrors [CheckCheckpoint x] no_findings | Inr _ \<Rightarrow> no_findings)
               in (case listSegmentFiles (db_segs (en_db e)) of
                     (Inl _, st) \<Rightarrow> (addErrors [CheckDirScan] rep, e\<lparr>en_db := (en_db e)\<lparr>db_segs := st\<rparr>\<rparr>)
                   | (Inr files, st) \<Rightarrow>
                       let (es, st) = check_segments files live st;
                           rep = addWarnings (unlisted live files) (addErrors es rep)
                       in check_index K live files (case cp of Inl _ \<Rightarrow> None | Inr c \<Rightarrow> Some c) rep
                            (e\<lparr>en_db := (en_db e)\<lparr>db_segs := st\<rparr>\<rparr>))))"

end
