(* ===== verification/Consistency_Spec.thy ===== *)
theory Consistency_Spec
  imports Consistency Compactor_Spec
begin

text \<open>
  What a report says: without errors every listed segment is intact and every index entry leads
  to a record of its key; a live record that the index places elsewhere is an error, which makes
  an update that crossed a flush one.
\<close>

section \<open>What a file holds\<close>

definition file_records :: "u64 \<Rightarrow> file_store \<Rightarrow> seg_error + (u64 \<times> span_payload) list" where
  "file_records i st =
     (case dir_get (fs_dir st) (SegmentPath i) of None \<Rightarrow> Inl SegNotExist
      | Some data \<Rightarrow> (case open_full data of Inl e \<Rightarrow> Inl e | Inr r \<Rightarrow> rd_ScanAll r))"

text \<open>A listed segment in order: its header names it and counts the records that are there.\<close>

definition segment_intact :: "u64 \<Rightarrow> file_store \<Rightarrow> bool" where
  "segment_intact i st \<longleftrightarrow> (\<exists>data r recs. dir_get (fs_dir st) (SegmentPath i) = Some data \<and> open_full data = Inr r
     \<and> hd_SegmentID (rd_Header r) = i \<and> file_records i st = Inr recs \<and> hd_SpanCount (rd_Header r) = word_of_nat (length recs))"

definition live_at_home :: "(string \<Rightarrow> span_location option) \<Rightarrow> u64 \<Rightarrow> (u64 \<times> span_payload) list \<Rightarrow> bool" where
  "live_at_home m i recs \<longleftrightarrow> (\<forall>(off, s) \<in> set recs. map_of (authoritative recs) (span_key s) = Some off \<and> \<not> Deleted s \<longrightarrow>
     (\<forall>loc. m (span_key s) = Some loc \<longrightarrow> loc = \<lparr>loc_SegmentID = i, loc_Offset = off\<rparr>))"

lemma same_dir_records: "fs_dir st' = fs_dir st \<Longrightarrow> file_records i st' = file_records i st"
  by (simp add: file_records_def)

lemma same_dir_intact:
  assumes "fs_dir st' = fs_dir st"
  shows "segment_intact i st' = segment_intact i st"
  unfolding segment_intact_def same_dir_records [OF assms] assms ..

lemma OpenReader_file:
  "OpenReader i st = (Inr r, st') \<Longrightarrow> \<exists>data. dir_get (fs_dir st) (SegmentPath i) = Some data \<and> open_full data = Inr r"
  by (auto simp: OpenReader_def open_with_def fs_fault_def split: prod.splits option.splits)

lemma scan_and_close_ok:
  assumes "scan_and_close r st = (res, c, st')"
  shows "fs_dir st' = fs_dir st" "res = Inr recs \<Longrightarrow> rd_ScanAll r = Inr recs"
  using assms by (auto simp: scan_and_close_def fs_fault_def Let_def split: prod.splits if_splits)

lemma scanSegmentRecords_ok:
  assumes "scanSegmentRecords i st = (res, st')"
  shows "fs_dir st' = fs_dir st" "res = Inr recs \<Longrightarrow> file_records i st = Inr recs"
proof -
  obtain o1 st1 where O: "OpenReader i st = (o1, st1)" by fastforce
  note D = open_reader_dir [OF O]
  have "fs_dir st' = fs_dir st \<and> (\<forall>recs. res = Inr recs \<longrightarrow> file_records i st = Inr recs)"
  proof (cases o1)
    case (Inl x)
    with assms O D show ?thesis by (auto simp: scanSegmentRecords_def)
  next
    case (Inr r)
    obtain res1 c st2 where S: "scan_and_close r st1 = (res1, c, st2)" by (metis prod_cases3)
    have r: "st' = st2" "\<And>recs. res = Inr recs \<Longrightarrow> res1 = Inr recs"
      using assms O Inr S by (auto simp: scanSegmentRecords_def split: sum.splits if_splits)
    have "res1 = Inr recs \<Longrightarrow> file_records i st = Inr recs" for recs
      using OpenReader_file [OF O [unfolded Inr]] scan_and_close_ok(2) [OF S] by (auto simp: file_records_def)
    with r scan_and_close_ok(1) [OF S] D show ?thesis by simp
  qed
  then show "fs_dir st' = fs_dir st" "res = Inr recs \<Longrightarrow> file_records i st = Inr recs" by auto
qed

section \<open>A report without errors\<close>

lemma check_segment_ok:
  assumes "check_segment files i st = (es, st')"
  shows "fs_dir st' = fs_dir st" "es = [] \<Longrightarrow> segment_intact i st"
proof -
  obtain o1 st1 where O: "OpenReader i st = (o1, st1)" by fastforce
  note D = open_reader_dir [OF O]
  have "fs_dir st' = fs_dir st \<and> (es = [] \<longrightarrow> segment_intact i st)"
  proof (cases o1)
    case (Inl x)
    with assms O D show ?thesis by (auto simp: check_segment_def split: if_splits)
  next
    case (Inr r)
    obtain res c st2 where S: "scan_and_close r st1 = (res, c, st2)" by (metis prod_cases3)
    obtain data where data: "dir_get (fs_dir st) (SegmentPath i) = Some data" "open_full data = Inr r"
      using OpenReader_file [OF O [unfolded Inr]] by blast
    have "segment_intact i st" if es: "es = []"
    proof -
      obtain recs where "res = Inr recs" "hd_SegmentID (rd_Header r) = i" "word_of_nat (length recs) = hd_SpanCount (rd_Header r)"
        using assms O Inr S es by (auto simp: check_segment_def split: if_splits sum.splits)
      with data scan_and_close_ok(2) [OF S] show ?thesis by (auto simp: segment_intact_def file_records_def)
    qed
    moreover have "fs_dir st' = fs_dir st"
      using assms O Inr S D scan_and_close_ok(1) [OF S] by (auto simp: check_segment_def split: if_splits sum.splits)
    ultimately show ?thesis by blast
  qed
  then show "fs_dir st' = fs_dir st" "es = [] \<Longrightarrow> segment_intact i st" by auto
qed

lemma check_segments_ok:
  "check_segments files ids st = (es, st') \<Longrightarrow> fs_dir st' = fs_dir st \<and> (es = [] \<longrightarrow> (\<forall>i \<in> set ids. segment_intact i st))"
proof (induction files ids st arbitrary: es st' rule: check_segments.induct)
  case (2 files i ids st)
  obtain es1 st1 where S: "check_segment files i st = (es1, st1)" by fastforce
  obtain es2 st2 where T: "check_segments files ids st1 = (es2, st2)" by fastforce
  note A = check_segment_ok [OF S]
  from 2(1) [OF S [symmetric] refl T] A same_dir_intact [OF A(1)] 2(2) S T show ?case by auto
qed simp

lemma check_entry_ok:
  assumes "check_entry (k, loc) st = (es, st')"
  shows "fs_dir st' = fs_dir st"
    "es = [] \<Longrightarrow> \<exists>s. seg_read (loc_SegmentID loc) (loc_Offset loc) st = Inr s \<and> span_key s = k"
proof -
  obtain o1 st1 where O: "OpenReader (loc_SegmentID loc) st = (o1, st1)" by fastforce
  show "fs_dir st' = fs_dir st" using assms O open_reader_dir [OF O] by (auto simp: check_entry_def split: sum.splits)
  assume es: "es = []"
  with assms O obtain r s where r: "o1 = Inr r" "rd_ReadAt r (loc_Offset loc) = Inr s" "span_key s = k"
    by (auto simp: check_entry_def split: sum.splits if_splits)
  obtain data where data: "dir_get (fs_dir st) (SegmentPath (loc_SegmentID loc)) = Some data" "open_full data = Inr r"
    using OpenReader_file [OF O [unfolded r(1)]] by blast
  obtain q where q: "open_light data = Inr q" "rd_data q = rd_data r"
    using data(2) by (auto simp: open_full_def open_light_def split: sum.splits)
  have "rd_ReadAt q (loc_Offset loc) = rd_ReadAt r (loc_Offset loc)" by (simp only: rd_ReadAt_def q(2))
  with data(1) q(1) r(2,3) show "\<exists>s. seg_read (loc_SegmentID loc) (loc_Offset loc) st = Inr s \<and> span_key s = k"
    by (simp add: seg_read_def)
qed

lemma check_entries_ok:
  "check_entries entries st = (es, st') \<Longrightarrow> fs_dir st' = fs_dir st \<and>
     (es = [] \<longrightarrow> (\<forall>(k, loc) \<in> set entries. \<exists>s. seg_read (loc_SegmentID loc) (loc_Offset loc) st = Inr s \<and> span_key s = k))"
proof (induction entries st arbitrary: es st' rule: check_entries.induct)
  case (2 entry entries st)
  obtain k loc where e: "entry = (k, loc)" by fastforce
  obtain es1 st1 where S: "check_entry entry st = (es1, st1)" by fastforce
  obtain es2 st2 where T: "check_entries entries st1 = (es2, st2)" by fastforce
  note A = check_entry_ok [OF S [unfolded e]]
  have same: "seg_read i off st1 = seg_read i off st" for i off using A(1) by (simp add: seg_read_def)
  from 2(1) [OF S [symmetric] refl T] A 2(2) S T e show ?case unfolding same by auto
qed simp

section \<open>Errors are kept\<close>

lemma add_simps [simp]:
  "rep_Errors (addErrors es r) = rep_Errors r @ es" "rep_Errors (addWarnings ws r) = rep_Errors r" "rep_Errors no_findings = []"
  by (simp_all add: addErrors_def addWarnings_def no_findings_def)

text \<open>The errors of one record.\<close>

definition misplaced :: "(string \<times> span_location) list \<Rightarrow> u64 \<Rightarrow> (string \<times> u64) list \<Rightarrow> u64 \<times> span_payload \<Rightarrow> check_error list" where
  "misplaced indexed i auth = (\<lambda>(off, s).
     if (case map_of auth (span_key s) of None \<Rightarrow> 0 | Some o' \<Rightarrow> o') = off \<and> \<not> Deleted s
     then case map_of indexed (span_key s) of None \<Rightarrow> []
       | Some loc \<Rightarrow> if loc = \<lparr>loc_SegmentID = i, loc_Offset = off\<rparr> then []
           else [CheckLiveElsewhere (span_key s) i off (loc_SegmentID loc) (loc_Offset loc)]
     else [])"

lemma check_record_errors: "rep_Errors (check_record indexed i auth sc rep) = rep_Errors rep @ misplaced indexed i auth sc"
  by (cases sc) (auto simp: check_record_def misplaced_def Let_def split: option.split)

lemma check_record_fold:
  "rep_Errors (fold (check_record indexed i auth) recs rep) = rep_Errors rep @ concat (map (misplaced indexed i auth) recs)"
  by (induction recs arbitrary: rep) (simp_all add: check_record_errors)

definition elsewhere :: "(string \<times> span_location) list \<Rightarrow> u64 \<Rightarrow> (u64 \<times> span_payload) list \<Rightarrow> check_error list" where
  "elsewhere indexed i recs = concat (map (misplaced indexed i (authoritative recs)) recs)"

lemma elsewhere_none: "elsewhere indexed i recs = [] \<Longrightarrow> live_at_home (map_of indexed) i recs"
  by (fastforce simp: elsewhere_def live_at_home_def misplaced_def split: if_splits)

lemma check_records_ok:
  "check_records indexed ids rep st = (rep', st') \<Longrightarrow> fs_dir st' = fs_dir st \<and> set (rep_Errors rep) \<subseteq> set (rep_Errors rep')
     \<and> (\<forall>i \<in> set ids. (\<exists>x. CheckRescan i x \<in> set (rep_Errors rep'))
          \<or> (\<exists>recs. file_records i st = Inr recs \<and> set (elsewhere indexed i recs) \<subseteq> set (rep_Errors rep')))"
proof (induction indexed ids rep st arbitrary: rep' st' rule: check_records.induct)
  case (2 indexed i ids rep st)
  obtain res st1 where S: "scanSegmentRecords i st = (res, st1)" by fastforce
  note A = scanSegmentRecords_ok [OF S]
  note same = same_dir_records [OF A(1)]
  show ?case
  proof (cases res)
    case (Inl x)
    with 2(3) S have "check_records indexed ids (addErrors [CheckRescan i x] rep) st1 = (rep', st')" by simp
    from 2(1) [OF S [symmetric] Inl this] A(1) show ?thesis unfolding same by auto
  next
    case (Inr recs)
    with 2(3) S have "check_records indexed ids (fold (check_record indexed i (authoritative recs)) recs rep) st1 = (rep', st')" by simp
    from 2(2) [OF S [symmetric] Inr this] A(1) A(2) [OF Inr] show ?thesis unfolding same check_record_fold set_append elsewhere_def [symmetric] by auto
  qed
qed simp

section \<open>The whole check\<close>

lemma CheckConsistency_cases:
  assumes K: "kv_store K" and ok: "idx_ok K (db_index (en_db e))" and C: "CheckConsistency K e = (rep, e')" and clean: "report_OK rep"
  shows "\<exists>ids. manifest_ids (db_manifest (en_db e)) (db_meta (en_db e)) = Inr ids \<and>
    (\<forall>i \<in> set ids. segment_intact i (db_segs (en_db e)) \<and>
       (\<forall>recs. file_records i (db_segs (en_db e)) = Inr recs \<longrightarrow> live_at_home (idx_map K (db_index (en_db e))) i recs)) \<and>
    (\<forall>k loc. idx_map K (db_index (en_db e)) k = Some loc \<longrightarrow>
       (\<exists>s. seg_read (loc_SegmentID loc) (loc_Offset loc) (db_segs (en_db e)) = Inr s \<and> span_key s = k))"
proof -
  define ix segs where "ix = db_index (en_db e)" and "segs = db_segs (en_db e)"
  obtain l meta where L: "manifest_Load (db_manifest (en_db e)) (db_meta (en_db e)) = (l, meta)" by fastforce
  note LI = manifest_Load_ids [OF L]
  obtain cp meta' where CP: "checkpoint_Load (en_checkpoint e) meta = (cp, meta')" by fastforce
  obtain f st1 where F: "listSegmentFiles segs = (f, st1)" by fastforce
  then have st1: "fs_dir st1 = fs_dir segs" by (auto simp: listSegmentFiles_def fs_fault_def split: prod.splits option.splits)
  obtain ids where ids: "l = Inr ids"
    using C clean L by (cases l) (auto simp: CheckConsistency_def on_meta_def report_OK_def)
  obtain files where files: "f = Inr files"
    using C clean L ids CP F by (cases f) (auto simp: CheckConsistency_def on_meta_def report_OK_def segs_def Let_def)
  obtain es st2 where S: "check_segments files ids st1 = (es, st2)" by fastforce
  note S' = check_segments_ok [OF S]
  obtain ls ix' where I: "idx_ScanAll K ix = (ls, ix')" by fastforce
  obtain cp' rep0 e1 where R: "check_index K ids files cp' (addWarnings (unlisted ids files) (addErrors es rep0)) e1 = (rep, e')"
    and e1: "db_index (en_db e1) = ix" "db_segs (en_db e1) = st2"
    using C L ids CP F files S by (auto simp: CheckConsistency_def on_meta_def segs_def ix_def Let_def split: sum.splits)
  obtain indexed where indexed: "ls = Inr indexed"
    using R clean I by (cases ls) (auto simp: check_index_def e1 report_OK_def)
  from kv_store.idx_scan_law [OF K ok [folded ix_def] I] indexed have map: "map_of indexed = idx_map K ix" "distinct (map fst indexed)" by auto
  obtain es2 st3 where E: "check_entries indexed st2 = (es2, st3)" by fastforce
  note E' = check_entries_ok [OF E]
  obtain rep2 st4 where Q: "check_records indexed ids (addErrors es2 (addWarnings (unlisted ids files) (addErrors es rep0))) st3 = (rep2, st4)" by fastforce
  note Q' = check_records_ok [OF Q]
  have "rep_Errors rep2 = []" using R clean I indexed E Q by (auto simp: check_index_def e1 report_OK_def Let_def split: if_splits)
  with Q' have none: "es = []" "es2 = []" "\<And>i. i \<in> set ids \<Longrightarrow> \<exists>recs. file_records i st3 = Inr recs \<and> elsewhere indexed i recs = []"
    by auto
  have dirs: "fs_dir st2 = fs_dir segs" "fs_dir st3 = fs_dir segs" using S' E' st1 by auto
  have intact: "\<forall>i \<in> set ids. segment_intact i segs" using S' none(1) same_dir_intact [OF st1] by simp
  have home: "live_at_home (idx_map K ix) i recs" if "i \<in> set ids" "file_records i segs = Inr recs" for i recs
    using none(3) [OF that(1)] that(2) same_dir_records [OF dirs(2)] elsewhere_none [of indexed i recs] map(1) by auto
  have entries: "\<exists>s. seg_read (loc_SegmentID loc) (loc_Offset loc) segs = Inr s \<and> span_key s = k" if "idx_map K ix k = Some loc" for k loc
  proof -
    have "(k, loc) \<in> set indexed" using that map by (simp add: map_of_SomeD)
    moreover have "seg_read i off st2 = seg_read i off segs" for i off by (simp add: seg_read_def dirs(1))
    ultimately show ?thesis using E' none(2) by auto
  qed
  have "manifest_ids (db_manifest (en_db e)) (db_meta (en_db e)) = Inr ids" using LI ids by auto
  with intact home entries show ?thesis unfolding ix_def segs_def by blast
qed

section \<open>Updates\<close>

text \<open>The records of a segment that holds spans, and the last one of a key.\<close>

lemma file_records_holds:
  assumes "seg_holds Log segs i spans"
  shows "file_records i segs = Inr (seg_entries Log spans)"
proof -
  from assms obtain sect fs where s: "buildBloomSection Log spans = Some sect" "seg_fits spans"
    "dir_get (fs_dir segs) (SegmentPath i) = Some (segment_data i spans sect)" "length sect < 2 ^ 32"
    "decode_filters BloomDimensions sect = Inr fs" by (rule seg_holdsE)
  obtain r where r: "open_full (segment_data i spans sect) = Inr r" "rd_data r = segment_data i spans sect"
    "unat (hd_BloomSectionLength (rd_Header r)) = length sect"
    using open_full_data [OF s(4,5)] by blast
  show ?thesis using s(3) r(1) scan_all_data [OF r(2,3) s(2)] by (simp add: file_records_def seg_entries_def seg_start_def s(1))
qed

lemma authoritative_last:
  assumes "last_span k spans = Some s"
  shows "\<exists>off. (off, s) \<in> set (seg_entries Log spans) \<and> span_key s = k \<and> map_of (authoritative (seg_entries Log spans)) k = Some off"
proof -
  let ?start = "seg_start Log spans"
  let ?L = "map_of (rev (map (\<lambda>p. (span_key (snd p), p)) (placed ?start spans))) k"
  have auth: "authoritative (seg_entries Log spans) = snd (write_records spans ?start [])"
    by (simp add: authoritative_def write_records_eq seg_entries_def)
  have "map_option snd ?L = Some s" using assms unfolding offset_of_last(2) [of k spans ?start] .
  then obtain p where p: "?L = Some p" "snd p = s" by auto
  have "map_of (snd (write_records spans ?start [])) k = Some (fst p)" by (simp add: offset_of_last(1) p(1))
  then have "map_of (authoritative (seg_entries Log spans)) k = Some (fst p)" by (simp only: auth)
  with offset_of_last(3) [OF p(1)] p(2) show ?thesis by (intro exI [of _ "fst p"]) (auto simp: seg_entries_def)
qed

text \<open>Two segments that hold live records of one key, the trace of an update, make the report fail.\<close>

lemma update_flagged:
  assumes K: "kv_store K" and ok: "db_ok Log K (en_db e)" and ids: "manifest_ids (db_manifest (en_db e)) (db_meta (en_db e)) = Inr ids"
    and i: "i \<in> set ids" "seg_holds Log (db_segs (en_db e)) i spans" "last_span k spans = Some s" "\<not> Deleted s"
    and loc: "idx_map K (db_index (en_db e)) k = Some loc" "loc_SegmentID loc \<noteq> i"
  shows "\<not> report_OK (fst (CheckConsistency K e))"
proof
  assume clean: "report_OK (fst (CheckConsistency K e))"
  have "idx_ok K (db_index (en_db e))" using ok by (simp add: db_ok_def entries_ok_def)
  from CheckConsistency_cases [OF K this prod.collapse [symmetric] clean] i(1) ids file_records_holds [OF i(2)]
  have home: "live_at_home (idx_map K (db_index (en_db e))) i (seg_entries Log spans)" by auto
  obtain off where "(off, s) \<in> set (seg_entries Log spans)" "span_key s = k" "map_of (authoritative (seg_entries Log spans)) k = Some off"
    using authoritative_last [OF i(3)] by blast
  with home i(4) loc show False by (fastforce simp: live_at_home_def)
qed

end
