(* ===== verification/Sort_Spec.thy ===== *)
theory Sort_Spec
  imports Engine_Aggregate Index_Spec
begin

text \<open>
  Sorting by \<^verbatim>\<open>sort.Slice\<close>: for an order that is total on elements with different keys the
  result is the one sorted arrangement of the elements, whatever the algorithm, so the choice of
  insertion sort in the model does not show.
\<close>

section \<open>Insertion\<close>

lemma go_insert_mset: "mset (go_insert lt x xs) = add_mset x (mset xs)"
proof -
  have "mset (takeWhile (lt x) (rev xs)) + mset (dropWhile (lt x) (rev xs)) = mset (rev xs)"
    by (metis mset_append takeWhile_dropWhile_id)
  then show ?thesis by (simp add: go_insert_def union_commute)
qed

lemma go_sort_mset [simp]: "mset (go_sort lt xs) = mset xs"
proof -
  have "mset (foldl (\<lambda>acc x. go_insert lt x acc) acc xs) = mset acc + mset xs" for acc
    by (induction xs arbitrary: acc) (simp_all add: go_insert_mset)
  then show ?thesis by (simp add: go_sort_def)
qed

lemma go_sort_set [simp]: "set (go_sort lt xs) = set xs"
  by (rule mset_eq_setD) simp

lemma go_sort_length [simp]: "length (go_sort lt xs) = length xs"
  by (rule mset_eq_length) simp

lemma go_sort_distinct [simp]: "distinct (map k (go_sort lt xs)) = distinct (map k xs)"
  by (rule mset_eq_imp_distinct_iff) simp

section \<open>The order\<close>

locale go_order =
  fixes lt :: "'a \<Rightarrow> 'a \<Rightarrow> bool" and key :: "'a \<Rightarrow> 'b"
  assumes irrefl: "\<not> lt x x"
    and trans: "lt x y \<Longrightarrow> lt y z \<Longrightarrow> lt x z"
    and total: "key x \<noteq> key y \<Longrightarrow> lt x y \<or> lt y x"
begin

lemma insert_sorted:
  assumes "sorted_wrt lt xs" "key x \<notin> key ` set xs"
  shows "sorted_wrt lt (go_insert lt x xs)"
proof -
  define tw dw where "tw = takeWhile (lt x) (rev xs)" and "dw = dropWhile (lt x) (rev xs)"
  have xs: "xs = rev dw @ rev tw" by (simp add: tw_def dw_def flip: rev_append)
  have after: "\<forall>y \<in> set tw. lt x y" by (auto simp: tw_def dest: set_takeWhileD)
  have before: "\<forall>y \<in> set dw. lt y x"
  proof (cases dw)
    case (Cons d ds)
    then have "\<not> lt x d" unfolding dw_def by (metis hd_dropWhile list.discI list.sel(1))
    moreover have "key d \<noteq> key x" using assms(2) xs Cons by force
    ultimately have d: "lt d x" using total by blast
    have "\<forall>y \<in> set ds. lt y d" using assms(1) unfolding xs Cons by (simp add: sorted_wrt_append)
    with d trans Cons show ?thesis by auto
  qed simp
  have "go_insert lt x xs = rev dw @ [x] @ rev tw" by (simp add: go_insert_def tw_def dw_def)
  moreover have "sorted_wrt lt (rev dw @ rev tw)" using assms(1) xs by simp
  ultimately show ?thesis using after before by (auto simp: sorted_wrt_append intro: trans)
qed

lemma sort_sorted:
  assumes "distinct (map key xs)"
  shows "sorted_wrt lt (go_sort lt xs)"
proof -
  have "sorted_wrt lt (foldl (\<lambda>acc x. go_insert lt x acc) acc xs)" if "sorted_wrt lt acc" "distinct (map key (acc @ xs))" for acc
    using that
  proof (induction xs arbitrary: acc)
    case (Cons x xs)
    have "sorted_wrt lt (go_insert lt x acc)" using Cons.prems by (intro insert_sorted) auto
    moreover have "mset (map key (go_insert lt x acc @ xs)) = mset (map key (acc @ x # xs))" by (simp add: go_insert_mset)
    then have "distinct (map key (go_insert lt x acc @ xs))" using Cons.prems(2) mset_eq_imp_distinct_iff by blast
    ultimately show ?case using Cons.IH by simp
  qed simp
  with assms show ?thesis by (simp add: go_sort_def)
qed

text \<open>Any other sorted arrangement is the same list.\<close>

lemma sorted_unique:
  "sorted_wrt lt xs \<Longrightarrow> sorted_wrt lt ys \<Longrightarrow> mset xs = mset ys \<Longrightarrow> xs = ys"
proof (induction xs arbitrary: ys)
  case (Cons x xs)
  then obtain y ys' where ys: "ys = y # ys'" by (cases ys) auto
  have sets: "set (x # xs) = set (y # ys')" using mset_eq_setD [OF Cons.prems(3)] ys by simp
  have "x = y"
  proof (rule ccontr)
    assume "x \<noteq> y"
    then have "y \<in> set xs" "x \<in> set ys'" using sets by auto
    then have "lt x y" "lt y x" using Cons.prems(1,2) ys by auto
    with trans irrefl show False by blast
  qed
  with Cons ys show ?case by simp
qed simp

end

section \<open>Strings\<close>

lemma string_less_irrefl [simp]: "\<not> string_less s s"
  by (simp add: string_less_def)

lemma string_less_trans: "string_less s t \<Longrightarrow> string_less t u \<Longrightarrow> string_less s u"
  using bytes_less_trans by (simp add: string_less_def)

lemma string_less_linear: "s \<noteq> t \<Longrightarrow> string_less s t \<or> string_less t s"
  using bytes_less_linear [of "bytes_of s" "bytes_of t"] by (simp add: string_less_def)

interpretation strings: go_order string_less "\<lambda>s. s"
  by unfold_locales (auto simp: string_less_linear intro: string_less_trans)

end
