(* ===== verification/Consistency_Clean.thy ===== *)
theory Consistency_Clean
  imports Consistency_Spec Engine_Replay Engine_Store Sort_Spec
begin

text \<open>
  The report is exact on a store whose files and index are intact and which no fault disturbs:
  it has an error precisely when a listed segment holds the live last record of a key that the
  index places elsewhere, or the checkpoint is unreadable or ahead of every segment file.
\<close>

section \<open>Segments\<close>

lemma segment_quiet:
  assumes "seg_holds Log st i spans" "fs_tape st = []"
  shows "\<exists>r. OpenReader i st = (Inr r, st) \<and> hd_SegmentID (rd_Header r) = i \<and> hd_SpanCount (rd_Header r) = word_of_nat (length spans)
    \<and> rd_ScanAll r = Inr (seg_entries Log spans)"
proof -
  from assms(1) obtain sect fs where s: "buildBloomSection Log spans = Some sect" "seg_fits spans"
    "dir_get (fs_dir st) (SegmentPath i) = Some (segment_data i spans sect)" "length sect < 2 ^ 32"
    "decode_filters BloomDimensions sect = Inr fs" by (rule seg_holdsE)
  obtain r where r: "open_full (segment_data i spans sect) = Inr r" "rd_data r = segment_data i spans sect"
    "hd_SegmentID (rd_Header r) = i" "unat (hd_BloomSectionLength (rd_Header r)) = length sect"
    using open_full_data [OF s(4,5)] by blast
  have "hd_SpanCount (rd_Header r) = word_of_nat (length spans)"
    using r(1) s(4,5) by (auto simp: open_full_def segment_data_def readHeader_data readBlooms_def unat_of_nat)
  moreover have "rd_ScanAll r = Inr (seg_entries Log spans)"
    using scan_all_data [OF r(2,4) s(2)] by (simp add: seg_entries_def seg_start_def s(1))
  ultimately show ?thesis using s(3) assms(2) r by (simp add: OpenReader_def open_with_def fs_fault_nil)
qed

lemma check_segment_quiet:
  assumes "seg_holds Log st i spans" "fs_tape st = []" "map_of files i \<noteq> None"
  shows "check_segment files i st = ([], st)"
proof -
  have "length (seg_entries Log spans) = length spans" by (metis length_map map_snd_seg_entries)
  then show ?thesis using segment_quiet [OF assms(1,2)] assms(2,3)
    by (auto simp: check_segment_def scan_and_close_def fs_fault_nil)
qed

lemma check_segments_quiet:
  "fs_tape st = [] \<Longrightarrow> \<forall>i \<in> set ids. map_of files i \<noteq> None \<and> (\<exists>spans. seg_holds Log st i spans) \<Longrightarrow> check_segments files ids st = ([], st)"
  by (induction ids) (auto simp: check_segment_quiet)

lemma fold_update_dom:
  "map_of (fold (\<lambda>name files. case f name of None \<Rightarrow> files | Some i \<Rightarrow> AList.update i name files) names acc) i \<noteq> None
     \<longleftrightarrow> map_of acc i \<noteq> None \<or> (\<exists>name \<in> set names. f name = Some i)"
proof (induction names arbitrary: acc)
  case (Cons name names)
  then show ?case by (cases "f name") (auto simp: update_conv')
qed simp

lemma segment_files_quiet:
  assumes "fs_tape st = []"
  obtains files where "listSegmentFiles st = (Inr files, st)"
    "\<And>i. map_of files i \<noteq> None \<longleftrightarrow> (\<exists>name. dir_get (fs_dir st) name \<noteq> None \<and> segment_file_id name = Some i)"
proof
  let ?files = "fold (\<lambda>name files. case segment_file_id name of None \<Rightarrow> files | Some i \<Rightarrow> AList.update i name files)
      (go_sort string_less (map fst (fs_dir st))) []"
  show "listSegmentFiles st = (Inr ?files, st)" using assms by (simp add: listSegmentFiles_def fs_fault_nil)
  show "map_of ?files i \<noteq> None \<longleftrightarrow> (\<exists>name. dir_get (fs_dir st) name \<noteq> None \<and> segment_file_id name = Some i)" for i
    unfolding fold_update_dom by (auto simp: map_of_eq_None_iff Bex_def)
qed

lemma held_file: "seg_holds Log st i spans \<Longrightarrow> \<exists>name. dir_get (fs_dir st) name \<noteq> None \<and> segment_file_id name = Some i"
  using segment_file_id_path [of i] by (auto elim!: seg_holdsE intro!: exI [of _ "SegmentPath i"])

section \<open>Index entries and records\<close>

lemma check_entry_quiet:
  assumes "entry_ok Log st k loc" "fs_tape st = []"
  shows "check_entry (k, loc) st = ([], st)"
proof -
  obtain spans s where s: "seg_holds Log st (loc_SegmentID loc) spans" "(loc_Offset loc, s) \<in> set (seg_entries Log spans)" "span_key s = k"
    using assms(1) by (auto simp: entry_ok_def)
  obtain r where r: "OpenReader (loc_SegmentID loc) st = (Inr r, st)" using segment_quiet [OF s(1) assms(2)] by blast
  obtain data where data: "dir_get (fs_dir st) (SegmentPath (loc_SegmentID loc)) = Some data" "open_full data = Inr r"
    using OpenReader_file [OF r] by blast
  obtain q where q: "open_light data = Inr q" "rd_data q = rd_data r"
    using data(2) by (auto simp: open_full_def open_light_def split: sum.splits)
  have "rd_ReadAt r (loc_Offset loc) = rd_ReadAt q (loc_Offset loc)" by (simp only: rd_ReadAt_def q(2))
  then have "rd_ReadAt r (loc_Offset loc) = Inr s" using seg_read_entry [OF s(1,2)] data(1) q(1) by (simp add: seg_read_def)
  with r s(3) show ?thesis by (simp add: check_entry_def)
qed

lemma check_entries_quiet:
  "fs_tape st = [] \<Longrightarrow> \<forall>(k, loc) \<in> set entries. entry_ok Log st k loc \<Longrightarrow> check_entries entries st = ([], st)"
  by (induction entries) (auto simp: check_entry_quiet)

lemma authoritative_known: "(off, s) \<in> set recs \<Longrightarrow> map_of (authoritative recs) (span_key s) \<noteq> None"
proof -
  have "map_of (fold (\<lambda>(off, s). AList.update (CompositeKey (TraceID s) (SpanID s)) off) recs acc) k \<noteq> None
      \<longleftrightarrow> map_of acc k \<noteq> None \<or> (\<exists>(off, s) \<in> set recs. span_key s = k)" for acc k
  proof (induction recs arbitrary: acc)
    case (Cons rec recs)
    then show ?case by (cases rec) (auto simp: update_conv')
  qed simp
  then show "(off, s) \<in> set recs \<Longrightarrow> map_of (authoritative recs) (span_key s) \<noteq> None" by (force simp: authoritative_def)
qed

lemma elsewhere_iff: "elsewhere indexed i recs = [] \<longleftrightarrow> live_at_home (map_of indexed) i recs"
proof
  assume home: "live_at_home (map_of indexed) i recs"
  have "misplaced indexed i (authoritative recs) rec = []" if "rec \<in> set recs" for rec
    using home that authoritative_known [of "fst rec" "snd rec" recs]
    by (cases rec) (fastforce simp: misplaced_def live_at_home_def split: option.split)
  then show "elsewhere indexed i recs = []" by (simp add: elsewhere_def)
qed (rule elsewhere_none)

lemma check_records_quiet:
  "fs_tape st = [] \<Longrightarrow> \<forall>i \<in> set ids. \<exists>spans. seg_holds Log st i spans \<Longrightarrow>
   \<exists>rep'. check_records indexed ids rep st = (rep', st) \<and> (rep_Errors rep' = [] \<longleftrightarrow> rep_Errors rep = [] \<and>
     (\<forall>i \<in> set ids. \<forall>spans. seg_holds Log st i spans \<longrightarrow> live_at_home (map_of indexed) i (seg_entries Log spans)))"
proof (induction ids arbitrary: rep)
  case (Cons i ids)
  obtain spans where h: "seg_holds Log st i spans" using Cons.prems(2) by auto
  have only: "spans' = spans" if "seg_holds Log st i spans'" for spans' using seg_scan_holds [OF that] seg_scan_holds [OF h] by simp
  obtain r where "OpenReader i st = (Inr r, st)" "rd_ScanAll r = Inr (seg_entries Log spans)" using segment_quiet [OF h Cons.prems(1)] by blast
  then have S: "scanSegmentRecords i st = (Inr (seg_entries Log spans), st)"
    using Cons.prems(1) by (simp add: scanSegmentRecords_def scan_and_close_def fs_fault_nil)
  let ?rep = "fold (check_record indexed i (authoritative (seg_entries Log spans))) (seg_entries Log spans) rep"
  have E: "rep_Errors ?rep = [] \<longleftrightarrow> rep_Errors rep = [] \<and> live_at_home (map_of indexed) i (seg_entries Log spans)"
    unfolding check_record_fold elsewhere_def [symmetric] append_is_Nil_conv elsewhere_iff ..
  have i: "(\<forall>spans. seg_holds Log st i spans \<longrightarrow> P spans) \<longleftrightarrow> P spans" for P using only h by blast
  have "\<forall>i \<in> set ids. \<exists>spans. seg_holds Log st i spans" using Cons.prems(2) by simp
  from Cons.IH [OF Cons.prems(1) this, of ?rep] obtain rep' where "check_records indexed ids ?rep st = (rep', st)"
    "rep_Errors rep' = [] \<longleftrightarrow> rep_Errors ?rep = [] \<and>
      (\<forall>i \<in> set ids. \<forall>spans. seg_holds Log st i spans \<longrightarrow> live_at_home (map_of indexed) i (seg_entries Log spans))" by blast
  then show ?case by (intro exI [of _ rep'] conjI) (simp add: S, simp only: E i list.set ball_simps conj_assoc)
qed simp

section \<open>The report\<close>

lemma idx_scan_quiet:
  assumes "kv_store K" "idx_ok K ix" "ix_tape ix = []"
  obtains ls where "idx_ScanAll K ix = (Inr ls, ix)" "map_of ls = idx_map K ix" "distinct (map fst ls)"
proof -
  have no_io: "decode_entries es \<noteq> Inl IndexIO" for es
    by (induction es rule: decode_entries.induct) (auto simp: decodeSpanLocation_def split: sum.splits if_splits)
  obtain res ix' where I: "idx_ScanAll K ix = (res, ix')" by fastforce
  obtain db where db: "ix_db ix = Some db" using assms(2) by (auto simp: idx_ok_def)
  have f: "ix_fault ix = (None, ix)" using assms(3) by (simp add: ix_fault_def)
  have "ix' = ix" "res \<noteq> Inl IndexIO" using I db f no_io by (auto simp: idx_ScanAll_def split: sum.splits)
  with kv_store.idx_scan_law [OF assms(1,2) I] I show ?thesis by (auto intro: that)
qed

definition checkpoint_fine :: "'k engine \<Rightarrow> bool" where
  "checkpoint_fine e \<longleftrightarrow> (\<exists>c meta. checkpoint_Load (en_checkpoint e) (db_meta (en_db e)) = (Inr c, meta) \<and>
     (c = 0 \<or> (\<exists>name i. dir_get (fs_dir (db_segs (en_db e))) name \<noteq> None \<and> segment_file_id name = Some i \<and> c \<le> i)))"

lemma max_id_less: "max_id m ids < c \<longleftrightarrow> m < c \<and> (\<forall>i \<in> set ids. i < c)"
  by (induction ids arbitrary: m) (auto simp: max_id_def)

lemma CheckConsistency_exact:
  assumes K: "kv_store K" and ok: "db_ok Log K (en_db e)" "manifest_holds Log (en_db e)"
    and calm: "ix_tape (db_index (en_db e)) = []" "fs_tape (db_segs (en_db e)) = []" "fs_tape (db_meta (en_db e)) = []"
  shows "report_OK (fst (CheckConsistency K e)) \<longleftrightarrow> checkpoint_fine e \<and>
    (\<forall>ids. manifest_ids (db_manifest (en_db e)) (db_meta (en_db e)) = Inr ids \<longrightarrow> (\<forall>i \<in> set ids. \<forall>spans. seg_holds Log (db_segs (en_db e)) i spans
       \<longrightarrow> live_at_home (idx_map K (db_index (en_db e))) i (seg_entries Log spans)))"
proof -
  let ?ix = "db_index (en_db e)" and ?st = "db_segs (en_db e)" and ?meta = "db_meta (en_db e)"
  obtain ids where ids: "manifest_ids (db_manifest (en_db e)) ?meta = Inr ids" "\<forall>i \<in> set ids. \<exists>spans. seg_holds Log ?st i spans"
    using ok(2) by (auto simp: manifest_holds_def)
  have L: "manifest_Load (db_manifest (en_db e)) ?meta = (Inr ids, ?meta)" using manifest_quiet(2) [OF calm(3)] ids(1) by simp
  obtain cp meta where CP: "checkpoint_Load (en_checkpoint e) ?meta = (cp, meta)" by fastforce
  obtain files where F: "listSegmentFiles ?st = (Inr files, ?st)"
    "\<And>i. map_of files i \<noteq> None \<longleftrightarrow> (\<exists>name. dir_get (fs_dir ?st) name \<noteq> None \<and> segment_file_id name = Some i)"
    using segment_files_quiet [OF calm(2)] by blast
  have "\<forall>i \<in> set ids. map_of files i \<noteq> None \<and> (\<exists>spans. seg_holds Log ?st i spans)" using ids(2) held_file F(2) by blast
  note S = check_segments_quiet [OF calm(2) this]
  have iok: "idx_ok K ?ix" "\<And>k loc. idx_map K ?ix k = Some loc \<Longrightarrow> entry_ok Log ?st k loc" using ok(1) by (auto simp: db_ok_def entries_ok_def)
  obtain ls where I: "idx_ScanAll K ?ix = (Inr ls, ?ix)" "map_of ls = idx_map K ?ix" "distinct (map fst ls)"
    by (rule idx_scan_quiet [OF K iok(1) calm(1)])
  have E: "check_entries ls ?st = ([], ?st)"
  proof (rule check_entries_quiet [OF calm(2)])
    show "\<forall>(k, loc) \<in> set ls. entry_ok Log ?st k loc" using iok(2) I(2,3) by (metis (no_types, lifting) case_prodI2 map_of_is_SomeI)
  qed
  define rep0 where "rep0 = (case cp of Inl x \<Rightarrow> addErrors [CheckCheckpoint x] no_findings | Inr _ \<Rightarrow> no_findings)"
  obtain rep1 where R: "check_records ls ids (addErrors [] (addWarnings (unlisted ids files) (addErrors [] rep0))) ?st = (rep1, ?st)"
    "rep_Errors rep1 = [] \<longleftrightarrow> rep_Errors rep0 = [] \<and>
      (\<forall>i \<in> set ids. \<forall>spans. seg_holds Log ?st i spans \<longrightarrow> live_at_home (map_of ls) i (seg_entries Log spans))"
    using check_records_quiet [OF calm(2) ids(2), of ls "addErrors [] (addWarnings (unlisted ids files) (addErrors [] rep0))"] by auto
  define c where "c = (case cp of Inl _ \<Rightarrow> 0 | Inr c \<Rightarrow> c)"
  have C: "fst (CheckConsistency K e) = (if max_id 0 (map fst files) < c then addErrors [CheckCheckpointAhead c (max_id 0 (map fst files))] rep1 else rep1)"
    using L CP F(1) S I(1) E R(1) by (simp add: CheckConsistency_def on_meta_def check_index_def Let_def rep0_def c_def split: sum.split)
  have dom: "i \<in> set (map fst files) \<longleftrightarrow> (\<exists>name. dir_get (fs_dir ?st) name \<noteq> None \<and> segment_file_id name = Some i)" for i
    using F(2) [of i] by (simp add: map_of_eq_None_iff)
  have cf: "checkpoint_fine e \<longleftrightarrow> rep_Errors rep0 = [] \<and> \<not> max_id 0 (map fst files) < c"
  proof (cases cp)
    case (Inl x)
    then show ?thesis using CP by (auto simp: checkpoint_fine_def rep0_def)
  next
    case (Inr d)
    have "\<not> max_id 0 (map fst files) < d \<longleftrightarrow> d = 0 \<or> (\<exists>i \<in> set (map fst files). d \<le> i)"
      unfolding max_id_less by (auto simp: not_less word_neq_0_conv)
    then show ?thesis unfolding dom Bex_def using CP Inr by (auto simp: checkpoint_fine_def rep0_def c_def)
  qed
  show ?thesis using C R(2) cf ids(1) I(2) by (auto simp: report_OK_def)
qed

end
