(* ===== verification/Json_Valid.thy ===== *)
theory Json_Valid
  imports WT_Prelude
begin

text \<open>
  \<^verbatim>\<open>json.Valid\<close> of the standard library, which \<^verbatim>\<open>validate.go\<close> runs on a payload: the scanner of
  \<^verbatim>\<open>encoding/json\<close>, one transition per byte, with its stack of open objects and arrays and the
  limit on their nesting.
\<close>

section \<open>The scanner\<close>

datatype parse_state = ParseObjectKey | ParseObjectValue | ParseArrayValue

text \<open>The literal states carry what is left of the word, \<open>InStringEscU\<close> the hexadecimal digits to come.\<close>

datatype scan_state =
  BeginValue | BeginValueOrEmpty | BeginString | BeginStringOrEmpty
| InString | InStringEsc | InStringEscU nat
| Neg | Num1 | Num0 | Dot | Dot0 | NumE | NumESign | NumE0
| Literal bytes | EndValue | EndTop | ScanError

record scanner =
  sc_step :: scan_state
  sc_parse :: "parse_state list"
  sc_endTop :: bool

definition scan_reset :: scanner where
  "scan_reset = \<lparr>sc_step = BeginValue, sc_parse = [], sc_endTop = False\<rparr>"

definition maxNestingDepth :: nat where "maxNestingDepth = 10000"

abbreviation chr :: "char \<Rightarrow> byte" where "chr c \<equiv> byte_of_char c"

definition is_space :: "byte \<Rightarrow> bool" where
  "is_space c \<longleftrightarrow> c \<in> {32, 9, 13, 10}"

definition is_digit :: "byte \<Rightarrow> bool" where
  "is_digit c \<longleftrightarrow> 48 \<le> c \<and> c \<le> 57"

definition is_hex :: "byte \<Rightarrow> bool" where
  "is_hex c \<longleftrightarrow> is_digit c \<or> 97 \<le> c \<and> c \<le> 102 \<or> 65 \<le> c \<and> c \<le> 70"

abbreviation to_step :: "scan_state \<Rightarrow> scanner \<Rightarrow> scanner" where
  "to_step st s \<equiv> s\<lparr>sc_step := st\<rparr>"

abbreviation scan_error :: "scanner \<Rightarrow> scanner" where
  "scan_error s \<equiv> s\<lparr>sc_step := ScanError\<rparr>"

definition pushParseState :: "parse_state \<Rightarrow> scanner \<Rightarrow> scanner" where
  "pushParseState p s =
     (let s = s\<lparr>sc_parse := p # sc_parse s\<rparr> in if length (sc_parse s) \<le> maxNestingDepth then s else scan_error s)"

definition popParseState :: "scanner \<Rightarrow> scanner" where
  "popParseState s =
     (let s = s\<lparr>sc_parse := tl (sc_parse s)\<rparr> in
      if sc_parse s = [] then s\<lparr>sc_step := EndTop, sc_endTop := True\<rparr> else s\<lparr>sc_step := EndValue\<rparr>)"

definition stateEndTop :: "byte \<Rightarrow> scanner \<Rightarrow> scanner" where
  "stateEndTop c s = (if is_space c then s else scan_error s)"

definition stateEndValue :: "byte \<Rightarrow> scanner \<Rightarrow> scanner" where
  "stateEndValue c s =
     (case sc_parse s of
        [] \<Rightarrow> stateEndTop c (s\<lparr>sc_step := EndTop, sc_endTop := True\<rparr>)
      | p # ps \<Rightarrow>
          if is_space c then to_step EndValue s
          else case p of
            ParseObjectKey \<Rightarrow>
              if c = 58 then s\<lparr>sc_parse := ParseObjectValue # ps, sc_step := BeginValue\<rparr> else scan_error s
          | ParseObjectValue \<Rightarrow>
              if c = 44 then s\<lparr>sc_parse := ParseObjectKey # ps, sc_step := BeginString\<rparr>
              else if c = 125 then popParseState s else scan_error s
          | ParseArrayValue \<Rightarrow>
              if c = 44 then to_step BeginValue s else if c = 93 then popParseState s else scan_error s)"

definition stateBeginValue :: "byte \<Rightarrow> scanner \<Rightarrow> scanner" where
  "stateBeginValue c s =
     (if is_space c then s
      else if c = 123 then pushParseState ParseObjectKey (to_step BeginStringOrEmpty s)
      else if c = 91 then pushParseState ParseArrayValue (to_step BeginValueOrEmpty s)
      else if c = 34 then to_step InString s
      else if c = 45 then to_step Neg s
      else if c = 48 then to_step Num0 s
      else if c = 116 then to_step (Literal [114, 117, 101]) s
      else if c = 102 then to_step (Literal [97, 108, 115, 101]) s
      else if c = 110 then to_step (Literal [117, 108, 108]) s
      else if is_digit c then to_step Num1 s
      else scan_error s)"

definition stateBeginString :: "byte \<Rightarrow> scanner \<Rightarrow> scanner" where
  "stateBeginString c s = (if is_space c then s else if c = 34 then to_step InString s else scan_error s)"

definition state0 :: "byte \<Rightarrow> scanner \<Rightarrow> scanner" where
  "state0 c s = (if c = 46 then to_step Dot s else if c = 101 \<or> c = 69 then to_step NumE s else stateEndValue c s)"

definition stateESign :: "byte \<Rightarrow> scanner \<Rightarrow> scanner" where
  "stateESign c s = (if is_digit c then to_step NumE0 s else scan_error s)"

definition scan_step :: "byte \<Rightarrow> scanner \<Rightarrow> scanner" where
  "scan_step c s =
     (case sc_step s of
        BeginValueOrEmpty \<Rightarrow>
          if is_space c then s else if c = 93 then stateEndValue c s else stateBeginValue c (to_step BeginValue s)
      | BeginValue \<Rightarrow> stateBeginValue c s
      | BeginStringOrEmpty \<Rightarrow>
          if is_space c then s
          else if c = 125 then stateEndValue c (s\<lparr>sc_parse := ParseObjectValue # tl (sc_parse s)\<rparr>)
          else stateBeginString c (to_step BeginString s)
      | BeginString \<Rightarrow> stateBeginString c s
      | InString \<Rightarrow>
          if c = 34 then to_step EndValue s else if c = 92 then to_step InStringEsc s
          else if c < 32 then scan_error s else s
      | InStringEsc \<Rightarrow>
          if c \<in> {98, 102, 110, 114, 116, 92, 47, 34} then to_step InString s
          else if c = 117 then to_step (InStringEscU 4) s else scan_error s
      | InStringEscU n \<Rightarrow>
          if is_hex c then to_step (if n \<le> 1 then InString else InStringEscU (n - 1)) s else scan_error s
      | Neg \<Rightarrow> if c = 48 then to_step Num0 s else if is_digit c then to_step Num1 s else scan_error s
      | Num1 \<Rightarrow> if is_digit c then s else state0 c s
      | Num0 \<Rightarrow> state0 c s
      | Dot \<Rightarrow> if is_digit c then to_step Dot0 s else scan_error s
      | Dot0 \<Rightarrow> if is_digit c then s else if c = 101 \<or> c = 69 then to_step NumE s else stateEndValue c s
      | NumE \<Rightarrow> if c = 43 \<or> c = 45 then to_step NumESign s else stateESign c s
      | NumESign \<Rightarrow> stateESign c s
      | NumE0 \<Rightarrow> if is_digit c then s else stateEndValue c s
      | Literal w \<Rightarrow>
          (case w of [] \<Rightarrow> scan_error s
           | x # rest \<Rightarrow> if c = x then to_step (if rest = [] then EndValue else Literal rest) s else scan_error s)
      | EndValue \<Rightarrow> stateEndValue c s
      | EndTop \<Rightarrow> stateEndTop c s
      | ScanError \<Rightarrow> s)"

text \<open>The end of the input: a number at the top level ends with it.\<close>

definition scan_eof :: "scanner \<Rightarrow> bool" where
  "scan_eof s = (sc_step s \<noteq> ScanError \<and> (sc_endTop s \<or> sc_endTop (scan_step 32 s)))"

definition json_Valid :: "bytes \<Rightarrow> bool" where
  "json_Valid data = scan_eof (fold scan_step data scan_reset)"

section \<open>Running it\<close>

lemma scan_error_stuck [simp]: "sc_step s = ScanError \<Longrightarrow> fold scan_step bs s = s"
  by (induction bs) (simp_all add: scan_step_def)

lemma scan_error_step [simp]: "sc_step s = ScanError \<Longrightarrow> scan_step c s = s" "sc_step s = ScanError \<Longrightarrow> (scan_step c ^^ n) s = s"
  using scan_error_stuck [of s "[c]"] scan_error_stuck [of s "replicate n c"] by (simp, simp add: fold_replicate)

text \<open>A state in which a value has just been read, numbers included, goes on as \<open>EndValue\<close> does.\<close>

definition after_value :: "parse_state list \<Rightarrow> scanner \<Rightarrow> bool" where
  "after_value ps s \<longleftrightarrow> sc_step s \<noteq> ScanError \<and> (\<forall>c \<in> {32, 44, 58, 93, 125}.
     scan_step c s = scan_step c \<lparr>sc_step = EndValue, sc_parse = ps, sc_endTop = False\<rparr>)"

definition reads_value :: "parse_state list \<Rightarrow> bytes \<Rightarrow> bool" where
  "reads_value ps bs \<longleftrightarrow> after_value ps (fold scan_step bs \<lparr>sc_step = BeginValue, sc_parse = ps, sc_endTop = False\<rparr>)"

lemma valid_value:
  assumes "reads_value [] bs"
  shows "json_Valid bs"
proof -
  define s where "s = fold scan_step bs scan_reset"
  have s: "after_value [] s" using assms by (simp add: reads_value_def s_def scan_reset_def)
  have "scan_step 32 \<lparr>sc_step = EndValue, sc_parse = [], sc_endTop = False\<rparr> = \<lparr>sc_step = EndTop, sc_parse = [], sc_endTop = True\<rparr>"
    by (simp add: scan_step_def stateEndValue_def stateEndTop_def is_space_def)
  with s show ?thesis unfolding json_Valid_def scan_eof_def s_def [symmetric] by (auto simp: after_value_def)
qed

section \<open>The nesting limit\<close>

abbreviation arrays :: "nat \<Rightarrow> scan_state \<Rightarrow> scanner" where
  "arrays k st \<equiv> \<lparr>sc_step = st, sc_parse = replicate k ParseArrayValue, sc_endTop = False\<rparr>"

lemma open_array:
  "scan_step 91 (arrays k BeginValue) = (if k < maxNestingDepth then arrays (Suc k) BeginValueOrEmpty else arrays (Suc k) ScanError)"
  "scan_step 91 (arrays k BeginValueOrEmpty) = (if k < maxNestingDepth then arrays (Suc k) BeginValueOrEmpty else arrays (Suc k) ScanError)"
  by (simp_all add: scan_step_def stateBeginValue_def is_space_def pushParseState_def Let_def)

lemma close_array:
  "scan_step 93 (arrays (Suc k) BeginValueOrEmpty) = (if k = 0 then (arrays 0 EndTop)\<lparr>sc_endTop := True\<rparr> else arrays k EndValue)"
  "scan_step 93 (arrays (Suc k) EndValue) = (if k = 0 then (arrays 0 EndTop)\<lparr>sc_endTop := True\<rparr> else arrays k EndValue)"
  by (simp_all add: scan_step_def stateEndValue_def is_space_def popParseState_def Let_def)

lemma open_arrays:
  "k \<le> maxNestingDepth \<Longrightarrow> fold scan_step (replicate n 91) (arrays k BeginValueOrEmpty) =
     (if k + n \<le> maxNestingDepth then arrays (k + n) BeginValueOrEmpty else arrays (Suc maxNestingDepth) ScanError)"
proof (induction n arbitrary: k)
  case (Suc n)
  show ?case
  proof (cases "k < maxNestingDepth")
    case True
    with Suc.IH [of "Suc k"] show ?thesis by (simp add: open_array)
  next
    case False
    with Suc.prems have "k = maxNestingDepth" by simp
    then show ?thesis by (simp add: open_array)
  qed
qed simp

lemma close_arrays: "fold scan_step (replicate (Suc n) 93) (arrays (Suc n) EndValue) = (arrays 0 EndTop)\<lparr>sc_endTop := True\<rparr>"
proof (induction n)
  case (Suc n)
  have "replicate (Suc (Suc n)) (93 :: byte) = 93 # replicate (Suc n) 93" by simp
  with Suc show ?case by (simp only: fold_Cons comp_apply close_array) simp
qed (use close_array(2) [of 0] in simp)

text \<open>Well-formed nested arrays are accepted up to the limit only.\<close>

lemma nested_arrays: "json_Valid (replicate (Suc n) 91 @ replicate (Suc n) 93) \<longleftrightarrow> n < maxNestingDepth"
proof -
  have first: "fold scan_step (replicate (Suc n) 91) scan_reset = fold scan_step (replicate n 91) (arrays 1 BeginValueOrEmpty)"
  proof -
    have "scan_step 91 scan_reset = arrays 1 BeginValueOrEmpty" using open_array(1) [of 0] by (simp add: scan_reset_def maxNestingDepth_def)
    then show ?thesis by simp
  qed
  have 1: "1 \<le> maxNestingDepth" by (simp add: maxNestingDepth_def)
  note O = open_arrays [OF 1, of n]
  show ?thesis
  proof (cases "n < maxNestingDepth")
    case True
    then have opened: "fold scan_step (replicate (Suc n) 91) scan_reset = arrays (Suc n) BeginValueOrEmpty" using O first by simp
    have "scan_step 93 (arrays (Suc n) BeginValueOrEmpty) = scan_step 93 (arrays (Suc n) EndValue)" by (simp only: close_array)
    then have "fold scan_step (replicate (Suc n) 93) (arrays (Suc n) BeginValueOrEmpty) = (arrays 0 EndTop)\<lparr>sc_endTop := True\<rparr>"
      using close_arrays [of n] by simp
    with opened True show ?thesis unfolding json_Valid_def by (simp only: fold_append comp_apply) (simp add: scan_eof_def)
  next
    case False
    then have "fold scan_step (replicate (Suc n) 91) scan_reset = arrays (Suc maxNestingDepth) ScanError" using O first by simp
    with False show ?thesis unfolding json_Valid_def by (simp only: fold_append comp_apply) (simp add: scan_eof_def)
  qed
qed

end
