(* ===== verification/Public.thy ===== *)
theory Public
  imports Engine_Recover Engine_Aggregate Consistency Json_Valid
begin

text \<open>
  The public interface at the root of the repository, apart from its queries: the span and its
  conversion (\<^verbatim>\<open>span.go\<close>), validation (\<^verbatim>\<open>validate.go\<close>), errors, options, and the database handle
  (\<^verbatim>\<open>db.go\<close>). A moment is its nanoseconds since the Unix epoch, an unbounded integer as
  \<^verbatim>\<open>time.Time\<close> reaches far beyond \<^verbatim>\<open>int64\<close>; a duration is an \<^verbatim>\<open>int64\<close>. A context is what
  its \<^verbatim>\<open>Err\<close> answers at the moment it is asked.
\<close>

section \<open>Time\<close>

type_synonym go_time = int

definition zero_time :: go_time where "zero_time = - 62135596800 * 10 ^ 9"

definition millisecond :: i64 where "millisecond = 1000000"

text \<open>\<^verbatim>\<open>Time.UnixNano\<close> keeps the low 64 bits.\<close>

definition UnixNano :: "go_time \<Rightarrow> i64" where
  "UnixNano t = word_of_int t"

definition Unix_nano :: "i64 \<Rightarrow> go_time" where
  "Unix_nano ns = sint ns"

definition Milliseconds :: "i64 \<Rightarrow> i64" where
  "Milliseconds d = word_of_int (sint d sdiv 1000000)"

section \<open>Spans\<close>

record span =
  sp_TraceID :: string
  sp_SpanID :: string
  sp_ParentSpanID :: string
  sp_Start :: go_time
  sp_Duration :: i64
  sp_Agent :: string
  sp_Model :: string
  sp_Tool :: string
  sp_Team :: string
  sp_Status :: string
  sp_TokensIn :: i32
  sp_TokensOut :: i32
  sp_CostUSD :: f64
  sp_Payload :: bytes

definition StatusOK :: string where "StatusOK = ''ok''"
definition StatusError :: string where "StatusError = ''error''"
definition StatusUnset :: string where "StatusUnset = ''unset''"

definition toPayload :: "span \<Rightarrow> span_payload" where
  "toPayload s =
     zero_span\<lparr>TraceID := sp_TraceID s, SpanID := sp_SpanID s, ParentSpanID := sp_ParentSpanID s,
       Timestamp := UnixNano (sp_Start s), AgentID := sp_Agent s, Model := sp_Model s, ToolName := sp_Tool s,
       Team := sp_Team s, Status := sp_Status s, TokensIn := sp_TokensIn s, TokensOut := sp_TokensOut s,
       Cost := sp_CostUSD s, LatencyMs := Milliseconds (sp_Duration s), Payload := sp_Payload s\<rparr>"

definition fromPayload :: "span_payload \<Rightarrow> span" where
  "fromPayload p =
     \<lparr>sp_TraceID = TraceID p, sp_SpanID = SpanID p, sp_ParentSpanID = ParentSpanID p, sp_Start = Unix_nano (Timestamp p),
      sp_Duration = LatencyMs p * millisecond, sp_Agent = AgentID p, sp_Model = Model p, sp_Tool = ToolName p,
      sp_Team = Team p, sp_Status = Status p, sp_TokensIn = TokensIn p, sp_TokensOut = TokensOut p,
      sp_CostUSD = Cost p, sp_Payload = Payload p\<rparr>"

definition fromPayloads :: "span_payload list \<Rightarrow> span list" where
  "fromPayloads ps = map fromPayload ps"

section \<open>Validation\<close>

record validation_error =
  ve_Field :: string
  ve_Reason :: string

definition MaxDimensionLen :: nat where "MaxDimensionLen = 256"
definition MaxPayloadBytes :: nat where "MaxPayloadBytes = 64 * 1024"
definition minStart :: go_time where "minStart = 946684800 * 10 ^ 9"
definition maxStart :: go_time where "maxStart = 4102444800 * 10 ^ 9"

definition bad :: "string \<Rightarrow> string \<Rightarrow> validation_error option" where
  "bad field reason = Some \<lparr>ve_Field = field, ve_Reason = reason\<rparr>"

definition span_dimensions :: "span \<Rightarrow> (string \<times> string) list" where
  "span_dimensions s =
     [(''TraceID'', sp_TraceID s), (''SpanID'', sp_SpanID s), (''ParentSpanID'', sp_ParentSpanID s), (''Agent'', sp_Agent s),
      (''Model'', sp_Model s), (''Tool'', sp_Tool s), (''Team'', sp_Team s), (''Status'', sp_Status s)]"

definition Validate :: "span \<Rightarrow> validation_error option" where
  "Validate s =
     (if sp_TraceID s = [] then bad ''TraceID'' ''must not be empty''
      else if sp_SpanID s = [] then bad ''SpanID'' ''must not be empty''
      else case find (\<lambda>(name, v). MaxDimensionLen < length v) (span_dimensions s) of
        Some (name, _) \<Rightarrow> bad name ''longer than 256 bytes''
      | None \<Rightarrow>
          if sp_Start s = zero_time \<or> sp_Start s < minStart \<or> \<not> sp_Start s < maxStart
          then bad ''Start'' ''must be between years 2000 and 2100''
          else if sp_Duration s <s 0 then bad ''Duration'' ''must not be negative''
          else if sp_TokensIn s <s 0 \<or> sp_TokensOut s <s 0 then bad ''Tokens'' ''must not be negative''
          else if f64_lt (sp_CostUSD s) 0 \<or> f64_is_nan (sp_CostUSD s) \<or> f64_is_inf (sp_CostUSD s)
          then bad ''CostUSD'' ''must be a finite, non-negative number''
          else if MaxPayloadBytes < length (sp_Payload s) then bad ''Payload'' ''larger than 64 KiB''
          else if 0 < length (sp_Payload s) \<and> \<not> json_Valid (sp_Payload s) then bad ''Payload'' ''must be valid JSON''
          else None)"

section \<open>Errors and options\<close>

datatype ctx_error = Canceled | DeadlineExceeded

type_synonym ctx = "ctx_error option"

datatype db_error =
  ErrNotFound
| ErrInvalidCursor
| ErrClosed
| ErrEnded
| ErrCtx ctx_error
| ErrInvalidSpan validation_error
| ErrEngine engine_error
| ErrRollup rollup_error
| ErrMkdir
| ErrGroupBy
| ErrDimension int
| ErrUnsupportedWindow i64
| ErrReadRequest
| ErrTooLarge
| ErrInvalidOTLP

record options =
  op_retention :: i64
  op_flushSpans :: int
  op_cacheSize :: int
  op_readYourWrite :: bool

definition no_options :: options where
  "no_options = \<lparr>op_retention = 0, op_flushSpans = 0, op_cacheSize = 0, op_readYourWrite = False\<rparr>"

datatype option_call = WithRetention i64 | WithFlushThreshold int | WithSegmentCacheSize int | WithReadYourWrites

fun apply_option :: "option_call \<Rightarrow> options \<Rightarrow> options" where
  "apply_option (WithRetention d) o' = o'\<lparr>op_retention := d\<rparr>"
| "apply_option (WithFlushThreshold n) o' = o'\<lparr>op_flushSpans := n\<rparr>"
| "apply_option (WithSegmentCacheSize n) o' = o'\<lparr>op_cacheSize := n\<rparr>"
| "apply_option WithReadYourWrites o' = o'\<lparr>op_readYourWrite := True\<rparr>"

section \<open>Opening and closing\<close>

text \<open>The answer of the one run of \<^verbatim>\<open>closeOnce\<close> is the list of errors the engine reported.\<close>

record 'k wisp_db =
  wd_eng :: "'k engine"
  wd_ryw :: bool
  wd_closed :: bool
  wd_closeErr :: "engine_error list option"

text \<open>\<^verbatim>\<open>filepath.Join\<close> of a directory in clean form with a file name.\<close>

definition join_path :: "string \<Rightarrow> string \<Rightarrow> string" where
  "join_path dir name = (if dir = [] then name else if last dir = CHR ''/'' then dir @ name else dir @ ''/'' @ name)"

definition open_config :: "string \<Rightarrow> options \<Rightarrow> engine_config" where
  "open_config dir o' =
     (let c = DefaultWispTraceConfig\<lparr>cf_WALPath := join_path dir ''wal.log'', cf_SegmentDir := join_path dir ''segments'',
            cf_PebblePath := join_path dir ''index'', cf_CheckpointPath := join_path dir ''checkpoint.dat'',
            cf_ManifestPath := join_path dir ''manifest.dat''\<rparr>;
          c = (if 0 <s op_retention o' then c\<lparr>cf_RetentionPeriod := op_retention o'\<rparr> else c);
          c = (if 0 < op_flushSpans o' then c\<lparr>cf_SegmentFlushThreshold := op_flushSpans o'\<rparr> else c)
      in if op_cacheSize o' \<noteq> 0 then c\<lparr>cf_SegmentCacheSize := op_cacheSize o'\<rparr> else c)"

text \<open>\<open>mkdirFails\<close> is the outcome of creating the directory.\<close>

definition Open :: "(f64 \<Rightarrow> f64) \<Rightarrow> 'k kv \<Rightarrow> i64 \<Rightarrow> bool \<Rightarrow> string \<Rightarrow> option_call list \<Rightarrow> 'k disk \<Rightarrow> db_error + 'k wisp_db" where
  "Open Log K now mkdirFails dir opts d =
     (let o' = fold apply_option opts no_options in
      if mkdirFails then Inl ErrMkdir
      else case CreateWispTraceWithConfig Log K now (open_config dir o') d of
        (Inl x, _) \<Rightarrow> Inl (ErrEngine x)
      | (Inr _, e) \<Rightarrow> Inr \<lparr>wd_eng = e, wd_ryw = op_readYourWrite o', wd_closed = False, wd_closeErr = None\<rparr>)"

definition db_Close :: "(f64 \<Rightarrow> f64) \<Rightarrow> 'k kv \<Rightarrow> i64 \<Rightarrow> 'k wisp_db \<Rightarrow> engine_error list \<times> 'k wisp_db" where
  "db_Close Log K now db =
     (case wd_closeErr db of
        Some errs \<Rightarrow> (errs, db)
      | None \<Rightarrow>
          (case engine_Close Log K now (WaitForIngest Log K now (wd_eng db)) of
             (errs, e) \<Rightarrow> (errs, db\<lparr>wd_eng := e, wd_closed := True, wd_closeErr := Some errs\<rparr>)))"

definition db_check :: "ctx \<Rightarrow> 'k wisp_db \<Rightarrow> db_error option" where
  "db_check c db = (if wd_closed db then Some ErrClosed else map_option ErrCtx c)"

definition checked :: "ctx \<Rightarrow> 'k wisp_db \<Rightarrow> ((db_error + 'a) \<times> 'k wisp_db) \<Rightarrow> (db_error + 'a) \<times> 'k wisp_db" where
  "checked c db res = (case db_check c db of Some x \<Rightarrow> (Inl x, db) | None \<Rightarrow> res)"

text \<open>Running an engine operation under the handle.\<close>

definition on_engine ::
    "('k engine \<Rightarrow> (engine_error + 'a) \<times> 'k engine) \<Rightarrow> 'k wisp_db \<Rightarrow> (db_error + 'a) \<times> 'k wisp_db" where
  "on_engine f db = (case f (wd_eng db) of (r, e) \<Rightarrow> (map_sum ErrEngine id r, db\<lparr>wd_eng := e\<rparr>))"

section \<open>Writing\<close>

text \<open>
  \<open>done\<close> is the context when the \<^verbatim>\<open>select\<close> of \<^verbatim>\<open>Sync\<close> takes its branch: \<open>Some\<close> leaves the drain
  of the queue to the ingest loop.
\<close>

definition Sync :: "(f64 \<Rightarrow> f64) \<Rightarrow> 'k kv \<Rightarrow> i64 \<Rightarrow> ctx \<Rightarrow> ctx \<Rightarrow> 'k wisp_db \<Rightarrow> (db_error + unit) \<times> 'k wisp_db" where
  "Sync Log K now c finished db =
     checked c db (case finished of
       Some x \<Rightarrow> (Inl (ErrCtx x), db)
     | None \<Rightarrow> (Inr (), db\<lparr>wd_eng := WaitForIngest Log K now (wd_eng db)\<rparr>))"

text \<open>The context as \<^verbatim>\<open>Ingest\<close> asks it: at its start, and twice in \<^verbatim>\<open>Sync\<close>.\<close>

definition Ingest ::
    "(f64 \<Rightarrow> f64) \<Rightarrow> 'k kv \<Rightarrow> i64 \<Rightarrow> bool \<Rightarrow> ctx \<times> ctx \<times> ctx \<Rightarrow> span \<Rightarrow> 'k wisp_db \<Rightarrow> (db_error + unit) \<times> 'k wisp_db" where
  "Ingest Log K now pick cs s db =
     (case cs of (c, c1, c2) \<Rightarrow>
        checked c db (case Validate s of
          Some v \<Rightarrow> (Inl (ErrInvalidSpan v), db)
        | None \<Rightarrow>
            rbind (on_engine (InsertSpan pick (toPayload s)) db) (\<lambda>_ db.
              if wd_ryw db then Sync Log K now c1 c2 db else (Inr (), db))))"

record rejection =
  rj_Index :: int
  rj_Err :: db_error

record batch_result =
  br_Accepted :: int
  br_Rejected :: "rejection list"

definition no_batch :: batch_result where
  "no_batch = \<lparr>br_Accepted = 0, br_Rejected = []\<rparr>"

text \<open>The loop over the spans from position \<open>i\<close> on; \<open>cs\<close> is the context at each of them.\<close>

fun ingest_loop ::
    "bool \<Rightarrow> (nat \<Rightarrow> ctx) \<Rightarrow> nat \<Rightarrow> span list \<Rightarrow> batch_result \<Rightarrow> 'k wisp_db \<Rightarrow> (batch_result \<times> db_error option) \<times> 'k wisp_db" where
  "ingest_loop pick cs i [] res db = ((res, None), db)"
| "ingest_loop pick cs i (s # spans) res db =
     (case db_check (cs i) db of
        Some x \<Rightarrow> ((res, Some x), db)
      | None \<Rightarrow>
          (case Validate s of
             Some v \<Rightarrow>
               ingest_loop pick cs (Suc i) spans
                 (res\<lparr>br_Rejected := br_Rejected res @ [\<lparr>rj_Index = int i, rj_Err = ErrInvalidSpan v\<rparr>]\<rparr>) db
           | None \<Rightarrow>
               (case on_engine (InsertSpan pick (toPayload s)) db of
                  (Inl x, db) \<Rightarrow> ((res, Some x), db)
                | (Inr _, db) \<Rightarrow> ingest_loop pick cs (Suc i) spans (res\<lparr>br_Accepted := br_Accepted res + 1\<rparr>) db)))"

definition IngestBatch ::
    "(f64 \<Rightarrow> f64) \<Rightarrow> 'k kv \<Rightarrow> i64 \<Rightarrow> bool \<Rightarrow> (nat \<Rightarrow> ctx) \<Rightarrow> ctx \<times> ctx \<Rightarrow> span list \<Rightarrow> 'k wisp_db \<Rightarrow>
       (batch_result \<times> db_error option) \<times> 'k wisp_db" where
  "IngestBatch Log K now pick cs sync spans db =
     (case ingest_loop pick cs 0 spans no_batch db of
        ((res, Some x), db) \<Rightarrow> ((res, Some x), db)
      | ((res, None), db) \<Rightarrow>
          if wd_ryw db \<and> 0 < br_Accepted res
          then case Sync Log K now (fst sync) (snd sync) db of
                 (Inl x, db) \<Rightarrow> ((res, Some x), db)
               | (Inr _, db) \<Rightarrow> ((res, None), db)
          else ((res, None), db))"

definition db_Flush :: "(f64 \<Rightarrow> f64) \<Rightarrow> 'k kv \<Rightarrow> i64 \<Rightarrow> ctx \<Rightarrow> 'k wisp_db \<Rightarrow> (db_error + unit) \<times> 'k wisp_db" where
  "db_Flush Log K now c db = checked c db (on_engine (engine_Flush Log K now) db)"

definition db_DeleteSpan :: "bool \<Rightarrow> ctx \<Rightarrow> string \<Rightarrow> string \<Rightarrow> 'k wisp_db \<Rightarrow> (db_error + unit) \<times> 'k wisp_db" where
  "db_DeleteSpan pick c traceID spanID db =
     checked c db (if traceID = [] \<or> spanID = []
       then (Inl (ErrInvalidSpan \<lparr>ve_Field = ''TraceID/SpanID'', ve_Reason = ''must not be empty''\<rparr>), db)
       else on_engine (DeleteSpan pick traceID spanID) db)"

definition db_DeleteTrace ::
    "(f64 \<Rightarrow> f64) \<Rightarrow> 'k kv \<Rightarrow> i64 \<Rightarrow> bool \<Rightarrow> ctx \<Rightarrow> string \<Rightarrow> 'k wisp_db \<Rightarrow> (db_error + unit) \<times> 'k wisp_db" where
  "db_DeleteTrace Log K now pick c traceID db =
     checked c db (if traceID = []
       then (Inl (ErrInvalidSpan \<lparr>ve_Field = ''TraceID'', ve_Reason = ''must not be empty''\<rparr>), db)
       else on_engine (DeleteTrace Log K now pick traceID) db)"

section \<open>The consistency report\<close>

definition db_Check :: "'k kv \<Rightarrow> ctx \<Rightarrow> 'k wisp_db \<Rightarrow> (db_error + consistency_report) \<times> 'k wisp_db" where
  "db_Check K c db = checked c db (on_engine (\<lambda>e. case CheckConsistency K e of (r, e) \<Rightarrow> (Inr r, e)) db)"

end
