(* ===== verification/Public_Query.thy ===== *)
theory Public_Query
  imports Public
begin

text \<open>
  The reads of the public interface: \<^verbatim>\<open>Span\<close> and \<^verbatim>\<open>Trace\<close> of \<^verbatim>\<open>db.go\<close>, the queries of \<^verbatim>\<open>query.go\<close> and
  the bucket query of \<^verbatim>\<open>aggregates.go\<close>. A Go map result is an association list.
\<close>

section \<open>Ranges and queries\<close>

record time_range =
  tr_From :: go_time
  tr_To :: go_time

text \<open>\<open>now\<close> is the reading of the clock.\<close>

definition Last :: "go_time \<Rightarrow> i64 \<Rightarrow> time_range" where
  "Last now d = \<lparr>tr_From = now + sint (- d), tr_To = now\<rparr>"

definition Between :: "go_time \<Rightarrow> go_time \<Rightarrow> time_range" where
  "Between from' to' = \<lparr>tr_From = from', tr_To = to'\<rparr>"

definition max_i64 :: i64 where "max_i64 = 0x7FFFFFFFFFFFFFFF"

definition bounds :: "time_range \<Rightarrow> i64 \<times> i64" where
  "bounds r = (if tr_From r = zero_time then 0 else UnixNano (tr_From r), if tr_To r = zero_time then max_i64 else UnixNano (tr_To r))"

record query =
  q_Range :: time_range
  q_Agent :: string
  q_Model :: string
  q_Tool :: string
  q_Team :: string
  q_Status :: string
  q_NewestFirst :: bool
  q_Limit :: int
  q_Cursor :: string

record page =
  pg_Spans :: "span list"
  pg_NextCursor :: string

definition no_page :: page where "no_page = \<lparr>pg_Spans = [], pg_NextCursor = []\<rparr>"

definition defaultPageSize :: int where "defaultPageSize = 100"
definition maxPageSize :: int where "maxPageSize = 1000"

definition clampLimit :: "int \<Rightarrow> int" where
  "clampLimit n = (if n \<le> 0 then defaultPageSize else if maxPageSize < n then maxPageSize else n)"

definition span_less :: "bool \<Rightarrow> span \<Rightarrow> span \<Rightarrow> bool" where
  "span_less newestFirst a b =
     (if sp_Start a \<noteq> sp_Start b then (if newestFirst then sp_Start b < sp_Start a else sp_Start a < sp_Start b)
      else if sp_TraceID a \<noteq> sp_TraceID b then string_less (sp_TraceID a) (sp_TraceID b)
      else string_less (sp_SpanID a) (sp_SpanID b))"

definition sortSpans :: "span list \<Rightarrow> bool \<Rightarrow> span list" where
  "sortSpans spans newestFirst = go_sort (span_less newestFirst) spans"

definition query_filter :: "query \<Rightarrow> range_filter" where
  "query_filter q =
     \<lparr>rf_StartTS = fst (bounds (q_Range q)), rf_EndTS = snd (bounds (q_Range q)), rf_AgentID = q_Agent q, rf_Model = q_Model q,
      rf_ToolName = q_Tool q, rf_Team = q_Team q, rf_Status = q_Status q\<rparr>"

definition matching :: "'k kv \<Rightarrow> query \<Rightarrow> 'k wisp_db \<Rightarrow> (db_error + span list) \<times> 'k wisp_db" where
  "matching K q db =
     rbind (on_engine (RangeQuery K (query_filter q)) db) (\<lambda>ps db. (Inr (sortSpans (fromPayloads ps) (q_NewestFirst q)), db))"

section \<open>Point reads\<close>

definition db_Span :: "'k kv \<Rightarrow> ctx \<Rightarrow> string \<Rightarrow> string \<Rightarrow> 'k wisp_db \<Rightarrow> (db_error + span) \<times> 'k wisp_db" where
  "db_Span K c traceID spanID db =
     checked c db (rbind (on_engine (GetSpan K traceID spanID) db) (\<lambda>p db.
       case p of None \<Rightarrow> (Inl ErrNotFound, db) | Some p \<Rightarrow> (Inr (fromPayload p), db)))"

definition db_Trace :: "'k kv \<Rightarrow> ctx \<Rightarrow> string \<Rightarrow> 'k wisp_db \<Rightarrow> (db_error + span list) \<times> 'k wisp_db" where
  "db_Trace K c traceID db =
     checked c db (rbind (on_engine (GetTrace K traceID) db) (\<lambda>ps db.
       if ps = [] then (Inl ErrNotFound, db) else (Inr (sortSpans (fromPayloads ps) False), db)))"

section \<open>Pages\<close>

text \<open>The position a cursor stands for.\<close>

definition cursor_offset :: "string \<Rightarrow> nat option" where
  "cursor_offset cursor =
     (if cursor = [] then Some 0
      else case go_Atoi cursor of None \<Rightarrow> None | Some n \<Rightarrow> if n <s 0 then None else Some (unat n))"

text \<open>The sum of an offset below the number of results and a page size stays below \<open>2 ^ 63\<close>.\<close>

definition page_at :: "span list \<Rightarrow> int \<Rightarrow> nat \<Rightarrow> page" where
  "page_at spans limit offset =
     (if length spans \<le> offset then no_page
      else let stop = offset + nat limit in
        if stop < length spans
        then \<lparr>pg_Spans = take (nat limit) (drop offset spans), pg_NextCursor = decimal stop\<rparr>
        else \<lparr>pg_Spans = drop offset spans, pg_NextCursor = []\<rparr>)"

definition db_Query :: "'k kv \<Rightarrow> ctx \<Rightarrow> query \<Rightarrow> 'k wisp_db \<Rightarrow> (db_error + page) \<times> 'k wisp_db" where
  "db_Query K c q db =
     checked c db (case cursor_offset (q_Cursor q) of
       None \<Rightarrow> (Inl ErrInvalidCursor, db)
     | Some offset \<Rightarrow> rbind (matching K q db) (\<lambda>spans db. (Inr (page_at spans (clampLimit (q_Limit q)) offset), db)))"

section \<open>Traces and failures\<close>

fun trace_ids :: "int \<Rightarrow> span list \<Rightarrow> string list \<Rightarrow> string list" where
  "trace_ids limit [] ids = ids"
| "trace_ids limit (s # spans) ids =
     (if sp_TraceID s \<in> set ids then trace_ids limit spans ids
      else let ids = ids @ [sp_TraceID s] in if int (length ids) = limit then ids else trace_ids limit spans ids)"

definition db_Traces :: "'k kv \<Rightarrow> ctx \<Rightarrow> query \<Rightarrow> 'k wisp_db \<Rightarrow> (db_error + string list) \<times> 'k wisp_db" where
  "db_Traces K c q db =
     checked c db (rbind (matching K q db) (\<lambda>spans db. (Inr (trace_ids (clampLimit (q_Limit q)) spans []), db)))"

definition isFailure :: "string \<Rightarrow> bool" where
  "isFailure st = (ToLower st \<notin> {[], ''ok'', ''success'', ''unset''})"

fun take_failed :: "int \<Rightarrow> span list \<Rightarrow> span list \<Rightarrow> span list" where
  "take_failed limit [] failed = failed"
| "take_failed limit (s # spans) failed =
     (if isFailure (sp_Status s)
      then let failed = failed @ [s] in if int (length failed) = limit then failed else take_failed limit spans failed
      else take_failed limit spans failed)"

definition range_query :: "time_range \<Rightarrow> query" where
  "range_query r = \<lparr>q_Range = r, q_Agent = [], q_Model = [], q_Tool = [], q_Team = [], q_Status = [], q_NewestFirst = True,
     q_Limit = 0, q_Cursor = []\<rparr>"

definition db_FailedSpans :: "'k kv \<Rightarrow> ctx \<Rightarrow> time_range \<Rightarrow> int \<Rightarrow> 'k wisp_db \<Rightarrow> (db_error + span list) \<times> 'k wisp_db" where
  "db_FailedSpans K c r limit db =
     checked c db (rbind (matching K (range_query r) db) (\<lambda>spans db. (Inr (take_failed (clampLimit limit) spans []), db)))"

section \<open>Scanning aggregates\<close>

text \<open>A \<^verbatim>\<open>GroupBy\<close> or \<^verbatim>\<open>Dimension\<close> is any integer; the named ones are 0, 1 and 2.\<close>

definition ByModel :: int where "ByModel = 0"
definition ByTeam :: int where "ByTeam = 1"
definition DimModel :: int where "DimModel = 0"
definition DimTeam :: int where "DimTeam = 1"
definition DimAgent :: int where "DimAgent = 2"

definition Costs :: "'k kv \<Rightarrow> ctx \<Rightarrow> int \<Rightarrow> time_range \<Rightarrow> 'k wisp_db \<Rightarrow> (db_error + (string \<times> f64) list) \<times> 'k wisp_db" where
  "Costs K c by' r db =
     checked c db (case bounds r of (start, stop) \<Rightarrow>
       if by' = ByModel then on_engine (GetCostByModel K start stop) db
       else if by' = ByTeam then on_engine (GetCostByTeam K start stop) db
       else (Inl ErrGroupBy, db))"

definition TokensByModel :: "'k kv \<Rightarrow> ctx \<Rightarrow> time_range \<Rightarrow> 'k wisp_db \<Rightarrow> (db_error + (string \<times> token_stats) list) \<times> 'k wisp_db" where
  "TokensByModel K c r db =
     checked c db (case bounds r of (start, stop) \<Rightarrow> on_engine (GetTokensByModel K start stop) db)"

definition ErrorRate :: "'k kv \<Rightarrow> ctx \<Rightarrow> string \<Rightarrow> time_range \<Rightarrow> 'k wisp_db \<Rightarrow> (db_error + f64) \<times> 'k wisp_db" where
  "ErrorRate K c m r db =
     checked c db (case bounds r of (start, stop) \<Rightarrow>
       rbind (on_engine (GetErrorRate K m start stop) db) (\<lambda>pct db. (Inr (f64_div pct f64_100), db)))"

definition cost_less :: "string \<times> f64 \<Rightarrow> string \<times> f64 \<Rightarrow> bool" where
  "cost_less a b = (if \<not> f64_eq (snd a) (snd b) then f64_lt (snd b) (snd a) else string_less (fst a) (fst b))"

definition cut :: "int \<Rightarrow> 'a list \<Rightarrow> 'a list" where
  "cut n out = take (nat (clampLimit n)) out"

definition TopTeamsByCost :: "'k kv \<Rightarrow> ctx \<Rightarrow> int \<Rightarrow> time_range \<Rightarrow> 'k wisp_db \<Rightarrow> (db_error + (string \<times> f64) list) \<times> 'k wisp_db" where
  "TopTeamsByCost K c n r db =
     checked c db (case bounds r of (start, stop) \<Rightarrow>
       rbind (on_engine (GetTopTeamsByCost K 0 start stop) db) (\<lambda>rows db. (Inr (cut n (go_sort cost_less rows)), db)))"

definition count_less :: "string \<times> i64 \<Rightarrow> string \<times> i64 \<Rightarrow> bool" where
  "count_less a b = (if snd a \<noteq> snd b then snd b <s snd a else string_less (fst a) (fst b))"

definition TopModelsBySpanCount :: "'k kv \<Rightarrow> ctx \<Rightarrow> int \<Rightarrow> time_range \<Rightarrow> 'k wisp_db \<Rightarrow> (db_error + (string \<times> i64) list) \<times> 'k wisp_db" where
  "TopModelsBySpanCount K c n r db =
     checked c db (case bounds r of (start, stop) \<Rightarrow>
       rbind (on_engine (GetTopModelsBySpanCount K 0 start stop) db) (\<lambda>rows db. (Inr (cut n (go_sort count_less rows)), db)))"

definition Distinct :: "'k kv \<Rightarrow> ctx \<Rightarrow> int \<Rightarrow> time_range \<Rightarrow> int \<Rightarrow> 'k wisp_db \<Rightarrow> (db_error + string list) \<times> 'k wisp_db" where
  "Distinct K c dim r limit db =
     checked c db (
       let limit = (if limit \<le> 0 then 1000 else limit);
           limit = (if MaxCardinalityPerQuery < limit then MaxCardinalityPerQuery else limit)
       in case bounds r of (start, stop) \<Rightarrow>
         if dim = DimModel then on_engine (GetDistinctModels K start stop limit) db
         else if dim = DimTeam then on_engine (GetDistinctTeams K start stop limit) db
         else if dim = DimAgent then on_engine (GetDistinctAgents K start stop limit) db
         else (Inl (ErrDimension dim), db))"

section \<open>Buckets\<close>

record bucket =
  bk_Start :: go_time
  bk_Window :: i64
  bk_Model :: string
  bk_Spans :: i64
  bk_CostUSD :: f64
  bk_TokensIn :: i64
  bk_TokensOut :: i64
  bk_LatencyAvg :: i64
  bk_LatencyMin :: i64
  bk_LatencyMax :: i64

definition engineName :: "i64 \<Rightarrow> string option" where
  "engineName w =
     (if w = WindowSizeMinute then Some WindowMinute
      else if w = WindowSizeFiveMin then Some WindowFiveMin
      else if w = WindowSizeHour then Some WindowHour
      else if w = WindowSizeDay then Some WindowDay
      else None)"

definition to_bucket :: "i64 \<Rightarrow> bucket_key \<times> bucket_value \<Rightarrow> bucket" where
  "to_bucket w kv =
     (case kv of (key, v) \<Rightarrow>
        \<lparr>bk_Start = Unix_nano (WindowStart key), bk_Window = w, bk_Model = BucketModel key, bk_Spans = Count v,
         bk_CostUSD = UnscaleCost (SumCost v), bk_TokensIn = SumTokensIn v, bk_TokensOut = SumTokensOut v,
         bk_LatencyAvg = (if 0 <s Count v then word_of_int (sint (SumLatencyMs v) sdiv sint (Count v)) * millisecond else 0),
         bk_LatencyMin = MinLatencyMs v * millisecond, bk_LatencyMax = MaxLatencyMs v * millisecond\<rparr>)"

definition bucket_less :: "bucket \<Rightarrow> bucket \<Rightarrow> bool" where
  "bucket_less a b = (if bk_Start a \<noteq> bk_Start b then bk_Start a < bk_Start b else string_less (bk_Model a) (bk_Model b))"

definition Aggregates :: "ctx \<Rightarrow> i64 \<Rightarrow> time_range \<Rightarrow> 'k wisp_db \<Rightarrow> (db_error + bucket list) \<times> 'k wisp_db" where
  "Aggregates c w r db =
     checked c db (case engineName w of
       None \<Rightarrow> (Inl (ErrUnsupportedWindow w), db)
     | Some name \<Rightarrow>
         (case bounds r of (start, stop) \<Rightarrow>
            case QueryAggregations name start stop (wd_eng db) of
              Inl x \<Rightarrow> (Inl (ErrRollup x), db)
            | Inr m \<Rightarrow> (Inr (go_sort bucket_less (map (to_bucket w) m)), db)))"

end
