(* ===== verification/Public_Spec.thy ===== *)
theory Public_Spec
  imports Public_Query Engine_Calm Engine_Read Wal_Spec Sort_Spec
begin

text \<open>
  What the public interface promises: a validated span fits every format below it and comes back
  as it was stored, an ingested span is read back, and the pages of a query are its sorted
  answer, each span once.
\<close>

section \<open>Validated spans\<close>

lemma ValidateD:
  assumes "Validate s = None"
  shows "sp_TraceID s \<noteq> []" "sp_SpanID s \<noteq> []" "\<forall>(n, v) \<in> set (span_dimensions s). length v \<le> MaxDimensionLen"
    "minStart \<le> sp_Start s" "sp_Start s < maxStart" "0 \<le>s sp_Duration s" "length (sp_Payload s) \<le> MaxPayloadBytes"
    "sp_Payload s = [] \<or> json_Valid (sp_Payload s)"
proof -
  have "find (\<lambda>(name, v). MaxDimensionLen < length v) (span_dimensions s) = None"
    using assms by (auto simp: Validate_def bad_def split: option.splits if_splits)
  then show "\<forall>(n, v) \<in> set (span_dimensions s). length v \<le> MaxDimensionLen" by (fastforce simp: find_None_iff not_less)
  from assms show "sp_TraceID s \<noteq> []" "sp_SpanID s \<noteq> []" "minStart \<le> sp_Start s" "sp_Start s < maxStart" "0 \<le>s sp_Duration s"
    "length (sp_Payload s) \<le> MaxPayloadBytes" "sp_Payload s = [] \<or> json_Valid (sp_Payload s)"
    by (auto simp: Validate_def bad_def word_sless_alt word_sle_eq split: option.splits if_splits)
qed

text \<open>Its times are in the range of \<^verbatim>\<open>int64\<close>, so nothing but the rounding of the duration is lost.\<close>

lemma UnixNano_exact: "- (2 ^ 63) \<le> t \<Longrightarrow> t < 2 ^ 63 \<Longrightarrow> sint (UnixNano t) = t"
  by (simp add: UnixNano_def signed_of_int signed_take_bit_int_eq_self)

lemma whole_millis:
  assumes "0 \<le>s d"
  shows "Milliseconds d * millisecond = word_of_int (sint d div 1000000 * 1000000)"
proof -
  have "0 \<le> sint d" using assms by (simp add: word_sle_eq)
  then show ?thesis by (simp add: Milliseconds_def millisecond_def signed_divide_int_def sgn_if)
qed

lemma toPayload_fields [simp]:
  "TraceID (toPayload s) = sp_TraceID s" "SpanID (toPayload s) = sp_SpanID s" "\<not> Deleted (toPayload s)"
  "Timestamp (toPayload s) = UnixNano (sp_Start s)" "Payload (toPayload s) = sp_Payload s"
  by (simp_all add: toPayload_def zero_span_def)

definition whole_duration :: "span \<Rightarrow> span" where
  "whole_duration s = s\<lparr>sp_Duration := word_of_int (sint (sp_Duration s) div 1000000 * 1000000)\<rparr>"

lemma from_to_payload:
  assumes "Validate s = None"
  shows "fromPayload (toPayload s) = whole_duration s"
proof -
  note V = ValidateD [OF assms]
  have "sint (UnixNano (sp_Start s)) = sp_Start s"
    using V(4,5) by (intro UnixNano_exact) (simp_all add: minStart_def maxStart_def)
  then show ?thesis
    by (simp add: fromPayload_def toPayload_def whole_duration_def Unix_nano_def whole_millis [OF V(6)])
qed

lemma toPayload_strings: "string_fields (toPayload s) =
  [sp_TraceID s, sp_SpanID s, sp_ParentSpanID s, sp_Agent s, sp_Model s, sp_Tool s, sp_Team s, sp_Status s]"
  by (simp add: string_fields_def toPayload_def)

lemma validated_fits:
  assumes "Validate s = None"
  shows "span_fits (toPayload s)" "payload_encoded_size (toPayload s) < 2 ^ 17"
proof -
  note V = ValidateD [OF assms]
  have len: "\<forall>f \<in> set (string_fields (toPayload s)). length f \<le> 256"
    using V(3) by (auto simp: toPayload_strings span_dimensions_def MaxDimensionLen_def)
  have pay: "length (Payload (toPayload s)) \<le> 65536" using V(7) by (simp add: MaxPayloadBytes_def)
  show "span_fits (toPayload s)" using len pay by (auto simp: span_fits_def)
  have "sum_list (map (\<lambda>f. strLenSize + length f) (string_fields (toPayload s))) \<le> 8 * (strLenSize + 256)"
    using len by (simp add: toPayload_strings)
  with pay show "payload_encoded_size (toPayload s) < 2 ^ 17"
    by (simp add: payload_encoded_size_def wal_consts)
qed

lemma validated_accepts:
  assumes "Validate s = None"
  shows "accepts \<lparr>Version = 0, Span = toPayload s\<rparr>" "seg_fits [toPayload s]"
  using validated_fits [OF assms] by (simp_all add: accepts_def good_record_def stamped_def CurrentWALVersion_def maxRecordSize_def)

section \<open>Reading your writes\<close>

text \<open>Room for one more span: an insertion succeeds and leaves the engine able to drain its queue.\<close>

definition insert_room :: "(f64 \<Rightarrow> f64) \<Rightarrow> 'k engine \<Rightarrow> bool" where
  "insert_room Log e \<longleftrightarrow> \<not> en_closed e \<and> sizing_upto Log (stored_spans (en_db e) + Suc (length (queue e)))"

lemma insert_calm:
  assumes ready: "flush_ready Log K (Suc n) e" and room: "insert_room Log e"
    and p: "accepts \<lparr>Version = 0, Span = p\<rparr>" "seg_fits [p]" "sep_free (TraceID p)"
  shows "\<exists>e'. InsertSpan pick p e = (Inr (), e') \<and> flush_ready Log K n e' \<and> length (en_chan e') = Suc (length (en_chan e))"
proof -
  have w: "quiet (en_wal e)" "unat (wal_segmentID (en_wal e)) + Suc n < 2 ^ 64" using ready by (simp_all add: flush_ready_def calm_def)
  have max: "wal_segmentID (en_wal e) \<noteq> - 1"
  proof
    assume "wal_segmentID (en_wal e) = - 1"
    with w(2) show False by (simp add: unsigned_minus_1_eq_mask mask_eq_exp_minus_1)
  qed
  obtain i w' where A: "AppendRecordWithSeg \<lparr>Version = 0, Span = p\<rparr> (en_wal e) = (Inr i, w')" "quiet w'"
    using append_quiet [OF w(1) max p(1)] by blast
  from append_ok [OF _ max p(1) A(1)] w(1) have seg: "wal_segmentID w' = wal_segmentID (en_wal e) \<or> wal_segmentID w' = wal_segmentID (en_wal e) + 1"
    by (auto simp: quiet_def)
  have "unat (wal_segmentID w') \<le> Suc (unat (wal_segmentID (en_wal e)))"
    using seg max by (auto simp: unat_word_ariths intro: le_trans [OF mod_less_eq_dividend])
  then have bound: "unat (wal_segmentID w') + n < 2 ^ 64" using w(2) by simp
  let ?e = "e\<lparr>en_wal := w', en_pending := AList.update i (pending_count (en_pending e) i + 1) (en_pending e),
      en_chan := en_chan e @ [\<lparr>ps_span = p, ps_walSeg = i\<rparr>]\<rparr>"
  have ins: "InsertSpan pick p e = (Inr (), ?e)"
    using A room by (simp add: InsertSpan_def appendTracked_def on_wal_def insert_room_def)
  have q: "queue ?e = queue e @ [\<lparr>ps_span = p, ps_walSeg = i\<rparr>]" by (simp add: queue_def session_spans_def)
  have "store_ok Log K ?e" "calm ?e" using ready A(2) by (simp_all add: flush_ready_def store_ok_def calm_def)
  moreover have "sessions_ok ?e" using content_insert(4) [OF ins] ready p(3) by (simp add: flush_ready_def)
  moreover have "seg_fits (map ps_span (queue ?e))" using ready p(2) unfolding q by (auto simp: flush_ready_def seg_fits_def)
  moreover have "room Log (length (queue ?e)) (2 * n) ?e" using ready room unfolding q by (simp add: flush_ready_def room_def insert_room_def)
  ultimately have "flush_ready Log K n ?e" using bound by (simp add: flush_ready_def)
  with ins show ?thesis by (intro exI [of _ ?e]) simp
qed

text \<open>An ingested span, once synchronised, is what the point read returns.\<close>

lemma ingest_then_read:
  assumes K: "kv_store K" and s: "Validate s = None" "sep_free (sp_TraceID s)"
    and db: "\<not> wd_closed db" "wd_ryw db" "flush_ready Log K (length (en_chan (wd_eng db)) + 2) (wd_eng db)" "insert_room Log (wd_eng db)"
  shows "\<exists>db' db''. Ingest Log K now pick (None, None, None) s db = (Inr (), db')
    \<and> db_Span K None (sp_TraceID s) (sp_SpanID s) db' = (Inr (whole_duration s), db'')"
proof -
  let ?n = "length (en_chan (wd_eng db))"
  have "flush_ready Log K (Suc (Suc ?n)) (wd_eng db)" using db(3) by simp
  from insert_calm [OF this db(4) validated_accepts [OF s(1)], of pick] s(2)
  obtain e where e: "InsertSpan pick (toPayload s) (wd_eng db) = (Inr (), e)" "flush_ready Log K (Suc ?n) e" "length (en_chan e) = Suc ?n"
    by auto
  define e1 where "e1 = WaitForIngest Log K now e"
  have D: "flush_ready Log K 0 e1" "content K e1 = content K e" "en_chan e1 = []"
    using drain_calm [OF K, of Log "Suc ?n" 0 e now] e(2,3) by (simp_all add: WaitForIngest_def e1_def)
  have "content K e = apply_span (toPayload s) (content K (wd_eng db))" by (rule content_insert(1) [OF e(1)])
  then have "visible K e1 (span_key (toPayload s)) = Some (toPayload s)"
    using D(2,3) content_visible [of K e1] by (simp add: apply_span_def apply_spans_def)
  then have vis: "visible K e1 (CompositeKey (sp_TraceID s) (sp_SpanID s)) = Some (toPayload s)" by simp
  have ok: "db_ok Log K (en_db e1)" "sessions_ok e1" "fs_tape (db_segs (en_db e1)) = []" "ix_tape (db_index (en_db e1)) = []"
    using D(1) by (simp_all add: flush_ready_def store_ok_def calm_def)
  obtain res e2 where G: "GetSpan K (sp_TraceID s) (sp_SpanID s) e1 = (res, e2)" by fastforce
  from GetSpan_visible [OF K ok(1,2) s(2) G] ok(3,4) vis have "res = Inr (Some (toPayload s))" by simp
  then have "db_Span K None (sp_TraceID s) (sp_SpanID s) (db\<lparr>wd_eng := e1\<rparr>) = (Inr (whole_duration s), db\<lparr>wd_eng := e2\<rparr>)"
    using G db(1) from_to_payload [OF s(1)] by (simp add: db_Span_def checked_def db_check_def on_engine_def)
  moreover have "Ingest Log K now pick (None, None, None) s db = (Inr (), db\<lparr>wd_eng := e1\<rparr>)"
    using e(1) db(1,2) s(1) by (simp add: Ingest_def checked_def db_check_def on_engine_def Sync_def e1_def)
  ultimately show ?thesis by blast
qed

section \<open>Sorted answers\<close>

interpretation spans: go_order "span_less newest" "\<lambda>s. (sp_TraceID s, sp_SpanID s)" for newest
proof (unfold_locales, goal_cases irrefl trans total)
  case (irrefl x)
  show ?case by (simp add: span_less_def)
next
  case (trans x y z)
  then show ?case using string_less_irrefl string_less_trans by (fastforce simp: span_less_def split: if_splits)
next
  case (total x y)
  then show ?case using string_less_linear by (auto simp: span_less_def)
qed

text \<open>A query without faults changes nothing and orders the answer of the range query.\<close>

lemma RangeQuery_calm:
  assumes K: "kv_store K" and ok: "idx_ok K (db_index (en_db e))" "ix_tape (db_index (en_db e)) = []" "manifest_holds Log (en_db e)"
    and calm: "fs_tape (db_segs (en_db e)) = []" "fs_tape (db_meta (en_db e)) = []" and R: "RangeQuery K f e = (res, e')"
  shows "e' = e"
proof -
  obtain ids where ids: "manifest_ids (db_manifest (en_db e)) (db_meta (en_db e)) = Inr ids"
    "\<forall>i \<in> set ids. \<exists>spans. seg_holds Log (db_segs (en_db e)) i spans" using ok(3) by (auto simp: manifest_holds_def)
  have L: "manifest_Load (db_manifest (en_db e)) (db_meta (en_db e)) = (Inr ids, db_meta (en_db e))"
    using manifest_quiet(2) [OF calm(2)] ids(1) by simp
  obtain r2 e2 where S: "range_segments K f (bufferedSpansByKey [] e) ids [] e = (r2, e2)" by fastforce
  have "reread e e2" using range_segments_holds [OF K ok(1,2) ids(2) S] by blast
  then obtain segs where segs: "e2 = e\<lparr>en_db := (en_db e)\<lparr>db_segs := segs\<rparr>\<rparr>" "fs_dir segs = fs_dir (db_segs (en_db e))" "fs_tape segs = []"
    using calm(1) by (auto simp: reread_def)
  then have "segs = db_segs (en_db e)" using calm(1) by simp
  with segs(1) have "e2 = e" by simp
  with R L S show ?thesis by (cases r2) (auto simp: RangeQuery_def on_meta_def Let_def)
qed

lemma matching_sorted:
  assumes "RangeQuery K (query_filter q) (wd_eng db) = (Inr ps, wd_eng db)" "distinct (map span_key ps)"
  shows "matching K q db = (Inr (sortSpans (fromPayloads ps) (q_NewestFirst q)), db)"
    "sorted_wrt (span_less (q_NewestFirst q)) (sortSpans (fromPayloads ps) (q_NewestFirst q))"
    "set (sortSpans (fromPayloads ps) (q_NewestFirst q)) = fromPayload ` set ps" "length (sortSpans (fromPayloads ps) (q_NewestFirst q)) = length ps"
proof -
  have "distinct (map ((\<lambda>(t, s). CompositeKey t s) \<circ> (\<lambda>s. (sp_TraceID s, sp_SpanID s))) (fromPayloads ps))"
    using assms(2) by (simp add: fromPayloads_def comp_def fromPayload_def)
  then have "distinct (map (\<lambda>s. (sp_TraceID s, sp_SpanID s)) (fromPayloads ps))" by (simp only: map_map [symmetric] distinct_map)
  then show "sorted_wrt (span_less (q_NewestFirst q)) (sortSpans (fromPayloads ps) (q_NewestFirst q))"
    unfolding sortSpans_def by (rule spans.sort_sorted)
  show "matching K q db = (Inr (sortSpans (fromPayloads ps) (q_NewestFirst q)), db)"
    using assms(1) by (simp add: matching_def on_engine_def)
  show "set (sortSpans (fromPayloads ps) (q_NewestFirst q)) = fromPayload ` set ps"
    "length (sortSpans (fromPayloads ps) (q_NewestFirst q)) = length ps" by (simp_all add: sortSpans_def fromPayloads_def)
qed

section \<open>Pages\<close>

text \<open>A client that follows the cursors until there is none; \<open>None\<close> is an error or the end of the fuel.\<close>

fun read_all :: "nat \<Rightarrow> 'k kv \<Rightarrow> query \<Rightarrow> 'k wisp_db \<Rightarrow> span list option" where
  "read_all 0 K q db = None"
| "read_all (Suc n) K q db =
     (case db_Query K None q db of
        (Inl _, _) \<Rightarrow> None
      | (Inr pg, db) \<Rightarrow>
          if pg_NextCursor pg = [] then Some (pg_Spans pg)
          else map_option ((@) (pg_Spans pg)) (read_all n K (q\<lparr>q_Cursor := pg_NextCursor pg\<rparr>) db))"

lemma decimal_digits: "c \<in> set (decimal n) \<Longrightarrow> digit_val c \<noteq> None"
proof (induction n rule: decimal.induct)
  case (1 n)
  then show ?case by (subst (asm) (2) decimal.simps) (auto split: if_splits)
qed

lemma cursor_decimal:
  assumes "n < 2 ^ 63"
  shows "cursor_offset (decimal n) = Some n"
proof -
  have "hd (decimal n) \<in> set (decimal n)" by simp
  then have "digit_val (hd (decimal n)) \<noteq> None" by (rule decimal_digits)
  then have sign: "hd (decimal n) \<noteq> CHR ''-''" "hd (decimal n) \<noteq> CHR ''+''" by (auto simp: digit_val_def Let_def)
  have u: "unat (word_of_nat n :: i64) = n" using assms by (simp add: u64_of_nat)
  have "sint (word_of_nat n :: i64) = int n" using sint_small [of "word_of_nat n"] assms by (simp add: u)
  then have "\<not> (word_of_nat n :: i64) <s 0" by (simp add: word_sless_alt)
  with sign assms u show ?thesis by (simp add: cursor_offset_def go_Atoi_def Let_def parse_digits_decimal)
qed

lemma clampLimit_pos: "0 < nat (clampLimit n)"
  by (simp add: clampLimit_def defaultPageSize_def maxPageSize_def)

lemma read_all_from:
  assumes db: "\<not> wd_closed db" and M: "\<And>c. matching K (q\<lparr>q_Cursor := c\<rparr>) db = (Inr spans, db)" and len: "length spans < 2 ^ 63"
  shows "cursor_offset c = Some off \<Longrightarrow> length spans - off \<le> n * nat (clampLimit (q_Limit q)) \<Longrightarrow>
    read_all (Suc n) K (q\<lparr>q_Cursor := c\<rparr>) db = Some (drop off spans)"
proof (induction n arbitrary: c off)
  case 0
  then show ?case by (simp add: db_Query_def checked_def db_check_def db M page_at_def no_page_def)
next
  case (Suc n)
  let ?L = "nat (clampLimit (q_Limit q))"
  have Q: "db_Query K None (q\<lparr>q_Cursor := c\<rparr>) db = (Inr (page_at spans (clampLimit (q_Limit q)) off), db)"
    using Suc.prems(1) by (simp add: db_Query_def checked_def db_check_def db M)
  show ?case
  proof (cases "off < length spans \<and> off + ?L < length spans")
    case True
    then have pg: "page_at spans (clampLimit (q_Limit q)) off = \<lparr>pg_Spans = take ?L (drop off spans), pg_NextCursor = decimal (off + ?L)\<rparr>"
      by (simp add: page_at_def Let_def)
    have "read_all (Suc n) K (q\<lparr>q_Cursor := decimal (off + ?L)\<rparr>) db = Some (drop (off + ?L) spans)"
      by (rule Suc.IH) (use True len Suc.prems(2) in \<open>auto intro: cursor_decimal\<close>)
    moreover have "take ?L (drop off spans) @ drop (off + ?L) spans = drop off spans"
      by (metis add.commute append_take_drop_id drop_drop)
    ultimately show ?thesis by (simp only: read_all.simps(2) [of "Suc n"] Q pg prod.case sum.case page.simps) simp
  next
    case False
    then have "page_at spans (clampLimit (q_Limit q)) off = \<lparr>pg_Spans = drop off spans, pg_NextCursor = []\<rparr>"
      by (auto simp: page_at_def Let_def no_page_def)
    then show ?thesis by (simp only: read_all.simps(2) [of "Suc n"] Q prod.case sum.case page.simps) simp
  qed
qed

lemma pages_complete:
  assumes R: "RangeQuery K (query_filter q) (wd_eng db) = (Inr ps, wd_eng db)" and db: "\<not> wd_closed db" "q_Cursor q = []"
    and ps: "distinct (map span_key ps)" "length ps < 2 ^ 63" "length ps \<le> n"
  shows "read_all (Suc n) K q db = Some (sortSpans (fromPayloads ps) (q_NewestFirst q))"
proof -
  let ?spans = "sortSpans (fromPayloads ps) (q_NewestFirst q)"
  have M: "matching K (q\<lparr>q_Cursor := c\<rparr>) db = (Inr ?spans, db)" for c
    using matching_sorted(1) [of K "q\<lparr>q_Cursor := c\<rparr>" db ps] R ps(1) by (simp add: query_filter_def)
  have "n * 1 \<le> n * nat (clampLimit (q_Limit q))" using clampLimit_pos [of "q_Limit q"] by (intro mult_le_mono2) simp
  then have n: "length ?spans - 0 \<le> n * nat (clampLimit (q_Limit q))" using ps(3) matching_sorted(4) [OF R ps(1)] by linarith
  have "read_all (Suc n) K (q\<lparr>q_Cursor := []\<rparr>) db = Some (drop 0 ?spans)"
    by (rule read_all_from [OF db(1) M _ _ n]) (use ps(2) matching_sorted(4) [OF R ps(1)] in \<open>simp_all add: cursor_offset_def\<close>)
  moreover have "q\<lparr>q_Cursor := []\<rparr> = q" using db(2) by simp
  ultimately show ?thesis by (simp only: drop0)
qed

text \<open>An upper bound that \<^verbatim>\<open>UnixNano\<close> cannot represent wraps to before the epoch and nothing matches.\<close>

lemma far_bound:
  assumes "2 ^ 63 \<le> t" "t < 2 ^ 64"
  shows "sint (UnixNano t) < 0"
proof -
  have "word_of_int t = (word_of_int (t - 2 ^ 64) :: i64)" by (simp add: word_of_int_eq_iff take_bit_eq_mod)
  moreover have "sint (UnixNano (t - 2 ^ 64)) = t - 2 ^ 64" using assms by (intro UnixNano_exact) simp_all
  ultimately have "sint (UnixNano t) = t - 2 ^ 64" unfolding UnixNano_def by (simp only:)
  with assms(2) show ?thesis by simp
qed

lemma far_range_matches_nothing:
  assumes "tr_From (q_Range q) = zero_time" "2 ^ 63 \<le> tr_To (q_Range q)" "tr_To (q_Range q) < 2 ^ 64"
  shows "\<not> filter_matches (query_filter q) s"
proof -
  have "tr_To (q_Range q) \<noteq> zero_time" using assms(2) by (simp add: zero_time_def)
  then have "rf_StartTS (query_filter q) = 0" "rf_EndTS (query_filter q) = UnixNano (tr_To (q_Range q))"
    using assms(1) by (simp_all add: query_filter_def bounds_def)
  then show ?thesis using far_bound [OF assms(2,3)] by (auto simp: filter_matches_def sless_iff)
qed

section \<open>Batches\<close>

definition accepted_spans :: "span list \<Rightarrow> span list" where
  "accepted_spans spans = filter (\<lambda>s. Validate s = None) spans"

fun rejections :: "nat \<Rightarrow> span list \<Rightarrow> rejection list" where
  "rejections i [] = []"
| "rejections i (s # spans) =
     (case Validate s of None \<Rightarrow> [] | Some v \<Rightarrow> [\<lparr>rj_Index = int i, rj_Err = ErrInvalidSpan v\<rparr>]) @ rejections (Suc i) spans"

lemma failed_insert: "InsertSpan pick p e = (Inl x, e') \<Longrightarrow> content K e' = content K e"
  by (auto simp: InsertSpan_def appendTracked_def on_wal_def rbind_def content_def queue_def session_spans_def
      split: prod.splits sum.splits if_splits)

lemma apply_spans_Cons: "apply_spans (p # ps) m = apply_spans ps (apply_span p m)"
  by (simp add: apply_spans_def)

text \<open>The loop accounts for a prefix of the batch, all of it unless it reports an error.\<close>

lemma ingest_loop_prefix:
  "ingest_loop pick cs i spans res db = ((res', err), db') \<Longrightarrow> \<exists>n. n \<le> length spans \<and> (err = None \<longrightarrow> n = length spans)
     \<and> br_Accepted res' = br_Accepted res + int (length (accepted_spans (take n spans)))
     \<and> br_Rejected res' = br_Rejected res @ rejections i (take n spans)
     \<and> content K (wd_eng db') = apply_spans (map toPayload (accepted_spans (take n spans))) (content K (wd_eng db))"
proof (induction pick cs i spans res db rule: ingest_loop.induct)
  case (1 pick cs i res db)
  then show ?case by (simp add: accepted_spans_def apply_spans_def)
next
  case (2 pick cs i s spans res db)
  show ?case
  proof (cases "db_check (cs i) db")
    case (Some x)
    with 2(3) have "((res, Some x), db) = ((res', err), db')" by simp
    then have "res' = res" "err \<noteq> None" "db' = db" by (metis Pair_inject option.distinct(1))+
    then show ?thesis by (intro exI [of _ 0]) (simp add: accepted_spans_def apply_spans_def)
  next
    case None
    note check = this
    show ?thesis
    proof (cases "Validate s")
      case (Some v)
      with 2(3) None have "ingest_loop pick cs (Suc i) spans
          (res\<lparr>br_Rejected := br_Rejected res @ [\<lparr>rj_Index = int i, rj_Err = ErrInvalidSpan v\<rparr>]\<rparr>) db = ((res', err), db')" by simp
      from 2(2) [OF None Some this] obtain n where n: "n \<le> length spans" "err = None \<longrightarrow> n = length spans"
        "br_Accepted res' = br_Accepted res + int (length (accepted_spans (take n spans)))"
        "br_Rejected res' = (br_Rejected res @ [\<lparr>rj_Index = int i, rj_Err = ErrInvalidSpan v\<rparr>]) @ rejections (Suc i) (take n spans)"
        "content K (wd_eng db') = apply_spans (map toPayload (accepted_spans (take n spans))) (content K (wd_eng db))" by auto
      with Some show ?thesis by (intro exI [of _ "Suc n"]) (simp add: accepted_spans_def)
    next
      case None
      obtain r db1 where I: "on_engine (InsertSpan pick (toPayload s)) db = (r, db1)" by fastforce
      obtain r0 e1 where I0: "InsertSpan pick (toPayload s) (wd_eng db) = (r0, e1)" by fastforce
      have db1: "r = map_sum ErrEngine id r0" "wd_eng db1 = e1" using I I0 by (auto simp: on_engine_def)
      show ?thesis
      proof (cases r)
        case (Inl x)
        then obtain y where "r0 = Inl y" using db1(1) by (cases r0) auto
        then have "content K (wd_eng db1) = content K (wd_eng db)" using failed_insert I0 db1(2) by blast
        moreover from 2(3) check None I Inl have "res' = res" "err \<noteq> None" "db' = db1" by auto
        ultimately show ?thesis by (intro exI [of _ 0]) (simp add: accepted_spans_def apply_spans_def)
      next
        case (Inr u)
        then have "r0 = Inr ()" using db1(1) by (cases r0) auto
        then have c: "content K (wd_eng db1) = apply_span (toPayload s) (content K (wd_eng db))"
          using content_insert(1) I0 db1(2) by blast
        from 2(3) check None I Inr have "ingest_loop pick cs (Suc i) spans (res\<lparr>br_Accepted := br_Accepted res + 1\<rparr>) db1 = ((res', err), db')" by simp
        from 2(1) [OF check None I [symmetric] Inr this] obtain n where n: "n \<le> length spans" "err = None \<longrightarrow> n = length spans"
          "br_Accepted res' = br_Accepted res + 1 + int (length (accepted_spans (take n spans)))"
          "br_Rejected res' = br_Rejected res @ rejections (Suc i) (take n spans)"
          "content K (wd_eng db') = apply_spans (map toPayload (accepted_spans (take n spans))) (content K (wd_eng db1))" by auto
        with None c show ?thesis by (intro exI [of _ "Suc n"]) (simp add: accepted_spans_def apply_spans_Cons)
      qed
    qed
  qed
qed

end
