(* ===== verification/Payload.thy ===== *)
theory Payload
  imports Public
begin

text \<open>
  The JSON that \<^verbatim>\<open>buildPayload\<close> in \<^verbatim>\<open>tracer.go\<close> stores in a span, with what it uses of
  \<^verbatim>\<open>encoding/json\<close>: object keys in byte order, the escaping of strings, the shortest decimal of
  a \<^verbatim>\<open>float64\<close>, raw messages compacted.
\<close>

section \<open>Values\<close>

text \<open>\<open>GoBad\<close> is a value \<^verbatim>\<open>json.Marshal\<close> refuses.\<close>

datatype go_value =
  GoNil
| GoBool bool
| GoInt i64
| GoFloat f64
| GoString string
| GoRaw bytes
| GoList "go_value list"
| GoMap "(string \<times> go_value) list"
| GoBad

section \<open>Strings\<close>

definition is_cont :: "byte \<Rightarrow> bool" where
  "is_cont b \<longleftrightarrow> 0x80 \<le> b \<and> b \<le> 0xBF"

definition byte_at :: "nat \<Rightarrow> bytes \<Rightarrow> byte" where
  "byte_at n bs = (if n < length bs then bs ! n else 0)"

text \<open>\<^verbatim>\<open>utf8.DecodeRune\<close>: the size of the first rune, 1 also for an invalid byte.\<close>

definition utf8_len :: "bytes \<Rightarrow> nat" where
  "utf8_len bs =
     (let b = byte_at 0 bs; c = byte_at 1 bs; d = byte_at 2 bs; e = byte_at 3 bs in
      if 0xC2 \<le> b \<and> b \<le> 0xDF \<and> is_cont c then 2
      else if 0xE0 \<le> b \<and> b \<le> 0xEF \<and> is_cont c \<and> is_cont d \<and> (b = 0xE0 \<longrightarrow> 0xA0 \<le> c) \<and> (b = 0xED \<longrightarrow> c \<le> 0x9F) then 3
      else if 0xF0 \<le> b \<and> b \<le> 0xF4 \<and> is_cont c \<and> is_cont d \<and> is_cont e \<and> (b = 0xF0 \<longrightarrow> 0x90 \<le> c) \<and> (b = 0xF4 \<longrightarrow> c \<le> 0x8F) then 4
      else 1)"

definition hex_digit :: "nat \<Rightarrow> byte" where
  "hex_digit n = (if n < 10 then word_of_nat (48 + n) else word_of_nat (87 + n))"

text \<open>\<open>\u00XY\<close>\<close>

definition u00 :: "byte \<Rightarrow> bytes" where
  "u00 b = [92, 117, 48, 48, hex_digit (unat b div 16), hex_digit (unat b mod 16)]"

definition escape_ascii :: "byte \<Rightarrow> bytes" where
  "escape_ascii b =
     (if b = 92 \<or> b = 34 then [92, b]
      else if b = 8 then [92, 98] else if b = 12 then [92, 102] else if b = 10 then [92, 110]
      else if b = 13 then [92, 114] else if b = 9 then [92, 116]
      else if b < 32 \<or> b = 60 \<or> b = 62 \<or> b = 38 then u00 b
      else [b])"

text \<open>U+2028 and U+2029 are escaped, invalid bytes become \<open>\ufffd\<close>.\<close>

definition is_line_sep :: "bytes \<Rightarrow> bool" where
  "is_line_sep bs \<longleftrightarrow> take 3 bs = [0xE2, 0x80, 0xA8] \<or> take 3 bs = [0xE2, 0x80, 0xA9]"

definition u202 :: "bytes \<Rightarrow> bytes" where
  "u202 bs = [92, 117, 50, 48, 50, hex_digit (unat (byte_at 2 bs) mod 16)]"

fun escape_bytes :: "bytes \<Rightarrow> bytes" where
  "escape_bytes [] = []"
| "escape_bytes (b # bs) =
     (if b < 0x80 then escape_ascii b @ escape_bytes bs
      else let n = utf8_len (b # bs) in
        if n = 1 then [92, 117, 102, 102, 102, 100] @ escape_bytes bs
        else if is_line_sep (b # bs) then u202 (b # bs) @ escape_bytes (drop 2 bs)
        else take n (b # bs) @ escape_bytes (drop (n - 1) bs))"

definition json_string :: "string \<Rightarrow> bytes" where
  "json_string s = [34] @ escape_bytes (bytes_of s) @ [34]"

section \<open>Numbers\<close>

definition json_int :: "i64 \<Rightarrow> bytes" where
  "json_int n = bytes_of (if n <s 0 then CHR ''-'' # decimal (nat (- sint n)) else decimal (nat (sint n)))"

text \<open>The positive rational \<open>p / q\<close> lies between \<open>10 ^ k\<close> and \<open>10 ^ (k + 1)\<close>.\<close>

definition decimal_exponent :: "nat \<Rightarrow> nat \<Rightarrow> int" where
  "decimal_exponent p q =
     (if q \<le> p then int (length (decimal (p div q))) - 1 else - int (length (decimal ((q + p - 1) div p - 1))))"

text \<open>
  The decimal with \<open>n\<close> digits next to \<open>p / q\<close> that rounds to \<open>x\<close>: the nearer of its two neighbours
  when both do.
\<close>

definition decimal_rounds :: "f64 \<Rightarrow> nat \<Rightarrow> int \<Rightarrow> bool" where
  "decimal_rounds x c e = (f64_round False (c * 10 ^ nat e) (10 ^ nat (- e)) 0 = x)"

definition digits_at :: "f64 \<Rightarrow> nat \<Rightarrow> nat \<Rightarrow> int \<Rightarrow> nat \<Rightarrow> nat option" where
  "digits_at x p q k n =
     (let e = k - int n + 1; a = p * 10 ^ nat (- e); b = q * 10 ^ nat e; lo = a div b; r = a mod b;
          first = (if 2 * r < b \<or> 2 * r = b \<and> even lo then lo else lo + 1);
          second = (if first = lo then lo + 1 else lo)
      in if decimal_rounds x first e then Some first
         else if decimal_rounds x second e then Some second else None)"

fun shortest_from :: "nat \<Rightarrow> f64 \<Rightarrow> nat \<Rightarrow> nat \<Rightarrow> int \<Rightarrow> nat \<Rightarrow> nat \<times> nat" where
  "shortest_from 0 x p q k n = (0, n)"
| "shortest_from (Suc fuel) x p q k n =
     (case digits_at x p q k n of Some c \<Rightarrow> (c, n) | None \<Rightarrow> shortest_from fuel x p q k (Suc n))"

text \<open>
  The digits and the exponent \<open>k\<close> of the shortest decimal \<open>d.dd... * 10 ^ k\<close> that rounds to a
  positive finite \<open>x\<close>; seventeen digits are enough for any.
\<close>

definition shortest_decimal :: "f64 \<Rightarrow> string \<times> int" where
  "shortest_decimal x =
     (let p = f64_mant x * 2 ^ nat (f64_scale x); q = 2 ^ nat (- f64_scale x); k = decimal_exponent p q in
      case shortest_from 17 x p q k 1 of (c, n) \<Rightarrow>
        if c = 10 ^ n then (decimal (10 ^ (n - 1)), k + 1) else (decimal c, k))"

definition zeros :: "nat \<Rightarrow> string" where "zeros n = replicate n (CHR ''0'')"

definition fixed_notation :: "string \<Rightarrow> int \<Rightarrow> string" where
  "fixed_notation ds k =
     (if k < 0 then ''0.'' @ zeros (nat (- k) - 1) @ ds
      else if length ds \<le> nat k + 1 then ds @ zeros (nat k + 1 - length ds)
      else take (nat k + 1) ds @ ''.'' @ drop (nat k + 1) ds)"

definition exponent_notation :: "string \<Rightarrow> int \<Rightarrow> string" where
  "exponent_notation ds k =
     hd ds # (if tl ds = [] then [] else CHR ''.'' # tl ds) @ (if k < 0 then ''e-'' else ''e+'') @ decimal (nat \<bar>k\<bar>)"

definition f64_abs :: "f64 \<Rightarrow> f64" where
  "f64_abs x = word_of_nat (f64_bits x)"

definition json_float :: "f64 \<Rightarrow> bytes option" where
  "json_float x =
     (if f64_is_nan x \<or> f64_is_inf x then None
      else let sign = (if f64_neg x then ''-'' else []) in
        if f64_is_zero x then Some (bytes_of (sign @ ''0''))
        else case shortest_decimal (f64_abs x) of (ds, k) \<Rightarrow>
          Some (bytes_of (sign @ (if f64_lt (f64_abs x) (f64_div (f64_of_int 1) (f64_of_int 1000000))
                                     \<or> f64_le (f64_of_int (10 ^ 21)) (f64_abs x)
                                  then exponent_notation ds k else fixed_notation ds k))))"

section \<open>Raw messages\<close>

text \<open>
  The compaction of a raw message: spaces outside strings go, three characters and the line
  separators are escaped; invalid JSON is an error. \<open>skip\<close> counts bytes already written.
\<close>

definition in_string :: "scan_state \<Rightarrow> bool" where
  "in_string st = (case st of InString \<Rightarrow> True | InStringEsc \<Rightarrow> True | InStringEscU n \<Rightarrow> True | _ \<Rightarrow> False)"

fun compact_from :: "scanner \<Rightarrow> nat \<Rightarrow> bytes \<Rightarrow> bytes option" where
  "compact_from s skip [] = (if scan_eof s then Some [] else None)"
| "compact_from s skip (c # cs) =
     (let s' = scan_step c s;
          sep = (skip = 0 \<and> is_line_sep (c # cs));
          out = (if 0 < skip then [] else if c = 60 \<or> c = 62 \<or> c = 38 then u00 c else if sep then u202 (c # cs)
                 else if is_space c \<and> \<not> in_string (sc_step s) then [] else [c])
      in if sc_step s' = ScanError then None
         else map_option ((@) out) (compact_from s' (if sep then 2 else skip - 1) cs))"

definition json_compact :: "bytes \<Rightarrow> bytes option" where
  "json_compact bs = compact_from scan_reset 0 bs"

section \<open>Marshal\<close>

fun join_bytes :: "bytes list \<Rightarrow> bytes" where
  "join_bytes [] = []"
| "join_bytes [x] = x"
| "join_bytes (x # y # xs) = x @ [44] @ join_bytes (y # xs)"

fun all_some :: "'a option list \<Rightarrow> 'a list option" where
  "all_some [] = Some []"
| "all_some (x # xs) = (case x of None \<Rightarrow> None | Some a \<Rightarrow> map_option ((#) a) (all_some xs))"

text \<open>The members of an object in the byte order of their keys.\<close>

definition json_object :: "(string \<times> bytes) list \<Rightarrow> bytes" where
  "json_object members =
     [123] @ join_bytes (map (\<lambda>(k, v). json_string k @ [58] @ v) (go_sort (\<lambda>a b. string_less (fst a) (fst b)) members)) @ [125]"

fun json_Marshal :: "go_value \<Rightarrow> bytes option" where
  "json_Marshal GoNil = Some (bytes_of ''null'')"
| "json_Marshal (GoBool b) = Some (bytes_of (if b then ''true'' else ''false''))"
| "json_Marshal (GoInt n) = Some (json_int n)"
| "json_Marshal (GoFloat x) = json_float x"
| "json_Marshal (GoString s) = Some (json_string s)"
| "json_Marshal (GoRaw bs) = json_compact bs"
| "json_Marshal (GoList vs) = map_option (\<lambda>xs. [91] @ join_bytes xs @ [93]) (all_some (map json_Marshal vs))"
| "json_Marshal (GoMap members) =
     map_option (\<lambda>xs. json_object (zip (map fst members) xs)) (all_some (map (\<lambda>kv. json_Marshal (snd kv)) members))"
| "json_Marshal GoBad = None"

section \<open>The payload\<close>

definition buildPayload :: "string \<Rightarrow> string \<Rightarrow> (string \<times> go_value) list \<Rightarrow> db_error + bytes" where
  "buildPayload name statusMessage attrs =
     (let payload = (if name \<noteq> [] then [(''name'', GoString name)] else [])
            @ (if statusMessage \<noteq> [] then [(''status_message'', GoString statusMessage)] else [])
            @ (if attrs \<noteq> [] then [(''attributes'', GoMap attrs)] else [])
      in if payload = [] then Inr []
         else case json_Marshal (GoMap payload) of
           None \<Rightarrow> Inl (ErrInvalidSpan \<lparr>ve_Field = ''payload'', ve_Reason = ''not encodable''\<rparr>)
         | Some b \<Rightarrow> Inr b)"

end
