(* ===== verification/Payload_Spec.thy ===== *)
theory Payload_Spec
  imports Payload Sort_Spec
begin

text \<open>
  What \<^verbatim>\<open>buildPayload\<close> renders passes the validation of payloads: the output of the encoder, for
  values without floats and raw messages, is read by the scanner as one JSON value.
\<close>

section \<open>Reading one value\<close>

text \<open>
  A text that starts a value at once and is read as one inside the open objects and arrays \<open>ps\<close>.
\<close>

definition is_value :: "parse_state list \<Rightarrow> bytes \<Rightarrow> bool" where
  "is_value ps bs \<longleftrightarrow> bs \<noteq> [] \<and> \<not> is_space (hd bs) \<and> hd bs \<noteq> 93 \<and> reads_value ps bs"

lemma byte_less_32: "(c :: byte) < 32 \<longleftrightarrow> unat c < 32"
  by (simp add: word_less_nat_alt)

abbreviation at :: "scan_state \<Rightarrow> parse_state list \<Rightarrow> scanner" where
  "at st ps \<equiv> \<lparr>sc_step = st, sc_parse = ps, sc_endTop = False\<rparr>"

lemma after_EndValue [simp]: "after_value ps (at EndValue ps)"
  by (simp add: after_value_def)

lemma stateEndValue_step: "stateEndValue c (s\<lparr>sc_step := st\<rparr>) = stateEndValue c s"
  by (simp add: stateEndValue_def stateEndTop_def popParseState_def Let_def split: list.split parse_state.split)

lemma no_digit: "c \<in> {32, 44, 58, 93, 125} \<Longrightarrow> \<not> is_digit c \<and> c \<notin> {46, 101, 69}"
  by (elim insertE emptyE; simp add: is_digit_def)

lemma after_number:
  assumes "st \<in> {Num0, Num1, Dot0, NumE0}"
  shows "after_value ps (at st ps)"
proof -
  have "scan_step c (at st ps) = scan_step c (at EndValue ps)" if c: "c \<in> {32, 44, 58, 93, 125}" for c
  proof -
    have "scan_step c (at st ps) = stateEndValue c (at st ps)"
      using assms no_digit [OF c] by (elim insertE emptyE) (simp_all add: scan_step_def state0_def)
    also have "\<dots> = stateEndValue c (at EndValue ps)" using stateEndValue_step [of c st "at EndValue ps"] by simp
    finally show ?thesis by (simp add: scan_step_def)
  qed
  with assms show ?thesis by (auto simp: after_value_def)
qed

lemma after_top: "after_value [] \<lparr>sc_step = EndTop, sc_parse = [], sc_endTop = True\<rparr>"
  by (simp add: after_value_def scan_step_def stateEndValue_def stateEndTop_def)

lemma after_step:
  assumes "after_value ps s" "c \<in> {32, 44, 58, 93, 125}"
  shows "scan_step c s = scan_step c (at EndValue ps)"
  using assms unfolding after_value_def by blast

lemma pop_value: "after_value ps (popParseState (at st (p # ps)))"
  by (cases ps) (simp_all add: popParseState_def after_top)

section \<open>Strings\<close>

lemma string_byte: "c \<noteq> 34 \<Longrightarrow> c \<noteq> 92 \<Longrightarrow> \<not> c < 32 \<Longrightarrow> scan_step c (at InString ps) = at InString ps"
  by (simp add: scan_step_def)

lemma hex_digit_hex: "n < 16 \<Longrightarrow> is_hex (hex_digit n)"
proof -
  assume n: "n < 16"
  have u: "unat (word_of_nat m :: byte) = m" if "m < 256" for m using that by (simp add: unat_of_nat)
  show ?thesis
  proof (cases "n < 10")
    case True
    then show ?thesis using u [of "48 + n"] by (simp only: hex_digit_def is_hex_def is_digit_def word_le_nat_alt if_True) simp
  next
    case False
    then show ?thesis using n u [of "87 + n"] by (simp only: hex_digit_def is_hex_def is_digit_def word_le_nat_alt if_False) simp
  qed
qed

lemma unicode_escape:
  assumes "is_hex a" "is_hex b" "is_hex c" "is_hex d"
  shows "fold scan_step [92, 117, a, b, c, d] (at InString ps) = at InString ps"
proof -
  have "scan_step 92 (at InString ps) = at InStringEsc ps" "scan_step 117 (at InStringEsc ps) = at (InStringEscU 4) ps"
    by (simp_all add: scan_step_def)
  moreover have "scan_step a (at (InStringEscU 4) ps) = at (InStringEscU 3) ps" "scan_step b (at (InStringEscU 3) ps) = at (InStringEscU 2) ps"
    "scan_step c (at (InStringEscU 2) ps) = at (InStringEscU 1) ps" "scan_step d (at (InStringEscU 1) ps) = at InString ps"
    using assms by (simp_all add: scan_step_def)
  ultimately show ?thesis by simp
qed

lemma hex_consts: "is_hex 48" "is_hex 50" "is_hex 102" "is_hex 100"
  by (simp_all add: is_hex_def is_digit_def)

lemma unat_byte: "unat (b :: byte) < 256"
  using unsigned_less [of b, where 'a = nat] by simp

lemma u00_string: "fold scan_step (u00 b) (at InString ps) = at InString ps"
  unfolding u00_def using unat_byte [of b] by (intro unicode_escape hex_consts hex_digit_hex) simp_all

lemma escape_pair: "c \<in> {98, 102, 110, 114, 116, 92, 34} \<Longrightarrow> fold scan_step [92, c] (at InString ps) = at InString ps"
  by (auto simp: scan_step_def)

lemma escape_ascii_string:
  assumes "b < 0x80"
  shows "fold scan_step (escape_ascii b) (at InString ps) = at InString ps"
proof -
  consider "b \<in> {92, 34}" | "b \<in> {8, 12, 10, 13, 9}" | "b \<notin> {92, 34, 8, 12, 10, 13, 9}" "b < 32 \<or> b = 60 \<or> b = 62 \<or> b = 38"
    | "b \<notin> {92, 34, 8, 12, 10, 13, 9}" "\<not> (b < 32 \<or> b = 60 \<or> b = 62 \<or> b = 38)" by blast
  then show ?thesis
  proof cases
    case 1
    then show ?thesis using escape_pair [of b ps] by (auto simp: escape_ascii_def)
  next
    case 2
    then have "\<exists>c \<in> {98, 102, 110, 114, 116}. escape_ascii b = [92, c]" by (elim insertE emptyE) (simp_all add: escape_ascii_def)
    then show ?thesis using escape_pair [of _ ps] by fastforce
  next
    case 3
    then have "escape_ascii b = u00 b" by (simp add: escape_ascii_def)
    then show ?thesis by (simp add: u00_string)
  next
    case 4
    then have "escape_ascii b = [b]" by (simp add: escape_ascii_def)
    with 4 show ?thesis by (simp add: string_byte)
  qed
qed

lemma high_bytes: "\<forall>b \<in> set bs. 0x80 \<le> b \<Longrightarrow> fold scan_step bs (at InString ps) = at InString ps"
proof (induction bs)
  case (Cons b bs)
  then have "0x80 \<le> b" by simp
  then have "b \<noteq> 34" "b \<noteq> 92" "\<not> b < 32" by (auto simp: word_le_nat_alt word_less_nat_alt)
  with Cons show ?case by (simp add: string_byte)
qed simp

lemma cont_high: "is_cont c \<Longrightarrow> 0x80 \<le> c"
  by (simp add: is_cont_def)

lemma lead_high: "0xC2 \<le> b \<or> 0xE0 \<le> b \<or> 0xF0 \<le> b \<Longrightarrow> 0x80 \<le> (b :: byte)"
  by (auto simp: word_le_nat_alt)

lemma utf8_bytes:
  assumes "utf8_len xs \<noteq> 1" "i < utf8_len xs"
  shows "0x80 \<le> byte_at i xs"
proof -
  have "i = 0 \<or> i = 1 \<or> i = 2 \<or> i = 3" if "i < 4" using that by linarith
  moreover have "utf8_len xs \<le> 4" by (simp add: utf8_len_def Let_def)
  ultimately have "i = 0 \<or> i = 1 \<or> i = 2 \<or> i = 3" using assms(2) by simp
  then show ?thesis using assms cont_high [of "byte_at 1 xs"] cont_high [of "byte_at 2 xs"] cont_high [of "byte_at 3 xs"] lead_high [of "byte_at 0 xs"]
    by (elim disjE) (simp_all add: utf8_len_def Let_def split: if_splits)
qed

lemma utf8_high:
  assumes "utf8_len (b # bs) \<noteq> 1"
  shows "\<forall>c \<in> set (take (utf8_len (b # bs)) (b # bs)). 0x80 \<le> c"
proof
  fix c
  assume "c \<in> set (take (utf8_len (b # bs)) (b # bs))"
  then obtain i where i: "i < utf8_len (b # bs)" "i < length (b # bs)" "c = (b # bs) ! i" by (auto simp: in_set_conv_nth simp del: length_Cons)
  with utf8_bytes [OF assms i(1)] show "0x80 \<le> c" by (simp add: byte_at_def)
qed

lemma escape_string: "fold scan_step (escape_bytes bs) (at InString ps) = at InString ps"
proof (induction bs rule: escape_bytes.induct)
  case (2 b bs)
  note IH = 2
  show ?case
  proof (cases "b < 0x80")
    case True
    with IH(1) show ?thesis by (simp add: escape_ascii_string)
  next
    case False
    let ?n = "utf8_len (b # bs)"
    consider "?n = 1" | "?n \<noteq> 1" "is_line_sep (b # bs)" | "?n \<noteq> 1" "\<not> is_line_sep (b # bs)" by blast
    then show ?thesis
    proof cases
      case 1
      have "fold scan_step [92, 117, 102, 102, 102, 100] (at InString ps) = at InString ps" by (intro unicode_escape hex_consts)
      with 1 False IH(2) [OF False refl 1] show ?thesis by simp
    next
      case 2
      have "fold scan_step (u202 (b # bs)) (at InString ps) = at InString ps"
        unfolding u202_def by (intro unicode_escape hex_consts hex_digit_hex) simp
      with 2 False IH(3) [OF False refl 2] show ?thesis by simp
    next
      case 3
      have "fold scan_step (take ?n (b # bs)) (at InString ps) = at InString ps"
        using utf8_high [OF 3(1)] by (rule high_bytes)
      with 3 False IH(4) [OF False refl 3] show ?thesis by (simp add: Let_def)
    qed
  qed
qed simp

lemma string_end:
  assumes "st \<in> {BeginValue, BeginString, BeginStringOrEmpty}"
  shows "fold scan_step (json_string s) (at st ps) = at EndValue ps"
proof -
  have "scan_step 34 (at st ps) = at InString ps"
    using assms by (elim insertE emptyE) (simp_all add: scan_step_def stateBeginValue_def stateBeginString_def is_space_def)
  moreover have "scan_step 34 (at InString ps) = at EndValue ps" by (simp add: scan_step_def)
  ultimately show ?thesis by (simp add: json_string_def escape_string)
qed

lemma string_value: "is_value ps (json_string s)"
  using string_end [of BeginValue s ps] by (simp add: is_value_def reads_value_def json_string_def is_space_def)

section \<open>Numbers and words\<close>

lemma digit_byte: "digit_val c \<noteq> None \<Longrightarrow> is_digit (byte_of_char c)"
proof -
  assume "digit_val c \<noteq> None"
  then have "48 \<le> (of_char c :: nat)" "(of_char c :: nat) \<le> 57" by (auto simp: digit_val_def Let_def split: if_splits)
  then show ?thesis by (simp add: is_digit_def byte_of_char_def word_le_nat_alt unat_of_nat)
qed

lemma decimal_split:
  "n < 10 \<or> (\<exists>d ds. decimal n = digit_char d # ds \<and> 0 < d \<and> d < 10 \<and> (\<forall>c \<in> set ds. digit_val c \<noteq> None))"
proof (induction n rule: decimal.induct)
  case (1 n)
  show ?case
  proof (cases "n < 10")
    case False
    let ?d = "digit_char (n mod 10)"
    have split: "decimal n = decimal (n div 10) @ [?d]" using False by (subst decimal.simps) simp
    show ?thesis
    proof (cases "n div 10 < 10")
      case True
      then have "decimal (n div 10) = [digit_char (n div 10)]" by (subst decimal.simps) simp
      with split True False show ?thesis by (intro disjI2 exI [of _ "n div 10"] exI [of _ "[?d]"]) auto
    next
      case False
      with 1 \<open>\<not> n < 10\<close> obtain d ds where "decimal (n div 10) = digit_char d # ds" "0 < d" "d < 10" "\<forall>c \<in> set ds. digit_val c \<noteq> None" by auto
      with split show ?thesis by (intro disjI2 exI [of _ d] exI [of _ "ds @ [?d]"]) auto
    qed
  qed simp
qed

lemma digit_start:
  assumes "0 < d" "d < 10" "st \<in> {BeginValue, Neg}"
  shows "scan_step (byte_of_char (digit_char d)) (at st ps) = at Num1 ps" "byte_of_char (digit_char d) \<notin> {32, 9, 13, 10, 93}"
proof -
  have d: "d \<in> {1, 2, 3, 4, 5, 6, 7, 8, 9}" using assms by auto
  have u: "byte_of_char (digit_char d) = word_of_nat (48 + d)"
  proof -
    have "(of_char (digit_char d) :: nat) = 48 + d" using assms(2) by (simp add: digit_char_def)
    then show ?thesis by (simp only: byte_of_char_def)
  qed
  show "scan_step (byte_of_char (digit_char d)) (at st ps) = at Num1 ps" unfolding u using d assms(3)
    by (elim insertE emptyE; simp add: scan_step_def stateBeginValue_def is_space_def is_digit_def)
  show "byte_of_char (digit_char d) \<notin> {32, 9, 13, 10, 93}" unfolding u using d by (elim insertE emptyE; simp)
qed

lemma digits_stay: "\<forall>c \<in> set ds. digit_val c \<noteq> None \<Longrightarrow> fold scan_step (bytes_of ds) (at Num1 ps) = at Num1 ps"
proof (induction ds)
  case (Cons c ds)
  then show ?case using digit_byte [of c] by (simp add: bytes_of_def scan_step_def)
qed (simp add: bytes_of_def)

lemma decimal_scan:
  assumes "st \<in> {BeginValue, Neg}"
  shows "after_value ps (fold scan_step (bytes_of (decimal n)) (at st ps))" "hd (bytes_of (decimal n)) \<notin> {32, 9, 13, 10, 93}"
proof -
  have nonzero: "after_value ps (fold scan_step (bytes_of (digit_char d # ds)) (at st ps)) \<and> hd (bytes_of (digit_char d # ds)) \<notin> {32, 9, 13, 10, 93}"
    if "0 < d" "d < 10" "\<forall>c \<in> set ds. digit_val c \<noteq> None" for d ds
  proof -
    have "fold scan_step (bytes_of (digit_char d # ds)) (at st ps) = at Num1 ps"
      using digit_start(1) [OF that(1,2) assms] digits_stay [OF that(3)] by (simp add: bytes_of_def)
    then show ?thesis using digit_start(2) [OF that(1,2) assms] after_number by (simp add: bytes_of_def)
  qed
  have "after_value ps (fold scan_step (bytes_of (decimal n)) (at st ps)) \<and> hd (bytes_of (decimal n)) \<notin> {32, 9, 13, 10, 93}"
  proof (cases "n < 10")
    case True
    then have dn: "decimal n = [digit_char n]" by (subst decimal.simps) simp
    show ?thesis
    proof (cases "n = 0")
      case True
      have "bytes_of (decimal n) = [48]" using dn True by (simp add: bytes_of_def digit_char_def byte_of_char_def)
      moreover have "scan_step 48 (at st ps) = at Num0 ps"
        using assms by (elim insertE emptyE) (simp_all add: scan_step_def stateBeginValue_def is_space_def)
      ultimately show ?thesis using after_number by simp
    next
      case False
      with nonzero [of n "[]"] True dn show ?thesis by simp
    qed
  next
    case False
    with decimal_split [of n] nonzero show ?thesis by auto
  qed
  then show "after_value ps (fold scan_step (bytes_of (decimal n)) (at st ps))" "hd (bytes_of (decimal n)) \<notin> {32, 9, 13, 10, 93}" by auto
qed

lemma int_value: "is_value ps (json_int n)"
proof (cases "n <s 0")
  case True
  then have j: "json_int n = 45 # bytes_of (decimal (nat (- sint n)))"
    by (simp add: json_int_def bytes_of_def) (simp add: byte_of_char_def)
  have "scan_step 45 (at BeginValue ps) = at Neg ps" by (simp add: scan_step_def stateBeginValue_def is_space_def)
  then show ?thesis using decimal_scan(1) [of Neg] by (simp add: is_value_def reads_value_def j is_space_def)
next
  case False
  have "bytes_of (decimal (nat (sint n))) \<noteq> []" by (simp add: bytes_of_def)
  with False decimal_scan(1) [of BeginValue ps "nat (sint n)"] decimal_scan(2) [of BeginValue "nat (sint n)"] show ?thesis
    by (simp add: is_value_def reads_value_def json_int_def is_space_def)
qed

lemma word_value: "is_value ps (bytes_of ''null'')" "is_value ps (bytes_of ''true'')" "is_value ps (bytes_of ''false'')"
  by (simp_all add: is_value_def reads_value_def bytes_of_def byte_of_char_def is_space_def scan_step_def stateBeginValue_def)


section \<open>Arrays and objects\<close>

lemma is_valueD: "is_value ps bs \<Longrightarrow> after_value ps (fold scan_step bs (at BeginValue ps))"
  by (simp add: is_value_def reads_value_def)

lemma join_bytes_Cons: "join_bytes (x # xs) = x @ concat (map ((#) 44) xs)"
  by (induction xs arbitrary: x) simp_all

lemma more_items:
  "after_value (ParseArrayValue # ps) s \<Longrightarrow> \<forall>x \<in> set xs. is_value (ParseArrayValue # ps) x \<Longrightarrow>
   after_value (ParseArrayValue # ps) (fold scan_step (concat (map ((#) 44) xs)) s)"
proof (induction xs arbitrary: s)
  case (Cons x xs)
  have "scan_step 44 s = at BeginValue (ParseArrayValue # ps)"
    using after_step [OF Cons.prems(1), of 44] by (simp add: scan_step_def stateEndValue_def is_space_def)
  with Cons is_valueD show ?case by simp
qed simp

lemma more_members:
  "after_value (ParseObjectValue # ps) s \<Longrightarrow> \<forall>(k, v) \<in> set kvs. is_value (ParseObjectValue # ps) v \<Longrightarrow>
   after_value (ParseObjectValue # ps) (fold scan_step (concat (map ((#) 44) (map (\<lambda>(k, v). json_string k @ [58] @ v) kvs))) s)"
proof (induction kvs arbitrary: s)
  case (Cons kv kvs)
  obtain k v where kv: "kv = (k, v)" by (cases kv)
  have "scan_step 44 s = at BeginString (ParseObjectKey # ps)"
    using after_step [OF Cons.prems(1), of 44] by (simp add: scan_step_def stateEndValue_def is_space_def)
  moreover have "scan_step 58 (at EndValue (ParseObjectKey # ps)) = at BeginValue (ParseObjectValue # ps)"
    by (simp add: scan_step_def stateEndValue_def is_space_def)
  ultimately show ?case using Cons is_valueD string_end [of BeginString k] kv by simp
qed simp

lemma open_bracket:
  assumes "length ps < maxNestingDepth"
  shows "scan_step 91 (at BeginValue ps) = at BeginValueOrEmpty (ParseArrayValue # ps)"
    "scan_step 123 (at BeginValue ps) = at BeginStringOrEmpty (ParseObjectKey # ps)"
  using assms by (simp_all add: scan_step_def stateBeginValue_def is_space_def pushParseState_def Let_def)

lemma array_value:
  assumes "length ps < maxNestingDepth" "\<forall>x \<in> set xs. is_value (ParseArrayValue # ps) x"
  shows "is_value ps ([91] @ join_bytes xs @ [93])"
proof -
  let ?s = "at BeginValueOrEmpty (ParseArrayValue # ps)"
  have "after_value ps (scan_step 93 (fold scan_step (join_bytes xs) ?s))"
  proof (cases xs)
    case Nil
    have "scan_step 93 ?s = popParseState ?s"
      by (simp add: scan_step_def stateEndValue_def is_space_def)
    with Nil pop_value show ?thesis by simp
  next
    case (Cons x xs')
    with assms(2) have x: "is_value (ParseArrayValue # ps) x" "\<forall>x \<in> set xs'. is_value (ParseArrayValue # ps) x" by auto
    then obtain c cs where c: "x = c # cs" "\<not> is_space c" "c \<noteq> 93" by (cases x) (auto simp: is_value_def)
    then have "scan_step c ?s = scan_step c (at BeginValue (ParseArrayValue # ps))" by (simp add: scan_step_def)
    with c x(1) have "after_value (ParseArrayValue # ps) (fold scan_step x ?s)" using is_valueD by fastforce
    from after_step [OF more_items [OF this x(2)], of 93] Cons pop_value show ?thesis
      by (simp add: join_bytes_Cons scan_step_def stateEndValue_def is_space_def)
  qed
  with open_bracket(1) [OF assms(1)] show ?thesis by (simp add: is_value_def reads_value_def is_space_def)
qed

lemma object_value:
  assumes "length ps < maxNestingDepth" "\<forall>(k, v) \<in> set members. is_value (ParseObjectValue # ps) v"
  shows "is_value ps (json_object members)"
proof -
  let ?s = "at BeginStringOrEmpty (ParseObjectKey # ps)"
  define kvs where "kvs = go_sort (\<lambda>a b. string_less (fst a) (fst b)) members"
  have v: "\<forall>(k, v) \<in> set kvs. is_value (ParseObjectValue # ps) v" using assms(2) by (simp add: kvs_def)
  have "after_value ps (scan_step 125 (fold scan_step (join_bytes (map (\<lambda>(k, v). json_string k @ [58] @ v) kvs)) ?s))"
  proof (cases kvs)
    case Nil
    have "scan_step 125 ?s = popParseState (at BeginStringOrEmpty (ParseObjectValue # ps))"
      by (simp add: scan_step_def stateEndValue_def is_space_def)
    with Nil pop_value show ?thesis by simp
  next
    case (Cons kv kvs')
    obtain k w where kv: "kv = (k, w)" by (cases kv)
    have "scan_step 58 (at EndValue (ParseObjectKey # ps)) = at BeginValue (ParseObjectValue # ps)"
      by (simp add: scan_step_def stateEndValue_def is_space_def)
    then have "after_value (ParseObjectValue # ps) (fold scan_step (json_string k @ [58] @ w) ?s)"
      using Cons kv v is_valueD string_end [of BeginStringOrEmpty k] by simp
    then have "after_value (ParseObjectValue # ps) (fold scan_step (concat (map ((#) 44) (map (\<lambda>(k, v). json_string k @ [58] @ v) kvs')))
        (fold scan_step (json_string k @ [58] @ w) ?s))" using Cons v by (intro more_members) simp_all
    then have "scan_step 125 (fold scan_step (concat (map ((#) 44) (map (\<lambda>(k, v). json_string k @ [58] @ v) kvs')))
        (fold scan_step (json_string k @ [58] @ w) ?s)) = scan_step 125 (at EndValue (ParseObjectValue # ps))"
      by (rule after_step) simp
    also have "\<dots> = popParseState (at EndValue (ParseObjectValue # ps))"
      by (simp add: scan_step_def stateEndValue_def is_space_def)
    finally show ?thesis using Cons kv pop_value by (simp add: join_bytes_Cons)
  qed
  with open_bracket(2) [OF assms(1)] show ?thesis
    by (simp add: is_value_def reads_value_def is_space_def json_object_def kvs_def)
qed

section \<open>Every value\<close>

text \<open>No floats, no raw messages, nothing json.Marshal refuses, and at most \<open>d\<close> levels of nesting.\<close>

fun plain_value :: "nat \<Rightarrow> go_value \<Rightarrow> bool" where
  "plain_value d (GoList vs) = (0 < d \<and> (\<forall>v \<in> set vs. plain_value (d - 1) v))"
| "plain_value d (GoMap members) = (0 < d \<and> (\<forall>kv \<in> set members. plain_value (d - 1) (snd kv)))"
| "plain_value d (GoFloat x) = False"
| "plain_value d (GoRaw bs) = False"
| "plain_value d GoBad = False"
| "plain_value d v = True"

lemma all_some_map: "all_some xs = Some ys \<Longrightarrow> xs = map Some ys"
  by (induction xs arbitrary: ys) (auto split: option.splits)

lemma marshal_value:
  "json_Marshal v = Some b \<Longrightarrow> plain_value d v \<Longrightarrow> length ps + d \<le> maxNestingDepth \<Longrightarrow> is_value ps b"
proof (induction v arbitrary: d ps b rule: json_Marshal.induct)
  case (7 vs)
  then obtain xs where xs: "map json_Marshal vs = map Some xs" "b = [91] @ join_bytes xs @ [93]" by (auto dest: all_some_map)
  have "is_value (ParseArrayValue # ps) x" if x: "x \<in> set xs" for x
  proof -
    from x have "Some x \<in> json_Marshal ` set vs" using xs(1) by (metis image_eqI list.set_map)
    then obtain v where v: "v \<in> set vs" "json_Marshal v = Some x" by auto
    with 7 show ?thesis by (intro "7.IH" [of v x "d - 1"]) auto
  qed
  moreover have "length ps < maxNestingDepth" using 7 by simp
  ultimately show ?case unfolding xs(2) by (intro array_value) auto
next
  case (8 members)
  then obtain xs where xs: "map (\<lambda>kv. json_Marshal (snd kv)) members = map Some xs" "b = json_object (zip (map fst members) xs)"
    by (auto dest: all_some_map)
  have "is_value (ParseObjectValue # ps) x" if x: "x \<in> set xs" for x
  proof -
    from x have "Some x \<in> (\<lambda>kv. json_Marshal (snd kv)) ` set members" using xs(1) by (metis image_eqI list.set_map)
    then obtain kv where kv: "kv \<in> set members" "json_Marshal (snd kv) = Some x" by auto
    with 8 show ?thesis by (intro "8.IH" [of kv x "d - 1"]) auto
  qed
  then have "\<forall>(k, v) \<in> set (zip (map fst members) xs). is_value (ParseObjectValue # ps) v" by (auto dest: set_zip_rightD)
  moreover have "length ps < maxNestingDepth" using 8 by simp
  ultimately show ?case unfolding xs(2) by (intro object_value)
qed (auto simp: int_value string_value word_value)

section \<open>The payload of a span\<close>

lemma buildPayload_valid:
  assumes "buildPayload name msg attrs = Inr b" "\<forall>(k, v) \<in> set attrs. plain_value (maxNestingDepth - 2) v"
  shows "b = [] \<or> json_Valid b"
proof -
  define payload where "payload = (if name \<noteq> [] then [(''name'', GoString name)] else [])
     @ (if msg \<noteq> [] then [(''status_message'', GoString msg)] else [])
     @ (if attrs \<noteq> [] then [(''attributes'', GoMap attrs)] else [])"
  have "plain_value maxNestingDepth (GoMap payload)"
    using assms(2) by (fastforce simp: payload_def maxNestingDepth_def)
  then have "reads_value [] b" if "json_Marshal (GoMap payload) = Some b" using marshal_value [OF that, of maxNestingDepth "[]"] by (simp add: is_value_def)
  moreover have "b = [] \<or> json_Marshal (GoMap payload) = Some b"
    using assms(1) by (auto simp: buildPayload_def payload_def Let_def split: option.splits if_splits)
  ultimately show ?thesis using valid_value by blast
qed

end
