(* ===== verification/Tracer.thy ===== *)
theory Tracer
  imports Public_Spec Payload_Spec "HOL-Library.AList"
begin

text \<open>
  Spans being recorded (\<^verbatim>\<open>tracer.go\<close>): \<^verbatim>\<open>StartSpan\<close>, the setters, and \<^verbatim>\<open>EndAt\<close> as its two
  critical sections with the storing between them; then the interleavings of concurrent calls on
  one span. The bytes of \<^verbatim>\<open>crypto/rand\<close> are a list that is consumed.
\<close>

section \<open>Ids\<close>

definition hex_string :: "bytes \<Rightarrow> string" where
  "hex_string bs = string_of (concat (map (\<lambda>b. [hex_digit (unat b div 16), hex_digit (unat b mod 16)]) bs))"

text \<open>A source that runs dry is the panic.\<close>

definition randomHex :: "nat \<Rightarrow> bytes \<Rightarrow> (string \<times> bytes) option" where
  "randomHex n source = (if length source < n then None else Some (hex_string (take n source), drop n source))"

definition NewTraceID :: "bytes \<Rightarrow> (string \<times> bytes) option" where "NewTraceID = randomHex 16"
definition NewSpanID :: "bytes \<Rightarrow> (string \<times> bytes) option" where "NewSpanID = randomHex 8"

section \<open>Starting a span\<close>

record start_config =
  stc_traceID :: string
  stc_parentID :: string
  stc_start :: go_time

datatype span_option = WithTraceID string | WithParentSpanID string | WithStartTime go_time

fun apply_span_option :: "span_option \<Rightarrow> start_config \<Rightarrow> start_config" where
  "apply_span_option (WithTraceID i) c = c\<lparr>stc_traceID := i\<rparr>"
| "apply_span_option (WithParentSpanID i) c = c\<lparr>stc_parentID := i\<rparr>"
| "apply_span_option (WithStartTime t) c = c\<lparr>stc_start := t\<rparr>"

text \<open>The attributes are a map, kept as an association list with one entry per key.\<close>

record active_span =
  as_span :: span
  as_name :: string
  as_statusMsg :: string
  as_attrs :: "(string \<times> go_value) list"
  as_ended :: bool

abbreviation active_TraceID :: "active_span \<Rightarrow> string" where "active_TraceID s \<equiv> sp_TraceID (as_span s)"
abbreviation active_SpanID :: "active_span \<Rightarrow> string" where "active_SpanID s \<equiv> sp_SpanID (as_span s)"

definition new_span :: "string \<Rightarrow> string \<Rightarrow> string \<Rightarrow> go_time \<Rightarrow> span" where
  "new_span traceID spanID parentID start =
     \<lparr>sp_TraceID = traceID, sp_SpanID = spanID, sp_ParentSpanID = parentID, sp_Start = start, sp_Duration = 0,
      sp_Agent = [], sp_Model = [], sp_Tool = [], sp_Team = [], sp_Status = [], sp_TokensIn = 0, sp_TokensOut = 0,
      sp_CostUSD = 0, sp_Payload = []\<rparr>"

text \<open>\<open>parent\<close> is the span the context carries; the one returned is what the new context carries.\<close>

definition StartSpan ::
    "go_time \<Rightarrow> bytes \<Rightarrow> active_span option \<Rightarrow> string \<Rightarrow> span_option list \<Rightarrow> (active_span \<times> bytes) option" where
  "StartSpan now source parent name opts =
     (let c = fold apply_span_option opts \<lparr>stc_traceID = [], stc_parentID = [], stc_start = now\<rparr>;
          c = (case parent of
                 None \<Rightarrow> c
               | Some p \<Rightarrow>
                   if stc_traceID c = []
                   then c\<lparr>stc_traceID := active_TraceID p, stc_parentID := (if stc_parentID c = [] then active_SpanID p else stc_parentID c)\<rparr>
                   else c)
      in case (if stc_traceID c = [] then NewTraceID source else Some (stc_traceID c, source)) of
           None \<Rightarrow> None
         | Some (traceID, source) \<Rightarrow>
             (case NewSpanID source of
                None \<Rightarrow> None
              | Some (spanID, source) \<Rightarrow>
                  Some (\<lparr>as_span = new_span traceID spanID (stc_parentID c) (stc_start c), as_name = name, as_statusMsg = [],
                         as_attrs = [], as_ended = False\<rparr>, source)))"

section \<open>Setters\<close>

definition active_update :: "(span \<Rightarrow> span) \<Rightarrow> active_span \<Rightarrow> active_span" where
  "active_update f s = s\<lparr>as_span := f (as_span s)\<rparr>"

definition SetAgent :: "string \<Rightarrow> active_span \<Rightarrow> active_span" where
  "SetAgent a = active_update (\<lambda>sp. sp\<lparr>sp_Agent := a\<rparr>)"

definition SetModel :: "string \<Rightarrow> active_span \<Rightarrow> active_span" where
  "SetModel m = active_update (\<lambda>sp. sp\<lparr>sp_Model := m\<rparr>)"

definition SetTool :: "string \<Rightarrow> active_span \<Rightarrow> active_span" where
  "SetTool t = active_update (\<lambda>sp. sp\<lparr>sp_Tool := t\<rparr>)"

definition SetTeam :: "string \<Rightarrow> active_span \<Rightarrow> active_span" where
  "SetTeam t = active_update (\<lambda>sp. sp\<lparr>sp_Team := t\<rparr>)"

definition SetTokens :: "i32 \<Rightarrow> i32 \<Rightarrow> active_span \<Rightarrow> active_span" where
  "SetTokens i out = active_update (\<lambda>sp. sp\<lparr>sp_TokensIn := i, sp_TokensOut := out\<rparr>)"

definition SetCost :: "f64 \<Rightarrow> active_span \<Rightarrow> active_span" where
  "SetCost usd = active_update (\<lambda>sp. sp\<lparr>sp_CostUSD := usd\<rparr>)"

definition SetStatus :: "string \<Rightarrow> active_span \<Rightarrow> active_span" where
  "SetStatus st = active_update (\<lambda>sp. sp\<lparr>sp_Status := st\<rparr>)"

definition SetError :: "string option \<Rightarrow> active_span \<Rightarrow> active_span" where
  "SetError err s =
     (case err of
        None \<Rightarrow> s
      | Some msg \<Rightarrow> s\<lparr>as_span := (as_span s)\<lparr>sp_Status := StatusError\<rparr>, as_statusMsg := msg\<rparr>)"

definition SetAttribute :: "string \<Rightarrow> go_value \<Rightarrow> active_span \<Rightarrow> active_span" where
  "SetAttribute key val s = s\<lparr>as_attrs := AList.update key val (as_attrs s)\<rparr>"

datatype setter =
  AgentSet string | ModelSet string | ToolSet string | TeamSet string | TokensSet i32 i32 | CostSet f64
| StatusSet string | ErrorSet "string option" | AttributeSet string go_value

fun apply_setter :: "setter \<Rightarrow> active_span \<Rightarrow> active_span" where
  "apply_setter (AgentSet a) = SetAgent a"
| "apply_setter (ModelSet m) = SetModel m"
| "apply_setter (ToolSet t) = SetTool t"
| "apply_setter (TeamSet t) = SetTeam t"
| "apply_setter (TokensSet i out) = SetTokens i out"
| "apply_setter (CostSet usd) = SetCost usd"
| "apply_setter (StatusSet st) = SetStatus st"
| "apply_setter (ErrorSet err) = SetError err"
| "apply_setter (AttributeSet k v) = SetAttribute k v"

section \<open>Ending a span\<close>

text \<open>\<^verbatim>\<open>Time.Sub\<close> of two wall clock times: a duration that does not fit is cut off.\<close>

definition Time_Sub :: "go_time \<Rightarrow> go_time \<Rightarrow> i64" where
  "Time_Sub t u = (if t - u < - (2 ^ 63) then 0x8000000000000000 else if 2 ^ 63 \<le> t - u then 0x7FFFFFFFFFFFFFFF else word_of_int (t - u))"

text \<open>The first critical section: a copy of the span, which is marked.\<close>

definition begin_End :: "active_span \<Rightarrow> active_span option \<times> active_span" where
  "begin_End s = (if as_ended s then (None, s) else (Some s, s\<lparr>as_ended := True\<rparr>))"

text \<open>The span that is stored.\<close>

definition finished_span :: "go_time \<Rightarrow> active_span \<Rightarrow> db_error + span" where
  "finished_span stop c =
     (let sp = as_span c; d = Time_Sub stop (sp_Start sp); d = (if d <s 0 then 0 else d);
          st = (if sp_Status sp = [] then StatusOK else sp_Status sp)
      in case buildPayload (as_name c) (as_statusMsg c) (as_attrs c) of
           Inl x \<Rightarrow> Inl x
         | Inr p \<Rightarrow> Inr (sp\<lparr>sp_Duration := d, sp_Status := st, sp_Payload := p\<rparr>))"

text \<open>The second one, after a failure: the span is open again.\<close>

definition reopen_End :: "active_span \<Rightarrow> active_span" where
  "reopen_End s = s\<lparr>as_ended := False\<rparr>"

definition EndAt ::
    "(f64 \<Rightarrow> f64) \<Rightarrow> 'k kv \<Rightarrow> i64 \<Rightarrow> bool \<Rightarrow> ctx \<times> ctx \<times> ctx \<Rightarrow> go_time \<Rightarrow> active_span \<Rightarrow> 'k wisp_db \<Rightarrow>
       (db_error + unit) \<times> active_span \<times> 'k wisp_db" where
  "EndAt Log K now pick cs stop s db =
     (case begin_End s of
        (None, s) \<Rightarrow> (Inl ErrEnded, s, db)
      | (Some c, s) \<Rightarrow>
          (case (case finished_span stop c of Inl x \<Rightarrow> (Inl x, db) | Inr sp \<Rightarrow> Ingest Log K now pick cs sp db) of
             (Inl x, db) \<Rightarrow> (Inl x, reopen_End s, db)
           | (Inr u, db) \<Rightarrow> (Inr u, s, db)))"

section \<open>One call\<close>

lemma setter_ended [simp]: "as_ended (apply_setter f s) = as_ended s"
  by (cases f) (auto simp: SetAgent_def SetModel_def SetTool_def SetTeam_def SetTokens_def SetCost_def SetStatus_def
      SetError_def SetAttribute_def active_update_def split: option.split)

lemma EndAt_ended: "as_ended s \<Longrightarrow> EndAt Log K now pick cs stop s db = (Inl ErrEnded, s, db)"
  by (simp add: EndAt_def begin_End_def)

lemma EndAt_outcome:
  assumes "EndAt Log K now pick cs stop s db = (r, s', db')" "\<not> as_ended s"
  shows "as_ended s' = (r = Inr ())" "s'\<lparr>as_ended := False\<rparr> = s\<lparr>as_ended := False\<rparr>"
  using assms by (auto simp: EndAt_def begin_End_def reopen_End_def split: prod.splits sum.splits)

text \<open>An id is two hexadecimal digits per byte.\<close>

lemma length_hex_string [simp]: "length (hex_string bs) = 2 * length bs"
  by (induction bs) (simp_all add: hex_string_def)

lemma StartSpan_child:
  assumes "StartSpan now source (Some p) name [] = Some (s, source')" "active_TraceID p \<noteq> []"
  shows "active_TraceID s = active_TraceID p" "sp_ParentSpanID (as_span s) = active_SpanID p" "length (active_SpanID s) = 16"
  using assms by (auto simp: StartSpan_def NewSpanID_def randomHex_def new_span_def Let_def split: if_splits option.splits)

text \<open>A duration is never negative, whatever the clock does.\<close>

lemma finished_duration:
  assumes "finished_span stop c = Inr sp"
  shows "\<not> sp_Duration sp <s 0"
  using assms by (auto simp: finished_span_def Let_def split: sum.splits if_splits)

lemma end_then_read:
  assumes K: "kv_store K" and s: "\<not> as_ended s" "finished_span stop s = Inr sp" "Validate sp = None" "sep_free (active_TraceID s)"
    and db: "\<not> wd_closed db" "wd_ryw db" "flush_ready Log K (length (en_chan (wd_eng db)) + 2) (wd_eng db)" "insert_room Log (wd_eng db)"
  shows "\<exists>db' db''. EndAt Log K now pick (None, None, None) stop s db = (Inr (), s\<lparr>as_ended := True\<rparr>, db')
    \<and> db_Span K None (active_TraceID s) (active_SpanID s) db' = (Inr (whole_duration sp), db'')"
proof -
  have ids: "sp_TraceID sp = active_TraceID s" "sp_SpanID sp = active_SpanID s"
    using s(2) by (auto simp: finished_span_def Let_def split: sum.splits)
  then have "sep_free (sp_TraceID sp)" using s(4) by simp
  from ingest_then_read [OF K s(3) this db, of now pick] ids s(1,2) show ?thesis
    by (auto simp: EndAt_def begin_End_def)
qed

section \<open>Concurrent calls\<close>

text \<open>
  Any number of \<^verbatim>\<open>End\<close> calls and setters on one span, interleaved at the mutex. A call is before
  its first critical section, storing its copy, about to reopen the span, or back. The storing
  (\<^verbatim>\<open>DB.Ingest\<close>) succeeds, fails before the span was inserted, or fails after it: with
  \<^verbatim>\<open>WithReadYourWrites\<close> the context may end in \<^verbatim>\<open>Sync\<close>. \<open>ew_late\<close> counts the latter.
\<close>

datatype end_call = Calling | Storing active_span | Failing db_error | Returned "db_error + unit"

record end_world =
  ew_span :: active_span
  ew_calls :: "end_call list"
  ew_stored :: "active_span list"
  ew_late :: nat

inductive end_step :: "end_world \<Rightarrow> end_world \<Rightarrow> bool" where
  step_call: "end_step w (w\<lparr>ew_calls := ew_calls w @ [Calling]\<rparr>)"
| step_set: "end_step w (w\<lparr>ew_span := apply_setter f (ew_span w)\<rparr>)"
| step_begin: "i < length (ew_calls w) \<Longrightarrow> ew_calls w ! i = Calling \<Longrightarrow> begin_End (ew_span w) = (r, s) \<Longrightarrow>
    end_step w (w\<lparr>ew_span := s, ew_calls := (ew_calls w)[i := (case r of None \<Rightarrow> Returned (Inl ErrEnded) | Some c \<Rightarrow> Storing c)]\<rparr>)"
| step_stored: "i < length (ew_calls w) \<Longrightarrow> ew_calls w ! i = Storing c \<Longrightarrow>
    end_step w (w\<lparr>ew_calls := (ew_calls w)[i := Returned (Inr ())], ew_stored := ew_stored w @ [c]\<rparr>)"
| step_failed: "i < length (ew_calls w) \<Longrightarrow> ew_calls w ! i = Storing c \<Longrightarrow>
    end_step w (w\<lparr>ew_calls := (ew_calls w)[i := Failing x]\<rparr>)"
| step_failed_late: "i < length (ew_calls w) \<Longrightarrow> ew_calls w ! i = Storing c \<Longrightarrow>
    end_step w (w\<lparr>ew_calls := (ew_calls w)[i := Failing x], ew_stored := ew_stored w @ [c], ew_late := ew_late w + 1\<rparr>)"
| step_reopen: "i < length (ew_calls w) \<Longrightarrow> ew_calls w ! i = Failing x \<Longrightarrow>
    end_step w (w\<lparr>ew_span := reopen_End (ew_span w), ew_calls := (ew_calls w)[i := Returned (Inl x)]\<rparr>)"

definition started :: "active_span \<Rightarrow> end_world" where
  "started s = \<lparr>ew_span = s, ew_calls = [], ew_stored = [], ew_late = 0\<rparr>"

text \<open>A call that is past its first critical section and not back with an error; one that succeeded.\<close>

fun holds_span :: "end_call \<Rightarrow> bool" where
  "holds_span (Storing c) = True"
| "holds_span (Failing x) = True"
| "holds_span (Returned (Inr _)) = True"
| "holds_span _ = False"

fun succeeded :: "end_call \<Rightarrow> bool" where
  "succeeded (Returned (Inr _)) = True"
| "succeeded _ = False"

text \<open>The ids decide under which key a copy is stored.\<close>

definition span_ids :: "active_span \<Rightarrow> string \<times> string" where
  "span_ids s = (active_TraceID s, active_SpanID s)"

definition end_inv :: "string \<times> string \<Rightarrow> end_world \<Rightarrow> bool" where
  "end_inv ids w \<longleftrightarrow> length (filter holds_span (ew_calls w)) = (if as_ended (ew_span w) then 1 else 0)
     \<and> length (ew_stored w) = length (filter succeeded (ew_calls w)) + ew_late w
     \<and> span_ids (ew_span w) = ids \<and> (\<forall>c. Storing c \<in> set (ew_calls w) \<longrightarrow> span_ids c = ids) \<and> (\<forall>c \<in> set (ew_stored w). span_ids c = ids)"

lemma setter_ids [simp]: "span_ids (apply_setter f s) = span_ids s"
  by (cases f) (auto simp: SetAgent_def SetModel_def SetTool_def SetTeam_def SetTokens_def SetCost_def SetStatus_def
      SetError_def SetAttribute_def active_update_def span_ids_def split: option.split)

lemma ended_ids [simp]: "span_ids (s\<lparr>as_ended := b\<rparr>) = span_ids s"
  by (simp add: span_ids_def)

lemma filter_update:
  assumes "i < length xs"
  shows "length (filter P (xs[i := y])) + (if P (xs ! i) then 1 else 0) = length (filter P xs) + (if P y then 1 else 0)"
proof -
  have "filter P xs = filter P (take i xs @ xs ! i # drop (Suc i) xs)" by (simp only: id_take_nth_drop [OF assms, symmetric])
  also have "\<dots> = filter P (take i xs) @ (if P (xs ! i) then [xs ! i] else []) @ filter P (drop (Suc i) xs)" by simp
  finally have "length (filter P xs) = length (filter P (take i xs) @ (if P (xs ! i) then [xs ! i] else []) @ filter P (drop (Suc i) xs))"
    by (rule arg_cong)
  then have "length (filter P xs) = length (filter P (take i xs)) + (if P (xs ! i) then 1 else 0) + length (filter P (drop (Suc i) xs))"
    by simp
  moreover have "length (filter P (xs[i := y])) = length (filter P (take i xs)) + (if P y then 1 else 0) + length (filter P (drop (Suc i) xs))"
    using assms by (simp add: upd_conv_take_nth_drop)
  ultimately show ?thesis by simp
qed

lemma storing_update: "Storing c \<in> set (xs[i := y]) \<Longrightarrow> Storing c \<in> set xs \<or> y = Storing c"
  using set_update_subset_insert [of xs i y] by auto

lemma end_inv_step: "end_step w w' \<Longrightarrow> end_inv ids w \<Longrightarrow> end_inv ids w'"
proof (induction rule: end_step.induct)
  case (step_begin i w r s)
  have "begin_End (ew_span w) = (r, s) \<Longrightarrow> (\<forall>c. r = Some c \<longrightarrow> span_ids c = span_ids (ew_span w)) \<and> span_ids s = span_ids (ew_span w)"
    by (auto simp: begin_End_def split: if_splits)
  with step_begin show ?case using filter_update [of i "ew_calls w" holds_span] filter_update [of i "ew_calls w" succeeded]
    by (auto simp: end_inv_def begin_End_def split: if_splits dest!: storing_update)
next
  case (step_stored i w c)
  then have "Storing c \<in> set (ew_calls w)" by (metis nth_mem)
  with step_stored show ?case using filter_update [of i "ew_calls w" holds_span "Returned (Inr ())"]
      filter_update [of i "ew_calls w" succeeded "Returned (Inr ())"]
    by (auto simp: end_inv_def dest!: storing_update)
next
  case (step_failed i w c x)
  then show ?case using filter_update [of i "ew_calls w" holds_span "Failing x"] filter_update [of i "ew_calls w" succeeded "Failing x"]
    by (auto simp: end_inv_def dest!: storing_update)
next
  case (step_failed_late i w c x)
  then have "Storing c \<in> set (ew_calls w)" by (metis nth_mem)
  with step_failed_late show ?case using filter_update [of i "ew_calls w" holds_span "Failing x"]
      filter_update [of i "ew_calls w" succeeded "Failing x"]
    by (auto simp: end_inv_def dest!: storing_update)
next
  case (step_reopen i w x)
  then show ?case using filter_update [of i "ew_calls w" holds_span "Returned (Inl x)"] filter_update [of i "ew_calls w" succeeded "Returned (Inl x)"]
    by (auto simp: end_inv_def reopen_End_def split: if_splits dest!: storing_update)
qed (auto simp: end_inv_def)

lemma end_inv_reached: "end_step\<^sup>*\<^sup>* w w' \<Longrightarrow> end_inv ids w \<Longrightarrow> end_inv ids w'"
  by (induction rule: rtranclp_induct) (auto intro: end_inv_step)

definition busy :: "end_call \<Rightarrow> bool" where
  "busy c \<longleftrightarrow> holds_span c \<and> \<not> succeeded c"

lemma busy_iff: "busy c \<longleftrightarrow> (\<exists>a. c = Storing a) \<or> (\<exists>x. c = Failing x)"
  by (cases c rule: holds_span.cases) (auto simp: busy_def)

lemma ended_once:
  assumes "end_step\<^sup>*\<^sup>* (started s) w" "\<not> as_ended s"
  shows "end_inv (span_ids s) w"
    "length (filter succeeded (ew_calls w)) + length (filter busy (ew_calls w)) = (if as_ended (ew_span w) then 1 else 0)"
proof -
  show I: "end_inv (span_ids s) w" using end_inv_reached [OF assms(1)] assms(2) by (simp add: end_inv_def started_def)
  have split: "length (filter succeeded xs) + length (filter busy xs) = length (filter holds_span xs)" for xs
    by (induction xs) (auto simp: busy_def elim: succeeded.elims)
  show "length (filter succeeded (ew_calls w)) + length (filter busy (ew_calls w)) = (if as_ended (ew_span w) then 1 else 0)"
    using I unfolding split by (simp add: end_inv_def)
qed

end
