(* ===== verification/Parse_Float.thy ===== *)
theory Parse_Float
  imports Float64 WT_Prelude
begin

text \<open>
  \<^verbatim>\<open>strconv.ParseFloat(s, 64)\<close>, which \<^verbatim>\<open>otlp.go\<close> applies to the numbers of a request: the
  special values, decimal and hexadecimal mantissas, exponents, underscores. The value is the
  exact rational of the text, rounded once.
\<close>

section \<open>Characters\<close>

definition lower_byte :: "byte \<Rightarrow> byte" where "lower_byte b = or b 32"

definition dec_digit :: "byte \<Rightarrow> bool" where "dec_digit b \<longleftrightarrow> 48 \<le> b \<and> b \<le> 57"
definition hex_letter :: "byte \<Rightarrow> bool" where "hex_letter b \<longleftrightarrow> 97 \<le> lower_byte b \<and> lower_byte b \<le> 102"

section \<open>Special values\<close>

definition lower_string :: "bytes \<Rightarrow> bytes" where
  "lower_string bs = map (\<lambda>b. if 65 \<le> b \<and> b \<le> 90 then b + 32 else b) bs"

definition special_float :: "bytes \<Rightarrow> f64 option" where
  "special_float bs =
     (let signed = (bs \<noteq> [] \<and> hd bs \<in> {43, 45}); w = lower_string (if signed then tl bs else bs) in
      if w = bytes_of ''inf'' \<or> w = bytes_of ''infinity'' then Some (f64_inf (bs \<noteq> [] \<and> hd bs = 45))
      else if \<not> signed \<and> w = bytes_of ''nan'' then Some f64_nan
      else None)"

section \<open>Underscores\<close>

text \<open>Between two digits, or between the prefix of the base and a digit.\<close>

datatype saw = SawStart | SawDigit | SawUnderscore | SawOther

fun underscores_from :: "bool \<Rightarrow> saw \<Rightarrow> bytes \<Rightarrow> bool" where
  "underscores_from hex saw [] = (saw \<noteq> SawUnderscore)"
| "underscores_from hex saw (b # bs) =
     (if dec_digit b \<or> hex \<and> hex_letter b then underscores_from hex SawDigit bs
      else if b = 95 then saw = SawDigit \<and> underscores_from hex SawUnderscore bs
      else saw \<noteq> SawUnderscore \<and> underscores_from hex SawOther bs)"

definition underscoreOK :: "bytes \<Rightarrow> bool" where
  "underscoreOK bs =
     (let bs = (if bs \<noteq> [] \<and> hd bs \<in> {43, 45} then tl bs else bs) in
      if 2 \<le> length bs \<and> bs ! 0 = 48 \<and> lower_byte (bs ! 1) \<in> {98, 111, 120}
      then underscores_from (lower_byte (bs ! 1) = 120) SawDigit (drop 2 bs)
      else underscores_from False SawStart bs)"

section \<open>Reading a number\<close>

record mantissa =
  mt_value :: nat
  mt_places :: nat
  mt_dot :: bool
  mt_digits :: bool
  mt_underscores :: bool

definition no_mantissa :: mantissa where
  "no_mantissa = \<lparr>mt_value = 0, mt_places = 0, mt_dot = False, mt_digits = False, mt_underscores = False\<rparr>"

definition add_digit :: "nat \<Rightarrow> nat \<Rightarrow> mantissa \<Rightarrow> mantissa" where
  "add_digit base d m =
     m\<lparr>mt_value := mt_value m * base + d, mt_places := (if mt_dot m then Suc (mt_places m) else mt_places m), mt_digits := True\<rparr>"

fun read_mantissa :: "bool \<Rightarrow> bytes \<Rightarrow> mantissa \<Rightarrow> mantissa \<times> bytes" where
  "read_mantissa hex [] m = (m, [])"
| "read_mantissa hex (b # bs) m =
     (if b = 95 then read_mantissa hex bs (m\<lparr>mt_underscores := True\<rparr>)
      else if b = 46 then if mt_dot m then (m, b # bs) else read_mantissa hex bs (m\<lparr>mt_dot := True\<rparr>)
      else if dec_digit b then read_mantissa hex bs (add_digit (if hex then 16 else 10) (unat b - 48) m)
      else if hex \<and> hex_letter b then read_mantissa hex bs (add_digit 16 (unat (lower_byte b) - 87) m)
      else (m, b # bs))"

text \<open>Digits beyond an exponent of ten thousand are read and dropped.\<close>

fun read_exponent :: "bytes \<Rightarrow> nat \<Rightarrow> bool \<Rightarrow> nat \<times> bool \<times> bytes" where
  "read_exponent [] e us = (e, us, [])"
| "read_exponent (b # bs) e us =
     (if b = 95 then read_exponent bs e True
      else if dec_digit b then read_exponent bs (if e < 10000 then e * 10 + (unat b - 48) else e) us
      else (e, us, b # bs))"

text \<open>The exponent part: nothing, or a letter, a sign and digits.\<close>

definition exponent_part :: "bool \<Rightarrow> bytes \<Rightarrow> (int \<times> bool \<times> bytes) option" where
  "exponent_part hex bs =
     (if bs \<noteq> [] \<and> lower_byte (hd bs) = (if hex then 112 else 101)
      then let ds = (if tl bs \<noteq> [] \<and> hd (tl bs) \<in> {43, 45} then tl (tl bs) else tl bs) in
           if ds = [] \<or> \<not> dec_digit (hd ds) then None
           else case read_exponent ds 0 False of (e, us, rest) \<Rightarrow>
             Some (if hd (tl bs) = 45 then - int e else int e, us, rest)
      else if hex then None else Some (0, False, bs))"

definition ParseFloat :: "string \<Rightarrow> f64 option" where
  "ParseFloat s =
     (let bs = bytes_of s in
      case special_float bs of
        Some x \<Rightarrow> Some x
      | None \<Rightarrow>
          let neg = (bs \<noteq> [] \<and> hd bs = 45); ds = (if bs \<noteq> [] \<and> hd bs \<in> {43, 45} then tl bs else bs);
              hex = (2 < length ds \<and> ds ! 0 = 48 \<and> lower_byte (ds ! 1) = 120)
          in case read_mantissa hex (if hex then drop 2 ds else ds) no_mantissa of (m, rest) \<Rightarrow>
            if \<not> mt_digits m then None
            else case exponent_part hex rest of
              None \<Rightarrow> None
            | Some (e, us, rest) \<Rightarrow>
                if rest \<noteq> [] \<or> (mt_underscores m \<or> us) \<and> \<not> underscoreOK bs then None
                else let x = (if hex then f64_round neg (mt_value m) 1 (e - 4 * int (mt_places m))
                              else let k = e - int (mt_places m) in
                                f64_round neg (mt_value m * 10 ^ nat k) (10 ^ nat (- k)) 0)
                     in if f64_is_inf x then None else Some x)"

end
