(* ===== verification/Json_Decode.thy ===== *)
theory Json_Decode
  imports Json_Valid Parse_Float Payload
begin

text \<open>
  \<^verbatim>\<open>json.Unmarshal\<close> as \<^verbatim>\<open>otlp.go\<close> uses it: a text that passed the scanner is cut into
  literals, arrays and objects, and the members of an object are laid over the fields of a
  struct. An error anywhere is an error of the whole decoding.
\<close>

section \<open>The tree of a text\<close>

text \<open>A literal is its token; arrays and objects keep their text beside their parts.\<close>

datatype json = JLit bytes | JArr bytes "json list" | JObj bytes "(bytes \<times> json) list"

fun json_raw :: "json \<Rightarrow> bytes" where
  "json_raw (JLit raw) = raw"
| "json_raw (JArr raw _) = raw"
| "json_raw (JObj raw _) = raw"

datatype parse_error = OutOfFuel | Malformed

definition skip_space :: "bytes \<Rightarrow> bytes" where
  "skip_space bs = dropWhile is_space bs"

text \<open>The text of a string up to its closing quote, escapes untouched, and what follows.\<close>

fun string_text :: "bytes \<Rightarrow> bytes \<times> bytes" where
  "string_text [] = ([], [])"
| "string_text (b # bs) =
     (if b = 34 then ([], bs)
      else if b = 92
      then (case bs of [] \<Rightarrow> ([b], []) | c # cs \<Rightarrow> (case string_text cs of (s, rest) \<Rightarrow> (b # c # s, rest)))
      else (case string_text bs of (s, rest) \<Rightarrow> (b # s, rest)))"

definition word_byte :: "byte \<Rightarrow> bool" where
  "word_byte b \<longleftrightarrow> \<not> is_space b \<and> b \<notin> {44, 58, 93, 125}"

definition text_upto :: "bytes \<Rightarrow> bytes \<Rightarrow> bytes" where
  "text_upto bs rest = take (length bs - length rest) bs"

text \<open>The three functions read from the first byte of a value or of a key.\<close>

fun parse_value :: "nat \<Rightarrow> bytes \<Rightarrow> parse_error + json \<times> bytes"
  and parse_items :: "nat \<Rightarrow> bytes \<Rightarrow> parse_error + json list \<times> bytes"
  and parse_members :: "nat \<Rightarrow> bytes \<Rightarrow> parse_error + (bytes \<times> json) list \<times> bytes" where
  "parse_value 0 bs = Inl OutOfFuel"
| "parse_value (Suc n) bs =
     (if bs = [] then Inl Malformed
      else if hd bs = 123
      then let r = skip_space (tl bs) in
        if r \<noteq> [] \<and> hd r = 125 then Inr (JObj (text_upto bs (tl r)) [], tl r)
        else (case parse_members n r of
                Inl x \<Rightarrow> Inl x
              | Inr (ms, rest) \<Rightarrow> Inr (JObj (text_upto bs rest) ms, rest))
      else if hd bs = 91
      then let r = skip_space (tl bs) in
        if r \<noteq> [] \<and> hd r = 93 then Inr (JArr (text_upto bs (tl r)) [], tl r)
        else (case parse_items n r of
                Inl x \<Rightarrow> Inl x
              | Inr (vs, rest) \<Rightarrow> Inr (JArr (text_upto bs rest) vs, rest))
      else if hd bs = 34
      then let rest = snd (string_text (tl bs)) in Inr (JLit (text_upto bs rest), rest)
      else let w = takeWhile word_byte bs in
        if w = [] then Inl Malformed else Inr (JLit w, dropWhile word_byte bs))"
| "parse_items 0 bs = Inl OutOfFuel"
| "parse_items (Suc n) bs =
     (case parse_value n bs of
        Inl x \<Rightarrow> Inl x
      | Inr (v, rest) \<Rightarrow>
          let r = skip_space rest in
          if r = [] then Inl Malformed
          else if hd r = 93 then Inr ([v], tl r)
          else if hd r = 44
          then (case parse_items n (skip_space (tl r)) of Inl x \<Rightarrow> Inl x | Inr (vs, rest) \<Rightarrow> Inr (v # vs, rest))
          else Inl Malformed)"
| "parse_members 0 bs = Inl OutOfFuel"
| "parse_members (Suc n) bs =
     (if bs = [] \<or> hd bs \<noteq> 34 then Inl Malformed
      else case string_text (tl bs) of (key, rest) \<Rightarrow>
        let r = skip_space rest in
        if r = [] \<or> hd r \<noteq> 58 then Inl Malformed
        else (case parse_value n (skip_space (tl r)) of
                Inl x \<Rightarrow> Inl x
              | Inr (v, rest) \<Rightarrow>
                  let r = skip_space rest in
                  if r = [] then Inl Malformed
                  else if hd r = 125 then Inr ([(key, v)], tl r)
                  else if hd r = 44
                  then (case parse_members n (skip_space (tl r)) of
                          Inl x \<Rightarrow> Inl x
                        | Inr (ms, rest) \<Rightarrow> Inr ((key, v) # ms, rest))
                  else Inl Malformed))"

definition json_tree :: "bytes \<Rightarrow> json option" where
  "json_tree data =
     (if \<not> json_Valid data then None
      else case parse_value (2 * length data + 1) (skip_space data) of Inl _ \<Rightarrow> None | Inr (v, _) \<Rightarrow> Some v)"

section \<open>Strings\<close>

definition utf8_encode :: "nat \<Rightarrow> bytes" where
  "utf8_encode r =
     (if r < 0x80 then [word_of_nat r]
      else if r < 0x800 then [word_of_nat (0xC0 + r div 0x40), word_of_nat (0x80 + r mod 0x40)]
      else if r < 0x10000
      then [word_of_nat (0xE0 + r div 0x1000), word_of_nat (0x80 + r div 0x40 mod 0x40), word_of_nat (0x80 + r mod 0x40)]
      else [word_of_nat (0xF0 + r div 0x40000), word_of_nat (0x80 + r div 0x1000 mod 0x40),
            word_of_nat (0x80 + r div 0x40 mod 0x40), word_of_nat (0x80 + r mod 0x40)])"

definition hex_value :: "byte \<Rightarrow> nat" where
  "hex_value b = (if is_digit b then unat b - 48 else if 97 \<le> b then unat b - 87 else unat b - 55)"

text \<open>\<^verbatim>\<open>getu4\<close>: the rune of an escape \<open>\uXXXX\<close> at the front.\<close>

definition getu4 :: "bytes \<Rightarrow> nat option" where
  "getu4 bs =
     (if 6 \<le> length bs \<and> bs ! 0 = 92 \<and> bs ! 1 = 117 \<and> list_all is_hex (take 4 (drop 2 bs))
      then Some (foldl (\<lambda>n b. 16 * n + hex_value b) 0 (take 4 (drop 2 bs)))
      else None)"

definition surrogate_pair :: "nat \<Rightarrow> nat option \<Rightarrow> nat option" where
  "surrogate_pair hi lo =
     (case lo of
        None \<Rightarrow> None
      | Some l \<Rightarrow>
          if 0xD800 \<le> hi \<and> hi < 0xDC00 \<and> 0xDC00 \<le> l \<and> l < 0xE000
          then Some (0x10000 + (hi - 0xD800) * 0x400 + (l - 0xDC00)) else None)"

definition escape_byte :: "byte \<Rightarrow> byte" where
  "escape_byte c =
     (if c = 98 then 8 else if c = 102 then 12 else if c = 110 then 10 else if c = 114 then 13 else if c = 116 then 9 else c)"

fun unquote_bytes :: "bytes \<Rightarrow> bytes" where
  "unquote_bytes [] = []"
| "unquote_bytes (b # bs) =
     (if b = 92
      then (case getu4 (b # bs) of
              Some r \<Rightarrow>
                if 0xD800 \<le> r \<and> r < 0xE000
                then (case surrogate_pair r (getu4 (drop 5 bs)) of
                        Some p \<Rightarrow> utf8_encode p @ unquote_bytes (drop 11 bs)
                      | None \<Rightarrow> utf8_encode 0xFFFD @ unquote_bytes (drop 5 bs))
                else utf8_encode r @ unquote_bytes (drop 5 bs)
            | None \<Rightarrow> (case bs of [] \<Rightarrow> [] | c # cs \<Rightarrow> escape_byte c # unquote_bytes cs))
      else if b < 0x80 then b # unquote_bytes bs
      else let n = utf8_len (b # bs) in
        if n = 1 then utf8_encode 0xFFFD @ unquote_bytes bs else take n (b # bs) @ unquote_bytes (drop (n - 1) bs))"

text \<open>The string of a string token with its quotes.\<close>

definition token_string :: "bytes \<Rightarrow> string" where
  "token_string raw = string_of (unquote_bytes (fst (string_text (tl raw))))"

section \<open>Fields\<close>

text \<open>
  Names are compared without regard to case; U+017F and U+212A are the characters outside ASCII
  that fold to a letter of it.
\<close>

fun fold_name :: "bytes \<Rightarrow> bytes" where
  "fold_name [] = []"
| "fold_name (b # bs) =
     (if 97 \<le> b \<and> b \<le> 122 then (b - 32) # fold_name bs
      else if take 2 (b # bs) = [0xC5, 0xBF] then 83 # fold_name (drop 1 bs)
      else if take 3 (b # bs) = [0xE2, 0x84, 0xAA] then 75 # fold_name (drop 2 bs)
      else b # fold_name bs)"

definition names_field :: "bytes \<Rightarrow> string \<Rightarrow> bool" where
  "names_field key tag \<longleftrightarrow> fold_name (unquote_bytes key) = fold_name (bytes_of tag)"

definition is_null :: "bytes \<Rightarrow> bool" where "is_null raw \<longleftrightarrow> raw \<noteq> [] \<and> hd raw = 110"
definition is_string :: "bytes \<Rightarrow> bool" where "is_string raw \<longleftrightarrow> raw \<noteq> [] \<and> hd raw = 34"
definition is_bool :: "bytes \<Rightarrow> bool" where "is_bool raw \<longleftrightarrow> raw \<noteq> [] \<and> hd raw \<in> {116, 102}"

text \<open>A decoder takes the value that is there and gives the new one.\<close>

type_synonym 'a decoder = "json \<Rightarrow> 'a \<Rightarrow> 'a option"

fun into_string :: "string decoder" where
  "into_string (JLit raw) old = (if is_null raw then Some old else if is_string raw then Some (token_string raw) else None)"
| "into_string _ old = None"

fun into_float :: "f64 decoder" where
  "into_float (JLit raw) old =
     (if is_null raw then Some old else if is_string raw \<or> is_bool raw then None else ParseFloat (string_of raw))"
| "into_float _ old = None"

fun into_bool :: "bool decoder" where
  "into_bool (JLit raw) old = (if is_null raw then Some old else if is_bool raw then Some (hd raw = 116) else None)"
| "into_bool _ old = None"

text \<open>Into a pointer: \<^verbatim>\<open>null\<close> is the nil pointer, anything else goes to what it points to.\<close>

definition into_pointer :: "'a \<Rightarrow> 'a decoder \<Rightarrow> 'a option decoder" where
  "into_pointer zero f j old =
     (case j of
        JLit raw \<Rightarrow> if is_null raw then Some None else map_option Some (f j (case old of None \<Rightarrow> zero | Some x \<Rightarrow> x))
      | _ \<Rightarrow> map_option Some (f j (case old of None \<Rightarrow> zero | Some x \<Rightarrow> x)))"

text \<open>A slice is its backing array and its length: elements that are there are decoded into.\<close>

type_synonym 'a slice = "'a list \<times> nat"

definition elements :: "'a slice \<Rightarrow> 'a list" where "elements s = take (snd s) (fst s)"

fun into_elements :: "'a \<Rightarrow> 'a decoder \<Rightarrow> json list \<Rightarrow> 'a list \<Rightarrow> 'a list option" where
  "into_elements zero f [] old = Some old"
| "into_elements zero f (j # js) old =
     (case f j (case old of [] \<Rightarrow> zero | x # _ \<Rightarrow> x) of
        None \<Rightarrow> None
      | Some y \<Rightarrow> map_option ((#) y) (into_elements zero f js (tl old)))"

definition into_slice :: "'a \<Rightarrow> 'a decoder \<Rightarrow> 'a slice decoder" where
  "into_slice zero f j old =
     (case j of
        JLit raw \<Rightarrow> if is_null raw then Some ([], 0) else None
      | JObj _ _ \<Rightarrow> None
      | JArr _ js \<Rightarrow>
          if js = [] then Some ([], 0)
          else map_option (\<lambda>xs. (xs, length js)) (into_elements zero f js (fst old)))"

fun into_fields :: "(string \<times> 'a decoder) list \<Rightarrow> (bytes \<times> json) list \<Rightarrow> 'a \<Rightarrow> 'a option" where
  "into_fields fs [] old = Some old"
| "into_fields fs ((key, j) # ms) old =
     (case find (\<lambda>(tag, f). names_field key tag) fs of
        None \<Rightarrow> into_fields fs ms old
      | Some (tag, f) \<Rightarrow> (case f j old of None \<Rightarrow> None | Some x \<Rightarrow> into_fields fs ms x))"

definition into_struct :: "(string \<times> 'a decoder) list \<Rightarrow> 'a decoder" where
  "into_struct fs j old =
     (case j of
        JLit raw \<Rightarrow> if is_null raw then Some old else None
      | JArr _ _ \<Rightarrow> None
      | JObj _ ms \<Rightarrow> into_fields fs ms old)"

definition json_Unmarshal :: "'a decoder \<Rightarrow> bytes \<Rightarrow> 'a \<Rightarrow> 'a option" where
  "json_Unmarshal f data old = (case json_tree data of None \<Rightarrow> None | Some j \<Rightarrow> f j old)"

section \<open>The fuel is enough\<close>

lemma length_skip: "length (skip_space bs) \<le> length bs"
  by (simp add: skip_space_def length_dropWhile_le)

lemma length_string_text: "length (snd (string_text bs)) \<le> length bs"
proof (induction bs rule: string_text.induct)
  case (2 b bs)
  then show ?case by (cases bs) (auto simp: split_beta)
qed simp

lemma length_dropWhile_less: "takeWhile P bs \<noteq> [] \<Longrightarrow> length (dropWhile P bs) < length bs"
  by (cases bs) (auto simp: length_dropWhile_le less_Suc_eq_le split: if_splits)

lemma skip_shorter:
  assumes "length bs < n"
  shows "length (skip_space bs) < n" "length (tl (skip_space bs)) < n" "length (skip_space (tl (skip_space bs))) < n"
proof -
  note 1 = length_skip [of bs] and 2 = length_skip [of "tl (skip_space bs)"]
  show "length (skip_space bs) < n" using 1 assms by linarith
  show 3: "length (tl (skip_space bs)) < n" using 1 assms by simp
  show "length (skip_space (tl (skip_space bs))) < n" using 2 3 by linarith
qed

lemma rest_shorter:
  "parse_value n bs = Inr (v, rest) \<Longrightarrow> length rest < length bs"
  "parse_items n bs = Inr (vs, rest) \<Longrightarrow> length rest < length bs"
  "parse_members n bs = Inr (ms, rest) \<Longrightarrow> length rest < length bs"
proof (induction n bs and n bs and n bs arbitrary: v rest and vs rest and ms rest rule: parse_value_parse_items_parse_members.induct)
  case (2 n bs)
  let ?r = "skip_space (tl bs)"
  from 2(3) have bs: "bs \<noteq> []" by auto
  then have r: "length ?r < length bs" "length (tl ?r) < length bs" using skip_shorter [of "tl bs" "length bs"] by auto
  consider "hd bs = 123" | "hd bs = 91" | "hd bs = 34" | "hd bs \<notin> {123, 91, 34}" by auto
  then show ?case
  proof cases
    case 1
    show ?thesis
    proof (cases "?r \<noteq> [] \<and> hd ?r = 125")
      case True
      with 2(3) bs 1 r show ?thesis by (simp add: Let_def)
    next
      case False
      then obtain ms where "parse_members n ?r = Inr (ms, rest)" using 2(3) bs 1 by (auto simp: Let_def split: sum.splits)
      from 2(1) [OF bs 1 refl False this] r show ?thesis by simp
    qed
  next
    case 2
    show ?thesis
    proof (cases "?r \<noteq> [] \<and> hd ?r = 93")
      case True
      with \<open>parse_value (Suc n) bs = Inr (v, rest)\<close> bs 2 r show ?thesis by (simp add: Let_def)
    next
      case False
      then obtain vs where "parse_items n ?r = Inr (vs, rest)"
        using \<open>parse_value (Suc n) bs = Inr (v, rest)\<close> bs 2 by (auto simp: Let_def split: sum.splits)
      from "2.IH"(2) [OF bs _ 2 refl False this] 2 r show ?thesis by simp
    qed
  next
    case 3
    then have "rest = snd (string_text (tl bs))" using 2(3) bs by (simp add: Let_def)
    with length_string_text [of "tl bs"] bs show ?thesis by (cases bs) auto
  next
    case 4
    with 2(3) bs length_dropWhile_less [of word_byte bs] show ?thesis by (auto simp: Let_def split: if_splits)
  qed
next
  case (4 n bs)
  obtain v r0 where V: "parse_value n bs = Inr (v, r0)" using 4(3) by (auto split: sum.splits)
  have l: "length r0 < length bs" using 4(1) [OF V] .
  let ?r = "skip_space r0"
  have ne: "?r \<noteq> []" using 4(3) V by (auto simp: Let_def)
  show ?case
  proof (cases "hd ?r = 93")
    case True
    with 4(3) V ne skip_shorter(2) [OF l] show ?thesis by (simp add: Let_def)
  next
    case False
    then have c: "hd ?r = 44" using 4(3) V ne by (auto simp: Let_def split: if_splits)
    with False obtain vs' where "parse_items n (skip_space (tl ?r)) = Inr (vs', rest)" using 4(3) V ne by (auto simp: Let_def split: sum.splits)
    from 4(2) [OF V refl refl ne False c this] skip_shorter(3) [OF l] show ?thesis by linarith
  qed
next
  case (6 n bs)
  have bs: "bs \<noteq> []" "hd bs = 34" using 6(3) by (auto split: if_splits)
  obtain k r0 where K: "string_text (tl bs) = (k, r0)" by fastforce
  have l: "length r0 < length bs" using length_string_text [of "tl bs"] K bs(1) by (cases bs) auto
  let ?r = "skip_space r0"
  have c: "?r \<noteq> []" "hd ?r = 58" using 6(3) bs K by (auto simp: Let_def split: if_splits)
  obtain v r1 where V: "parse_value n (skip_space (tl ?r)) = Inr (v, r1)" using 6(3) bs K c by (auto simp: Let_def split: sum.splits)
  have "length r1 < length (skip_space (tl ?r))" using 6(1) [OF _ K [symmetric] refl _ V] bs c by simp
  with skip_shorter(3) [OF l] have l1: "length r1 < length bs" by linarith
  let ?q = "skip_space r1"
  have ne: "?q \<noteq> []" using 6(3) bs K c V by (auto simp: Let_def)
  show ?case
  proof (cases "hd ?q = 125")
    case True
    with 6(3) bs K c V ne skip_shorter(2) [OF l1] show ?thesis by (simp add: Let_def)
  next
    case False
    then have d: "hd ?q = 44" using 6(3) bs K c V ne by (auto simp: Let_def split: if_splits)
    with False obtain ms' where "parse_members n (skip_space (tl ?q)) = Inr (ms', rest)"
      using 6(3) bs K c V ne by (auto simp: Let_def split: sum.splits)
    from 6(2) [OF _ K [symmetric] refl _ V refl refl ne False d this] bs c skip_shorter(3) [OF l1] show ?thesis by simp
  qed
qed simp_all

lemma enough_fuel:
  "2 * length bs < n \<Longrightarrow> parse_value n bs \<noteq> Inl OutOfFuel"
  "2 * length bs + 1 < n \<Longrightarrow> parse_items n bs \<noteq> Inl OutOfFuel"
  "2 * length bs + 1 < n \<Longrightarrow> parse_members n bs \<noteq> Inl OutOfFuel"
proof (induction n bs and n bs and n bs rule: parse_value_parse_items_parse_members.induct)
  case (2 n bs)
  let ?r = "skip_space (tl bs)"
  show ?case
  proof
    assume E: "parse_value (Suc n) bs = Inl OutOfFuel"
    then have bs: "bs \<noteq> []" by auto
    then have "length ?r < length bs" using skip_shorter(1) [of "tl bs" "length bs"] by simp
    with 2(3) have f: "2 * length ?r + 1 < n" by linarith
    show False
    proof (cases "hd bs = 123")
      case True
      with E bs have "\<not> (?r \<noteq> [] \<and> hd ?r = 125)" "parse_members n ?r = Inl OutOfFuel" by (auto simp: Let_def split: if_splits sum.splits)
      with 2(1) [OF bs True refl _ f] show False by simp
    next
      case False
      then have a: "hd bs = 91" using E bs by (auto simp: Let_def split: if_splits)
      with E bs False have "\<not> (?r \<noteq> [] \<and> hd ?r = 93)" "parse_items n ?r = Inl OutOfFuel" by (auto simp: Let_def split: if_splits sum.splits)
      with 2(2) [OF bs False a refl _ f] show False by simp
    qed
  qed
next
  case (4 n bs)
  show ?case
  proof (cases "parse_value n bs")
    case (Inl x)
    with 4(1,3) show ?thesis by simp
  next
    case (Inr vr)
    obtain v r0 where V: "parse_value n bs = Inr (v, r0)" using Inr by (cases vr) auto
    note l = rest_shorter(1) [OF V]
    let ?r = "skip_space r0"
    have f: "2 * length (skip_space (tl ?r)) + 1 < n" using skip_shorter(3) [OF l] 4(3) by linarith
    show ?thesis
    proof (cases "?r \<noteq> [] \<and> hd ?r = 44")
      case True
      then have ne: "?r \<noteq> []" "hd ?r \<noteq> 93" "hd ?r = 44" by auto
      from 4(2) [OF V refl refl ne f] V ne show ?thesis by (auto simp: Let_def split: sum.splits)
    next
      case False
      with V show ?thesis by (auto simp: Let_def)
    qed
  qed
next
  case (6 n bs)
  show ?case
  proof
    assume E: "parse_members (Suc n) bs = Inl OutOfFuel"
    obtain k r0 where K: "string_text (tl bs) = (k, r0)" by fastforce
    let ?r = "skip_space r0"
    have bs: "\<not> (bs = [] \<or> hd bs \<noteq> 34)" using E by (auto split: if_splits)
    then have c: "\<not> (?r = [] \<or> hd ?r \<noteq> 58)" using E K by (auto simp: Let_def split: if_splits)
    have l: "length r0 < length bs" using length_string_text [of "tl bs"] K bs by (cases bs) auto
    have f: "2 * length (skip_space (tl ?r)) < n" using skip_shorter(3) [OF l] 6(3) by linarith
    have "parse_value n (skip_space (tl ?r)) \<noteq> Inl OutOfFuel" by (rule 6(1) [OF bs K [symmetric] refl c f])
    then obtain v r1 where V: "parse_value n (skip_space (tl ?r)) = Inr (v, r1)"
      using E bs K c by (cases "parse_value n (skip_space (tl ?r))") (auto simp: Let_def)
    have l1: "length r1 < length bs" using rest_shorter(1) [OF V] skip_shorter(3) [OF l] by linarith
    let ?q = "skip_space r1"
    have d: "?q \<noteq> []" "hd ?q \<noteq> 125" "hd ?q = 44" using E bs K c V by (auto simp: Let_def split: if_splits)
    have f1: "2 * length (skip_space (tl ?q)) + 1 < n" using skip_shorter(3) [OF l1] 6(3) by linarith
    from 6(2) [OF bs K [symmetric] refl c V refl refl d f1] E bs K c V d show False by (auto simp: Let_def split: sum.splits)
  qed
qed simp_all

end
