(* ===== verification/Otlp.thy ===== *)
theory Otlp
  imports Public_Spec Payload Json_Decode "HOL-Library.AList"
begin

text \<open>
  The OTLP/JSON door (\<^verbatim>\<open>otlp.go\<close>): the shapes of a request and their decoding, the readings of
  an attribute value, the mapping of a span, \<^verbatim>\<open>IngestOTLP\<close>. A \<open>Reason\<close> keeps a token without
  the quotes of \<open>%q\<close>.
\<close>

section \<open>Numbers in requests\<close>

text \<open>
  A token has no byte beyond ASCII at its ends and no space around it but the four of JSON.
\<close>

definition trim :: "(byte \<Rightarrow> bool) \<Rightarrow> bytes \<Rightarrow> bytes" where
  "trim P bs = rev (dropWhile P (rev (dropWhile P bs)))"

definition numLike_UnmarshalJSON :: "bytes \<Rightarrow> string" where
  "numLike_UnmarshalJSON raw =
     (let s = trim is_space raw in if s = bytes_of ''null'' then [] else string_of (trim (\<lambda>b. b = 34) s))"

definition numLike_int64 :: "string \<Rightarrow> i64 option" where
  "numLike_int64 n =
     (if n = [] then Some 0
      else case go_Atoi n of
        Some v \<Rightarrow> Some v
      | None \<Rightarrow>
          (case ParseFloat n of
             None \<Rightarrow> None
           | Some f \<Rightarrow>
               if f64_lt f (f64_of_int (- (2 ^ 63))) \<or> f64_lt (f64_of_int (2 ^ 63)) f then None else Some (f64_to_i64 f)))"

section \<open>Shapes\<close>

record any_value =
  av_StringValue :: "string option"
  av_IntValue :: "string option"
  av_DoubleValue :: "f64 option"
  av_BoolValue :: "bool option"
  av_ArrayValue :: bytes
  av_KvlistValue :: bytes

definition no_value :: any_value where
  "no_value = \<lparr>av_StringValue = None, av_IntValue = None, av_DoubleValue = None, av_BoolValue = None,
     av_ArrayValue = [], av_KvlistValue = []\<rparr>"

record key_value =
  kv_Key :: string
  kv_Value :: any_value

record otlp_span =
  os_TraceID :: string
  os_SpanID :: string
  os_ParentSpanID :: string
  os_Name :: string
  os_StartTimeUnixNano :: string
  os_EndTimeUnixNano :: string
  os_Attributes :: "key_value slice"
  os_StatusCode :: bytes
  os_StatusMessage :: string

definition no_otlp_span :: otlp_span where
  "no_otlp_span = \<lparr>os_TraceID = [], os_SpanID = [], os_ParentSpanID = [], os_Name = [], os_StartTimeUnixNano = [],
     os_EndTimeUnixNano = [], os_Attributes = ([], 0), os_StatusCode = [], os_StatusMessage = []\<rparr>"

record resource_spans =
  rs_Attributes :: "key_value slice"
  rs_ScopeSpans :: "otlp_span slice slice"

type_synonym otlp_request = "resource_spans slice"

section \<open>Decoding\<close>

definition into_raw :: "bytes decoder" where
  "into_raw j old = Some (json_raw j)"

definition into_numLike :: "string decoder" where
  "into_numLike j old = Some (numLike_UnmarshalJSON (json_raw j))"

text \<open>A decoder for one field of a record.\<close>

definition into_field :: "('r \<Rightarrow> 'a) \<Rightarrow> (('a \<Rightarrow> 'a) \<Rightarrow> 'r \<Rightarrow> 'r) \<Rightarrow> 'a decoder \<Rightarrow> 'r decoder" where
  "into_field get upd f j r = map_option (\<lambda>x. upd (\<lambda>_. x) r) (f j (get r))"

definition into_anyValue :: "any_value decoder" where
  "into_anyValue = into_struct
     [(''stringValue'', into_field av_StringValue av_StringValue_update (into_pointer [] into_string)),
      (''intValue'', into_field av_IntValue av_IntValue_update (into_pointer [] into_numLike)),
      (''doubleValue'', into_field av_DoubleValue av_DoubleValue_update (into_pointer 0 into_float)),
      (''boolValue'', into_field av_BoolValue av_BoolValue_update (into_pointer False into_bool)),
      (''arrayValue'', into_field av_ArrayValue av_ArrayValue_update into_raw),
      (''kvlistValue'', into_field av_KvlistValue av_KvlistValue_update into_raw)]"

definition into_keyValue :: "key_value decoder" where
  "into_keyValue = into_struct
     [(''key'', into_field kv_Key kv_Key_update into_string),
      (''value'', into_field kv_Value kv_Value_update into_anyValue)]"

abbreviation into_attributes :: "key_value slice decoder" where
  "into_attributes \<equiv> into_slice \<lparr>kv_Key = [], kv_Value = no_value\<rparr> into_keyValue"

definition into_otlpSpan :: "otlp_span decoder" where
  "into_otlpSpan = into_struct
     [(''traceId'', into_field os_TraceID os_TraceID_update into_string),
      (''spanId'', into_field os_SpanID os_SpanID_update into_string),
      (''parentSpanId'', into_field os_ParentSpanID os_ParentSpanID_update into_string),
      (''name'', into_field os_Name os_Name_update into_string),
      (''startTimeUnixNano'', into_field os_StartTimeUnixNano os_StartTimeUnixNano_update into_numLike),
      (''endTimeUnixNano'', into_field os_EndTimeUnixNano os_EndTimeUnixNano_update into_numLike),
      (''attributes'', into_field os_Attributes os_Attributes_update into_attributes),
      (''status'', into_struct
         [(''code'', into_field os_StatusCode os_StatusCode_update into_raw),
          (''message'', into_field os_StatusMessage os_StatusMessage_update into_string)])]"

definition into_resourceSpans :: "resource_spans decoder" where
  "into_resourceSpans = into_struct
     [(''resource'', into_struct [(''attributes'', into_field rs_Attributes rs_Attributes_update into_attributes)]),
      (''scopeSpans'', into_field rs_ScopeSpans rs_ScopeSpans_update
         (into_slice ([], 0) (into_struct [(''spans'', into_slice no_otlp_span into_otlpSpan)])))]"

definition into_otlpRequest :: "otlp_request decoder" where
  "into_otlpRequest = into_struct
     [(''resourceSpans'', into_slice \<lparr>rs_Attributes = ([], 0), rs_ScopeSpans = ([], 0)\<rparr> into_resourceSpans)]"

section \<open>Reading a value\<close>

definition asString :: "any_value \<Rightarrow> string option" where
  "asString v = (case av_StringValue v of Some s \<Rightarrow> Some s | None \<Rightarrow> av_IntValue v)"

definition asInt :: "any_value \<Rightarrow> i64 option" where
  "asInt v =
     (case av_IntValue v of
        Some n \<Rightarrow> numLike_int64 n
      | None \<Rightarrow>
          (case av_DoubleValue v of
             Some x \<Rightarrow> Some (f64_to_i64 x)
           | None \<Rightarrow> (case av_StringValue v of Some s \<Rightarrow> go_Atoi s | None \<Rightarrow> None)))"

definition asFloat :: "any_value \<Rightarrow> f64 option" where
  "asFloat v =
     (case av_DoubleValue v of
        Some x \<Rightarrow> Some x
      | None \<Rightarrow>
          (case av_IntValue v of
             Some n \<Rightarrow> map_option (\<lambda>i. f64_of_int (sint i)) (numLike_int64 n)
           | None \<Rightarrow> (case av_StringValue v of Some s \<Rightarrow> ParseFloat s | None \<Rightarrow> None)))"

definition toJSON :: "any_value \<Rightarrow> go_value" where
  "toJSON v =
     (case av_StringValue v of
        Some s \<Rightarrow> GoString s
      | None \<Rightarrow>
          (case av_IntValue v of
             Some n \<Rightarrow> (case numLike_int64 n of Some i \<Rightarrow> GoInt i | None \<Rightarrow> GoString n)
           | None \<Rightarrow>
               (case av_DoubleValue v of
                  Some x \<Rightarrow> GoFloat x
                | None \<Rightarrow>
                    (case av_BoolValue v of
                       Some b \<Rightarrow> GoBool b
                     | None \<Rightarrow>
                         if av_ArrayValue v \<noteq> [] then GoRaw (av_ArrayValue v)
                         else if av_KvlistValue v \<noteq> [] then GoRaw (av_KvlistValue v)
                         else GoNil))))"

section \<open>Attributes\<close>

definition modelKeys :: "string list" where "modelKeys = [''gen_ai.response.model'', ''gen_ai.request.model'']"
definition tokensInKeys :: "string list" where "tokensInKeys = [''gen_ai.usage.input_tokens'', ''gen_ai.usage.prompt_tokens'']"
definition tokensOutKey :: "string list" where "tokensOutKey = [''gen_ai.usage.output_tokens'', ''gen_ai.usage.completion_tokens'']"
definition agentKeys :: "string list" where "agentKeys = [''gen_ai.agent.id'', ''gen_ai.agent.name'']"
definition toolKeys :: "string list" where "toolKeys = [''gen_ai.tool.name'']"
definition teamKeys :: "string list" where "teamKeys = [''wisp.team'']"
definition costKeys :: "string list" where "costKeys = [''wisp.cost_usd'']"

definition consumed :: "string \<Rightarrow> bool" where
  "consumed key = list_ex (\<lambda>ks. List.member ks key) [modelKeys, tokensInKeys, tokensOutKey, agentKeys, toolKeys, teamKeys, costKeys]"

definition attrMap :: "key_value list \<Rightarrow> (string \<times> any_value) list" where
  "attrMap kvs = foldl (\<lambda>m kv. AList.update (kv_Key kv) (kv_Value kv) m) [] kvs"

fun firstString :: "(string \<times> any_value) list \<Rightarrow> string list \<Rightarrow> string" where
  "firstString m [] = []"
| "firstString m (k # ks) =
     (case Option.bind (map_of m k) asString of
        Some s \<Rightarrow> if s \<noteq> [] then s else firstString m ks
      | None \<Rightarrow> firstString m ks)"

fun firstInt :: "(string \<times> any_value) list \<Rightarrow> string list \<Rightarrow> i64 option" where
  "firstInt m [] = None"
| "firstInt m (k # ks) = (case Option.bind (map_of m k) asInt of Some n \<Rightarrow> Some n | None \<Rightarrow> firstInt m ks)"

fun lastFloat :: "(string \<times> any_value) list \<Rightarrow> string list \<Rightarrow> f64 \<Rightarrow> f64" where
  "lastFloat m [] x = x"
| "lastFloat m (k # ks) x = lastFloat m ks (case Option.bind (map_of m k) asFloat of Some f \<Rightarrow> f | None \<Rightarrow> x)"

definition clampInt32 :: "i64 \<Rightarrow> i32" where
  "clampInt32 n = (if 0x7FFFFFFF <s n then 0x7FFFFFFF else if n <s 0 then - 1 else ucast n)"

text \<open>\<^verbatim>\<open>strings.ToUpper\<close> as far as the suffixes below can tell: none of their letters has a lower case outside ASCII.\<close>

definition ToUpper :: "bytes \<Rightarrow> bytes" where
  "ToUpper bs = map (\<lambda>b. if 97 \<le> b \<and> b \<le> 122 then b - 32 else b) bs"

definition statusFrom :: "bytes \<Rightarrow> string" where
  "statusFrom raw =
     (let s = string_of (ToUpper (trim (\<lambda>b. b = 34) (trim is_space raw))) in
      if s = ''1'' \<or> has_suffix s ''OK'' then StatusOK
      else if s = ''2'' \<or> has_suffix s ''ERROR'' then StatusError
      else StatusUnset)"

section \<open>Mapping a span\<close>

definition extra_attributes :: "key_value list \<Rightarrow> (string \<times> go_value) list" where
  "extra_attributes kvs =
     foldl (\<lambda>m kv. if consumed (kv_Key kv) then m else AList.update (kv_Key kv) (toJSON (kv_Value kv)) m) [] kvs"

definition not_integer :: "string \<Rightarrow> string \<Rightarrow> db_error" where
  "not_integer field n = ErrInvalidSpan \<lparr>ve_Field = field, ve_Reason = n @ '' is not an integer''\<rparr>"

definition mapSpan :: "(string \<times> any_value) list \<Rightarrow> otlp_span \<Rightarrow> db_error + span" where
  "mapSpan resource s =
     (case numLike_int64 (os_StartTimeUnixNano s) of
        None \<Rightarrow> Inl (not_integer ''startTimeUnixNano'' (os_StartTimeUnixNano s))
      | Some start \<Rightarrow>
      case numLike_int64 (os_EndTimeUnixNano s) of
        None \<Rightarrow> Inl (not_integer ''endTimeUnixNano'' (os_EndTimeUnixNano s))
      | Some stop \<Rightarrow>
          let dur = (if start <s stop \<and> 0 <s start then stop - start else 0);
              kvs = elements (os_Attributes s); attrs = attrMap kvs;
              team = firstString attrs teamKeys;
              team = (if team = [] then firstString resource (teamKeys @ [''service.namespace'']) else team)
          in case buildPayload (os_Name s) (os_StatusMessage s) (extra_attributes kvs) of
               Inl x \<Rightarrow> Inl x
             | Inr payload \<Rightarrow>
                 Inr \<lparr>sp_TraceID = os_TraceID s, sp_SpanID = os_SpanID s, sp_ParentSpanID = os_ParentSpanID s,
                   sp_Start = Unix_nano start, sp_Duration = dur, sp_Agent = firstString attrs agentKeys,
                   sp_Model = firstString attrs modelKeys, sp_Tool = firstString attrs toolKeys, sp_Team = team,
                   sp_Status = statusFrom (os_StatusCode s),
                   sp_TokensIn = (case firstInt attrs tokensInKeys of Some n \<Rightarrow> clampInt32 n | None \<Rightarrow> 0),
                   sp_TokensOut = (case firstInt attrs tokensOutKey of Some n \<Rightarrow> clampInt32 n | None \<Rightarrow> 0),
                   sp_CostUSD = lastFloat attrs costKeys 0, sp_Payload = payload\<rparr>)"

section \<open>Ingestion\<close>

definition MaxOTLPBytes :: nat where "MaxOTLPBytes = 16 * 2 ^ 20"

text \<open>A reader is what it yields and whether it then fails.\<close>

record reader =
  rd_data :: bytes
  rd_fails :: bool

definition read_limited :: "reader \<Rightarrow> bytes option" where
  "read_limited r =
     (if rd_fails r \<and> length (rd_data r) < MaxOTLPBytes + 1 then None else Some (take (MaxOTLPBytes + 1) (rd_data r)))"

text \<open>The spans in request order, each with the attributes of its resource.\<close>

definition request_spans :: "otlp_request \<Rightarrow> ((string \<times> any_value) list \<times> otlp_span) list" where
  "request_spans req =
     concat (map (\<lambda>rs. let resource = attrMap (elements (rs_Attributes rs)) in
       concat (map (\<lambda>ss. map (\<lambda>sp. (resource, sp)) (elements ss)) (elements (rs_ScopeSpans rs)))) (elements req))"

record mapped_spans =
  ms_spans :: "span list"
  ms_origin :: "nat list"
  ms_rejected :: "rejection list"

fun map_spans :: "nat \<Rightarrow> ((string \<times> any_value) list \<times> otlp_span) list \<Rightarrow> mapped_spans \<Rightarrow> mapped_spans" where
  "map_spans n [] m = m"
| "map_spans n ((resource, sp) # rest) m =
     map_spans (Suc n) rest
       (case mapSpan resource sp of
          Inl x \<Rightarrow> m\<lparr>ms_rejected := ms_rejected m @ [\<lparr>rj_Index = int n, rj_Err = x\<rparr>]\<rparr>
        | Inr s \<Rightarrow> m\<lparr>ms_spans := ms_spans m @ [s], ms_origin := ms_origin m @ [n]\<rparr>)"

definition rejection_less :: "rejection \<Rightarrow> rejection \<Rightarrow> bool" where
  "rejection_less a b \<longleftrightarrow> rj_Index a < rj_Index b"

definition IngestOTLP ::
    "(f64 \<Rightarrow> f64) \<Rightarrow> 'k kv \<Rightarrow> i64 \<Rightarrow> bool \<Rightarrow> ctx \<Rightarrow> (nat \<Rightarrow> ctx) \<Rightarrow> ctx \<times> ctx \<Rightarrow> reader \<Rightarrow> 'k wisp_db \<Rightarrow>
       (batch_result \<times> db_error option) \<times> 'k wisp_db" where
  "IngestOTLP Log K now pick c cs sync r db =
     (case db_check c db of
        Some x \<Rightarrow> ((no_batch, Some x), db)
      | None \<Rightarrow>
      case read_limited r of
        None \<Rightarrow> ((no_batch, Some ErrReadRequest), db)
      | Some body \<Rightarrow>
          if MaxOTLPBytes < length body then ((no_batch, Some ErrTooLarge), db)
          else case json_Unmarshal into_otlpRequest body ([], 0) of
            None \<Rightarrow> ((no_batch, Some ErrInvalidOTLP), db)
          | Some req \<Rightarrow>
              let m = map_spans 0 (request_spans req) \<lparr>ms_spans = [], ms_origin = [], ms_rejected = []\<rparr> in
              case IngestBatch Log K now pick cs sync (ms_spans m) db of
                ((res, err), db) \<Rightarrow>
                  let back = map (\<lambda>rj. \<lparr>rj_Index = int (ms_origin m ! nat (rj_Index rj)), rj_Err = rj_Err rj\<rparr>) (br_Rejected res) in
                  ((res\<lparr>br_Rejected := go_sort rejection_less (ms_rejected m @ back)\<rparr>, err), db))"

end
