(* ===== verification/Otlp_Spec.thy ===== *)
theory Otlp_Spec
  imports Otlp Sort_Spec
begin

text \<open>
  A request that is ingested without an error accounts for each of its spans: the rejections are
  the spans that do not map or do not validate, under their position in the request and in its
  order; the others are stored in that order.
\<close>

section \<open>What a request should come to\<close>

fun otlp_rejections :: "nat \<Rightarrow> ((string \<times> any_value) list \<times> otlp_span) list \<Rightarrow> rejection list" where
  "otlp_rejections n [] = []"
| "otlp_rejections n ((resource, sp) # rest) =
     (case mapSpan resource sp of
        Inl x \<Rightarrow> [\<lparr>rj_Index = int n, rj_Err = x\<rparr>]
      | Inr s \<Rightarrow> (case Validate s of None \<Rightarrow> [] | Some v \<Rightarrow> [\<lparr>rj_Index = int n, rj_Err = ErrInvalidSpan v\<rparr>]))
     @ otlp_rejections (Suc n) rest"

fun otlp_accepted :: "((string \<times> any_value) list \<times> otlp_span) list \<Rightarrow> span list" where
  "otlp_accepted [] = []"
| "otlp_accepted ((resource, sp) # rest) =
     (case mapSpan resource sp of Inl x \<Rightarrow> [] | Inr s \<Rightarrow> if Validate s = None then [s] else []) @ otlp_accepted rest"

section \<open>The loop\<close>

fun mapped_at :: "nat \<Rightarrow> ((string \<times> any_value) list \<times> otlp_span) list \<Rightarrow> (nat \<times> span) list" where
  "mapped_at n [] = []"
| "mapped_at n ((resource, sp) # rest) = (case mapSpan resource sp of Inl x \<Rightarrow> [] | Inr s \<Rightarrow> [(n, s)]) @ mapped_at (Suc n) rest"

fun unmapped_at :: "nat \<Rightarrow> ((string \<times> any_value) list \<times> otlp_span) list \<Rightarrow> rejection list" where
  "unmapped_at n [] = []"
| "unmapped_at n ((resource, sp) # rest) =
     (case mapSpan resource sp of Inl x \<Rightarrow> [\<lparr>rj_Index = int n, rj_Err = x\<rparr>] | Inr s \<Rightarrow> []) @ unmapped_at (Suc n) rest"

lemma map_spans_parts:
  "map_spans n ps m =
     \<lparr>ms_spans = ms_spans m @ map snd (mapped_at n ps), ms_origin = ms_origin m @ map fst (mapped_at n ps),
      ms_rejected = ms_rejected m @ unmapped_at n ps\<rparr>"
proof (induction n ps m rule: map_spans.induct)
  case (2 n resource sp rest m)
  then show ?case by (cases "mapSpan resource sp") simp_all
qed simp

definition invalid_at :: "(nat \<times> span) list \<Rightarrow> rejection list" where
  "invalid_at ps = concat (map (\<lambda>(k, s). case Validate s of None \<Rightarrow> [] | Some v \<Rightarrow> [\<lparr>rj_Index = int k, rj_Err = ErrInvalidSpan v\<rparr>]) ps)"

lemma rejections_back:
  "map (\<lambda>rj. \<lparr>rj_Index = int ((o1 @ map fst ps) ! nat (rj_Index rj)), rj_Err = rj_Err rj\<rparr>) (rejections (length o1) (map snd ps)) = invalid_at ps"
proof (induction ps arbitrary: o1)
  case (Cons p ps)
  from Cons.IH [of "o1 @ [fst p]"] show ?case by (auto simp: invalid_at_def split: option.split prod.split)
qed (simp add: invalid_at_def)

lemma split_rejections: "mset (unmapped_at n ps) + mset (invalid_at (mapped_at n ps)) = mset (otlp_rejections n ps)"
proof (induction n ps rule: otlp_rejections.induct)
  case (2 n resource sp rest)
  then show ?case by (auto simp: invalid_at_def split: sum.split option.split simp flip: union_assoc)
qed (simp add: invalid_at_def)

lemma accepted_mapped: "accepted_spans (map snd (mapped_at n ps)) = otlp_accepted ps"
proof (induction n ps rule: mapped_at.induct)
  case (2 n resource sp rest)
  then show ?case by (auto simp: accepted_spans_def split: sum.split)
qed (simp add: accepted_spans_def)

section \<open>The order of rejections\<close>

interpretation request_order: go_order rejection_less rj_Index
  by unfold_locales (auto simp: rejection_less_def)

lemma otlp_rejections_from: "rj \<in> set (otlp_rejections n ps) \<Longrightarrow> int n \<le> rj_Index rj \<and> rj_Index rj < int (n + length ps)"
  by (induction n ps rule: otlp_rejections.induct) (fastforce split: sum.splits option.splits)+

lemma otlp_rejections_sorted: "sorted_wrt rejection_less (otlp_rejections n ps)"
proof (induction n ps rule: otlp_rejections.induct)
  case (2 n resource sp rest)
  have "rejection_less rj r" if "rj_Index rj = int n" "r \<in> set (otlp_rejections (Suc n) rest)" for rj r
    using otlp_rejections_from [OF that(2)] that(1) by (simp add: rejection_less_def)
  with 2 show ?case by (auto split: sum.split option.split)
qed simp

lemma sort_rejections:
  assumes "mset rjs = mset (otlp_rejections n ps)"
  shows "go_sort rejection_less rjs = otlp_rejections n ps"
proof (rule request_order.sorted_unique)
  have "sorted_wrt (<) (map rj_Index (otlp_rejections n ps))"
    using otlp_rejections_sorted [of n ps] by (simp add: sorted_wrt_map rejection_less_def [abs_def])
  then have "distinct (map rj_Index (otlp_rejections n ps))" using strict_sorted_iff by blast
  then have "distinct (map rj_Index rjs)" using assms mset_eq_imp_distinct_iff [of "map rj_Index rjs"] by (metis mset_map)
  then show "sorted_wrt rejection_less (go_sort rejection_less rjs)" by (rule request_order.sort_sorted)
qed (use assms otlp_rejections_sorted in simp_all)

section \<open>The whole\<close>

lemma ingest_loop_ryw: "ingest_loop pick cs i spans res db = (out, db') \<Longrightarrow> wd_ryw db' = wd_ryw db"
proof (induction pick cs i spans res db rule: ingest_loop.induct)
  case (2 pick cs i s spans res db)
  then show ?case by (auto simp: on_engine_def split: option.splits sum.splits prod.splits)
qed simp

lemma batch_whole:
  assumes "IngestBatch Log K now pick cs sync spans db = ((res, None), db')"
  shows "br_Accepted res = int (length (accepted_spans spans))" "br_Rejected res = rejections 0 spans"
    "\<not> wd_ryw db \<Longrightarrow> content K (wd_eng db') = apply_spans (map toPayload (accepted_spans spans)) (content K (wd_eng db))"
proof -
  obtain res1 err1 db1 where L: "ingest_loop pick cs 0 spans no_batch db = ((res1, err1), db1)" by (metis prod.collapse)
  have err: "err1 = None" "res1 = res" using assms L by (auto simp: IngestBatch_def split: option.splits if_splits prod.splits sum.splits)
  from ingest_loop_prefix [OF L, of K] err show "br_Accepted res = int (length (accepted_spans spans))" "br_Rejected res = rejections 0 spans"
    by (auto simp: no_batch_def)
  assume ryw: "\<not> wd_ryw db"
  have "wd_ryw db1 = wd_ryw db" using L by (rule ingest_loop_ryw)
  then have "db' = db1" using assms L err ryw by (simp add: IngestBatch_def)
  with ingest_loop_prefix [OF L, of K] err
  show "content K (wd_eng db') = apply_spans (map toPayload (accepted_spans spans)) (content K (wd_eng db))" by auto
qed

lemma otlp_accounts:
  assumes "IngestOTLP Log K now pick c cs sync r db = ((res, None), db')"
  obtains req where "length (rd_data r) \<le> MaxOTLPBytes" "json_Unmarshal into_otlpRequest (rd_data r) ([], 0) = Some req"
    "br_Rejected res = otlp_rejections 0 (request_spans req)" "br_Accepted res = int (length (otlp_accepted (request_spans req)))"
    "\<not> wd_ryw db \<Longrightarrow> content K (wd_eng db') = apply_spans (map toPayload (otlp_accepted (request_spans req))) (content K (wd_eng db))"
proof -
  have c: "db_check c db = None" using assms by (auto simp: IngestOTLP_def split: option.splits)
  obtain body where body: "read_limited r = Some body" using assms c by (cases "read_limited r") (auto simp: IngestOTLP_def)
  have small: "length body \<le> MaxOTLPBytes" using assms c body by (auto simp: IngestOTLP_def not_less split: if_splits)
  have all: "body = rd_data r" using small body by (auto simp: read_limited_def split: if_splits)
  obtain req where req: "json_Unmarshal into_otlpRequest body ([], 0) = Some req"
    using assms c body small by (cases "json_Unmarshal into_otlpRequest body ([], 0)") (auto simp: IngestOTLP_def)
  let ?ps = "request_spans req"
  let ?m = "mapped_at 0 ?ps"
  obtain res1 err1 db1 where B: "IngestBatch Log K now pick cs sync (map snd ?m) db = ((res1, err1), db1)" by (metis prod.collapse)
  define moved where "moved = map (\<lambda>rj. \<lparr>rj_Index = int (map fst ?m ! nat (rj_Index rj)), rj_Err = rj_Err rj\<rparr>) (br_Rejected res1)"
  have out: "err1 = None" "db1 = db'" "res = res1\<lparr>br_Rejected := go_sort rejection_less (unmapped_at 0 ?ps @ moved)\<rparr>"
    using assms c body small req B by (auto simp: IngestOTLP_def map_spans_parts Let_def moved_def)
  have batch: "IngestBatch Log K now pick cs sync (map snd ?m) db = ((res1, None), db')" using B out by simp
  have "moved = invalid_at ?m" using rejections_back [of "[]" ?m] batch_whole(2) [OF batch] by (simp add: moved_def)
  then have "go_sort rejection_less (unmapped_at 0 ?ps @ moved) = otlp_rejections 0 ?ps"
    using split_rejections [of 0 ?ps] by (intro sort_rejections) simp
  with that req small all out(3) batch_whole(1,3) [OF batch] accepted_mapped [of 0 ?ps] show ?thesis by auto
qed

end
