(* ===== verification/Public_Samples.thy ===== *)
theory Public_Samples
  imports Engine_Samples Consistency_Clean Tracer Otlp_Spec
begin

text \<open>
  Concrete databases, spans and requests for the witnesses on the public interface, and a store
  that holds a span in two segments.
\<close>

section \<open>A span in two segments\<close>

lemma older_size: "payload_encoded_size older_span = 60"
  by (simp add: payload_encoded_size_def older_span_def sample_span_def zero_span_def string_fields_def wal_consts)

lemma older_storable [simp]: "storable sample_Log i [older_span]"
proof (rule storable_small [of _ _ "Suc 0"])
  have "span_fits older_span" by (simp add: older_span_def sample_span_def zero_span_def span_fits_def string_fields_def)
  then show "seg_fits [older_span]" by (simp add: older_size)
qed simp_all

definition two_segs :: file_store where
  "two_segs = snd (seg_Flush sample_Log 2 [older_span] sample_segs)"

lemma two_segs [simp]: "fs_tape two_segs = []" "seg_holds sample_Log two_segs 1 [sample_span]" "seg_holds sample_Log two_segs 2 [older_span]"
proof -
  have "\<exists>w st'. seg_Flush sample_Log 2 [older_span] sample_segs = (Inr w, st') \<and> fs_tape st' = []"
    by (rule seg_Flush_quiet) simp_all
  then obtain w where w: "seg_Flush sample_Log 2 [older_span] sample_segs = (Inr w, two_segs)" "fs_tape two_segs = []"
    by (auto simp: two_segs_def)
  then show "fs_tape two_segs = []" by simp
  show "seg_holds sample_Log two_segs 2 [older_span]" using w(1) by (rule sg.flush_holds) simp
  show "seg_holds sample_Log two_segs 1 [sample_span]" unfolding two_segs_def by (rule sg.flush_other) simp_all
qed

definition newer_loc :: span_location where
  "newer_loc = \<lparr>loc_SegmentID = 2, loc_Offset = seg_start sample_Log [older_span]\<rparr>"

definition two_index :: "(bytes \<times> bytes) list index" where
  "two_index = \<lparr>ix_db = Some [(bytes_of (span_key sample_span), encodeSpanLocation newer_loc)], ix_tape = []\<rparr>"

definition two_db :: "(bytes \<times> bytes) list db" where
  "two_db = \<lparr>db_index = two_index, db_segs = two_segs,
     db_meta = \<lparr>fs_dir = [(''manifest'', bytes_of_ids [1, 2])], fs_tape = []\<rparr>, db_manifest = ''manifest'', db_purger = True\<rparr>"

lemma two_map: "idx_map log_kv two_index k = (if k = span_key sample_span then Some newer_loc else None)"
  by (simp add: idx_map_def two_index_def log_kv_def del: bytes_of_append)

lemma two_db [simp]: "db_ok sample_Log log_kv two_db" "manifest_ids (db_manifest two_db) (db_meta two_db) = Inr [1, 2]"
  "db_index two_db = two_index" "db_segs two_db = two_segs"
proof -
  have "idx_ok log_kv two_index" by (auto simp: idx_ok_def two_index_def log_kv_def encodeSpanLocation_def)
  moreover have "entry_ok sample_Log two_segs (span_key sample_span) newer_loc"
    using two_segs(3) unfolding entry_ok_def by (intro exI [of _ "[older_span]"] exI [of _ older_span]) (simp add: newer_loc_def seg_entries_def)
  ultimately show "db_ok sample_Log log_kv two_db" by (simp add: db_ok_def entries_ok_def two_db_def two_map)
  show "manifest_ids (db_manifest two_db) (db_meta two_db) = Inr [1, 2]"
    by (simp add: two_db_def manifest_ids_def manifest_decode_encode)
qed (simp_all add: two_db_def)

section \<open>A public span\<close>

definition sample_public :: span where
  "sample_public = (new_span ''t1'' ''s1'' [] (10 ^ 18))\<lparr>sp_Duration := 1500000, sp_Payload := [123, 125]\<rparr>"

lemma braces_valid: "json_Valid [123, 125]"
  by (simp add: json_Valid_def scan_reset_def scan_step_def stateBeginValue_def stateEndValue_def is_space_def pushParseState_def
      popParseState_def maxNestingDepth_def scan_eof_def Let_def)

lemma sample_public [simp]: "Validate sample_public = None" "sp_TraceID sample_public = ''t1''" "sp_SpanID sample_public = ''s1''"
  "sep_free (sp_TraceID sample_public)"
proof -
  have cost: "\<not> f64_lt 0 0" "\<not> f64_is_nan 0" "\<not> f64_is_inf 0"
    by (simp_all add: f64_lt_def f64_is_nan_def f64_is_inf_def f64_bits_def)
  show "Validate sample_public = None"
    using cost braces_valid
    by (simp add: Validate_def sample_public_def new_span_def span_dimensions_def MaxDimensionLen_def minStart_def maxStart_def
        zero_time_def MaxPayloadBytes_def word_sless_alt)
qed (simp_all add: sample_public_def new_span_def sep_free_def)

section \<open>Databases\<close>

definition sample_wisp :: "bool \<Rightarrow> 'k db \<Rightarrow> 'k wisp_db" where
  "sample_wisp ryw d = \<lparr>wd_eng = sample_engine d, wd_ryw = ryw, wd_closed = False, wd_closeErr = None\<rparr>"

lemma sample_wisp [simp]: "wd_eng (sample_wisp ryw d) = sample_engine d" "wd_ryw (sample_wisp ryw d) = ryw" "\<not> wd_closed (sample_wisp ryw d)"
  by (simp_all add: sample_wisp_def)

lemma empty_ready [simp]: "flush_ready sample_Log log_kv 2 (sample_engine empty_db)" "insert_room sample_Log (sample_engine empty_db)"
  by (simp_all add: flush_ready_def room_def insert_room_def seg_fits_def)

definition any_query :: "int \<Rightarrow> query" where
  "any_query limit = (range_query \<lparr>tr_From = 1, tr_To = 11\<rparr>)\<lparr>q_Limit := limit\<rparr>"

lemma any_query_filter: "query_filter (any_query n) = any_filter 1 11"
  by (simp add: query_filter_def any_query_def range_query_def bounds_def any_filter_def zero_time_def UnixNano_def)

section \<open>A request\<close>

text \<open>Two spans: the start time of the first is not a number, the second has no ids.\<close>

definition sample_request :: bytes where
  "sample_request =
    [123, 34, 114, 101, 115, 111, 117, 114, 99, 101, 83, 112, 97, 110, 115, 34, 58, 91, 123, 34, 115, 99, 111, 112,
     101, 83, 112, 97, 110, 115, 34, 58, 91, 123, 34, 115, 112, 97, 110, 115, 34, 58, 91, 123, 34, 115, 116, 97,
     114, 116, 84, 105, 109, 101, 85, 110, 105, 120, 78, 97, 110, 111, 34, 58, 34, 120, 34, 125, 44, 123, 125, 93,
     125, 93, 125, 93, 125]"

definition bad_span :: otlp_span where
  "bad_span = no_otlp_span\<lparr>os_StartTimeUnixNano := ''x''\<rparr>"

lemma sample_request: "map_option request_spans (json_Unmarshal into_otlpRequest sample_request ([], 0)) = Some [([], bad_span), ([], no_otlp_span)]"
  by code_simp

lemma sample_mapped: "mapSpan [] bad_span = Inl (not_integer ''startTimeUnixNano'' ''x'')"
  "\<exists>s. mapSpan [] no_otlp_span = Inr s \<and> Validate s = Some \<lparr>ve_Field = ''TraceID'', ve_Reason = ''must not be empty''\<rparr>"
proof -
  have "numLike_int64 ''x'' = None" by code_simp
  then show "mapSpan [] bad_span = Inl (not_integer ''startTimeUnixNano'' ''x'')" by (simp add: mapSpan_def bad_span_def)
  show "\<exists>s. mapSpan [] no_otlp_span = Inr s \<and> Validate s = Some \<lparr>ve_Field = ''TraceID'', ve_Reason = ''must not be empty''\<rparr>"
    by (simp add: mapSpan_def no_otlp_span_def numLike_int64_def buildPayload_def elements_def extra_attributes_def Let_def)
      (simp add: Validate_def bad_def)
qed

lemma sample_ingest:
  "\<exists>res db'. IngestOTLP sample_Log log_kv 0 False None (\<lambda>_. None) (None, None) \<lparr>rd_data = sample_request, rd_fails = False\<rparr>
      (sample_wisp ryw d) = ((res, None), db')"
proof -
  have small: "length sample_request \<le> MaxOTLPBytes" by (simp add: sample_request_def MaxOTLPBytes_def)
  obtain req where req: "json_Unmarshal into_otlpRequest sample_request ([], 0) = Some req" "request_spans req = [([], bad_span), ([], no_otlp_span)]"
    using sample_request by (cases "json_Unmarshal into_otlpRequest sample_request ([], 0)") auto
  obtain s where s: "mapSpan [] no_otlp_span = Inr s" "Validate s = Some \<lparr>ve_Field = ''TraceID'', ve_Reason = ''must not be empty''\<rparr>"
    using sample_mapped(2) by auto
  have "read_limited \<lparr>rd_data = sample_request, rd_fails = False\<rparr> = Some sample_request" using small by (simp add: read_limited_def)
  with small req s sample_mapped(1) show ?thesis
    by (simp add: IngestOTLP_def db_check_def map_spans_parts IngestBatch_def no_batch_def Let_def)
qed

section \<open>Checks and queries\<close>

lemma no_checkpoint [simp]: "checkpoint_fine (sample_engine empty_db)" "checkpoint_fine (sample_engine (sample_db t))"
  by (simp_all add: checkpoint_fine_def checkpoint_Load_def read_file_def fs_fault_def)
    (simp_all add: sample_engine_def empty_db_def sample_db_def)

lemma sample_home:
  assumes "seg_holds sample_Log sample_segs 1 spans"
  shows "live_at_home (idx_map log_kv (sample_index t)) 1 (seg_entries sample_Log spans)"
proof -
  have "spans = [sample_span]" using seg_scan_holds [OF assms] seg_scan_holds [OF sample_segs(2)] by simp
  then show ?thesis by (simp add: sample_entries live_at_home_def sample_index_map) (simp add: sample_loc_def)
qed

lemma sample_report: "report_OK (fst (CheckConsistency log_kv (sample_engine (sample_db []))))"
  by (subst CheckConsistency_exact [OF log_kv.kv_store_axioms, of sample_Log]) (auto intro: sample_home)

lemma sample_range:
  obtains ps where "RangeQuery log_kv (query_filter (any_query n)) (sample_engine (sample_db [])) = (Inr ps, sample_engine (sample_db []))" "ps = [sample_span]"
proof -
  let ?e = "sample_engine (sample_db [])" and ?f = "any_filter 1 11"
  obtain res e' where g: "RangeQuery log_kv ?f ?e = (res, e')" by fastforce
  have e: "e' = ?e" by (rule RangeQuery_calm [OF log_kv.kv_store_axioms _ _ _ _ _ g, of sample_Log]) simp_all
  have "visible log_kv ?e k = (if k = span_key sample_span then Some sample_span else None)" for k
    by (simp add: visible_def apply_spans_def sample_view)
  moreover have "filter_matches ?f sample_span"
    by (simp add: filter_matches_def any_filter_def sample_span_def word_sless_alt)
  ultimately obtain ps where ps: "res = Inr ps" "distinct (map span_key ps)" "\<forall>s. s \<in> set ps \<longleftrightarrow> s = sample_span"
    using RangeQuery_visible [OF log_kv.kv_store_axioms _ _ _ _ g, of sample_Log] by (fastforce split: if_splits)
  then have "set ps = {sample_span}" "distinct ps" by (auto simp: distinct_map)
  then have "ps = [sample_span]" by (cases ps) (auto simp: subset_singleton_iff)
  with that g e ps(1) show ?thesis by (simp add: any_query_filter)
qed

section \<open>An active span\<close>

definition sample_active :: active_span where
  "sample_active = \<lparr>as_span = sample_public, as_name = ''n'', as_statusMsg = [], as_attrs = [], as_ended = False\<rparr>"

text \<open>
  Three calls of \<^verbatim>\<open>End\<close>: the first inserts the span and then fails, the second is a retry that
  succeeds, the third comes while the second is storing.
\<close>

lemma sample_ends:
  obtains w where "end_step\<^sup>*\<^sup>* (started sample_active) w"
    "ew_calls w = [Returned (Inl x), Returned (Inr ()), Returned (Inl ErrEnded)]" "ew_late w = 1"
proof -
  let ?s = "sample_active\<lparr>as_ended := True\<rparr>"
  define w where "w cs s st n = \<lparr>ew_span = s, ew_calls = cs, ew_stored = st, ew_late = n\<rparr>" for cs s st n
  have reopen: "reopen_End ?s = sample_active" by (simp add: reopen_End_def sample_active_def)
  have steps: "end_step (w cs s st n) (w (cs @ [Calling]) s st n)" for cs s st n
    using step_call [of "w cs s st n"] by (simp add: w_def)
  have 1: "end_step (w [] sample_active [] 0) (w [Calling] sample_active [] 0)" using steps [of "[]"] by simp
  have 2: "end_step (w [Calling] sample_active [] 0) (w [Storing sample_active] ?s [] 0)"
    using step_begin [of 0 "w [Calling] sample_active [] 0" "Some sample_active" ?s] by (simp add: w_def begin_End_def sample_active_def)
  have 3: "end_step (w [Storing sample_active] ?s [] 0) (w [Failing x] ?s [sample_active] 1)"
    using step_failed_late [of 0 "w [Storing sample_active] ?s [] 0" sample_active x] by (simp add: w_def)
  have 4: "end_step (w [Failing x] ?s [sample_active] 1) (w [Returned (Inl x)] sample_active [sample_active] 1)"
    using step_reopen [of 0 "w [Failing x] ?s [sample_active] 1" x] by (simp add: w_def reopen)
  have 5: "end_step (w [Returned (Inl x)] sample_active [sample_active] 1) (w [Returned (Inl x), Calling] sample_active [sample_active] 1)"
    using steps [of "[Returned (Inl x)]"] by simp
  have 6: "end_step (w [Returned (Inl x), Calling] sample_active [sample_active] 1) (w [Returned (Inl x), Calling, Calling] sample_active [sample_active] 1)"
    using steps [of "[Returned (Inl x), Calling]"] by simp
  have 7: "end_step (w [Returned (Inl x), Calling, Calling] sample_active [sample_active] 1)
      (w [Returned (Inl x), Storing sample_active, Calling] ?s [sample_active] 1)"
    using step_begin [of 1 "w [Returned (Inl x), Calling, Calling] sample_active [sample_active] 1" "Some sample_active" ?s]
    by (simp add: w_def begin_End_def sample_active_def)
  have 8: "end_step (w [Returned (Inl x), Storing sample_active, Calling] ?s [sample_active] 1)
      (w [Returned (Inl x), Storing sample_active, Returned (Inl ErrEnded)] ?s [sample_active] 1)"
    using step_begin [of 2 "w [Returned (Inl x), Storing sample_active, Calling] ?s [sample_active] 1" None ?s]
    by (simp add: w_def begin_End_def)
  have 9: "end_step (w [Returned (Inl x), Storing sample_active, Returned (Inl ErrEnded)] ?s [sample_active] 1)
      (w [Returned (Inl x), Returned (Inr ()), Returned (Inl ErrEnded)] ?s [sample_active, sample_active] 1)"
    using step_stored [of 1 "w [Returned (Inl x), Storing sample_active, Returned (Inl ErrEnded)] ?s [sample_active] 1" sample_active]
    by (simp add: w_def)
  have "end_step\<^sup>*\<^sup>* (w [] sample_active [] 0) (w [Returned (Inl x), Returned (Inr ()), Returned (Inl ErrEnded)] ?s [sample_active, sample_active] 1)"
    by (rule rtranclp.rtrancl_into_rtrancl [OF rtranclp.rtrancl_into_rtrancl [OF rtranclp.rtrancl_into_rtrancl
      [OF rtranclp.rtrancl_into_rtrancl [OF rtranclp.rtrancl_into_rtrancl [OF rtranclp.rtrancl_into_rtrancl
      [OF rtranclp.rtrancl_into_rtrancl [OF rtranclp.rtrancl_into_rtrancl [OF r_into_rtranclp [of end_step, OF 1] 2] 3] 4] 5] 6] 7] 8] 9])
  with that show ?thesis by (simp add: started_def w_def)
qed

end
