(* ===== verification/Spec2Isabelle.thy ===== *)
theory Spec2Isabelle
  imports Public_Samples
begin

text \<open>
  WispTraceDB is an embedded store for trace spans, written in Go. A client opens a directory,
  ingests spans (directly, by recording them, or from an OTLP/JSON request), and queries them by
  id, by trace, by time range and dimensions, or as aggregates. This library models the program
  from the bytes of its files to the public interface and proves what its parts promise.

  \<^bold>\<open>How the program works.\<close> An insertion appends the span to a segmented write-ahead log, puts it on
  a channel and returns. The ingest loop moves spans from the channel to a session buffer, one
  bucket per trace, and into in-memory rollups. A flush (at a size threshold, when a session is
  idle, or asked for) rotates the log, writes the buffered spans of a batch to an immutable segment
  file with a zone map and Bloom filters, commits their locations to a key-value index, records
  the segment in a manifest and a checkpoint, snapshots the rollups, and removes the log segments
  nobody needs any more. Compaction merges segments, expiry drops old ones, both on the same
  durable state. Reads combine channel, buffer and store. Opening replays the log.

  \<^bold>\<open>Theories and sources\<close> (under \<^verbatim>\<open>src/\<close>).
  \<^item> \<^theory_text>\<open>WT_Prelude\<close>: machine words, byte strings, Go strings, decimal numbers, directories, the
    schedules of failures. \<^theory_text>\<open>Crc32\<close>, \<^theory_text>\<open>Float64\<close>, \<^theory_text>\<open>Parse_Float\<close>, \<^theory_text>\<open>Json_Valid\<close>, \<^theory_text>\<open>Json_Decode\<close>: what
    the code uses of the standard library, written out.
  \<^item> \<^theory_text>\<open>Wal_Codec\<close>, \<^theory_text>\<open>Wal_Log\<close> (\<^verbatim>\<open>internal/wal/wal.go\<close>): the record format and the log, a directory of
    byte files. \<^theory_text>\<open>Wal_Spec\<close>: the abstract log and the interface \<open>segmented_log\<close>.
  \<^item> \<^theory_text>\<open>Bloom\<close> (\<^verbatim>\<open>internal/bloom/bloom.go\<close>); \<^theory_text>\<open>File_Store\<close>, \<^theory_text>\<open>Manifest\<close> (\<^verbatim>\<open>internal/segment/manifest.go\<close>,
    \<^verbatim>\<open>internal/engine/checkpoint.go\<close>).
  \<^item> \<^theory_text>\<open>Segment\<close> (\<^verbatim>\<open>internal/segment/writer.go\<close>, \<^verbatim>\<open>reader.go\<close>), \<^theory_text>\<open>Segment_Spec\<close> with the interface
    \<open>span_segments\<close>; \<^theory_text>\<open>Cache\<close>, \<^theory_text>\<open>Cache_Inv\<close>, \<^theory_text>\<open>Cache_Spec\<close> (\<^verbatim>\<open>internal/segment/cache.go\<close>).
  \<^item> \<^theory_text>\<open>Index\<close> (\<^verbatim>\<open>internal/pebble/pebble.go\<close>) over the key-value store of the locale \<open>kv_store\<close>,
    \<^theory_text>\<open>Index_Spec\<close> with the interface \<open>span_index\<close>.
  \<^item> \<^theory_text>\<open>Rollup\<close>, \<^theory_text>\<open>Rollup_Spec\<close> (\<^verbatim>\<open>internal/rollup\<close>): buckets, windows, snapshots.
  \<^item> \<^theory_text>\<open>Store\<close>: the durable state shared by engine and compactor, its invariant \<open>db_ok\<close> and its \<open>view\<close>.
    \<^theory_text>\<open>Compactor\<close>, \<^theory_text>\<open>Compactor_Spec\<close> (\<^verbatim>\<open>internal/compactor/compactor.go\<close>).
  \<^item> \<^verbatim>\<open>internal/engine/engine.go\<close>: \<^theory_text>\<open>Engine\<close> (write path, maintenance, shutdown), \<^theory_text>\<open>Engine_Loops\<close> (the
    background goroutines as schedules of their critical sections), \<^theory_text>\<open>Engine_Query\<close>, \<^theory_text>\<open>Engine_Aggregate\<close>, \<^theory_text>\<open>Engine_Recover\<close> (opening). What
    they promise: \<^theory_text>\<open>Engine_Spec\<close>, \<^theory_text>\<open>Engine_Content\<close>, \<^theory_text>\<open>Engine_Store\<close>, \<^theory_text>\<open>Engine_Flush\<close> (the abstract
    content and the flush under faults), \<^theory_text>\<open>Engine_Calm\<close> (the flush without faults), \<^theory_text>\<open>Engine_Read\<close>
    (reads return the content), \<^theory_text>\<open>Engine_Durable\<close> (interleavings of the write path),
    \<^theory_text>\<open>Engine_Replay\<close> (recovery).
  \<^item> \<^theory_text>\<open>Consistency\<close>, \<^theory_text>\<open>Consistency_Spec\<close>, \<^theory_text>\<open>Consistency_Clean\<close> (\<^verbatim>\<open>internal/engine/consistency.go\<close>).
  \<^item> \<^theory_text>\<open>Public\<close> (\<^verbatim>\<open>span.go\<close>, \<^verbatim>\<open>validate.go\<close>, \<^verbatim>\<open>errors.go\<close>, \<^verbatim>\<open>options.go\<close>, \<^verbatim>\<open>db.go\<close>), \<^theory_text>\<open>Public_Query\<close>
    (\<^verbatim>\<open>query.go\<close>, \<^verbatim>\<open>aggregates.go\<close>), \<^theory_text>\<open>Public_Spec\<close>; \<^theory_text>\<open>Sort_Spec\<close>: \<^verbatim>\<open>sort.Slice\<close> and the interface \<open>go_order\<close>.
  \<^item> \<^theory_text>\<open>Payload\<close>, \<^theory_text>\<open>Payload_Spec\<close>, \<^theory_text>\<open>Tracer\<close> (\<^verbatim>\<open>tracer.go\<close>); \<^theory_text>\<open>Otlp\<close>, \<^theory_text>\<open>Otlp_Spec\<close> (\<^verbatim>\<open>otlp.go\<close>).
  \<^item> \<^theory_text>\<open>Samples\<close>, \<^theory_text>\<open>Engine_Samples\<close>, \<^theory_text>\<open>Public_Samples\<close>: concrete values for the witnesses.

  \<^bold>\<open>Conventions.\<close> A struct is a record, an operation a function from the state to a result and the
  new state, an error a value \<open>Inl\<close>; integers have their width and wrap, a \<^verbatim>\<open>float64\<close> is its bit
  pattern, a string its bytes, a Go map an association list whose order stands for the unspecified
  iteration order. Every call of the operating system or of the key-value store that can fail
  consumes an entry of a schedule in the state, which says whether and after how much it fails;
  theorems hold for every schedule unless they ask for an empty one. What runs under one lock is
  one function; where goroutines interleave between locks, a step relation (\<open>engine_step\<close>,
  \<open>cache_step\<close>, \<open>end_step\<close>) or a schedule of jobs (\<open>run_jobs\<close>) has a step per critical section, the
  failing ones included. The clock and the contexts are
  arguments.

  \<^bold>\<open>What is shown.\<close> The claims are in this theory, grouped by component. The abstract content of an
  engine is a map from composite keys to spans, the store overridden by buffer and channel:
  insertion updates it at one key, flush, compaction and the background loops (but for expiry) leave
  it alone, point reads, range queries and the pages of the public interface return it, a shutdown
  puts all of it on disk, a crash loses nothing acknowledged and not yet released as long as no append
  and no rotation has failed. The formats round-trip, corruption of a byte is
  detected, filters and zone maps drop nothing, files are replaced atomically, the cache never
  closes a reader in use. Several claims state where the code falls short of its comments; they
  are theorems about the same definitions.

  \<^bold>\<open>Bounds and fuel.\<close> Ids are 64-bit: the theorems that allocate ask for room below \<open>2 ^ 64\<close>, and
  \<open>sizing_upto\<close> asks that filters for the spans there are can be built (the rounding of \<^verbatim>\<open>math.Log\<close> is
  not fixed by Go, so the logarithm is an argument). Loops over data are structural; the JSON parser
  takes fuel, \<open>2 * length + 1\<close>, and \<open>enough_fuel\<close> shows it never runs out; the search for the shortest
  decimal of a \<^verbatim>\<open>float64\<close> stops at seventeen digits, which always suffice; a client that follows
  cursors is given one step per result, and the claim is that it ends within them.

  \<^bold>\<open>Parameters.\<close> The key-value store \<^verbatim>\<open>github.com/cockroachdb/pebble\<close> is the argument \<open>K\<close>; the locale
  \<open>kv_store\<close> states what its documentation promises (get, atomic batches, ordered iteration), and
  \<open>log_kv\<close> meets it. \<open>Log\<close> is \<^verbatim>\<open>math.Log\<close>.

  \<^bold>\<open>Not modelled.\<close> Buffer pools, mutexes as objects, the spawning of goroutines, printing of error
  texts, monotonic clock readings, directory creation beyond its outcome, and the Windows-specific
  timing of unlinking (a removal is retried and may fail). The engine reads segments as it does with
  the reader cache disabled; \<open>cached_reader_is_file\<close> justifies that. A reader holds the bytes of the
  file it opened, so a read error after a successful open is not in the schedules. A closed index
  keeps its store; what the key-value store answers to a call after its \<^verbatim>\<open>Close\<close> is not described. The
  claim on payloads leaves out floats and raw messages.

  \<^bold>\<open>Restrictions of the claims.\<close> A composite key is trace id, \<^verbatim>\<open>||\<close>, span id, and \<^verbatim>\<open>Validate\<close> accepts ids that
  contain the separator, so keys can collide (\<open>separator_collision\<close>). The claims about the session
  buffer (point reads, the flushes without failures, the background loops, the shutdown) are for trace
  ids without a \<^verbatim>\<open>|\<close>: that is the part \<open>sep_free\<close> of \<open>sessions_ok\<close>, which \<open>flush_ready\<close> and \<open>crew_ready\<close> contain.
  \<open>flush_ready\<close> and \<open>crew_ready\<close> also say that no failure is scheduled and that ids and filters have room,
  and \<open>store_ok\<close> that the index has none.
  A batch between being taken and being written is visible to no reader, and the background loops keep
  the content only if batches with common keys are written in the order they were taken, which the
  code does not enforce (\<open>overtaking_flush_reverts\<close>).
\<close>

section \<open>The write-ahead log\<close>

text \<open>
  C5. The flush protocol loses nothing and keeps nothing twice: after a rotation that sealed
  segment \<open>sealed\<close>, any number of acknowledged appends and a complete reclamation of
  the segments up to \<open>sealed\<close>, a replay that succeeds returns exactly the records
  appended since the rotation, in order.
\<close>

theorem reclaim_keeps_acknowledged:
  assumes "wal_ok w" "unat (wal_segmentID w) + length rs + 1 < 2 ^ 64" "\<forall>r \<in> set rs. accepts r"
    and "Rotate w = (Inr sealed, w1)" "append_all AppendRecordWithSeg rs w1 = (Inr is, w2)"
    and "RemoveSegmentsUpTo sealed w2 = (Inr (), w3)" "Replay w3 = (Inr out, w4)"
  shows "out = map stamped rs"
  using assms by (rule wl.reclaim_keeps_newer)

theorem reclaim_keeps_acknowledged_witness:
  "\<exists>w1 is w2 w3 w4. Rotate sample_wal = (Inr 1, w1)
     \<and> append_all AppendRecordWithSeg [sample_record] w1 = (Inr is, w2)
     \<and> RemoveSegmentsUpTo 1 w2 = (Inr (), w3) \<and> Replay w3 = (Inr [sample_record], w4)"
proof -
  obtain w1 where w1: "Rotate sample_wal = (Inr 1, w1)" "quiet w1" "wal_segmentID w1 = 2"
    using rotate_quiet [of sample_wal] by auto
  obtain i w2 where w2: "AppendRecordWithSeg sample_record w1 = (Inr i, w2)" "quiet w2"
    using append_quiet [OF w1(2), of sample_record] w1(3) by auto
  obtain w3 where w3: "RemoveSegmentsUpTo 1 w2 = (Inr (), w3)" "quiet w3"
    using remove_quiet [OF w2(2), of 1] by auto
  have app: "append_all AppendRecordWithSeg [sample_record] w1 = (Inr [i], w2)" using w2(1) by simp
  have "log_records (wal_log w3) = [sample_record]"
    using reclaim_keeps_acknowledged [OF _ _ _ w1(1) app w3(1) replay_quiet [OF w3(2)]] by simp
  with w1(1) app w3(1) replay_quiet [OF w3(2)] show ?thesis by auto
qed

text \<open>
  C6. A crash in the middle of an append loses only that append: whatever proper prefix \<open>p\<close> of the
  record's bytes reached the disk, reopening the directory succeeds and replay returns every
  acknowledged record and nothing else.
\<close>

theorem crash_keeps_acknowledged:
  assumes "wal_ok w" "named base w" "accepts r" "encode_record r = p @ q" "q \<noteq> []" "m \<noteq> 0"
  shows "\<exists>w1. CreateWALWithSegmentSize (crash_dir w p) base m [] = (Inr (), w1)
    \<and> Replay w1 = (Inr (log_records (wal_log w)), w1)"
  using crash_recovery [OF assms] by metis

theorem crash_keeps_acknowledged_witness:
  "\<exists>w1. CreateWALWithSegmentSize (crash_dir sample_wal (take 5 (encode_record sample_record))) ''span.wal'' 1 []
     = (Inr (), w1) \<and> Replay w1 = (Inr [], w1)"
proof -
  have "drop 5 (encode_record sample_record) \<noteq> []"
    by (simp add: length_encode_record sample_record_def sample_size recordHeaderSize_def)
  from crash_keeps_acknowledged [OF _ _ _ append_take_drop_id [symmetric] this, of sample_wal "''span.wal''" 1]
  show ?thesis by simp
qed

text \<open>
  C7. An acknowledged append puts the record, stamped with its version, at the end of the log,
  in the active segment or in the next one, and keeps the log's invariant; this holds under
  every schedule of input/output failures that lets the append return.
\<close>

theorem append_extends_log:
  assumes "wal_ok w" "wal_segmentID w \<noteq> - 1" "accepts r" "AppendRecordWithSeg r w = (Inr i, w')"
  shows "wal_ok w' \<and> wal_segmentID w' = i \<and> (i = wal_segmentID w \<or> i = wal_segmentID w + 1)
     \<and> wal_log w' = log_add i (stamped r) (wal_log w)"
  using assms by (rule append_ok)

theorem append_extends_log_witness:
  "\<exists>i w'. AppendRecordWithSeg sample_record sample_wal = (Inr i, w')
     \<and> log_records (wal_log w') = [sample_record]"
proof -
  obtain i w' where w': "AppendRecordWithSeg sample_record sample_wal = (Inr i, w')"
    using append_quiet [of sample_wal sample_record] by auto
  from append_extends_log [OF _ _ _ w'] w' show ?thesis by (auto simp: log_add_def)
qed

text \<open>
  Removing the segments up to a bound deletes at most those and never the active one,
  and all of them when it reports success; the surviving log is otherwise unchanged.
\<close>

theorem remove_only_up_to_bound:
  assumes "wal_ok w" "RemoveSegmentsUpTo bound w = (res, w')"
  shows "wal_ok w' \<and> wal_segmentID w' = wal_segmentID w \<and>
    (\<exists>D. wal_log w' = log_drop D (wal_log w) \<and> D \<subseteq> {i. i \<le> bound \<and> i \<noteq> wal_segmentID w}
       \<and> (res = Inr () \<longrightarrow> D = {i. i \<le> bound \<and> i \<noteq> wal_segmentID w}))"
  using assms by (rule remove_ok)

theorem remove_only_up_to_bound_witness:
  "\<exists>w'. RemoveSegmentsUpTo 9 sample_wal = (Inr (), w') \<and> wal_log w' = [(1, [])]"
proof -
  obtain w' where w': "RemoveSegmentsUpTo 9 sample_wal = (Inr (), w')"
    using remove_quiet [of sample_wal 9] by auto
  from remove_only_up_to_bound [OF _ w'] w' show ?thesis by (auto simp: log_drop_def)
qed

text \<open>
  C31. A span survives encoding and decoding exactly when its strings are shorter than 2^16
  bytes and its payload shorter than 2^32: a longer string wraps its length prefix.
\<close>

theorem span_codec_iff:
  "decode_span_payload (encode_span_payload s) = Inr s \<longleftrightarrow> span_fits s"
  by (rule decode_encode_iff)

text \<open>
  C32. One corrupted byte anywhere in the payload of a record makes the replay of its segment
  fail with a checksum mismatch, whatever precedes and follows the record.
\<close>

theorem corrupt_byte_detected:
  assumes "\<forall>r \<in> set rs. good_record r" "good_record r"
    and "encode_payload (Span r) = xs @ a # ys" "a \<noteq> b"
  shows "replaySegment t (segment_bytes rs @ record_header CurrentWALVersion (encode_payload (Span r))
     @ xs @ b # ys @ rest) = Inl ChecksumMismatch"
  using assms by (rule corrupt_segment)

theorem corrupt_byte_detected_witness:
  "replaySegment True (segment_bytes [] @ record_header CurrentWALVersion (encode_payload (Span sample_record))
     @ [] @ (hd (encode_payload sample_span) + 1) # tl (encode_payload sample_span) @ []) = Inl ChecksumMismatch"
proof (rule corrupt_byte_detected)
  show "encode_payload (Span sample_record) = [] @ hd (encode_payload sample_span) # tl (encode_payload sample_span)"
    using sample_size by (cases "encode_payload sample_span") (auto simp: sample_record_def length_encode_payload [symmetric])
qed simp_all

text \<open>
  C34. An append behind a torn header loses the log. Three bytes of a record header are at the end of
  the active segment, because a crash left them before the log was reopened, or because an append
  failed in the running process. When the next append succeeds without rotating, and the payload of
  its record has a size above 4 modulo 256, the following replay fails and with it the recovery of
  every record in the log. (Other torn tails end the replay early or misparse; this is one that fails.)
\<close>

theorem torn_tail_breaks_replay:
  assumes "wal_ok w" "named base w" "accepts r"
    and "encode_record r = p @ q" "q \<noteq> []" "length p = 3" "m \<noteq> 0"
    and "CreateWALWithSegmentSize (crash_dir w p) base m [] = (Inr (), v)
      \<or> wal_tape w = [Some 3] \<and> AppendRecordWithSeg r w = (Inl e, v)
        \<and> \<not> (0 < wal_size w \<and> wal_maxSegmentSize w < wal_size w + word_of_nat (recordHeaderSize + payload_encoded_size (Span r)))"
    and "Version r' = CurrentWALVersion" "4 < payload_encoded_size (Span r') mod 256"
    and "AppendRecordWithSeg r' v = (Inr i, w2)" "i = wal_segmentID v"
  shows "\<exists>n. Replay w2 = (Inl (RecordTooLarge n), w2)"
proof -
  have p: "take 3 (encode_record r) = p" using assms(4,6) by simp
  have "behind_torn w p v"
    using assms(8) reopened_behind_torn [OF assms(1-5,7)] failed_append_behind_torn [OF assms(1), of 3 r] p by auto
  from append_behind_torn_breaks_replay [OF assms(1,6) this assms(9-12)] show ?thesis .
qed

theorem torn_tail_breaks_replay_witness:
  "\<exists>w1 w2 n. AppendRecordWithSeg sample_record (sample_wal\<lparr>wal_tape := [Some 3]\<rparr>) = (Inl WalIO, w1)
     \<and> AppendRecordWithSeg sample_record w1 = (Inr (wal_segmentID w1), w2)
     \<and> Replay w2 = (Inl (RecordTooLarge n), w2)"
proof -
  let ?w = "sample_wal\<lparr>wal_tape := [Some 3]\<rparr>"
  let ?p = "take 3 (encode_record sample_record)" and ?q = "drop 3 (encode_record sample_record)"
  have len: "length (encode_record sample_record) = 69"
    by (simp add: length_encode_record sample_record_def sample_size recordHeaderSize_def)
  then have q: "?q \<noteq> []" and p: "length ?p = 3" by simp_all
  have pq: "encode_record sample_record = ?p @ ?q" by simp
  have "seg_ok (file_contents sample_wal (segmentPath sample_wal 1))"
    using wal_okD(1) [OF sample_wal(3)] by (rule files_ok_contents)
  moreover have "seg_records (file_contents sample_wal (segmentPath sample_wal 1)) = []"
    using sample_wal(4) by (auto simp: wal_log_def)
  ultimately have size: "wal_size sample_wal = 0" using wal_okD(5) [OF sample_wal(3)] by (simp add: seg_ok_def)
  obtain w1 where w1: "AppendRecordWithSeg sample_record ?w = (Inl WalIO, w1)" "behind_torn ?w ?p w1"
    using failed_append_behind_torn [of ?w 3 sample_record] size by (cases "AppendRecordWithSeg sample_record ?w") auto
  have "wal_size w1 = 3" "wal_maxSegmentSize w1 = wal_maxSegmentSize sample_wal"
    using w1(1) wal_okD(2) [OF sample_wal(3)] size len
    by (auto simp: AppendRecordWithSeg_def write_and_sync_def wal_fault_def append_bytes_def Let_def)
  moreover have "wal_maxSegmentSize sample_wal = DefaultMaxSegmentSize"
    by (auto simp: sample_wal_def CreateWALWithSegmentSize_def listSegmentIDs_def wal_fault_nil new_wal_def adoptLegacy_def
        wal_ids_def List.map_filter_def openSegment_def Let_def)
  ultimately obtain w2 where w2: "AppendRecordWithSeg sample_record w1 = (Inr (wal_segmentID w1), w2)"
    using append_no_rotate [of w1 sample_record] w1(2)
    by (auto simp: behind_torn_def sample_record_def sample_size recordHeaderSize_def DefaultMaxSegmentSize_def)
  have r: "4 < payload_encoded_size (Span sample_record) mod 256" "Version sample_record = CurrentWALVersion"
    by (simp_all add: sample_record_def sample_size)
  have "wal_ok ?w" "named ''span.wal'' ?w" using sample_wal(3,5) by (simp_all add: named_def)
  from torn_tail_breaks_replay [OF this sample_accepts(1) pq q p _ _ r(2,1) w2 refl, of 1] w1 w2 size show ?thesis by auto
qed

section \<open>Segments\<close>

text \<open>
  C27. The Bloom filters have no false negatives and never index out of bounds: adding any values
  to a well-formed filter succeeds, and after writing the filter to a segment and decoding it
  again every added value is reported as possibly present.
\<close>

theorem bloom_no_false_negatives:
  assumes "bloom_ok f"
  shows "\<exists>f'. bloom_add_all vs f = Some f' \<and> bloom_Decode (bloom_Encode f' @ rest) = Inr (f', bloom_EncodedSize f')
    \<and> (\<forall>v \<in> set vs. bloom_MayContain v f' = Some True) \<and> (\<forall>v. bloom_MayContain v f' \<noteq> None)"
proof -
  obtain f' where f': "bloom_add_all vs f = Some f'" "bloom_ok f'" "\<forall>v \<in> set vs. bloom_MayContain v f' = Some True"
    using bloom_add_all_ok [OF assms, of vs] by blast
  then have "bloom_Decode (bloom_Encode f' @ rest) = Inr (f', bloom_EncodedSize f')"
    by (intro bloom_Decode_Encode) (simp add: bloom_ok_def)
  with f' show ?thesis by (auto simp: bloom_MayContain_iff)
qed

theorem bloom_no_false_negatives_witness:
  "\<exists>f'. bloom_add_all [''a'', ''b''] (bloom_New sample_Log 1 bloomFalsePositiveRate) = Some f' \<and> bloom_MayContain ''b'' f' = Some True"
proof -
  have "bloom_ok (bloom_New sample_Log 1 bloomFalsePositiveRate)" using sample_sizing(2) by (simp add: sizing_ok_def)
  from bloom_no_false_negatives [OF this, of "[''a'', ''b'']" "[]"] show ?thesis by auto
qed

text \<open>
  C25. A span written by a successful flush is found: at the offset the flush reports for its key
  the segment reads back the last span with that key, whatever segments are flushed afterwards,
  successfully or not.
\<close>

theorem flushed_span_found:
  assumes "seg_Flush Log i xs st = (Inr w, st')" "storable Log i xs" "\<forall>(j, ys) \<in> set jobs. j \<noteq> i" "x \<in> set xs"
  shows "\<exists>off y. map_of (wr_Offsets w) (span_key x) = Some off
    \<and> seg_read i off (flush_all (seg_Flush Log) jobs st') = Inr y \<and> last_span (span_key x) xs = Some y"
  using assms by (rule sg.flushed_found)

theorem flushed_span_found_witness:
  "\<exists>w st' off. seg_Flush sample_Log 1 [sample_span] \<lparr>fs_dir = [], fs_tape = []\<rparr> = (Inr w, st')
     \<and> seg_read 1 off (flush_all (seg_Flush sample_Log) [(2, [sample_span])] st') = Inr sample_span"
proof -
  obtain w where w: "seg_Flush sample_Log 1 [sample_span] \<lparr>fs_dir = [], fs_tape = []\<rparr> = (Inr w, sample_segs)"
    by (rule sample_flush)
  from flushed_span_found [OF w, of "[(2, [sample_span])]" sample_span] w show ?thesis
    by (auto simp: last_span_def)
qed

text \<open>
  A scan of a flushed segment returns exactly the spans written, in order, after any later
  flushes to other ids.
\<close>

theorem flushed_segment_scanned:
  assumes "seg_Flush Log i xs st = (Inr w, st')" "storable Log i xs" "\<forall>(j, ys) \<in> set jobs. j \<noteq> i"
  shows "seg_scan i (flush_all (seg_Flush Log) jobs st') = Inr xs"
  using assms by (rule sg.flushed_scanned)

theorem flushed_segment_scanned_witness:
  "seg_scan 1 (flush_all (seg_Flush sample_Log) [(2, [])] sample_segs) = Inr [sample_span]"
proof -
  obtain w where w: "seg_Flush sample_Log 1 [sample_span] \<lparr>fs_dir = [], fs_tape = []\<rparr> = (Inr w, sample_segs)"
    by (rule sample_flush)
  show ?thesis by (rule flushed_segment_scanned [OF w]) simp_all
qed

text \<open>
  C26. Pruning by a segment's header is sound: the timestamps of all its spans lie in the range
  the header gives, and every dimension filter read from it admits the value of every span.
\<close>

theorem segment_header_sound:
  assumes "seg_holds Log st i spans" "OpenReader i st = (Inr r, st')" "s \<in> set spans"
  shows "hd_MinTimestamp (rd_Header r) \<le>s Timestamp s \<and> Timestamp s \<le>s hd_MaxTimestamp (rd_Header r)
    \<and> (\<exists>fs. rd_Blooms r = Some fs \<and> map fst fs = BloomDimensions
         \<and> (\<forall>(dim, f) \<in> set fs. bloom_MayContain (dimensionValue s dim) f = Some True))"
  using open_reader_header [OF assms(1,2)] min_ts_le [OF assms(3)] max_ts_ge [OF assms(3)] assms(3)
  by (auto simp: word_sle_eq admits_def)

theorem segment_header_sound_witness:
  "\<exists>r. OpenReader 1 sample_segs = (Inr r, sample_segs) \<and> hd_MinTimestamp (rd_Header r) \<le>s 7"
proof -
  obtain r where r: "OpenReader 1 sample_segs = (Inr r, sample_segs)"
    using open_reader_quiet [OF sample_segs(2,1)] by blast
  from segment_header_sound [OF sample_segs(2) r, of sample_span] r show ?thesis by (auto simp: sample_span_def)
qed

text \<open>
  A segment file is never overwritten: flushing to an id that exists is an error and changes
  no file, and no flush changes any other file, whatever fails.
\<close>

theorem flush_never_overwrites:
  assumes "seg_Flush Log i spans st = (res, st')" "spans \<noteq> []" "dir_get (fs_dir st) (SegmentPath i) \<noteq> None"
    and "fs_tape st = [] \<or> hd (fs_tape st) = None"
  shows "res = Inl (SegExists i) \<and> fs_dir st' = fs_dir st"
  using seg_Flush_exists [OF assms(4,3,2), of Log] assms(1) by auto

theorem flush_never_overwrites_witness:
  "fst (seg_Flush sample_Log 1 [sample_span] sample_segs) = Inl (SegExists 1)"
proof -
  obtain res st' where f: "seg_Flush sample_Log 1 [sample_span] sample_segs = (res, st')" by fastforce
  have "dir_get (fs_dir sample_segs) (SegmentPath 1) \<noteq> None"
    by (rule seg_holdsE [OF sample_segs(2)]) simp
  from flush_never_overwrites [OF f _ this] f show ?thesis by simp
qed

section \<open>Manifest and checkpoint\<close>

text \<open>
  C28. The manifest is replaced atomically: after recording a segment, whatever call fails, the
  file holds the old list or the old list with the new id, and it holds the latter when the call
  reports success.
\<close>

theorem manifest_add_atomic:
  assumes "manifest_AddSegment path i st = (res, st')"
  shows "(case res of
      Inr _ \<Rightarrow> (\<exists>ids ids'. manifest_ids path st = Inr ids \<and> manifest_ids path st' = Inr ids'
                \<and> set ids' = insert i (set ids))
    | Inl _ \<Rightarrow> manifest_ids path st' = manifest_ids path st)"
  using assms by (rule manifest_AddSegment_ids)

theorem manifest_add_atomic_witness:
  "\<exists>st'. manifest_AddSegment ''m'' 4 \<lparr>fs_dir = [], fs_tape = [None, None, Some 3]\<rparr> = (Inl ManifestIO, st')
     \<and> manifest_ids ''m'' st' = Inr []"
proof -
  obtain st' where st': "manifest_AddSegment ''m'' 4 \<lparr>fs_dir = [], fs_tape = [None, None, Some 3]\<rparr> = (Inl ManifestIO, st')"
    by (auto simp: manifest_AddSegment_def manifest_Load_def manifest_Save_def read_file_def fs_fault_def
        manifest_decode_def replace_file_def fs_step_def Let_def)
  from manifest_add_atomic [OF st'] st' show ?thesis by (simp add: manifest_ids_def manifest_decode_def)
qed

text \<open>
  The checkpoint reads back the id last saved; a save that fails at any call leaves the
  previous value.
\<close>

theorem checkpoint_atomic:
  assumes "checkpoint_Save path i st = (res, st')" "checkpoint_Load path st' = (got, st'')" "got \<noteq> Inl CheckpointIO"
  shows "got = (if res = Inr () then Inr i else checkpoint_value path st)"
  using checkpoint_Save_value [OF assms(1)] checkpoint_Load_value [OF assms(2)] assms(3) by auto

theorem checkpoint_atomic_witness:
  "\<exists>st' st''. checkpoint_Save ''c'' 9 \<lparr>fs_dir = [], fs_tape = []\<rparr> = (Inr (), st') \<and> checkpoint_Load ''c'' st' = (Inr 9, st'')"
proof -
  obtain st' where st': "checkpoint_Save ''c'' 9 \<lparr>fs_dir = [], fs_tape = []\<rparr> = (Inr (), st')" "fs_tape st' = []"
    using replace_file_quiet [of "\<lparr>fs_dir = [], fs_tape = []\<rparr>" "''c.tmp''" "''c''" "put_u64 9"]
    by (auto simp: checkpoint_Save_def)
  obtain got st'' where l: "checkpoint_Load ''c'' st' = (got, st'')" by fastforce
  then have "got \<noteq> Inl CheckpointIO" using st'(2)
    by (auto simp: checkpoint_Load_def read_file_def fs_fault_nil split: option.splits if_splits)
  from checkpoint_atomic [OF st'(1) l this] st' l show ?thesis by auto
qed

section \<open>Rollups\<close>

text \<open>
  C24. A bucket is the summary of exactly the samples of its model in its window: after any sequence
  of additions at or after the epoch, a key whose start is a multiple of the window size has a bucket
  iff there is a sample of its model in the half-open window that begins there, and the bucket holds
  their number, their sums of cost, tokens and latency (modulo \<open>2 ^ 64\<close>) and the least and the greatest
  latency. Other keys have no bucket.
\<close>

theorem rollup_bucket_is_summary:
  assumes "0 < sint w" "\<forall>s \<in> set xs. 0 \<le> sint (sm_timestamp s)"
  shows "let ys = filter (\<lambda>s. sm_model s = BucketModel key \<and> sint (WindowStart key) \<le> sint (sm_timestamp s)
        \<and> sint (sm_timestamp s) < sint (WindowStart key) + sint w) xs
     in case store_GetBucket key (fold store_Add xs (NewStore w)) of
        None \<Rightarrow> ys = [] \<or> \<not> sint w dvd sint (WindowStart key)
      | Some v \<Rightarrow> ys \<noteq> [] \<and> sint w dvd sint (WindowStart key) \<and> Count v = word_of_nat (length ys)
          \<and> SumCost v = sum_list (map sm_cost ys) \<and> SumTokensIn v = sum_list (map sm_tokensIn ys)
          \<and> SumTokensOut v = sum_list (map sm_tokensOut ys) \<and> SumLatencyMs v = sum_list (map sm_latencyMs ys)
          \<and> sint (MinLatencyMs v) = Min (set (map (\<lambda>s. sint (sm_latencyMs s)) ys))
          \<and> sint (MaxLatencyMs v) = Max (set (map (\<lambda>s. sint (sm_latencyMs s)) ys))"
proof -
  note B = bucket_of_window [OF assms, of key, unfolded window_samples_def]
  let ?ys = "filter (\<lambda>s. sm_model s = BucketModel key \<and> sint (WindowStart key) \<le> sint (sm_timestamp s)
    \<and> sint (sm_timestamp s) < sint (WindowStart key) + sint w) xs"
  show ?thesis
  proof (cases "summary ?ys")
    case None
    then have "?ys = []" by (simp add: summary_def split: list.splits)
    then show ?thesis by (simp add: B Let_def summary_def)
  next
    case (Some v)
    then have "?ys \<noteq> []" by (auto simp: summary_def)
    with summary_fields [OF Some] show ?thesis by (simp add: B Some Let_def)
  qed
qed

theorem rollup_bucket_is_summary_witness:
  "\<exists>v. store_GetBucket \<lparr>WindowStart = 60000000000, BucketModel = ''m''\<rparr> (fold store_Add
      [\<lparr>sm_timestamp = 60000000007, sm_model = ''m'', sm_cost = 2, sm_tokensIn = 1, sm_tokensOut = 4, sm_latencyMs = 9\<rparr>,
       \<lparr>sm_timestamp = 119999999999, sm_model = ''m'', sm_cost = 5, sm_tokensIn = 3, sm_tokensOut = 6, sm_latencyMs = 7\<rparr>,
       \<lparr>sm_timestamp = 120000000000, sm_model = ''m'', sm_cost = 8, sm_tokensIn = 1, sm_tokensOut = 1, sm_latencyMs = 1\<rparr>]
      (NewStore WindowSizeMinute)) = Some v
    \<and> Count v = 2 \<and> SumCost v = 7 \<and> SumTokensOut v = 10 \<and> sint (MinLatencyMs v) = 7 \<and> sint (MaxLatencyMs v) = 9"
proof -
  let ?xs = "[\<lparr>sm_timestamp = 60000000007, sm_model = ''m'', sm_cost = 2, sm_tokensIn = 1, sm_tokensOut = 4, sm_latencyMs = 9\<rparr>,
       \<lparr>sm_timestamp = 119999999999, sm_model = ''m'', sm_cost = 5, sm_tokensIn = 3, sm_tokensOut = 6, sm_latencyMs = 7\<rparr>,
       \<lparr>sm_timestamp = 120000000000, sm_model = ''m'', sm_cost = 8, sm_tokensIn = 1, sm_tokensOut = 1, sm_latencyMs = 1\<rparr>]"
  let ?key = "\<lparr>WindowStart = 60000000000 :: i64, BucketModel = ''m''\<rparr>"
  have w: "0 < sint WindowSizeMinute" "\<forall>s \<in> set ?xs. 0 \<le> sint (sm_timestamp s)" by (simp_all add: WindowSizeMinute_def)
  from rollup_bucket_is_summary [OF w, of ?key] show ?thesis
    by (auto simp: WindowSizeMinute_def split: option.splits)
qed

text \<open>
  A sample at or after the epoch falls into the bucket whose half-open window contains it.
\<close>

theorem rollup_bucket_covers:
  assumes "0 \<le> sint t" "0 < sint w"
  shows "sint (bucket_start t w) \<le> sint t \<and> sint t < sint (bucket_start t w) + sint w
    \<and> sint w dvd sint (bucket_start t w)"
  using bucket_start_covers [OF assms] bucket_start_int [OF assms] by simp

theorem rollup_bucket_covers_witness:
  "sint (bucket_start 130000000000 WindowSizeMinute) \<le> 130000000000"
  using rollup_bucket_covers [of 130000000000 WindowSizeMinute] by (simp add: WindowSizeMinute_def)

text \<open>
  A sample in the last window before the epoch is counted in the window that starts at it,
  which does not contain the sample: the division truncates towards zero.
\<close>

theorem rollup_bucket_before_epoch:
  assumes "- sint w < sint t" "sint t < 0"
  shows "sint t < sint (bucket_start t w)"
  using bucket_start_negative [OF assms] assms(2) by simp

theorem rollup_bucket_before_epoch_witness: "sint (- 5 :: i64) < sint (bucket_start (- 5) WindowSizeMinute)"
  by (rule rollup_bucket_before_epoch) (simp_all add: WindowSizeMinute_def)

text \<open>
  C29. A snapshot reads back: a flush that succeeds followed by a successful read gives a store
  with the window size and exactly the buckets written.
\<close>

theorem rollup_snapshot_round_trip:
  assumes "rollup_Flush window w ms st = (Inr u, st')" "ReadSnapshot (RollupPath window) w st' = (Inr r, st'')"
    and "\<forall>agg \<in> set ms. key_fits agg" "distinct (map fst ms)" "length ms < 2 ^ 63"
  shows "WindowSize r = w \<and> map_of (rs_buckets r) = map_of ms"
  using assms by (rule snapshot_round_trip)

theorem rollup_snapshot_round_trip_witness:
  "\<exists>st' r. rollup_Flush WindowMinute WindowSizeMinute (rs_buckets (store_Add sample_sample (NewStore WindowSizeMinute)))
       \<lparr>fs_dir = [], fs_tape = []\<rparr> = (Inr (), st')
     \<and> ReadSnapshot (RollupPath WindowMinute) WindowSizeMinute st' = (Inr r, st') \<and> rs_buckets r \<noteq> []"
proof -
  let ?ms = "rs_buckets (store_Add sample_sample (NewStore WindowSizeMinute))"
  have ms: "?ms = [(sample_key WindowSizeMinute sample_sample, new_value sample_sample)]"
    by (simp add: store_Add_def NewStore_def Let_def)
  have fits: "\<forall>agg \<in> set ?ms. key_fits agg" "distinct (map fst ?ms)" "length ?ms < 2 ^ 63"
    unfolding ms by (simp_all add: key_fits_def sample_key_def sample_sample_def)
  obtain st' where st': "rollup_Flush WindowMinute WindowSizeMinute ?ms \<lparr>fs_dir = [], fs_tape = []\<rparr> = (Inr (), st')" "fs_tape st' = []"
    using rollup_Flush_quiet [of "\<lparr>fs_dir = [], fs_tape = []\<rparr>" ?ms WindowMinute WindowSizeMinute] by (auto simp: ms)
  obtain r where r: "ReadSnapshot (RollupPath WindowMinute) WindowSizeMinute st' = (Inr r, st')"
    using ReadSnapshot_quiet [OF st' fits] by blast
  have "map_of (rs_buckets r) (sample_key WindowSizeMinute sample_sample) \<noteq> None"
    using rollup_snapshot_round_trip [OF st'(1) r fits] by (simp add: ms)
  with st'(1) r show ?thesis by fastforce
qed

text \<open>
  Eviction splits the buckets at the cutoff: the ones that start before it are returned and
  gone from the store, the others stay as they were.
\<close>

theorem rollup_evict_splits:
  assumes "store_Evict start r = (evicted, r')"
  shows "map_of evicted k = (if WindowStart k <s start then store_GetBucket k r else None)
    \<and> store_GetBucket k r' = (if WindowStart k <s start then None else store_GetBucket k r)"
  using evict_GetBucket [OF assms] by simp

theorem rollup_evict_splits_witness:
  "\<exists>evicted r'. store_Evict 1 (store_Add sample_sample (NewStore WindowSizeMinute)) = (evicted, r')
     \<and> store_GetBucket (sample_key WindowSizeMinute sample_sample) r' = None"
proof -
  obtain evicted r' where e: "store_Evict 1 (store_Add sample_sample (NewStore WindowSizeMinute)) = (evicted, r')"
    by fastforce
  have "WindowStart (sample_key WindowSizeMinute sample_sample) <s 1"
    by (simp add: sample_key_def sample_sample_def bucket_start_def WindowSizeMinute_def word_sless_alt)
  with rollup_evict_splits [OF e, of "sample_key WindowSizeMinute sample_sample"] e show ?thesis by auto
qed

section \<open>The index\<close>

text \<open>
  What a successful batch put under a key is what a later lookup returns, a key it deletes
  and does not put is not found, and every other key is as before.
\<close>

theorem index_batch_then_get:
  assumes "kv_store K" "idx_ok K ix" "idx_BatchApplySpans K puts dels ix = (Inr (), ix1)"
    and "idx_GetSpan K k ix1 = (got, ix2)" "got \<noteq> Inl IndexIO"
  shows "got = (case map_of (rev puts) k of Some l \<Rightarrow> Inr l
    | None \<Rightarrow> if k \<in> set dels then Inl IndexNotFound
        else (case idx_map K ix k of None \<Rightarrow> Inl IndexNotFound | Some l \<Rightarrow> Inr l))"
proof -
  have "idx_ok K ix1" "idx_map K ix1 = batch_map puts dels (idx_map K ix)"
    using kv_store.idx_apply_law [OF assms(1-3)] by simp_all
  with kv_store.idx_get_law [OF assms(1) _ assms(4)] assms(5) show ?thesis
    by (auto simp: batch_map_def map_add_def split: option.splits)
qed

theorem index_batch_then_get_witness:
  "\<exists>ix1 ix2. idx_BatchApplySpans log_kv [] [span_key sample_span] (sample_index []) = (Inr (), ix1)
     \<and> idx_GetSpan log_kv (span_key sample_span) ix1 = (Inl IndexNotFound, ix2)"
proof -
  obtain ix1 where b: "idx_BatchApplySpans log_kv [] [span_key sample_span] (sample_index []) = (Inr (), ix1)"
      "ix_tape ix1 = []" "idx_ok log_kv ix1"
    using idx_batch_quiet [OF log_kv.kv_store_axioms, of "sample_index []"] sample_index_ok
    by (fastforce simp: sample_index_def)
  obtain got ix2 where g: "idx_GetSpan log_kv (span_key sample_span) ix1 = (got, ix2)" by fastforce
  then have "got \<noteq> Inl IndexIO"
    using idx_get_quiet [OF log_kv.kv_store_axioms b(3,2)] by (auto split: option.splits)
  from index_batch_then_get [OF log_kv.kv_store_axioms sample_index_ok b(1) g this] b(1) g show ?thesis by auto
qed

text \<open>
  The key range of a prefix scan is exact: with the upper bound the code computes, also for
  prefixes that end in 0xff bytes, a key is in the range exactly when it has the prefix.
\<close>

theorem prefix_bounds_exact:
  "in_bounds (Some p) (prefixUpperBound p) k \<longleftrightarrow> take (length p) k = p"
  by (rule in_prefix_bounds)

text \<open>
  A prefix scan without a fault returns the locations of exactly the keys with the prefix.
\<close>

theorem prefix_scan_exact:
  assumes "kv_store K" "idx_ok K ix" "ix_tape ix = []"
  shows "\<exists>ls. idx_PrefixScan K p ix = (Inr ls, ix) \<and> set ls = {l. \<exists>k. idx_map K ix k = Some l \<and> has_prefix k p}"
  using assms by (rule kv_store.idx_prefix_scan)

theorem prefix_scan_exact_witness:
  "\<exists>ls. idx_PrefixScan log_kv ''t1'' (sample_index []) = (Inr ls, sample_index []) \<and> sample_loc \<in> set ls"
proof -
  have "has_prefix (span_key sample_span) ''t1''" by (simp add: has_prefix_def CompositeKey_def sample_span_def)
  then have "\<exists>k. idx_map log_kv (sample_index []) k = Some sample_loc \<and> has_prefix k ''t1''"
    by (auto simp: sample_index_map)
  moreover have "ix_tape (sample_index []) = []" by (simp add: sample_index_def)
  ultimately show ?thesis
    using prefix_scan_exact [OF log_kv.kv_store_axioms sample_index_ok, of "[]" "''t1''"] by blast
qed

text \<open>
  C36. A read error in the middle of a prefix scan is not reported: the scan returns the entries
  before the error as if they were all.
\<close>

theorem prefix_scan_cut_short:
  assumes "kv_store K" "idx_ok K ix" "ix_tape ix = [None, Some n]"
  shows "\<exists>all. idx_PrefixScan K p (ix\<lparr>ix_tape := []\<rparr>) = (Inr all, ix\<lparr>ix_tape := []\<rparr>)
    \<and> idx_PrefixScan K p ix = (Inr (take n all), ix\<lparr>ix_tape := []\<rparr>)"
  using assms by (rule kv_store.idx_prefix_scan_cut)

theorem prefix_scan_cut_short_witness:
  "\<exists>ix'. idx_PrefixScan log_kv ''t1'' (sample_index [None, Some 0]) = (Inr [], ix')"
proof -
  have "ix_tape (sample_index [None, Some 0]) = [None, Some 0]" by (simp add: sample_index_def)
  from prefix_scan_cut_short [OF log_kv.kv_store_axioms sample_index_ok this, of "''t1''"] show ?thesis by auto
qed

section \<open>Compaction and expiry\<close>

text \<open>
  C3. Compaction only moves spans: whatever file operation fails, the live span of every key is
  the same before and after, and every index entry still points at a record of its key.
\<close>

theorem compact_keeps_view:
  assumes "kv_store K" "db_ok Log K db" "ix_tape (db_index db) = []"
    and "compact_ready Log oldIDs new db" "Compact Log K oldIDs new db = (res, db')"
  shows "db_ok Log K db' \<and> view K db' = view K db"
  using assms by (rule Compact_keeps_view)

theorem compact_keeps_view_witness:
  "view log_kv (snd (Compact sample_Log log_kv [1] 2 (sample_db []))) (span_key sample_span) = Some sample_span"
proof -
  obtain res db' where c: "Compact sample_Log log_kv [1] 2 (sample_db []) = (res, db')" by fastforce
  from compact_keeps_view [OF log_kv.kv_store_axioms sample_db(1,2) sample_ready c] c show ?thesis
    by (simp add: sample_view)
qed

text \<open>
  C17. An expiry that succeeds removes exactly the keys whose record is in a segment whose newest
  span is before the cutoff; one that fails has removed those or none.
\<close>

theorem expire_removes_exactly:
  assumes "kv_store K" "db_ok Log K db" "ix_tape (db_index db) = []"
    and "\<forall>i \<in> set ids. \<exists>spans. seg_holds Log (db_segs db) i spans" "Expire K ids cutoff db = (res, db')"
  shows "db_ok Log K db' \<and>
    (let gone = expired_view K db (filter (past (db_segs db) cutoff) ids)
     in case res of Inr _ \<Rightarrow> view K db' = gone | Inl _ \<Rightarrow> view K db' = view K db \<or> view K db' = gone)"
  using assms by (rule Expire_view)

theorem expire_removes_exactly_witness:
  "\<exists>r db'. Expire log_kv [1] 100 (sample_db []) = (Inr r, db') \<and> view log_kv (sample_db []) (span_key sample_span) = Some sample_span
     \<and> view log_kv db' = (\<lambda>k. None)"
proof -
  obtain res db' where x: "Expire log_kv [1] 100 (sample_db []) = (res, db')" by fastforce
  obtain r where r: "res = Inr r"
    using Expire_quiet [OF log_kv.kv_store_axioms sample_db(1,2) sample_db_more(1) sample_db(5) sample_db_more(3) sample_db(6) x] by blast
  have "past (db_segs (sample_db [])) 100 1"
    by (simp add: past_def spans_of_holds [OF sample_segs(2)] max_ts_def sample_span_def word_sless_alt)
  then have "expired_view log_kv (sample_db []) (filter (past (db_segs (sample_db [])) 100) [1]) = (\<lambda>k. None)"
    by (simp add: expired_view_def sample_view sample_index_map sample_loc_def fun_eq_iff)
  moreover have "\<exists>spans. seg_holds sample_Log (db_segs (sample_db [])) 1 spans"
    by (simp only: sample_db(3)) (rule exI, rule sample_segs(2))
  ultimately show ?thesis
    using expire_removes_exactly [OF log_kv.kv_store_axioms sample_db(1,2) _ x] x r by (simp add: sample_view Let_def)
qed

text \<open>
  C14. A live span at or after the cutoff survives every expiry, whatever it reports and whichever
  file operation fails; reads of the index do not fail.
\<close>

theorem expire_keeps_recent:
  assumes "kv_store K" "db_ok Log K db" "ix_tape (db_index db) = []"
    and "\<forall>i \<in> set ids. \<exists>spans. seg_holds Log (db_segs db) i spans" "Expire K ids cutoff db = (res, db')"
    and "view K db k = Some s" "\<not> Timestamp s <s cutoff"
  shows "view K db' k = Some s"
  using assms by (rule Expire_keeps_recent)

theorem expire_keeps_recent_witness:
  "view log_kv (snd (Expire log_kv [1] 7 (sample_db []))) (span_key sample_span) = Some sample_span"
proof -
  obtain res db' where x: "Expire log_kv [1] 7 (sample_db []) = (res, db')" by fastforce
  have "\<not> Timestamp sample_span <s 7" "\<exists>spans. seg_holds sample_Log (db_segs (sample_db [])) 1 spans"
    using sample_segs(2) by (auto simp: sample_span_def)
  then have "view log_kv db' (span_key sample_span) = Some sample_span"
    by (intro expire_keeps_recent [OF log_kv.kv_store_axioms sample_db(1,2) _ x]) (simp_all add: sample_view)
  with x show ?thesis by simp
qed

text \<open>
  C35. A single failed index read during compaction destroys a live span: it is taken for stale,
  not carried over, and the only file that holds it is unlinked, although the call succeeds; the
  index keeps its entry, which now points at a missing file.
\<close>

theorem compact_read_error_loses_span:
  assumes "seg_holds Log (db_segs db) i [s]" "fs_tape (db_segs db) = []" "fs_tape (db_meta db) = []"
    and "ix_tape (db_index db) = [Some 0]" "ix_db (db_index db) \<noteq> None"
    and "manifest_ids (db_manifest db) (db_meta db) = Inr live"
    and "idx_map K (db_index db) k = Some loc" "loc_SegmentID loc = i"
  shows "\<exists>r db'. Compact Log K [i] new db = (Inr r, db') \<and> SpansStale r = 1 \<and> SpansCarried r = 0
    \<and> idx_map K (db_index db') k = Some loc \<and> view K db' k = None"
  using assms by (rule compact_read_fault)

theorem compact_read_error_loses_span_witness:
  "view log_kv (sample_db [Some 0]) (span_key sample_span) = Some sample_span
   \<and> (\<exists>r db'. Compact sample_Log log_kv [1] 2 (sample_db [Some 0]) = (Inr r, db')
        \<and> view log_kv db' (span_key sample_span) = None)"
proof -
  have "\<exists>r db'. Compact sample_Log log_kv [1] 2 (sample_db [Some 0]) = (Inr r, db') \<and> SpansStale r = 1 \<and> SpansCarried r = 0
    \<and> idx_map log_kv (db_index db') (span_key sample_span) = Some sample_loc \<and> view log_kv db' (span_key sample_span) = None"
    by (rule compact_read_error_loses_span [where live = "[1]" and s = sample_span])
      (simp_all only: sample_db sample_segs sample_index_map, simp_all add: sample_index_def sample_loc_def)
  then show ?thesis by (auto simp: sample_view)
qed

section \<open>The engine\<close>

text \<open>
  An acknowledged insertion is an update of the abstract content: afterwards the key of the
  span stands for the span, or for nothing when it is a tombstone, and every other key stands
  for what it did.
\<close>

theorem insert_updates_content:
  assumes "InsertSpan pick span e = (Inr (), e')"
  shows "content K e' = (content K e)(span_key span := (if Deleted span then None else Some span))"
  using content_insert(1) [OF assms] by (simp add: apply_span_def)

theorem insert_updates_content_witness:
  "\<exists>e'. InsertSpan False sample_span (sample_engine empty_db) = (Inr (), e')
     \<and> content log_kv e' (span_key sample_span) = Some sample_span"
proof -
  obtain e' where e': "InsertSpan False sample_span (sample_engine empty_db) = (Inr (), e')" using sample_insert by blast
  with insert_updates_content [OF e', of log_kv] show ?thesis by simp
qed

text \<open>
  The separator in an id: the composite key is the same for trace \<open>t||u\<close> with span \<open>v\<close> and for trace
  \<open>t\<close> with span \<open>u||v\<close>, which are both valid ids, so the second of two such insertions takes the
  place of the first.
\<close>

theorem separator_collision:
  assumes "InsertSpan pick x e = (Inr (), e1)" "InsertSpan pick' y e1 = (Inr (), e2)" "\<not> Deleted y"
    and "TraceID x = t @ ''||'' @ u" "SpanID x = v" "TraceID y = t" "SpanID y = u @ ''||'' @ v"
  shows "content K e2 (span_key x) = Some y"
proof -
  have "span_key x = span_key y" using assms(4-7) by (simp add: CompositeKey_def)
  with content_insert(1) [OF assms(2)] assms(3) show ?thesis by (simp add: apply_span_def)
qed

theorem separator_collision_witness:
  "\<exists>e1 e2. InsertSpan False (sample_span\<lparr>TraceID := ''a||b'', SpanID := ''c''\<rparr>) (sample_engine empty_db) = (Inr (), e1)
    \<and> InsertSpan False (sample_span\<lparr>TraceID := ''a'', SpanID := ''b||c''\<rparr>) e1 = (Inr (), e2)
    \<and> content log_kv e2 (CompositeKey ''a||b'' ''c'') = Some (sample_span\<lparr>TraceID := ''a'', SpanID := ''b||c''\<rparr>)"
proof -
  let ?x = "sample_span\<lparr>TraceID := ''a||b'', SpanID := ''c''\<rparr>" and ?y = "sample_span\<lparr>TraceID := ''a'', SpanID := ''b||c''\<rparr>"
  have acc: "accepts \<lparr>Version = 0, Span = ?x\<rparr>" "accepts \<lparr>Version = 0, Span = ?y\<rparr>"
    by (simp_all add: accepts_def good_record_def stamped_def CurrentWALVersion_def sample_span_def zero_span_def span_fits_def
        payload_encoded_size_def string_fields_def wal_consts maxRecordSize_def)
  obtain i w where w: "AppendRecordWithSeg \<lparr>Version = 0, Span = ?x\<rparr> sample_wal = (Inr i, w)" "quiet w"
    using append_quiet [of sample_wal "\<lparr>Version = 0, Span = ?x\<rparr>"] acc(1) by auto
  from append_ok [OF _ _ acc(1) w(1)] have "wal_segmentID w \<noteq> - 1" by auto
  then obtain j w' where w': "AppendRecordWithSeg \<lparr>Version = 0, Span = ?y\<rparr> w = (Inr j, w')"
    using append_quiet [OF w(2), of "\<lparr>Version = 0, Span = ?y\<rparr>"] acc(2) by auto
  obtain e1 where e1: "InsertSpan False ?x (sample_engine empty_db) = (Inr (), e1)" "en_wal e1 = w" "\<not> en_closed e1" "length (en_chan e1) = 1"
    using w(1) by (simp add: InsertSpan_def appendTracked_def on_wal_def)
  obtain e2 where e2: "InsertSpan False ?y e1 = (Inr (), e2)"
    using w' e1(2-4) by (simp add: InsertSpan_def appendTracked_def on_wal_def)
  have "content log_kv e2 (span_key ?x) = Some ?y"
    by (rule separator_collision [OF e1(1) e2, of "''a''" "''b''" "''c''"]) (use sample_live(1) in simp_all)
  with e1(1) e2 show ?thesis by auto
qed

text \<open>
  C4. A flush of the session buffer that succeeds, under any schedule of file failures it
  survives, moves the buffered spans to the store and changes the content of no key; the
  invariant of the store is kept and the buffer is empty. The index does not fail, and the ids and
  filters have room.
\<close>

theorem flush_keeps_content:
  assumes "kv_store K" "store_ok Log K e" "seg_fits (map ps_span (session_spans e))"
    and "room Log (length (session_spans e)) 2 e" "flushAllSessions Log K now e = (Inr (), e')"
  shows "content K e' = content K e \<and> store_ok Log K e' \<and> en_sessions e' = [] \<and> en_chan e' = en_chan e"
  using flushAll_content [OF assms] by (simp add: buffer_flushed_def)

theorem flush_keeps_content_witness:
  "\<exists>e ps e'. InsertSpan False sample_span (sample_engine empty_db) = (Inr (), e)
     \<and> session_spans (receive_span 0 e) = [ps] \<and> ps_span ps = sample_span
     \<and> flushAllSessions sample_Log log_kv 0 (receive_span 0 e) = (Inr (), e')
     \<and> view log_kv (en_db e') (span_key sample_span) = Some sample_span"
proof -
  obtain e ps where e: "InsertSpan False sample_span (sample_engine empty_db) = (Inr (), e)" "ps_span ps = sample_span"
    "session_spans (receive_span 0 e) = [ps]" "en_chan (receive_span 0 e) = []" "flush_ready sample_Log log_kv 7 (receive_span 0 e)"
    "content log_kv (receive_span 0 e) (span_key sample_span) = Some sample_span" by (rule sample_buffered)
  let ?e = "receive_span 0 e"
  have "flush_ready sample_Log log_kv (Suc 0) ?e" by (rule flush_ready_mono [OF e(5)]) simp
  then obtain e' where e': "flushAllSessions sample_Log log_kv 0 ?e = (Inr (), e')"
    using flushAll_calm [OF log_kv.kv_store_axioms] by blast
  have "queue ?e = [ps]" using e(3,4) by (simp add: queue_def)
  then have "store_ok sample_Log log_kv ?e" "seg_fits (map ps_span (session_spans ?e))" "room sample_Log (length (session_spans ?e)) 2 ?e"
    using e(3,5) by (auto simp: flush_ready_def elim: room_mono)
  from flush_keeps_content [OF log_kv.kv_store_axioms this e'] have "queue e' = []" "content log_kv e' = content log_kv ?e"
    using e(4) by (simp_all add: queue_def session_spans_def)
  with e e' show ?thesis by (auto simp: content_def apply_spans_def)
qed

text \<open>
  C10. Without failures, with room in the ids and the filters and with trace ids without a \<^verbatim>\<open>|\<close>,
  \<^verbatim>\<open>Flush\<close> returns successfully whatever is queued and buffered; then nothing is queued or buffered
  any more and the durable store alone holds the content.
\<close>

theorem engine_flush_persists:
  assumes "kv_store K" "flush_ready Log K (length (en_chan e) + 1) e"
  shows "\<exists>e'. engine_Flush Log K now e = (Inr (), e') \<and> queue e' = [] \<and> view K (en_db e') = content K e
    \<and> content K e' = content K e \<and> store_ok Log K e'"
  using engine_Flush_calm [OF assms] by blast

theorem engine_flush_persists_witness:
  "\<exists>e e'. InsertSpan False sample_span (sample_engine empty_db) = (Inr (), e)
     \<and> engine_Flush sample_Log log_kv 0 e = (Inr (), e') \<and> view log_kv (en_db e') (span_key sample_span) = Some sample_span"
proof -
  obtain e i w where e: "InsertSpan False sample_span (sample_engine empty_db) = (Inr (), e)"
    "e = (sample_engine empty_db)\<lparr>en_wal := w, en_pending := [(i, 1)], en_chan := [\<lparr>ps_span = sample_span, ps_walSeg = i\<rparr>]\<rparr>"
    "flush_ready sample_Log log_kv 8 e" "content log_kv e (span_key sample_span) = Some sample_span"
    by (rule sample_insert)
  have "flush_ready sample_Log log_kv (length (en_chan e) + 1) e" using flush_ready_mono [OF e(3), of 2] by (simp add: e(2) numeral_2_eq_2)
  from engine_flush_persists [OF log_kv.kv_store_axioms this, of 0] e(1,4) show ?thesis by metis
qed

text \<open>
  C12. The background goroutines lose nothing that is not too old. In an engine without failures
  ahead, with room for the work and trace ids without a \<^verbatim>\<open>|\<close>, let the critical sections of the ingest
  loop, the flushes, the rollup snapshots, compaction and expiry run in any order (\<open>loops_are_schedules\<close>:
  each loop is such a schedule), taking a batch and writing it being two of them. If no batch is
  written before one that was taken earlier and has a key in common with it, then every span at or
  after the cutoffs of the expiries is kept, in channel, buffer, hands or store, no span is brought
  back, and the engine is ready for more.
\<close>

theorem background_keeps_content:
  assumes "kv_store K" "crew_ready Log K (length jobs + n) c" "orderly Log K jobs c"
  shows "(\<forall>k s. crew_content K c k = Some s \<longrightarrow>
        (\<forall>now. ExpireSegments now \<in> set jobs \<longrightarrow> \<not> Timestamp s <s now - cf_RetentionPeriod (en_config (cw_engine c))) \<longrightarrow>
        crew_content K (run_jobs Log K jobs c) k = Some s)
    \<and> (\<forall>k s. crew_content K (run_jobs Log K jobs c) k = Some s \<longrightarrow> crew_content K c k = Some s)
    \<and> crew_ready Log K n (run_jobs Log K jobs c)"
proof -
  let ?c' = "run_jobs Log K jobs c" and ?r = "cf_RetentionPeriod (en_config (cw_engine c))"
  let ?cs = "\<Union>j \<in> set jobs. job_cutoffs ?r j"
  have D: "fades ?cs (crew_content K c) (crew_content K ?c')" "crew_ready Log K n ?c'"
    using run_jobs_done [OF assms] by (simp_all add: job_done_def)
  have cs: "\<exists>now. ExpireSegments now \<in> set jobs \<and> cut = now - ?r" if "cut \<in> ?cs" for cut
    using that by (auto simp: in_job_cutoffs)
  show ?thesis
  proof (intro conjI allI impI)
    fix k s assume "crew_content K c k = Some s" and "\<forall>now. ExpireSegments now \<in> set jobs \<longrightarrow> \<not> Timestamp s <s now - ?r"
    with cs show "crew_content K ?c' k = Some s" by (intro fades_keeps [OF D(1)]) metis+
  qed (use fades_from [OF D(1)] D(2) in blast)+
qed

theorem background_keeps_content_witness:
  "\<exists>e ps. InsertSpan False sample_span (sample_engine empty_db) = (Inr (), e) \<and> ps_span ps = sample_span
    \<and> cw_taken (run_jobs sample_Log log_kv [Receive 0, TakeAll, ExpireSegments 5] (idle_crew e)) = [[ps]]
    \<and> (let c = run_jobs sample_Log log_kv [Receive 0, TakeAll, ExpireSegments 5, WriteTaken 0 5] (idle_crew e)
       in crew_spans c = [] \<and> view log_kv (en_db (cw_engine c)) (span_key sample_span) = Some sample_span)"
proof -
  obtain e ps where e: "InsertSpan False sample_span (sample_engine empty_db) = (Inr (), e)" "ps_span ps = sample_span"
    "session_spans (receive_span 0 e) = [ps]" "en_chan (receive_span 0 e) = []" "flush_ready sample_Log log_kv 8 e"
    "content log_kv e (span_key sample_span) = Some sample_span" "en_config e = DefaultWispTraceConfig" by (rule sample_buffered) blast
  let ?run = "\<lambda>jobs. run_jobs sample_Log log_kv jobs (idle_crew e)"
  let ?taken = "?run [Receive 0, TakeAll]" and ?before = "?run [Receive 0, TakeAll, ExpireSegments 5]"
  let ?jobs = "[Receive 0, TakeAll, ExpireSegments 5, WriteTaken 0 5]"
  have ready: "crew_ready sample_Log log_kv m (idle_crew e)" if "m \<le> 8" for m using flush_ready_mono [OF e(5) that] by simp
  have "crew_ready sample_Log log_kv (length [Receive 0, TakeAll] + 2) (idle_crew e)" by (rule ready) simp
  from background_keeps_content [OF log_kv.kv_store_axioms this] have r1: "crew_ready sample_Log log_kv 2 ?taken" by simp
  have "crew_ready sample_Log log_kv (length [Receive 0, TakeAll, ExpireSegments 5] + 1) (idle_crew e)" by (rule ready) simp
  from background_keeps_content [OF log_kv.kv_store_axioms this] have r2: "crew_ready sample_Log log_kv (Suc 0) ?before" by simp
  have t1: "cw_taken ?taken = [[ps]]" "queue (cw_engine ?taken) = []"
    using e(3,4) by (simp_all add: on_crew_def idle_crew_def hold_batch_def take_all_def session_spans_def queue_def)
  have "store_ok sample_Log log_kv (cw_engine ?taken)" using r1 by (simp add: crew_ready_def Let_def)
  from maybeExpire_kept [OF log_kv.kv_store_axioms this refl, of 5]
  have t2: "cw_taken ?before = [[ps]]" "queue (cw_engine ?before) = []"
    using t1 by (simp_all add: on_crew_def maybeExpire_def only_store_def frame_def queue_def session_spans_def)
  have i: "0 < length (cw_taken ?before)" unfolding t2(1) by simp
  obtain e' where "write_taken sample_Log log_kv 0 5 ?before = ?before\<lparr>cw_engine := e', cw_taken := take 0 (cw_taken ?before) @ drop (Suc 0) (cw_taken ?before)\<rparr>"
    "queue e' = queue (cw_engine ?before)" by (rule write_calm [OF log_kv.kv_store_axioms r2 i, of 5])
  moreover have "?run ?jobs = write_taken sample_Log log_kv 0 5 ?before" by simp
  ultimately have "cw_taken (?run ?jobs) = []" "queue (cw_engine (?run ?jobs)) = []" unfolding t2 by simp_all
  then have none: "crew_spans (?run ?jobs) = []" by (simp add: crew_spans_def)
  have R: "crew_ready sample_Log log_kv (length ?jobs + 0) (idle_crew e)" by (rule ready) simp
  have O: "orderly sample_Log log_kv ?jobs (idle_crew e)" by (simp add: overtakes_none_def)
  have C: "crew_content log_kv (idle_crew e) (span_key sample_span) = Some sample_span" using e(6) by simp
  have "\<not> Timestamp sample_span <s 5 - cf_RetentionPeriod (en_config (cw_engine (idle_crew e)))"
    by (simp add: idle_crew_def e(7)) (simp add: DefaultWispTraceConfig_def second_ns_def sample_span_def word_sless_alt)
  then have T: "\<forall>now. ExpireSegments now \<in> set ?jobs \<longrightarrow> \<not> Timestamp sample_span <s now - cf_RetentionPeriod (en_config (cw_engine (idle_crew e)))"
    by simp
  have "crew_content log_kv (?run ?jobs) (span_key sample_span) = Some sample_span"
    by (rule background_keeps_content [OF log_kv.kv_store_axioms R O, THEN conjunct1, THEN spec, THEN spec, THEN mp, THEN mp, OF C T])
  with none have "view log_kv (en_db (cw_engine (?run ?jobs))) (span_key sample_span) = Some sample_span"
    by (simp add: crew_content_def apply_spans_def)
  with e(1,2) t2(1) none show ?thesis by (intro exI [of _ e] exI [of _ ps]) (simp only: Let_def simp_thms)
qed

text \<open>
  C38. Between being taken out of the buffer and being written a batch is in nobody's view, and batches
  are not written in the order they were taken: when two flushes hold an older and a newer version of
  a span, nothing else is queued or buffered, and the newer batch is written first, then without any
  failure readers see neither before, and the older version is what the store holds in the end.
\<close>

theorem overtaking_flush_reverts:
  assumes "kv_store K" "crew_ready Log K 2 c" "cw_taken c = [b1, b2]" "queue (cw_engine c) = []"
    and "last_span k (map ps_span b1) = Some older" "\<not> Deleted older" "last_span k (map ps_span b2) = Some newer" "\<not> Deleted newer"
  shows "crew_content K c k = Some newer \<and> visible K (cw_engine c) k = view K (en_db (cw_engine c)) k
    \<and> view K (en_db (cw_engine (run_jobs Log K [WriteTaken 1 now, WriteTaken 0 now] c))) k = Some older"
proof -
  have "crew_content K c k = Some newer"
    using assms(3,4,7,8) by (simp add: crew_content_def crew_spans_def apply_spans_append) (simp add: apply_spans_last)
  moreover have "visible K (cw_engine c) k = view K (en_db (cw_engine c)) k"
    using assms(4) by (simp add: visible_def queue_def apply_spans_def)
  moreover have "view K (en_db (cw_engine (run_jobs Log K [WriteTaken 1 now, WriteTaken 0 now] c))) k = Some older"
    unfolding overtaking_reverts [OF assms(1-4)] using assms(5,6) by (simp add: apply_spans_append) (simp add: apply_spans_last)
  ultimately show ?thesis by blast
qed

theorem overtaking_flush_reverts_witness:
  "crew_content log_kv sample_crew (span_key sample_span) = Some sample_span
   \<and> view log_kv (en_db (cw_engine (run_jobs sample_Log log_kv [WriteTaken 1 0, WriteTaken 0 0] sample_crew))) (span_key sample_span) = Some older_span"
  using overtaking_flush_reverts [OF log_kv.kv_store_axioms sample_crew(3,2), of "span_key sample_span" older_span sample_span 0]
  by (simp add: last_span_def)

text \<open>
  C1. In every reachable state of the concurrent write path, whatever the interleaving of
  producers, ingestion, flushes, reclamation, compaction and expiry, and whichever commits and
  removals failed: as long as every append and every rotation so far succeeded (\<open>rn_intact\<close>; the
  appended records are within the limits of the format, as \<^verbatim>\<open>Validate\<close> ensures), a span that was
  appended and is not yet released has its record in the log: after a crash at that point, in the
  middle of another append, reopening and replaying the log returns it. A failed append can break
  this, see \<open>torn_tail_breaks_replay\<close>.
\<close>

theorem acknowledged_span_survives_crash:
  assumes "(engine_step Log K)\<^sup>*\<^sup>* r0 r" "run_start r0" "rn_intact r" "ps \<in> set (waiting r)" "ps_walSeg ps \<noteq> 0"
    and "named base (en_wal (rn_engine r0))" "accepts torn" "encode_record torn = p @ q" "q \<noteq> []" "m \<noteq> 0"
  shows "\<exists>w out. CreateWALWithSegmentSize (crash_dir (en_wal (rn_engine r)) p) base m [] = (Inr (), w)
    \<and> Replay w = (Inr out, w) \<and> stamped \<lparr>Version = 0, Span = ps_span ps\<rparr> \<in> set out"
  using assms by (rule crash_returns_waiting)

theorem acknowledged_span_survives_crash_witness:
  "\<exists>r w out. engine_step sample_Log log_kv (sample_run (sample_engine empty_db)) r
     \<and> CreateWALWithSegmentSize (crash_dir (en_wal (rn_engine r)) []) ''span.wal'' 1 [] = (Inr (), w)
     \<and> Replay w = (Inr out, w) \<and> sample_record \<in> set out"
proof -
  obtain r i where r: "engine_step sample_Log log_kv (sample_run (sample_engine empty_db)) r"
    "\<lparr>ps_span = sample_span, ps_walSeg = i\<rparr> \<in> set (waiting r)" "i \<noteq> 0" "rn_intact r" by (rule sample_appended)
  have "encode_record sample_record = [] @ encode_record sample_record" "encode_record sample_record \<noteq> []"
    by (simp_all add: encode_record_def record_header_def Let_def)
  from acknowledged_span_survives_crash [OF r_into_rtranclp [of "engine_step sample_Log log_kv", OF r(1)] _ r(4,2) _ _ _ this, of "''span.wal''" 1] r
  show ?thesis by (auto simp: sample_stamp)
qed

text \<open>
  C8. A point lookup for a trace id without a \<^verbatim>\<open>|\<close>, in an engine whose buffer is well formed (every
  span in the bucket of its trace, no \<^verbatim>\<open>|\<close> in the trace ids), returns what its key stands for in the
  visible content (the durable store overridden by the session buffer) or an error, and never a stale
  or deleted span; without faults it does not fail. The content is the visible content overridden by
  what is still in the channel. A batch in the hands of a flush is in neither
  (\<open>overtaking_flush_reverts\<close>), and with the separator in an id keys collide (\<open>separator_collision\<close>).
\<close>

theorem get_span_visible:
  assumes "kv_store K" "db_ok Log K (en_db e)" "sessions_ok e" "sep_free t" "GetSpan K t s e = (res, e')"
  shows "(res = Inr (visible K e (CompositeKey t s)) \<or> (\<exists>x. res = Inl x))
    \<and> (fs_tape (db_segs (en_db e)) = [] \<longrightarrow> ix_tape (db_index (en_db e)) = [] \<longrightarrow> res = Inr (visible K e (CompositeKey t s)))
    \<and> content K e = apply_spans (map ps_span (en_chan e)) (visible K e)"
  using GetSpan_visible [OF assms] content_visible by simp

theorem get_span_visible_witness:
  "\<exists>e'. GetSpan log_kv ''t1'' ''s1'' (sample_engine (sample_db [])) = (Inr (Some sample_span), e')"
proof -
  obtain res e' where g: "GetSpan log_kv ''t1'' ''s1'' (sample_engine (sample_db [])) = (res, e')" by fastforce
  have "visible log_kv (sample_engine (sample_db [])) (CompositeKey ''t1'' ''s1'') = Some sample_span"
    by (simp add: visible_def apply_spans_def sample_view) (simp add: sample_span_def)
  with get_span_visible [OF log_kv.kv_store_axioms _ _ _ g, of sample_Log] g show ?thesis by (simp add: sep_free_def)
qed

text \<open>
  C2. A range query is exact when no read of the index fails and the manifest lists every segment the
  index points into: when it succeeds it returns every visible span that matches the filter, each
  key once, and nothing else, although it prunes segments by time range and filters and skips records
  that the buffer or a newer segment overrides. Then it fails only on a file fault.
\<close>

theorem range_query_exact:
  assumes "kv_store K" "db_ok Log K (en_db e)" "ix_tape (db_index (en_db e)) = []" "manifest_holds Log (en_db e)"
    and "listed K (en_db e)" "RangeQuery K f e = (res, e')"
  shows "(\<exists>out. res = Inr out \<and> distinct (map span_key out)
        \<and> (\<forall>s. s \<in> set out \<longleftrightarrow> visible K e (span_key s) = Some s \<and> filter_matches f s))
      \<or> (\<exists>x. res = Inl x) \<and> (fs_tape (db_segs (en_db e)) \<noteq> [] \<or> fs_tape (db_meta (en_db e)) \<noteq> [])"
  using assms by (rule RangeQuery_visible)

theorem range_query_exact_witness:
  "\<exists>out e'. RangeQuery log_kv (any_filter 0 10) (sample_engine (sample_db [])) = (Inr out, e') \<and> sample_span \<in> set out"
proof -
  obtain res e' where g: "RangeQuery log_kv (any_filter 0 10) (sample_engine (sample_db [])) = (res, e')" by fastforce
  have "visible log_kv (sample_engine (sample_db [])) (span_key sample_span) = Some sample_span"
    by (simp add: visible_def apply_spans_def sample_view)
  moreover have "filter_matches (any_filter 0 10) sample_span"
    by (simp add: filter_matches_def any_filter_def sample_span_def word_sless_alt)
  moreover have "\<exists>out. res = Inr out \<and> (\<forall>s. s \<in> set out \<longleftrightarrow>
      visible log_kv (sample_engine (sample_db [])) (span_key s) = Some s \<and> filter_matches (any_filter 0 10) s)"
    using range_query_exact [OF log_kv.kv_store_axioms _ _ _ _ g, of sample_Log] by auto
  ultimately show ?thesis using g by auto
qed

text \<open>
  C33. Recovery can undo an acknowledged update: when the log still holds an older and the newer
  version of a span whose newer version is in the store, the replay buffers the older one again
  and skips the newer one as already indexed, so readers see the older version afterwards.
\<close>

theorem recovery_reverts_update:
  assumes "kv_store K" "db_ok Log K (en_db e)" "ix_tape (db_index (en_db e)) = []" "fs_tape (db_segs (en_db e)) = []"
    and "en_recovering e" "en_sessions e = []" "en_chan e = []"
    and "sep_free (TraceID (Span older))" "span_key (Span newer) = span_key (Span older)"
    and "\<not> Deleted (Span older)" "\<not> Deleted (Span newer)"
    and "\<not> spansEqual (Span newer) (Span older)" "spansEqual (Span newer) (Span newer)"
    and "visible K e (span_key (Span older)) = Some (Span newer)"
  shows "visible K (replay_records Log K now [older, newer] e) (span_key (Span older)) = Some (Span older)"
proof -
  have "view K (en_db e) (span_key (Span older)) = Some (Span newer)"
    using assms(6,14) by (simp add: visible_def session_spans_def apply_spans_def)
  from replay_reverts(1) [OF assms(1-13) this] show ?thesis .
qed

theorem recovery_reverts_update_witness:
  "visible log_kv (replay_records sample_Log log_kv 0 [\<lparr>Version = 1, Span = older_span\<rparr>, \<lparr>Version = 1, Span = sample_span\<rparr>]
     ((sample_engine (sample_db []))\<lparr>en_recovering := True\<rparr>)) (span_key sample_span) = Some older_span"
proof -
  let ?e = "(sample_engine (sample_db []))\<lparr>en_recovering := True\<rparr>"
  have "visible log_kv ?e (span_key sample_span) = Some sample_span"
    by (simp add: visible_def session_spans_def apply_spans_def sample_view)
  then show ?thesis
    using recovery_reverts_update [of log_kv sample_Log ?e "\<lparr>Version = 1, Span = older_span\<rparr>" "\<lparr>Version = 1, Span = sample_span\<rparr>" 0]
      log_kv.kv_store_axioms by simp
qed

text \<open>
  C30. The segment id chosen at start-up is unused: it is above the checkpoint and no segment
  file, listed in the manifest or not, has it or a later one (unless the ids are exhausted).
\<close>

theorem next_segment_id_fresh:
  assumes "computeNextSegmentID lastConfirmed e = (Inr n, e')" "n \<noteq> 0"
  shows "lastConfirmed < n \<and> (\<forall>i. n \<le> i \<longrightarrow> dir_get (fs_dir (db_segs (en_db e'))) (SegmentPath i) = None)"
  using next_id_fresh [OF assms] by (simp add: unused_from_def)

theorem next_segment_id_fresh_witness:
  "\<exists>n e'. computeNextSegmentID 3 (sample_engine empty_db) = (Inr n, e') \<and> 3 < n"
proof -
  obtain e' where c: "computeNextSegmentID 3 (sample_engine empty_db) = (Inr 4, e')"
    by (simp add: computeNextSegmentID_def on_meta_def manifest_quiet(2) Let_def fs_fault_nil max_id_def)
      (simp add: empty_db_def manifest_ids_def manifest_decode_def List.map_filter_def max_id_def)
  from next_segment_id_fresh [OF c] c show ?thesis by auto
qed

section \<open>The reader cache\<close>

text \<open>
  C15. However the clients of the reader cache interleave, and whichever closes fail, a lease is
  safe until the cache is shut down: the reader it gives access to has not been closed and its
  handle has not been used. Once every purge of a segment has returned and none gave up, no reader
  of the segment is open, so its file can be removed, and it cannot be acquired again.
\<close>

theorem cache_leases_safe:
  assumes "cache_step\<^sup>*\<^sup>* (cache_start maxEntries t segs) r" "\<not> ca_closed (cr_cache r)"
  shows "((h, a) \<in> set (cr_leases r) \<longrightarrow> \<not> ce_closed (ca_heap (cr_cache r) ! a) \<and> \<not> ha_fired (ca_handles (cr_cache r) ! h))
    \<and> (i \<in> set (ca_dead (cr_cache r)) \<and> (\<forall>w \<in> set (cr_waits r). i \<notin> set (cw_ids w)) \<and> i \<notin> set (cr_leaked r) \<longrightarrow>
        (\<forall>b < length (ca_heap (cr_cache r)). ce_id (ca_heap (cr_cache r) ! b) = i \<longrightarrow> ce_closed (ca_heap (cr_cache r) ! b))
        \<and> fst (Acquire pick i (cr_cache r) (cr_segs r)) = Inl CachePurged)"
proof -
  note ok = cache_reachable [OF assms(1)]
  have "fst (Acquire pick i (cr_cache r) (cr_segs r)) = Inl CachePurged" if "i \<in> set (ca_dead (cr_cache r))"
    using that assms(2) by (simp add: Acquire_def)
  with lease_open [OF ok assms(2)] purged_closed [OF ok assms(2)] show ?thesis by blast
qed

lemma cache_leases_safe_witness:
  "\<not> ce_closed (ca_heap (cache_with 1 False False []) ! 0) \<and> \<not> ha_fired (ca_handles (cache_with 1 False False []) ! 0)"
  using cache_leases_safe [OF sample_steps(1), of 0 0 0 None] by (simp add: cache_run_of_def cache_with_def)

text \<open>
  C22. A cached reader is as good as a fresh one: in every run a successful acquisition, hit or
  miss, gives the reader that opening the segment file gives at this moment, leaves the files as
  they are, and leases it under a handle that is in nobody's hands.
\<close>

theorem cached_reader_is_file:
  assumes "cache_step\<^sup>*\<^sup>* (cache_start maxEntries t segs) r"
    and "Acquire pick i (cr_cache r) (cr_segs r) = (Inr (rd, h), c', segs')"
  shows "\<exists>data. dir_get (fs_dir (cr_segs r)) (SegmentPath i) = Some data \<and> open_light data = Inr rd
    \<and> fs_dir segs' = fs_dir (cr_segs r) \<and> h \<notin> fst ` set (cr_leases r)"
  by (rule Acquire_reader [OF cache_reachable [OF assms(1)] assms(2)])

lemma cached_reader_is_file_witness:
  "\<exists>data. dir_get (fs_dir sample_segs) (SegmentPath 1) = Some data \<and> open_light data = Inr sample_reader"
proof -
  have "Acquire (Some 0) 1 (cr_cache (cache_run_of (cache_with 0 False True [0]) [] [] [])) (cr_segs (cache_run_of (cache_with 0 False True [0]) [] [] []))
      = (Inr (sample_reader, 0), cache_with 1 False False [], sample_segs)"
    by (simp add: cache_run_of_def sample_reacquire)
  from cached_reader_is_file [OF sample_steps(2) this] show ?thesis by (auto simp: cache_run_of_def)
qed

text \<open>
  C39. The promise of a purge, success only when no handle is left, ends with a purge that gives
  up: when a client asks for the same segment again while a reader of it is still leased, the second
  purge finds no entry to wait for and reports success although that reader is open.
\<close>

theorem second_purge_succeeds:
  assumes "cache_step\<^sup>*\<^sup>* (cache_start maxEntries t segs) r" "\<not> ca_closed (cr_cache r)"
    and "i \<in> set (ca_dead (cr_cache r))" "(h, a) \<in> set (cr_leases r)" "ce_id (ca_heap (cr_cache r) ! a) = i"
  shows "\<exists>c'. Purge [i] (cr_cache r) = (Done None, c') \<and> \<not> ce_closed (ca_heap c' ! a)"
  by (rule purge_again [OF cache_reachable [OF assms(1)] assms(2-5)])

lemma second_purge_succeeds_witness: "\<exists>c'. Purge [1] (cache_with 1 True False []) = (Done None, c') \<and> \<not> ce_closed (ca_heap c' ! 0)"
  using second_purge_succeeds [OF sample_steps(3), of 1 0 0] by (simp add: cache_run_of_def cache_with_def)

text \<open>
  C40. Releasing a handle twice is not harmless: after the first release the pool may give the same
  handle to the next acquisition, of any segment, and the second release by the former owner then
  ends the new owner's lease, so the entry counts fewer users than there are leases on it.
\<close>

theorem second_release_steals_lease:
  assumes "cache_step\<^sup>*\<^sup>* (cache_start maxEntries t segs) r" "h \<in> set (ca_pool (cr_cache r))"
    and "Acquire (Some h) i (cr_cache r) (cr_segs r) = (Inr (rd, h'), c', segs')"
    and "Release h c' = (err, c'')" "ha_lease (ca_handles c' ! h') = Cached a"
  shows "h' = h \<and> ce_refs (ca_heap c'' ! a) < leases_on a ((h', a) # cr_leases r)"
  by (rule release_again [OF cache_reachable [OF assms(1)] assms(2-5)])

lemma second_release_steals_lease_witness:
  "ce_refs (ca_heap (cache_with 0 False True [0]) ! 0) < leases_on 0 [(0, 0)]"
proof -
  let ?r = "cache_run_of (cache_with 0 False True [0]) [] [] []"
  have "Acquire (Some 0) 1 (cr_cache ?r) (cr_segs ?r) = (Inr (sample_reader, 0), cache_with 1 False False [], sample_segs)"
    "0 \<in> set (ca_pool (cr_cache ?r))" "ha_lease (ca_handles (cache_with 1 False False []) ! 0) = Cached 0"
    by (simp_all add: cache_run_of_def sample_reacquire) (simp_all add: cache_with_def)
  from second_release_steals_lease [OF sample_steps(2) this(2,1) sample_release this(3)] show ?thesis by (simp add: cache_run_of_def)
qed

section \<open>The consistency check\<close>

text \<open>
  C19. A report without errors can be relied on, under any schedule of read faults: the manifest is
  readable, every listed segment is intact, the last live record of a key is where the index places
  it, and every index entry leads to a record of its key.
\<close>

theorem clean_report_sound:
  assumes "kv_store K" "idx_ok K (db_index (en_db e))" "report_OK (fst (CheckConsistency K e))"
  shows "\<exists>ids. manifest_ids (db_manifest (en_db e)) (db_meta (en_db e)) = Inr ids \<and>
    (\<forall>i \<in> set ids. segment_intact i (db_segs (en_db e)) \<and>
       (\<forall>recs. file_records i (db_segs (en_db e)) = Inr recs \<longrightarrow> live_at_home (idx_map K (db_index (en_db e))) i recs)) \<and>
    (\<forall>k loc. idx_map K (db_index (en_db e)) k = Some loc \<longrightarrow>
       (\<exists>s. seg_read (loc_SegmentID loc) (loc_Offset loc) (db_segs (en_db e)) = Inr s \<and> span_key s = k))"
  by (rule CheckConsistency_cases [OF assms(1,2) prod.collapse [symmetric] assms(3)])

theorem clean_report_sound_witness:
  "report_OK (fst (CheckConsistency log_kv (sample_engine (sample_db []))))
   \<and> (\<exists>s. seg_read 1 (loc_Offset sample_loc) sample_segs = Inr s \<and> span_key s = span_key sample_span)"
proof
  have "idx_map log_kv (db_index (en_db (sample_engine (sample_db [])))) (span_key sample_span) = Some sample_loc" by (simp add: sample_index_map)
  moreover have "loc_SegmentID sample_loc = 1" by (simp add: sample_loc_def)
  ultimately show "\<exists>s. seg_read 1 (loc_Offset sample_loc) sample_segs = Inr s \<and> span_key s = span_key sample_span"
    using clean_report_sound [OF log_kv.kv_store_axioms _ sample_report] by fastforce
qed (rule sample_report)

text \<open>
  C20. The check raises no false alarm: on an intact store without faults the report is free of
  errors exactly when the checkpoint is readable and not ahead of every segment file and every
  listed segment holds the last live record of a key only where the index places that key.
\<close>

theorem report_exact:
  assumes "kv_store K" "db_ok Log K (en_db e)" "manifest_holds Log (en_db e)"
    and "ix_tape (db_index (en_db e)) = []" "fs_tape (db_segs (en_db e)) = []" "fs_tape (db_meta (en_db e)) = []"
  shows "report_OK (fst (CheckConsistency K e)) \<longleftrightarrow> checkpoint_fine e \<and>
    (\<forall>ids. manifest_ids (db_manifest (en_db e)) (db_meta (en_db e)) = Inr ids \<longrightarrow>
      (\<forall>i \<in> set ids. \<forall>spans. seg_holds Log (db_segs (en_db e)) i spans
         \<longrightarrow> live_at_home (idx_map K (db_index (en_db e))) i (seg_entries Log spans)))"
  using assms by (rule CheckConsistency_exact)

theorem report_exact_witness: "report_OK (fst (CheckConsistency log_kv (sample_engine (sample_db []))))"
  by (subst report_exact [OF log_kv.kv_store_axioms, of sample_Log]) (auto intro: sample_home)

text \<open>
  C37. An update that crosses a flush is reported as a violation: when a listed segment still holds
  a live version of a span and the index places its key in another segment, which is how an ordinary
  second insertion of the span leaves an intact store, the report has an error.
\<close>

theorem update_reported_as_violation:
  assumes "kv_store K" "db_ok Log K (en_db e)" "manifest_ids (db_manifest (en_db e)) (db_meta (en_db e)) = Inr ids"
    and "i \<in> set ids" "seg_holds Log (db_segs (en_db e)) i spans" "last_span k spans = Some s" "\<not> Deleted s"
    and "idx_map K (db_index (en_db e)) k = Some loc" "loc_SegmentID loc \<noteq> i"
  shows "\<not> report_OK (fst (CheckConsistency K e))"
  using assms by (rule update_flagged)

theorem update_reported_as_violation_witness:
  "db_ok sample_Log log_kv two_db \<and> \<not> report_OK (fst (CheckConsistency log_kv (sample_engine two_db)))"
proof -
  have "\<not> report_OK (fst (CheckConsistency log_kv (sample_engine two_db)))"
    by (rule update_reported_as_violation [of log_kv sample_Log "sample_engine two_db" "[1, 2]" 1 "[sample_span]" "span_key sample_span" sample_span newer_loc])
      (simp_all add: log_kv.kv_store_axioms two_map newer_loc_def last_span_def)
  then show ?thesis by simp
qed

section \<open>The public interface\<close>

text \<open>
  C21. A span that passes validation survives storage: the log accepts it, it encodes and decodes
  without loss, and the span handed back differs at most in the fraction of a millisecond of its
  duration.
\<close>

theorem validated_span_survives:
  assumes "Validate s = None"
  shows "accepts \<lparr>Version = 0, Span = toPayload s\<rparr>
    \<and> decode_span_payload (encode_span_payload (toPayload s)) = Inr (toPayload s)
    \<and> fromPayload (toPayload s) = whole_duration s"
  using validated_accepts(1) [OF assms] validated_fits(1) [OF assms] from_to_payload [OF assms]
  by (simp add: decode_encode_iff)

theorem validated_span_survives_witness:
  "decode_span_payload (encode_span_payload (toPayload sample_public)) = Inr (toPayload sample_public)
   \<and> fromPayload (toPayload sample_public) = sample_public\<lparr>sp_Duration := 1000000\<rparr>"
  using validated_span_survives [of sample_public] by (simp add: whole_duration_def) (simp add: sample_public_def)

text \<open>
  C9. Read your writes: on a database opened with \<^verbatim>\<open>WithReadYourWrites\<close> without failures ahead, with
  room for its work and no \<^verbatim>\<open>|\<close> in the trace ids, \<^verbatim>\<open>Ingest\<close> of a valid span, not cancelled and with no
  flush of another goroutine in between, returns without an error, and the point read right after it
  returns that span.
\<close>

theorem ingested_span_is_read:
  assumes "kv_store K" "Validate s = None" "sep_free (sp_TraceID s)" "\<not> wd_closed db" "wd_ryw db"
    and "flush_ready Log K (length (en_chan (wd_eng db)) + 2) (wd_eng db)" "insert_room Log (wd_eng db)"
  shows "\<exists>db' db''. Ingest Log K now pick (None, None, None) s db = (Inr (), db')
    \<and> db_Span K None (sp_TraceID s) (sp_SpanID s) db' = (Inr (whole_duration s), db'')"
  using assms by (rule ingest_then_read)

theorem ingested_span_is_read_witness:
  "\<exists>db' db''. Ingest sample_Log log_kv 0 False (None, None, None) sample_public (sample_wisp True empty_db) = (Inr (), db')
    \<and> db_Span log_kv None ''t1'' ''s1'' db' = (Inr (whole_duration sample_public), db'')"
proof -
  have "length (en_chan (wd_eng (sample_wisp True empty_db))) + 2 = 2" by simp
  with ingested_span_is_read [OF log_kv.kv_store_axioms sample_public(1,4), of "sample_wisp True empty_db" sample_Log 0 False] empty_ready
  show ?thesis by (simp only: sample_wisp sample_public(2,3) simp_thms)
qed

text \<open>
  C11. A clean shutdown loses nothing: in a database without failures ahead, with room for its work
  and trace ids without a \<^verbatim>\<open>|\<close>, \<^verbatim>\<open>Close\<close> reports no error, and the store it leaves, index and files,
  holds the content of the database: what was stored, buffered and still queued. Closing again has no
  effect.
\<close>

theorem close_persists:
  assumes "kv_store K" "wd_closeErr db = None" "flush_ready Log K (length (en_chan (wd_eng db)) + 1) (wd_eng db)"
  shows "\<exists>db'. db_Close Log K now db = ([], db') \<and> wd_closed db' \<and> view K (en_db (wd_eng db')) = content K (wd_eng db)
    \<and> queue (wd_eng db') = [] \<and> store_ok Log K (wd_eng db') \<and> db_Close Log K later db' = ([], db')"
proof -
  let ?e = "WaitForIngest Log K now (wd_eng db)"
  have D: "flush_ready Log K 1 ?e" "content K ?e = content K (wd_eng db)" "en_chan ?e = []"
    using drain_calm [OF assms(1), of Log _ 1 "wd_eng db" now] assms(3) by (simp_all add: WaitForIngest_def)
  from engine_Close_calm [OF assms(1) D(1), of now] obtain e' where "engine_Close Log K now ?e = ([], e')"
    "content K e' = content K ?e" "queue e' = []" "store_ok Log K e'" by (auto simp: D(3))
  with assms(2) D(2) show ?thesis by (auto simp: db_Close_def content_def apply_spans_def)
qed

theorem close_persists_witness:
  "\<exists>e db'. InsertSpan False sample_span (sample_engine empty_db) = (Inr (), e)
    \<and> db_Close sample_Log log_kv 0 ((sample_wisp False empty_db)\<lparr>wd_eng := e\<rparr>) = ([], db')
    \<and> view log_kv (en_db (wd_eng db')) (span_key sample_span) = Some sample_span"
proof -
  obtain e i w where e: "InsertSpan False sample_span (sample_engine empty_db) = (Inr (), e)"
    "e = (sample_engine empty_db)\<lparr>en_wal := w, en_pending := [(i, 1)], en_chan := [\<lparr>ps_span = sample_span, ps_walSeg = i\<rparr>]\<rparr>"
    "flush_ready sample_Log log_kv 8 e" "content log_kv e (span_key sample_span) = Some sample_span" by (rule sample_insert)
  let ?db = "(sample_wisp False empty_db)\<lparr>wd_eng := e\<rparr>"
  have "flush_ready sample_Log log_kv (length (en_chan (wd_eng ?db)) + 1) (wd_eng ?db)" "wd_closeErr ?db = None"
    using flush_ready_mono [OF e(3), of 2] by (simp_all add: e(2) numeral_2_eq_2 sample_wisp_def)
  from close_persists [OF log_kv.kv_store_axioms this(2,1), of 0 0] obtain db' where
    "db_Close sample_Log log_kv 0 ?db = ([], db')" "view log_kv (en_db (wd_eng db')) = content log_kv (wd_eng ?db)" by blast
  with e(1,4) show ?thesis by (intro exI [of _ e] exI [of _ db']) simp
qed

text \<open>
  C18. Following the cursors of a query ends and is complete: on an intact store without faults,
  within a page more than there are results the pages together are every visible span that matches
  the query, each once, in the order asked for, whatever the page size.
\<close>

theorem query_pages_complete:
  assumes "kv_store K" "db_ok Log K (en_db (wd_eng db))" "ix_tape (db_index (en_db (wd_eng db))) = []"
    and "manifest_holds Log (en_db (wd_eng db))" "listed K (en_db (wd_eng db))"
    and "fs_tape (db_segs (en_db (wd_eng db))) = []" "fs_tape (db_meta (en_db (wd_eng db))) = []"
    and "\<not> wd_closed db" "q_Cursor q = []" "n < 2 ^ 63"
  shows "\<exists>ps. distinct (map span_key ps)
    \<and> (\<forall>s. s \<in> set ps \<longleftrightarrow> visible K (wd_eng db) (span_key s) = Some s \<and> filter_matches (query_filter q) s)
    \<and> (length ps \<le> n \<longrightarrow> (\<exists>spans. read_all (Suc n) K q db = Some spans \<and> mset spans = mset (map fromPayload ps)
        \<and> sorted_wrt (span_less (q_NewestFirst q)) spans))"
proof -
  obtain res e' where R: "RangeQuery K (query_filter q) (wd_eng db) = (res, e')" by fastforce
  have "idx_ok K (db_index (en_db (wd_eng db)))" using assms(2) by (simp add: db_ok_def entries_ok_def)
  then have e': "e' = wd_eng db" using RangeQuery_calm [OF assms(1) _ assms(3,4,6,7) R] by blast
  obtain ps where ps: "res = Inr ps" "distinct (map span_key ps)"
    "\<forall>s. s \<in> set ps \<longleftrightarrow> visible K (wd_eng db) (span_key s) = Some s \<and> filter_matches (query_filter q) s"
    using RangeQuery_visible [OF assms(1-5) R] assms(6,7) by auto
  have "\<exists>spans. read_all (Suc n) K q db = Some spans \<and> mset spans = mset (map fromPayload ps)
      \<and> sorted_wrt (span_less (q_NewestFirst q)) spans" if len: "length ps \<le> n"
  proof -
    have R': "RangeQuery K (query_filter q) (wd_eng db) = (Inr ps, wd_eng db)" using R e' ps(1) by simp
    have "mset (sortSpans (fromPayloads ps) (q_NewestFirst q)) = mset (map fromPayload ps)" by (simp add: sortSpans_def fromPayloads_def)
    with pages_complete [OF R' assms(8,9) ps(2) _ len] matching_sorted(2) [OF R' ps(2)] len assms(10) show ?thesis by auto
  qed
  with ps(2,3) show ?thesis by blast
qed

theorem query_pages_complete_witness:
  "\<exists>spans. read_all 2 log_kv (any_query 1) (sample_wisp False (sample_db [])) = Some spans \<and> set spans = {fromPayload sample_span}"
proof -
  let ?db = "sample_wisp False (sample_db [])"
  have vis: "visible log_kv (sample_engine (sample_db [])) k = (if k = span_key sample_span then Some sample_span else None)" for k
    by (simp add: visible_def apply_spans_def sample_view)
  have match: "filter_matches (query_filter (any_query 1)) sample_span"
    by (simp add: any_query_filter filter_matches_def any_filter_def sample_span_def word_sless_alt)
  obtain ps where ps: "distinct (map span_key ps)"
    "\<forall>s. s \<in> set ps \<longleftrightarrow> visible log_kv (wd_eng ?db) (span_key s) = Some s \<and> filter_matches (query_filter (any_query 1)) s"
    "length ps \<le> 1 \<longrightarrow> (\<exists>spans. read_all (Suc 1) log_kv (any_query 1) ?db = Some spans \<and> mset spans = mset (map fromPayload ps))"
    using query_pages_complete [OF log_kv.kv_store_axioms, of sample_Log ?db "any_query 1" 1]
    by (auto simp: any_query_def range_query_def)
  have "set ps = {sample_span}" using ps(2) vis match by (auto split: if_splits)
  moreover have "distinct ps" using ps(1) by (simp add: distinct_map)
  ultimately have "ps = [sample_span]" by (cases ps) (auto simp: subset_singleton_iff)
  with ps(3) show ?thesis by (metis One_nat_def le_refl length_Cons list.map(1,2) list.set(1,2) list.size(3) numeral_2_eq_2 set_mset_mset)
qed

text \<open>
  A range from the beginning of time up to a moment between \<open>2 ^ 63\<close> and \<open>2 ^ 64\<close> ns after the epoch,
  such as the year 2300, matches nothing: its upper bound wraps to a moment before the epoch.
\<close>

theorem far_range_is_empty:
  assumes "tr_From (q_Range q) = zero_time" "2 ^ 63 \<le> tr_To (q_Range q)" "tr_To (q_Range q) < 2 ^ 64"
  shows "\<not> filter_matches (query_filter q) s"
  using assms by (rule far_range_matches_nothing)

theorem far_range_is_empty_witness:
  "\<not> filter_matches (query_filter (range_query (Between zero_time (10 ^ 19)))) sample_span
   \<and> filter_matches (query_filter (range_query (Between zero_time (9 * 10 ^ 18)))) sample_span"
proof
  show "\<not> filter_matches (query_filter (range_query (Between zero_time (10 ^ 19)))) sample_span"
    by (rule far_range_is_empty) (simp_all add: range_query_def Between_def)
  show "filter_matches (query_filter (range_query (Between zero_time (9 * 10 ^ 18)))) sample_span"
    by (simp add: filter_matches_def query_filter_def range_query_def Between_def bounds_def zero_time_def UnixNano_def
        sample_span_def zero_span_def word_sless_alt)
qed

section \<open>Recording and importing spans\<close>

text \<open>
  C23. What \<^verbatim>\<open>buildPayload\<close> renders passes the validation of payloads: for any name, message and
  attributes without floats and raw messages, nested less deeply than the scanner allows, the bytes
  are empty or valid JSON.
\<close>

theorem payload_is_json:
  assumes "buildPayload name msg attrs = Inr b" "\<forall>(k, v) \<in> set attrs. plain_value (maxNestingDepth - 2) v"
  shows "b = [] \<or> json_Valid b"
  using assms by (rule buildPayload_valid)

theorem payload_is_json_witness:
  "\<exists>b. buildPayload ''n'' ''m'' [(''k'', GoList [GoInt (- 5), GoString ''v'', GoNil]), (''a'', GoMap [(''x'', GoBool True)])] = Inr b
     \<and> b \<noteq> [] \<and> json_Valid b"
proof -
  let ?attrs = "[(''k'', GoList [GoInt (- 5), GoString ''v'', GoNil]), (''a'', GoMap [(''x'', GoBool True)])]"
  obtain b where b: "buildPayload ''n'' ''m'' ?attrs = Inr b" "b \<noteq> []" by (auto simp: buildPayload_def json_object_def)
  have "plain_value (maxNestingDepth - 2) v" if "(k, v) \<in> set ?attrs" for k v
    using that by (auto simp: maxNestingDepth_def)
  with payload_is_json [OF b(1)] b show ?thesis by blast
qed

text \<open>
  C13. A span is ended by at most one call of \<^verbatim>\<open>End\<close>, however many calls and setters interleave and
  whichever storings fail: in every reachable state the calls that succeeded and the calls that are
  storing are together one if the span counts as ended and none otherwise, so a call that succeeded
  excludes every other. Every stored copy has the ids of the span, and there is one per call that
  succeeded and per call that failed after the insertion (when the wait for the queue is cancelled),
  so a retry after such a failure stores the span again.
\<close>

theorem span_ended_once:
  assumes "end_step\<^sup>*\<^sup>* (started s) w" "\<not> as_ended s"
  shows "length (filter succeeded (ew_calls w)) + length (filter (\<lambda>c. (\<exists>a. c = Storing a) \<or> (\<exists>x. c = Failing x)) (ew_calls w))
      = (if as_ended (ew_span w) then 1 else 0)
    \<and> length (ew_stored w) = length (filter succeeded (ew_calls w)) + ew_late w
    \<and> (\<forall>c \<in> set (ew_stored w). active_TraceID c = active_TraceID s \<and> active_SpanID c = active_SpanID s)"
  using ended_once [OF assms, unfolded busy_iff] by (auto simp: end_inv_def span_ids_def)

theorem span_ended_once_witness:
  "\<exists>w. end_step\<^sup>*\<^sup>* (started sample_active) w
     \<and> ew_calls w = [Returned (Inl (ErrCtx Canceled)), Returned (Inr ()), Returned (Inl ErrEnded)] \<and> length (ew_stored w) = 2"
proof -
  obtain w where w: "end_step\<^sup>*\<^sup>* (started sample_active) w"
    "ew_calls w = [Returned (Inl (ErrCtx Canceled)), Returned (Inr ()), Returned (Inl ErrEnded)]" "ew_late w = 1" by (rule sample_ends)
  with span_ended_once [OF w(1)] show ?thesis by (auto simp: sample_active_def)
qed

text \<open>
  C16. A request that \<^verbatim>\<open>IngestOTLP\<close> ingests without an error is accounted for span by span: the
  rejections are exactly the spans that do not map or do not validate, with their position in the
  request and in its order, and the others are counted as accepted and (unless the call also waited
  for the queue) added to the content in that order.
\<close>

theorem otlp_request_accounted:
  assumes "IngestOTLP Log K now pick c cs sync r db = ((res, None), db')"
  shows "\<exists>req. length (rd_data r) \<le> MaxOTLPBytes \<and> json_Unmarshal into_otlpRequest (rd_data r) ([], 0) = Some req
    \<and> br_Rejected res = otlp_rejections 0 (request_spans req) \<and> br_Accepted res = int (length (otlp_accepted (request_spans req)))
    \<and> (\<not> wd_ryw db \<longrightarrow> content K (wd_eng db') = apply_spans (map toPayload (otlp_accepted (request_spans req))) (content K (wd_eng db)))"
  using assms by (rule otlp_accounts) blast

theorem otlp_request_accounted_witness:
  "\<exists>res db'. IngestOTLP sample_Log log_kv 0 False None (\<lambda>_. None) (None, None) \<lparr>rd_data = sample_request, rd_fails = False\<rparr>
      (sample_wisp False empty_db) = ((res, None), db') \<and> br_Accepted res = 0 \<and> map rj_Index (br_Rejected res) = [0, 1]"
proof -
  obtain req where req: "json_Unmarshal into_otlpRequest sample_request ([], 0) = Some req" "request_spans req = [([], bad_span), ([], no_otlp_span)]"
    using sample_request by (cases "json_Unmarshal into_otlpRequest sample_request ([], 0)") auto
  obtain res db' where r: "IngestOTLP sample_Log log_kv 0 False None (\<lambda>_. None) (None, None) \<lparr>rd_data = sample_request, rd_fails = False\<rparr>
      (sample_wisp False empty_db) = ((res, None), db')" using sample_ingest by blast
  from otlp_request_accounted [OF r] req sample_mapped show ?thesis using r by auto
qed

end
